(* ===== verification/Prelude.thy ===== *)
theory Prelude imports Main "HOL-Library.Word" begin

text \<open>
  What every component of the model shares: the C types of the code as Isabelle types, the
  C string inside a character array, signed characters, the lemma collections that the
  component theories extend, and generic lemmas on lists and machine integers.

  Conventions.  A C \<open>int\<close> of the protocol (ports, sequence numbers, checksums) is a
  \<open>32 word\<close> read with \<open>sint\<close>; a signed overflow wraps around, as the two's-complement code
  that gcc emits does.  A \<open>char\<close> of text or payload is an Isabelle \<open>char\<close>, read as a number with
  \<open>schar\<close> (\<open>char\<close> is signed on the target).  A pointer to a heap object is \<open>addr option\<close> with
  \<open>None\<close> for \<open>NULL\<close>.
\<close>

section \<open>Types and lemma collections\<close>

text \<open>
  A pure function of the code either returns or runs into undefined behaviour (a NULL pointer
  dereferenced, an access outside an object).  A fresh block from \<open>malloc\<close> is its unspecified
  contents, as a function from offsets to characters.
\<close>

datatype 'a c_result = Undefined | Returns 'a

type_synonym fresh_block = "nat \<Rightarrow> char"

definition block_cells :: "fresh_block \<Rightarrow> nat \<Rightarrow> char list" where
  "block_cells b n = map b [0..<n]"

lemma length_block_cells [simp]: "length (block_cells b n) = n"
  by (simp add: block_cells_def)

type_synonym c_int = "32 word"
type_synonym addr = nat

named_theorems inv_dest \<open>what an invariant says, as destruction rules\<close>
named_theorems frame_simps \<open>fields that an operation leaves alone\<close>
named_theorems env_simps \<open>the operating-system calls of a concrete environment\<close>

abbreviation NUL :: char where "NUL \<equiv> CHR 0x00"

section \<open>C strings in character arrays\<close>

text \<open>The C string held by a character array: everything in front of the first NUL.\<close>

definition cstr :: "char list \<Rightarrow> string" where
  "cstr buf = takeWhile (\<lambda>c. c \<noteq> NUL) buf"

definition terminated :: "char list \<Rightarrow> bool" where
  "terminated buf \<longleftrightarrow> NUL \<in> set buf"

lemma cstr_no_NUL [simp]: "NUL \<notin> set (cstr buf)"
  by (auto simp: cstr_def dest: set_takeWhileD)

lemma cstr_append_NUL [simp]: "NUL \<notin> set s \<Longrightarrow> cstr (s @ NUL # rest) = s"
  by (induction s) (auto simp: cstr_def)

lemma cstr_id [simp]: "NUL \<notin> set s \<Longrightarrow> cstr s = s"
  by (induction s) (auto simp: cstr_def)

lemma cstr_Nil [simp]: "cstr [] = []"
  by (simp add: cstr_def)

lemma cstr_Cons: "cstr (c # cs) = (if c = NUL then [] else c # cstr cs)"
  by (simp add: cstr_def)

lemma length_cstr_le: "length (cstr buf) \<le> length buf"
  by (simp add: cstr_def length_takeWhile_le)

lemma length_cstr_terminated: "terminated buf \<Longrightarrow> length (cstr buf) < length buf"
  by (induction buf) (auto simp: cstr_def terminated_def)

lemma terminated_split:
  assumes "terminated buf"
  obtains rest where "buf = cstr buf @ NUL # rest"
proof -
  have "\<exists>rest. buf = cstr buf @ NUL # rest"
    using assms by (induction buf) (auto simp: cstr_def terminated_def)
  then show thesis using that by blast
qed

lemma cstr_nth [simp]: "i < length (cstr buf) \<Longrightarrow> cstr buf ! i = buf ! i"
  by (simp add: cstr_def takeWhile_nth)

lemma cstr_nth_ne:
  assumes "i < length (cstr buf)"
  shows "buf ! i \<noteq> NUL"
proof -
  have "cstr buf ! i \<in> set (cstr buf)"
    using assms by (rule nth_mem)
  then show ?thesis using assms by auto
qed

lemma terminated_append_NUL [simp, intro]: "terminated (s @ NUL # rest)"
  by (simp add: terminated_def)

section \<open>Signed characters\<close>

definition schar :: "char \<Rightarrow> int" where
  "schar c = (let n = of_char c in if n < 128 then n else n - 256)"

lemma of_char_int_bounds: "0 \<le> (of_char c :: int)" "(of_char c :: int) < 256"
proof -
  have "(of_char c :: int) = int (of_char c)"
    by (simp only: of_nat_of_char)
  moreover have "(of_char c :: nat) < 256"
    by (rule nat_of_char_less_256)
  ultimately show "0 \<le> (of_char c :: int)" and "(of_char c :: int) < 256"
    by linarith+
qed

lemma schar_inject [simp]: "schar c = schar d \<longleftrightarrow> c = d"
  using of_char_int_bounds [of c] of_char_int_bounds [of d]
  by (auto simp: schar_def Let_def split: if_splits)

lemma schar_bounds: "-128 \<le> schar c" "schar c < 128"
  using of_char_int_bounds [of c] by (auto simp: schar_def Let_def)

section \<open>Generic lemmas\<close>

text \<open>The C string is the first \<open>n\<close> characters when these hold no NUL and a NUL follows.\<close>

lemma cstr_eq_take:
  assumes "n < length buf" and "buf ! n = NUL" and "\<forall>k < n. buf ! k \<noteq> NUL"
  shows "cstr buf = take n buf"
  unfolding cstr_def using assms by (intro takeWhile_eq_take_P_nth) auto

lemma cstr_take_no_NUL:
  "n \<le> length (cstr buf) \<Longrightarrow> take n buf = take n (cstr buf)"
  by (metis cstr_def min.absorb1 take_take takeWhile_eq_take)

lemma drop_last_cell: "length xs = Suc n \<Longrightarrow> drop n xs = [xs ! n]"
  using Cons_nth_drop_Suc [of n xs] by simp

lemma find_SomeD:
  assumes "find P xs = Some x"
  shows "x \<in> set xs" and "P x"
  using assms by (auto simp: find_Some_iff)

text \<open>The first index of a list that satisfies a predicate, as the search loops find it.\<close>

lemma find_upt_Some:
  assumes "find P [0..<n] = Some i"
  shows "i < n" and "P i" and "\<forall>j < i. \<not> P j"
  using assms by (auto simp: find_Some_iff)

lemma find_upt_None: "find P [0..<n] = None \<longleftrightarrow> (\<forall>i < n. \<not> P i)"
  by (auto simp: find_None_iff)

text \<open>Counting the entries of a table that satisfy a predicate, under a single update.\<close>

lemma count_filter_update:
  assumes "i < length xs"
  shows "length (filter P (xs[i := y])) + (if P (xs ! i) then 1 else 0)
       = length (filter P xs) + (if P y then 1 else 0)"
  using assms
proof (induction xs arbitrary: i)
  case Nil
  then show ?case by simp
next
  case (Cons x xs)
  then show ?case
    by (cases i) auto
qed

lemma sint_bounds_32: "- 2147483648 \<le> sint (x :: c_int)" "sint (x :: c_int) < 2147483648"
  using sint_range_size [of x] by (auto simp: word_size)

lemma sint_word_of_int_32:
  assumes "- 2147483648 \<le> n" and "n < 2147483648"
  shows "sint (word_of_int n :: c_int) = n"
proof -
  have "(n + 2147483648) mod 4294967296 = n + 2147483648"
    using assms by (simp add: mod_pos_pos_trivial)
  then show ?thesis
    by (simp add: int_word_sint)
qed

end
