(* ===== verification/Functions.thy ===== *)
theory Functions imports Prelude begin

text \<open>
  The hand-written string functions of src/Functions.c, over character arrays.  An array is
  the list of its cells, so that a copy that stops early, pads or truncates shows.  The
  NULL checks of \<open>strcpy_t\<close> are kept: a pointer argument is an option.
\<close>

section \<open>strcpy_t\<close>

definition IP_ADDR_SIZE :: nat where
  "IP_ADDR_SIZE = 17"

text \<open>The first loop: copies until the source ends or 16 characters are written; the result
  is the index at which it stops.\<close>

function strcpy_copy :: "char list \<Rightarrow> char list \<Rightarrow> nat \<Rightarrow> char list \<times> nat" where
  "strcpy_copy dest source i =
     (if source ! i \<noteq> NUL \<and> i < IP_ADDR_SIZE - 1
      then strcpy_copy (dest[i := source ! i]) source (i + 1)
      else (dest, i))"
  by pat_completeness auto
termination
  by (relation "measure (\<lambda>(d, s, i). IP_ADDR_SIZE - i)") auto

declare strcpy_copy.simps [simp del]

text \<open>The second loop: every cell after the NUL is set to 1.\<close>

function strcpy_pad :: "char list \<Rightarrow> nat \<Rightarrow> char list" where
  "strcpy_pad dest i =
     (if i < IP_ADDR_SIZE then strcpy_pad (dest[i := CHR 0x01]) (i + 1) else dest)"
  by pat_completeness auto
termination
  by (relation "measure (\<lambda>(d, i). IP_ADDR_SIZE - i)") auto

declare strcpy_pad.simps [simp del]

definition strcpy_arr :: "char list \<Rightarrow> char list \<Rightarrow> char list" where
  "strcpy_arr dest source =
     (let (dest1, i) = strcpy_copy dest source 0
      in strcpy_pad (dest1[i := NUL]) (i + 1))"

definition strcpy_t :: "char list option \<Rightarrow> char list option \<Rightarrow> char list option" where
  "strcpy_t dest source =
     (case (dest, source) of
        (Some d, Some s) \<Rightarrow> Some (strcpy_arr d s)
      | _ \<Rightarrow> None)"

section \<open>strcmp_t, strlen_t, strcat_t, myMemCpy\<close>

text \<open>The comparison loop; reading past either array is left unspecified.\<close>

fun strcmp_t :: "char list \<Rightarrow> char list \<Rightarrow> int" where
  "strcmp_t (a # as) (b # bs) =
     (if schar a > schar b then 1
      else if schar a < schar b then - 1
      else if a = NUL then 0
      else strcmp_t as bs)"

fun strlen_t :: "char list \<Rightarrow> nat" where
  "strlen_t (c # cs) = (if c \<noteq> NUL then Suc (strlen_t cs) else 0)"

text \<open>The append: the source's characters over the destination's NUL, then a NUL.\<close>

fun strcat_loop :: "char list \<Rightarrow> nat \<Rightarrow> char list \<Rightarrow> char list" where
  "strcat_loop dest p (c # cs) =
     (if c \<noteq> NUL then strcat_loop (dest[p := c]) (p + 1) cs else dest[p := NUL])"

definition strcat_t :: "char list \<Rightarrow> char list \<Rightarrow> char list" where
  "strcat_t destination source = strcat_loop destination (strlen_t destination) source"

fun myMemCpy :: "'a list \<Rightarrow> 'a list \<Rightarrow> nat \<Rightarrow> 'a list" where
  "myMemCpy dest src 0 = dest"
| "myMemCpy dest src (Suc n) = (myMemCpy dest src n)[n := src ! n]"

section \<open>What the functions compute\<close>

text \<open>\<open>strcpy_copy\<close> stops at the source's NUL or at 16, with the characters in front copied.\<close>

lemma strcpy_copy_spec:
  assumes "strcpy_copy dest source i = (d, j)" and "i \<le> 16" and "length dest = 17"
  shows "length d = 17 \<and> i \<le> j \<and> j \<le> 16
    \<and> (\<forall>k < i. d ! k = dest ! k)
    \<and> (\<forall>k. i \<le> k \<and> k < j \<longrightarrow> d ! k = source ! k \<and> source ! k \<noteq> NUL)
    \<and> (j = 16 \<or> source ! j = NUL)"
  using assms
proof (induction dest source i arbitrary: d j rule: strcpy_copy.induct)
  case (1 dest source i)
  show ?case
  proof (cases "source ! i \<noteq> NUL \<and> i < IP_ADDR_SIZE - 1")
    case True
    then have "strcpy_copy (dest[i := source ! i]) source (i + 1) = (d, j)"
      using "1.prems"(1) by (simp add: strcpy_copy.simps [of dest source i])
    from "1.IH" [OF True this] True "1.prems"
    have IH: "length d = 17 \<and> i + 1 \<le> j \<and> j \<le> 16
      \<and> (\<forall>k < i + 1. d ! k = dest[i := source ! i] ! k)
      \<and> (\<forall>k. i + 1 \<le> k \<and> k < j \<longrightarrow> d ! k = source ! k \<and> source ! k \<noteq> NUL)
      \<and> (j = 16 \<or> source ! j = NUL)"
      by (simp add: IP_ADDR_SIZE_def)
    have "d ! k = source ! k \<and> source ! k \<noteq> NUL" if "i \<le> k" "k < j" for k
      using IH True "1.prems"(2,3) that by (cases "k = i") (auto simp: nth_list_update)
    moreover have "d ! k = dest ! k" if "k < i" for k
      using IH that "1.prems" by simp
    ultimately show ?thesis using IH by auto
  next
    case False
    then show ?thesis
      using "1.prems" by (auto simp: strcpy_copy.simps [of dest source i] IP_ADDR_SIZE_def)
  qed
qed

lemma strcpy_pad_spec:
  "length (strcpy_pad dest i) = length dest \<and> (\<forall>k < i. strcpy_pad dest i ! k = dest ! k)"
proof (induction dest i rule: strcpy_pad.induct)
  case (1 dest i)
  then show ?case
    by (cases "i < IP_ADDR_SIZE") (auto simp: strcpy_pad.simps [of dest i])
qed

lemma strcpy_arr_spec:
  assumes "length dest = 17" and "terminated source \<or> 16 < length source"
  shows "length (strcpy_arr dest source) = 17"
    and "terminated (strcpy_arr dest source)"
    and "cstr (strcpy_arr dest source) = take 16 (cstr source)"
proof -
  obtain d j where dj: "strcpy_copy dest source 0 = (d, j)"
    by fastforce
  let ?r = "strcpy_pad (d[j := NUL]) (j + 1)"
  have r: "strcpy_arr dest source = ?r"
    by (simp add: strcpy_arr_def dj)
  have d: "length d = 17" "j \<le> 16" "\<forall>k < j. d ! k = source ! k \<and> source ! k \<noteq> NUL"
    "j = 16 \<or> source ! j = NUL"
    using strcpy_copy_spec [OF dj] assms by auto
  have len: "length ?r = 17" and nth: "\<forall>k \<le> j. ?r ! k = d[j := NUL] ! k"
    using strcpy_pad_spec [of "d[j := NUL]" "j + 1"] d(1) by auto
  have j: "?r ! j = NUL" using nth d by simp
  have front: "\<forall>k < j. ?r ! k = source ! k \<and> source ! k \<noteq> NUL" using nth d by auto
  have cr: "cstr ?r = take j ?r"
    using len d j front by (intro cstr_eq_take) auto
  have src: "j < length source \<or> j = length source \<and> False"
  proof (rule ccontr)
    assume "\<not> (j < length source \<or> j = length source \<and> False)"
    then have le: "length source \<le> j" by simp
    with assms(2) d(2) have "terminated source" by auto
    then obtain k where "k < length source" "source ! k = NUL"
      by (auto simp: terminated_def in_set_conv_nth)
    with d(3) le show False by auto
  qed
  have "take j ?r = take j source"
    using src front len d(2) by (intro nth_equalityI) auto
  moreover have "take j source = take 16 (cstr source)"
  proof (cases "source ! j = NUL")
    case True
    then have "cstr source = take j source" using src d(3) by (intro cstr_eq_take) auto
    then show ?thesis using d(2) by simp
  next
    case False
    then have "j = 16" using d(4) by simp
    moreover have "16 \<le> length (cstr source)"
    proof (rule ccontr)
      assume "\<not> 16 \<le> length (cstr source)"
      then have lt: "length (cstr source) < j" using \<open>j = 16\<close> by simp
      then have "source ! length (cstr source) = NUL"
        using src nth_length_takeWhile [of "\<lambda>c. c \<noteq> NUL" source] by (simp add: cstr_def)
      then show False using d(3) lt by blast
    qed
    ultimately show ?thesis using cstr_take_no_NUL by blast
  qed
  ultimately show "cstr (strcpy_arr dest source) = take 16 (cstr source)"
    using cr r by simp
  show "length (strcpy_arr dest source) = 17" using len r by simp
  have "?r ! j \<in> set ?r" using len d(2) by (intro nth_mem) simp
  then show "terminated (strcpy_arr dest source)"
    using j r by (simp add: terminated_def)
qed

lemma strcmp_t_eq_0:
  assumes "terminated a" and "terminated b"
  shows "strcmp_t a b = 0 \<longleftrightarrow> cstr a = cstr b"
  using assms
proof (induction a b rule: strcmp_t.induct)
  case (1 a as b bs)
  then show ?case
    by (auto simp: cstr_Cons terminated_def)
qed (auto simp: terminated_def)

lemma strlen_t_eq: "terminated s \<Longrightarrow> strlen_t s = length (cstr s)"
  by (induction s rule: strlen_t.induct) (auto simp: cstr_Cons terminated_def)

lemma myMemCpy_eq:
  "n \<le> length dest \<Longrightarrow> n \<le> length src \<Longrightarrow> myMemCpy dest src n = take n src @ drop n dest"
proof (induction n)
  case (Suc n)
  then show ?case
    by (simp add: list_update_append take_Suc_conv_app_nth flip: Cons_nth_drop_Suc)
qed simp

section \<open>Properties\<close>

text \<open>
  \<open>strcpy_t\<close> into an address array of seventeen cells: whatever the source holds, the
  array keeps its size, is terminated, and holds the first sixteen characters of the source string.
\<close>

lemma strcpy_t_truncates:
  assumes "length d = 17" and "terminated s \<or> 16 < length s"
  shows "\<exists>r. strcpy_t (Some d) (Some s) = Some r
    \<and> length r = 17 \<and> terminated r \<and> cstr r = take 16 (cstr s)"
  using strcpy_arr_spec [OF assms] by (simp add: strcpy_t_def)

lemma strcpy_t_truncates_witness:
  "\<exists>r. strcpy_t (Some (replicate 17 (CHR ''x''))) (Some (''10.0.0.1'' @ [NUL])) = Some r
    \<and> length r = 17 \<and> terminated r \<and> cstr r = take 16 (cstr (''10.0.0.1'' @ [NUL]))"
  by (rule strcpy_t_truncates) (simp_all add: terminated_def)

end
