(* ===== verification/Contracts.thy ===== *)
theory Contracts imports Prelude begin

text \<open>
  Contracts that several components share, as locales: an implementation that refines a specification
  request by request, a transition system with an invariant, and a printer with its parser.  The
  components interpret them on their own definitions.
\<close>

section \<open>Refinement of requests\<close>

text \<open>The run of a list of requests against any implementation.\<close>

fun run_ops :: "('q \<Rightarrow> 'o \<Rightarrow> 'r \<times> 'q) \<Rightarrow> 'q \<Rightarrow> 'o list \<Rightarrow> 'r list \<times> 'q" where
  "run_ops step q [] = ([], q)"
| "run_ops step q (x # xs) =
     (let (r, q1) = step q x; (rs, q2) = run_ops step q1 xs in (r # rs, q2))"

locale data_refinement =
  fixes inv :: "'s \<Rightarrow> bool"
    and ok :: "'o \<Rightarrow> bool"
    and abs :: "'s \<Rightarrow> 'a"
    and impl :: "'s \<Rightarrow> 'o \<Rightarrow> 'r \<times> 's"
    and spec :: "'a \<Rightarrow> 'o \<Rightarrow> 'r \<times> 'a"
  assumes simulates: "inv s \<Longrightarrow> ok op \<Longrightarrow>
      \<exists>r s'. impl s op = (r, s') \<and> inv s' \<and> spec (abs s) op = (r, abs s')"
begin

lemma run_refines:
  assumes "inv s" and "\<forall>op \<in> set ops. ok op"
  shows "\<exists>rs s'. run_ops impl s ops = (rs, s') \<and> inv s' \<and> run_ops spec (abs s) ops = (rs, abs s')"
  using assms
proof (induction ops arbitrary: s)
  case (Cons op ops)
  then obtain r s1 where 1: "impl s op = (r, s1)" "inv s1" "spec (abs s) op = (r, abs s1)"
    using simulates [of s op] by auto
  with Cons.IH [OF 1(2)] Cons.prems(2) show ?case by fastforce
qed simp

end

section \<open>Transition systems with an invariant\<close>

text \<open>
  A system whose steps keep the invariant, except that some of them may break it.  Whatever is reached then
  is in order, or lies behind a first step that broke it.
\<close>

locale breakable_system =
  fixes step :: "'s \<Rightarrow> 's \<Rightarrow> bool"
    and inv :: "'s \<Rightarrow> bool"
    and moves :: "'s \<Rightarrow> 's \<Rightarrow> bool"
    and breaks :: "'s \<Rightarrow> 's \<Rightarrow> bool"
  assumes step_inv: "inv s \<Longrightarrow> step s t \<Longrightarrow> inv t \<or> breaks s t"
    and step_moves: "inv s \<Longrightarrow> step s t \<Longrightarrow> moves s t"
begin

lemma first_break:
  "step\<^sup>*\<^sup>* s t \<Longrightarrow> inv s \<Longrightarrow> inv t \<or> (\<exists>u v. step\<^sup>*\<^sup>* s u \<and> inv u \<and> breaks u v \<and> \<not> inv v \<and> step\<^sup>*\<^sup>* v t)"
proof (induction rule: rtranclp_induct)
  case (step t t')
  show ?case
  proof (cases "inv t")
    case True
    then show ?thesis using step_inv [OF True step.hyps(2)] step.hyps(1) by blast
  next
    case False
    then show ?thesis using step.IH [OF step.prems] step.hyps(2) by (meson rtranclp.rtrancl_into_rtrancl)
  qed
qed simp

end

text \<open>Without steps that break it, the invariant holds throughout.\<close>

locale invariant_system =
  fixes step :: "'s \<Rightarrow> 's \<Rightarrow> bool"
    and inv :: "'s \<Rightarrow> bool"
    and moves :: "'s \<Rightarrow> 's \<Rightarrow> bool"
  assumes step_inv: "inv s \<Longrightarrow> step s t \<Longrightarrow> inv t"
    and step_moves: "inv s \<Longrightarrow> step s t \<Longrightarrow> moves s t"

sublocale invariant_system \<subseteq> steady: breakable_system step inv moves "\<lambda>_ _. False"
  by unfold_locales (simp_all add: step_inv step_moves)

context invariant_system begin

lemma steps_inv: "step\<^sup>*\<^sup>* s t \<Longrightarrow> inv s \<Longrightarrow> inv t"
  using steady.first_break by blast

lemma steps_move: "step\<^sup>*\<^sup>* s t \<Longrightarrow> inv s \<Longrightarrow> moves\<^sup>*\<^sup>* s t"
proof (induction rule: rtranclp_induct)
  case (step t u)
  then show ?case using step_moves [OF steps_inv [OF step.hyps(1)]] by (meson rtranclp.rtrancl_into_rtrancl)
qed simp

end

section \<open>Programs that run in steps\<close>

text \<open>
  A run of steps, or a run of steps up to one that breaks the invariant and from there on a run of the operations
  of the program, of which the steps are those on states in order.
\<close>

definition leads_to ::
  "('s \<Rightarrow> 's \<Rightarrow> bool) \<Rightarrow> ('s \<Rightarrow> bool) \<Rightarrow> ('s \<Rightarrow> 's \<Rightarrow> bool) \<Rightarrow> ('s \<Rightarrow> 's \<Rightarrow> bool) \<Rightarrow> 's \<Rightarrow> 's \<Rightarrow> bool" where
  "leads_to step good breaks op s t \<longleftrightarrow>
     step\<^sup>*\<^sup>* s t \<or> (\<exists>u v. step\<^sup>*\<^sup>* s u \<and> good u \<and> breaks u v \<and> \<not> good v \<and> op\<^sup>*\<^sup>* v t)"

locale program_system = breakable_system step inv moves breaks
  for step :: "'s \<Rightarrow> 's \<Rightarrow> bool" and inv :: "'s \<Rightarrow> bool" and moves :: "'s \<Rightarrow> 's \<Rightarrow> bool"
    and breaks :: "'s \<Rightarrow> 's \<Rightarrow> bool" +
  fixes op :: "'s \<Rightarrow> 's \<Rightarrow> bool"
  assumes step_op: "step s t \<Longrightarrow> op s t"
begin

lemma steps_ops: "step\<^sup>*\<^sup>* s t \<Longrightarrow> op\<^sup>*\<^sup>* s t"
  by (induction rule: rtranclp_induct) (auto dest: step_op intro: rtranclp.rtrancl_into_rtrancl)

lemma leads_steps: "step\<^sup>*\<^sup>* s t \<Longrightarrow> leads_to step inv breaks op s t"
  by (simp add: leads_to_def)

text \<open>The next part of a run is a run of operations in any case, and of steps when it starts in order.\<close>

lemma leads_then:
  assumes "inv s" and "leads_to step inv breaks op s t" and "inv t \<Longrightarrow> leads_to step inv breaks op t u" and "op\<^sup>*\<^sup>* t u"
  shows "leads_to step inv breaks op s u"
proof (cases "step\<^sup>*\<^sup>* s t")
  case True
  show ?thesis
  proof (cases "inv t")
    case True
    then show ?thesis using \<open>step\<^sup>*\<^sup>* s t\<close> assms(3) unfolding leads_to_def by (meson rtranclp_trans)
  next
    case False
    then obtain x y where xy: "step\<^sup>*\<^sup>* s x" "inv x" "breaks x y" "\<not> inv y" "step\<^sup>*\<^sup>* y t"
      using first_break [OF True assms(1)] by blast
    have "op\<^sup>*\<^sup>* y u" by (rule rtranclp_trans [OF steps_ops [OF xy(5)] assms(4)])
    then show ?thesis using xy(1-4) unfolding leads_to_def by blast
  qed
next
  case False
  then obtain x y where xy: "step\<^sup>*\<^sup>* s x" "inv x" "breaks x y" "\<not> inv y" "op\<^sup>*\<^sup>* y t"
    using assms(2) unfolding leads_to_def by blast
  have "op\<^sup>*\<^sup>* y u" by (rule rtranclp_trans [OF xy(5) assms(4)])
  then show ?thesis using xy(1-4) unfolding leads_to_def by blast
qed

end

section \<open>Printers and parsers\<close>

locale codec =
  fixes ok :: "'a \<Rightarrow> bool"
    and print :: "'a \<Rightarrow> string"
    and parse :: "string \<Rightarrow> 'a option"
  assumes parse_print: "ok x \<Longrightarrow> parse (print x) = Some x"
begin

lemma print_inject: "ok x \<Longrightarrow> ok y \<Longrightarrow> print x = print y \<longleftrightarrow> x = y"
  by (metis parse_print option.inject)

end

text \<open>Texts joined by a separator that the first parts do not hold are joined in one way only.\<close>

lemma join_inject:
  assumes "c \<notin> set x" and "c \<notin> set y"
  shows "x @ c # u = y @ c # v \<longleftrightarrow> x = y \<and> u = v"
proof -
  have "takeWhile (\<lambda>a. a \<noteq> c) (z @ c # t) = z \<and> dropWhile (\<lambda>a. a \<noteq> c) (z @ c # t) = c # t" if "c \<notin> set z" for z t
    using that by (induction z) auto
  then show ?thesis using assms by (metis list.inject)
qed

end
