(* ===== verification/Array_Queue.thy ===== *)
theory Array_Queue imports Contracts begin

text \<open>
  The bounded byte queue of src/array_queue.c (the send window of a socket): a ring buffer of
  8192 cells with the indices of its first and last element, an element count and an iterator.
  A \<open>Queue\<close> pointer is a \<open>queue option\<close>; the functions that check for \<open>NULL\<close> take the option,
  \<open>dequeue\<close> dereferences its argument and takes the record.  The theory ends with the contract
  of a bounded first-in-first-out buffer, its refinement by the ring buffer, and the iteration
  macro \<open>QUEUE_FOR_EACH\<close>.
\<close>

section \<open>State and operations\<close>

definition DEFAULT_QUEUE_CAPACITY :: nat where
  "DEFAULT_QUEUE_CAPACITY = 8192"

definition QUEUE_EMPTY_ELEMENT :: char where
  "QUEUE_EMPTY_ELEMENT = NUL"

record queue =
  q_head :: int
  q_tail :: int
  q_size :: int
  q_array :: "char list"
  q_iterator :: int
  q_index_choosen :: int

text \<open>\<open>QueueCreate\<close>; the argument is the outcome of its \<open>xmalloc\<close>.\<close>

definition QueueCreate :: "bool \<Rightarrow> queue option" where
  "QueueCreate allocated =
     (if allocated then
        Some \<lparr>q_head = 0, q_tail = int DEFAULT_QUEUE_CAPACITY - 1, q_size = 0,
              q_array = replicate DEFAULT_QUEUE_CAPACITY QUEUE_EMPTY_ELEMENT,
              q_iterator = 0, q_index_choosen = - 1\<rparr>
      else None)"

definition QueueSize :: "queue option \<Rightarrow> int" where
  "QueueSize q = (case q of None \<Rightarrow> - 1 | Some q \<Rightarrow> q_size q)"

definition QueueCapacity :: "queue option \<Rightarrow> int" where
  "QueueCapacity q = (case q of None \<Rightarrow> - 1 | Some _ \<Rightarrow> int DEFAULT_QUEUE_CAPACITY)"

definition QueueIsFull :: "queue option \<Rightarrow> bool" where
  "QueueIsFull q = (case q of None \<Rightarrow> False | Some _ \<Rightarrow> QueueSize q = QueueCapacity q)"

definition QueueIsEmpty :: "queue option \<Rightarrow> bool" where
  "QueueIsEmpty q = (case q of None \<Rightarrow> False | Some _ \<Rightarrow> QueueSize q = 0)"

definition enqueue :: "queue option \<Rightarrow> char \<Rightarrow> bool \<times> queue option" where
  "enqueue q element =
     (case q of
        None \<Rightarrow> (False, None)
      | Some r \<Rightarrow>
          if QueueIsFull (Some r) then (False, Some r)
          else let t = q_tail r + 1;
                   t' = (if t \<ge> QueueCapacity (Some r) then t - QueueCapacity (Some r) else t)
               in (True, Some (r\<lparr>q_tail := t',
                                 q_array := (q_array r)[nat t' := element],
                                 q_size := q_size r + 1\<rparr>)))"

definition dequeue :: "queue \<Rightarrow> char \<times> queue" where
  "dequeue q =
     (if QueueIsEmpty (Some q) then (QUEUE_EMPTY_ELEMENT, q)
      else let element = q_array q ! nat (q_head q);
               h = q_head q + 1;
               h' = (if h \<ge> QueueCapacity (Some q) then h - QueueCapacity (Some q) else h)
           in (element, q\<lparr>q_array := (q_array q)[nat (q_head q) := QUEUE_EMPTY_ELEMENT],
                          q_head := h', q_size := q_size q - 1\<rparr>))"

definition QueueGetFirst :: "queue option \<Rightarrow> char \<times> queue option" where
  "QueueGetFirst q =
     (case q of
        None \<Rightarrow> (QUEUE_EMPTY_ELEMENT, None)
      | Some r \<Rightarrow>
          if QueueIsEmpty (Some r) then (QUEUE_EMPTY_ELEMENT, Some r)
          else (q_array r ! nat (q_head r), Some (r\<lparr>q_iterator := 0\<rparr>)))"

definition QueueGetNext :: "queue option \<Rightarrow> char \<times> queue option" where
  "QueueGetNext q =
     (case q of
        None \<Rightarrow> (QUEUE_EMPTY_ELEMENT, None)
      | Some r \<Rightarrow>
          if q_iterator r + 1 \<ge> q_size r then (QUEUE_EMPTY_ELEMENT, Some r)
          else let it = q_iterator r + 1;
                   index = q_head r + it;
                   index' = (if index \<ge> QueueCapacity (Some r)
                             then index - QueueCapacity (Some r) else index)
               in (q_array r ! nat index', Some (r\<lparr>q_iterator := it\<rparr>)))"

text \<open>
  The loop \<open>QUEUE_FOR_EACH(item, queue) body\<close>: from a given item on, the body maps an
  accumulator to the next one and a flag that says whether it breaks out.
\<close>

function for_each_from ::
  "('a \<Rightarrow> char \<Rightarrow> 'a \<times> bool) \<Rightarrow> char \<Rightarrow> 'a \<Rightarrow> queue option \<Rightarrow> 'a \<times> queue option" where
  "for_each_from body item acc q =
     (if item = QUEUE_EMPTY_ELEMENT then (acc, q)
      else let (acc', break) = body acc item in
           if break then (acc', q)
           else let (item', q') = QueueGetNext q in for_each_from body item' acc' q')"
  by pat_completeness auto
termination
  by (relation "measure (\<lambda>(body, item, acc, q). if item = QUEUE_EMPTY_ELEMENT then 0
        else case q of None \<Rightarrow> 1 | Some r \<Rightarrow> Suc (nat (q_size r - q_iterator r)))")
     (auto simp: QueueGetNext_def Let_def split: option.splits if_splits)

declare for_each_from.simps [simp del]

definition QUEUE_FOR_EACH ::
  "('a \<Rightarrow> char \<Rightarrow> 'a \<times> bool) \<Rightarrow> 'a \<Rightarrow> queue option \<Rightarrow> 'a \<times> queue option" where
  "QUEUE_FOR_EACH body acc q =
     (let (item, q') = QueueGetFirst q in for_each_from body item acc q')"

text \<open>\<open>QueueCopy\<close>: the copy, and the source with its iterator moved.\<close>

definition QueueCopy :: "bool \<Rightarrow> queue option \<Rightarrow> queue option \<times> queue option" where
  "QueueCopy allocated q =
     (case QueueCreate allocated of
        None \<Rightarrow> (None, q)
      | Some copied \<Rightarrow>
          QUEUE_FOR_EACH (\<lambda>c item. (snd (enqueue c item), False)) (Some copied) q)"

section \<open>Representation invariant and abstraction\<close>

text \<open>
  The queue holds, front first, the \<open>q_size\<close> cells from \<open>q_head\<close> on, around the ring.
\<close>

definition ring_index :: "queue \<Rightarrow> nat \<Rightarrow> nat" where
  "ring_index q i = (nat (q_head q) + i) mod DEFAULT_QUEUE_CAPACITY"

definition queue_list :: "queue \<Rightarrow> char list" where
  "queue_list q = map (\<lambda>i. q_array q ! ring_index q i) [0..<nat (q_size q)]"

definition queue_inv :: "queue \<Rightarrow> bool" where
  "queue_inv q \<longleftrightarrow>
     length (q_array q) = DEFAULT_QUEUE_CAPACITY
   \<and> 0 \<le> q_head q \<and> q_head q < int DEFAULT_QUEUE_CAPACITY
   \<and> 0 \<le> q_tail q \<and> q_tail q < int DEFAULT_QUEUE_CAPACITY
   \<and> 0 \<le> q_size q \<and> q_size q \<le> int DEFAULT_QUEUE_CAPACITY
   \<and> (q_tail q + 1) mod int DEFAULT_QUEUE_CAPACITY
       = (q_head q + q_size q) mod int DEFAULT_QUEUE_CAPACITY"

lemma capacity_pos [simp]: "0 < DEFAULT_QUEUE_CAPACITY"
  by (simp add: DEFAULT_QUEUE_CAPACITY_def)

lemma QueueSize_Some [simp]: "QueueSize (Some q) = q_size q"
  by (simp add: QueueSize_def)

lemma QueueCapacity_Some [simp]: "QueueCapacity (Some q) = int DEFAULT_QUEUE_CAPACITY"
  by (simp add: QueueCapacity_def)

lemma QueueIsFull_Some [simp]: "QueueIsFull (Some q) \<longleftrightarrow> q_size q = int DEFAULT_QUEUE_CAPACITY"
  by (simp add: QueueIsFull_def)

lemma QueueIsEmpty_Some [simp]: "QueueIsEmpty (Some q) \<longleftrightarrow> q_size q = 0"
  by (simp add: QueueIsEmpty_def)

lemma length_queue_list [simp]: "length (queue_list q) = nat (q_size q)"
  by (simp add: queue_list_def)

lemma queue_list_nth: "i < nat (q_size q) \<Longrightarrow> queue_list q ! i = q_array q ! ring_index q i"
  by (simp add: queue_list_def)

lemma queue_invD [inv_dest]:
  assumes "queue_inv q"
  shows "length (q_array q) = DEFAULT_QUEUE_CAPACITY"
    and "0 \<le> q_head q" and "q_head q < int DEFAULT_QUEUE_CAPACITY"
    and "0 \<le> q_tail q" and "q_tail q < int DEFAULT_QUEUE_CAPACITY"
    and "0 \<le> q_size q" and "q_size q \<le> int DEFAULT_QUEUE_CAPACITY"
    and "(q_tail q + 1) mod int DEFAULT_QUEUE_CAPACITY
       = (q_head q + q_size q) mod int DEFAULT_QUEUE_CAPACITY"
  using assms by (auto simp: queue_inv_def)

text \<open>An index that has run past the end once is brought back by one subtraction.\<close>

lemma wrap_once:
  fixes i n :: int
  assumes "0 \<le> i" and "i < 2 * n"
  shows "(if i \<ge> n then i - n else i) = i mod n"
proof (cases "i < n")
  case False
  then have "(i - n) mod n = i - n" using assms by (intro mod_pos_pos_trivial) auto
  then show ?thesis using False by (simp add: mod_diff_right_eq)
qed (use assms in simp)

lemma ring_index_less: "ring_index q i < DEFAULT_QUEUE_CAPACITY"
  by (simp add: ring_index_def)

lemma ring_index_inj:
  assumes "i < DEFAULT_QUEUE_CAPACITY" and "j < DEFAULT_QUEUE_CAPACITY"
    and "ring_index q i = ring_index q j"
  shows "i = j"
proof -
  have "int (nat (q_head q) + i) mod int DEFAULT_QUEUE_CAPACITY
      = int (nat (q_head q) + j) mod int DEFAULT_QUEUE_CAPACITY"
    using arg_cong [OF assms(3), of int] by (simp only: ring_index_def zmod_int)
  then have "int DEFAULT_QUEUE_CAPACITY dvd int i - int j"
    by (simp add: mod_eq_dvd_iff)
  moreover have "\<bar>int i - int j\<bar> < int DEFAULT_QUEUE_CAPACITY"
    using assms(1,2) by auto
  ultimately have "int i - int j = 0"
    using dvd_imp_le_int [of "int i - int j" "int DEFAULT_QUEUE_CAPACITY"] by auto
  then show ?thesis by simp
qed

section \<open>The operations refine the operations of a list\<close>

lemma QueueCreate_empty:
  assumes "QueueCreate True = Some q"
  shows "queue_inv q" and "queue_list q = []"
  using assms by (auto simp: QueueCreate_def queue_inv_def queue_list_def)

lemma enqueue_full:
  "queue_inv q \<Longrightarrow> length (queue_list q) = DEFAULT_QUEUE_CAPACITY \<Longrightarrow>
   enqueue (Some q) c = (False, Some q)"
  by (auto simp: enqueue_def dest!: inv_dest(6))

text \<open>The cell that \<open>enqueue\<close> writes is the first one behind the elements.\<close>

lemma next_tail:
  assumes "queue_inv q"
  shows "(if q_tail q + 1 \<ge> int DEFAULT_QUEUE_CAPACITY
          then q_tail q + 1 - int DEFAULT_QUEUE_CAPACITY else q_tail q + 1)
       = int (ring_index q (nat (q_size q)))"
proof -
  note inv = queue_invD [OF assms]
  have "(if q_tail q + 1 \<ge> int DEFAULT_QUEUE_CAPACITY
          then q_tail q + 1 - int DEFAULT_QUEUE_CAPACITY else q_tail q + 1)
       = (q_head q + q_size q) mod int DEFAULT_QUEUE_CAPACITY"
    using inv by (subst wrap_once) (auto simp: wrap_once)
  then show ?thesis
    using inv by (simp add: ring_index_def zmod_int)
qed

lemma enqueue_room:
  assumes inv: "queue_inv q" and room: "length (queue_list q) < DEFAULT_QUEUE_CAPACITY"
  shows "\<exists>q'. enqueue (Some q) c = (True, Some q') \<and> queue_inv q'
           \<and> queue_list q' = queue_list q @ [c]"
proof -
  note D = queue_invD [OF inv]
  let ?n = "nat (q_size q)"
  let ?t = "ring_index q ?n"
  define q' where "q' = q\<lparr>q_tail := int ?t, q_array := (q_array q)[?t := c], q_size := q_size q + 1\<rparr>"
  have small: "?n < DEFAULT_QUEUE_CAPACITY" using room by simp
  have "enqueue (Some q) c = (True, Some q')"
    using small D(6) by (simp add: enqueue_def q'_def Let_def next_tail [OF inv] cong: if_cong)
  moreover have "queue_inv q'"
  proof -
    have "(int ?t + 1) mod int DEFAULT_QUEUE_CAPACITY
        = (q_head q + (q_size q + 1)) mod int DEFAULT_QUEUE_CAPACITY"
      using D(2,6) by (simp add: ring_index_def zmod_int mod_add_left_eq add.assoc)
    then show ?thesis
      using D small by (simp add: queue_inv_def q'_def ring_index_less)
  qed
  moreover have "queue_list q' = queue_list q @ [c]"
  proof (rule nth_equalityI)
    show "length (queue_list q') = length (queue_list q @ [c])"
      using D(6) by (simp add: q'_def nat_add_distrib)
  next
    fix i assume "i < length (queue_list q')"
    then have i: "i < Suc ?n" using D(6) by (simp add: q'_def nat_add_distrib)
    have same: "ring_index q' i = ring_index q i" by (simp add: ring_index_def q'_def)
    show "queue_list q' ! i = (queue_list q @ [c]) ! i"
    proof (cases "i = ?n")
      case True
      then show ?thesis
        using D(1,6) same ring_index_less by (simp add: queue_list_def q'_def nat_add_distrib nth_append)
    next
      case False
      with i have lt: "i < ?n" by simp
      have "ring_index q i \<noteq> ?t"
        using ring_index_inj [of i ?n q] lt small by auto
      then show ?thesis
        using lt same D(6) by (simp add: queue_list_def q'_def nat_add_distrib nth_append)
    qed
  qed
  ultimately show ?thesis by blast
qed

lemma dequeue_empty:
  "queue_inv q \<Longrightarrow> queue_list q = [] \<Longrightarrow> dequeue q = (QUEUE_EMPTY_ELEMENT, q)"
  by (auto simp: dequeue_def queue_list_def dest!: inv_dest(6))

lemma dequeue_nonempty:
  assumes inv: "queue_inv q" and ne: "queue_list q = x # xs"
  shows "\<exists>q'. dequeue q = (x, q') \<and> queue_inv q' \<and> queue_list q' = xs"
proof -
  note D = queue_invD [OF inv]
  let ?n = "nat (q_size q)"
  let ?h = "ring_index q 1"
  have n: "?n = Suc (length xs)"
    using ne length_queue_list [of q] by simp
  then have sz: "q_size q \<noteq> 0" by auto
  have h0: "nat (q_head q) = ring_index q 0"
    using D(2,3) by (simp add: ring_index_def)
  have head: "(if q_head q + 1 \<ge> int DEFAULT_QUEUE_CAPACITY
        then q_head q + 1 - int DEFAULT_QUEUE_CAPACITY else q_head q + 1) = int ?h"
    using D(2,3) by (subst wrap_once) (auto simp: ring_index_def zmod_int add.commute)
  define q' where "q' = q\<lparr>q_array := (q_array q)[nat (q_head q) := QUEUE_EMPTY_ELEMENT],
                          q_head := int ?h, q_size := q_size q - 1\<rparr>"
  have x: "x = q_array q ! nat (q_head q)"
    using queue_list_nth [of 0 q] n ne h0 by simp
  have "dequeue q = (x, q')"
    using n head x sz by (simp add: dequeue_def q'_def Let_def cong: if_cong)
  moreover have "queue_inv q'"
  proof -
    have "(int ?h + (q_size q - 1)) mod int DEFAULT_QUEUE_CAPACITY
        = (q_head q + q_size q) mod int DEFAULT_QUEUE_CAPACITY"
      using D(2) by (simp add: ring_index_def zmod_int mod_add_left_eq)
    then show ?thesis
      using D n by (simp add: queue_inv_def q'_def ring_index_less)
  qed
  moreover have "queue_list q' = xs"
  proof (rule nth_equalityI)
    show "length (queue_list q') = length xs"
      using n by (simp add: q'_def)
  next
    fix i assume i0: "i < length (queue_list q')"
    then have i: "Suc i < ?n" using n by (simp add: q'_def)
    have step: "ring_index q' i = ring_index q (Suc i)"
      by (simp add: ring_index_def q'_def mod_add_left_eq)
    have "ring_index q (Suc i) \<noteq> nat (q_head q)"
    proof -
      have "Suc i < DEFAULT_QUEUE_CAPACITY" using i D(7) by linarith
      then show ?thesis using ring_index_inj [of "Suc i" 0 q] h0 by auto
    qed
    then have "queue_list q' ! i = queue_list q ! Suc i"
      using i0 i step queue_list_nth [of i q'] queue_list_nth [of "Suc i" q] by (simp add: q'_def)
    then show "queue_list q' ! i = xs ! i"
      using ne by simp
  qed
  ultimately show ?thesis by blast
qed

section \<open>The contract of a bounded first-in-first-out buffer\<close>

text \<open>
  Requests and answers of such a buffer, and the buffer that keeps a list.
\<close>

datatype 'a fifo_op = Enq 'a | Deq

datatype 'a fifo_answer = Accepted bool | Taken 'a

fun fifo_spec :: "nat \<Rightarrow> 'a \<Rightarrow> 'a list \<Rightarrow> 'a fifo_op \<Rightarrow> 'a fifo_answer \<times> 'a list" where
  "fifo_spec cap dflt xs (Enq x) =
     (if length xs < cap then (Accepted True, xs @ [x]) else (Accepted False, xs))"
| "fifo_spec cap dflt [] Deq = (Taken dflt, [])"
| "fifo_spec cap dflt (x # xs) Deq = (Taken x, xs)"

fun fifo_impl :: "('q \<Rightarrow> 'a \<Rightarrow> bool \<times> 'q) \<Rightarrow> ('q \<Rightarrow> 'a \<times> 'q) \<Rightarrow> 'q \<Rightarrow> 'a fifo_op
    \<Rightarrow> 'a fifo_answer \<times> 'q" where
  "fifo_impl enq deq q (Enq x) = (let (b, q') = enq q x in (Accepted b, q'))"
| "fifo_impl enq deq q Deq = (let (x, q') = deq q in (Taken x, q'))"

locale bounded_fifo =
  fixes inv :: "'q \<Rightarrow> bool"
    and contents :: "'q \<Rightarrow> 'a list"
    and cap :: nat
    and dflt :: 'a
    and enq :: "'q \<Rightarrow> 'a \<Rightarrow> bool \<times> 'q"
    and deq :: "'q \<Rightarrow> 'a \<times> 'q"
  assumes bounded: "inv q \<Longrightarrow> length (contents q) \<le> cap"
    and enq_room: "inv q \<Longrightarrow> length (contents q) < cap \<Longrightarrow>
      \<exists>q'. enq q x = (True, q') \<and> inv q' \<and> contents q' = contents q @ [x]"
    and enq_full: "inv q \<Longrightarrow> length (contents q) = cap \<Longrightarrow> enq q x = (False, q)"
    and deq_some: "inv q \<Longrightarrow> contents q = x # xs \<Longrightarrow>
      \<exists>q'. deq q = (x, q') \<and> inv q' \<and> contents q' = xs"
    and deq_none: "inv q \<Longrightarrow> contents q = [] \<Longrightarrow> deq q = (dflt, q)"
begin

lemma step_refines:
  assumes "inv q"
  shows "\<exists>r q'. fifo_impl enq deq q op = (r, q') \<and> inv q'
    \<and> fifo_spec cap dflt (contents q) op = (r, contents q')"
proof (cases op)
  case (Enq x)
  show ?thesis
  proof (cases "length (contents q) < cap")
    case True
    with enq_room [OF assms, of x] show ?thesis by (auto simp: Enq)
  next
    case False
    then have "length (contents q) = cap" using bounded [OF assms] by simp
    with enq_full [OF assms, of x] assms show ?thesis by (simp add: Enq)
  qed
next
  case Deq
  show ?thesis
  proof (cases "contents q")
    case Nil
    with deq_none [OF assms] assms show ?thesis by (simp add: Deq)
  next
    case (Cons x xs)
    with deq_some [OF assms] show ?thesis by (fastforce simp: Deq)
  qed
qed

end

sublocale bounded_fifo \<subseteq> requests: data_refinement inv "\<lambda>_. True" contents "fifo_impl enq deq" "fifo_spec cap dflt"
  by unfold_locales (rule step_refines)

definition enqueue_on :: "queue \<Rightarrow> char \<Rightarrow> bool \<times> queue" where
  "enqueue_on q c = (let (b, q') = enqueue (Some q) c in (b, the q'))"

interpretation aq: bounded_fifo queue_inv queue_list DEFAULT_QUEUE_CAPACITY QUEUE_EMPTY_ELEMENT
  enqueue_on dequeue
proof unfold_locales
  fix q x
  assume "queue_inv q" and "length (queue_list q) < DEFAULT_QUEUE_CAPACITY"
  then show "\<exists>q'. enqueue_on q x = (True, q') \<and> queue_inv q' \<and> queue_list q' = queue_list q @ [x]"
    using enqueue_room [of q x] by (auto simp: enqueue_on_def)
qed (auto simp: enqueue_on_def enqueue_full dequeue_nonempty dequeue_empty
       dest!: queue_invD(7))

section \<open>Iteration\<close>

text \<open>The loop over a list of items that the macro amounts to: it ends at the first NUL.\<close>

fun for_each_list :: "('a \<Rightarrow> char \<Rightarrow> 'a \<times> bool) \<Rightarrow> char list \<Rightarrow> 'a \<Rightarrow> 'a" where
  "for_each_list body [] acc = acc"
| "for_each_list body (c # cs) acc =
     (if c = QUEUE_EMPTY_ELEMENT then acc
      else let (acc', break) = body acc c in
           if break then acc' else for_each_list body cs acc')"

lemma QueueGetNext_some:
  assumes inv: "queue_inv q" and it: "q_iterator q = int i" and lt: "Suc i < nat (q_size q)"
  shows "QueueGetNext (Some q) = (queue_list q ! Suc i, Some (q\<lparr>q_iterator := int (Suc i)\<rparr>))"
proof -
  note D = queue_invD [OF inv]
  have "(if q_head q + int (Suc i) \<ge> int DEFAULT_QUEUE_CAPACITY
         then q_head q + int (Suc i) - int DEFAULT_QUEUE_CAPACITY else q_head q + int (Suc i))
      = int (ring_index q (Suc i))"
    using D lt by (subst wrap_once) (auto simp: ring_index_def zmod_int ac_simps)
  then have "(if q_head q + (1 + int i) \<ge> int DEFAULT_QUEUE_CAPACITY
         then q_head q + (1 + int i) - int DEFAULT_QUEUE_CAPACITY else q_head q + (1 + int i))
      = int (ring_index q (Suc i))"
    by (simp only: of_nat_Suc)
  moreover have "\<not> q_size q \<le> 1 + int i" using lt by linarith
  ultimately show ?thesis
    using it lt by (simp add: QueueGetNext_def Let_def queue_list_nth add.commute cong: if_cong)
qed

lemma queue_iterator_update [simp]:
  "queue_inv (q\<lparr>q_iterator := k\<rparr>) = queue_inv q"
  "queue_list (q\<lparr>q_iterator := k\<rparr>) = queue_list q"
  by (simp_all add: queue_inv_def queue_list_def ring_index_def)

lemma for_each_from_eq:
  assumes "queue_inv q" and "q_iterator q = int i" and "i < nat (q_size q)"
  shows "\<exists>k. for_each_from body (queue_list q ! i) acc (Some q)
     = (for_each_list body (drop i (queue_list q)) acc, Some (q\<lparr>q_iterator := k\<rparr>))"
  using assms
proof (induction "nat (q_size q) - i" arbitrary: i q acc)
  case 0
  then show ?case by simp
next
  case (Suc n)
  let ?xs = "queue_list q"
  let ?c = "?xs ! i"
  have drop: "drop i ?xs = ?c # drop (Suc i) ?xs"
    using Suc.prems by (simp add: Cons_nth_drop_Suc)
  have self: "q\<lparr>q_iterator := int i\<rparr> = q" using Suc.prems(2) by simp
  show ?case
  proof (cases "?c = QUEUE_EMPTY_ELEMENT \<or> snd (body acc ?c)")
    case True
    then show ?thesis
      using drop self by (auto simp: for_each_from.simps [of body ?c] split: prod.splits
          intro: exI [of _ "int i"])
  next
    case False
    then obtain acc' where b: "body acc ?c = (acc', False)" and c: "?c \<noteq> QUEUE_EMPTY_ELEMENT"
      by (metis (full_types) prod.collapse)
    show ?thesis
    proof (cases "Suc i < nat (q_size q)")
      case True
      let ?q = "q\<lparr>q_iterator := int (Suc i)\<rparr>"
      have "\<exists>k. for_each_from body (queue_list ?q ! Suc i) acc' (Some ?q)
          = (for_each_list body (drop (Suc i) (queue_list ?q)) acc', Some (?q\<lparr>q_iterator := k\<rparr>))"
        by (rule Suc.hyps(1)) (use Suc.hyps(2) Suc.prems True in auto)
      then show ?thesis
        using QueueGetNext_some [OF Suc.prems(1,2) True] b c drop
        by (auto simp: for_each_from.simps [of body ?c])
    next
      case False
      then have "QueueGetNext (Some q) = (QUEUE_EMPTY_ELEMENT, Some q)"
        using Suc.prems(2) queue_invD(6) [OF Suc.prems(1)] by (auto simp: QueueGetNext_def)
      moreover have "drop (Suc i) ?xs = []" using False by simp
      ultimately show ?thesis
        using b c drop self
        by (auto simp: for_each_from.simps [of body ?c] for_each_from.simps [of body QUEUE_EMPTY_ELEMENT]
            intro: exI [of _ "int i"])
    qed
  qed
qed

lemma QUEUE_FOR_EACH_eq:
  assumes "queue_inv q"
  shows "\<exists>k. QUEUE_FOR_EACH body acc (Some q)
     = (for_each_list body (queue_list q) acc, Some (q\<lparr>q_iterator := k\<rparr>))"
proof (cases "q_size q = 0")
  case True
  then show ?thesis
    by (auto simp: QUEUE_FOR_EACH_def QueueGetFirst_def for_each_from.simps queue_list_def
        intro: exI [of _ "q_iterator q"])
next
  case False
  let ?q = "q\<lparr>q_iterator := 0\<rparr>"
  have pos: "0 < nat (q_size ?q)"
    using False queue_invD(6) [OF assms] by simp
  have "queue_list ?q ! 0 = q_array q ! nat (q_head q)"
    using pos queue_invD [OF assms] by (simp add: queue_list_def ring_index_def)
  moreover have "\<exists>k. for_each_from body (queue_list ?q ! 0) acc (Some ?q)
     = (for_each_list body (drop 0 (queue_list ?q)) acc, Some (?q\<lparr>q_iterator := k\<rparr>))"
    using assms pos by (intro for_each_from_eq) simp_all
  ultimately show ?thesis
    using False by (auto simp: QUEUE_FOR_EACH_def QueueGetFirst_def)
qed

text \<open>Copying item by item: the items up to the first NUL, as far as they fit.\<close>

lemma for_each_enqueue:
  assumes "queue_inv c" and "length (queue_list c) + length xs \<le> DEFAULT_QUEUE_CAPACITY"
  shows "\<exists>c'. for_each_list (\<lambda>c item. (snd (enqueue c item), False)) xs (Some c) = Some c'
      \<and> queue_inv c' \<and> queue_list c' = queue_list c @ cstr xs"
  using assms
proof (induction xs arbitrary: c)
  case Nil
  then show ?case by simp
next
  case (Cons x xs)
  show ?case
  proof (cases "x = NUL")
    case True
    then show ?thesis
      using Cons.prems by (simp add: QUEUE_EMPTY_ELEMENT_def cstr_Cons)
  next
    case False
    obtain c1 where c1: "enqueue (Some c) x = (True, Some c1)" "queue_inv c1"
        "queue_list c1 = queue_list c @ [x]"
      using enqueue_room [of c x] Cons.prems by auto
    have "length (queue_list c1) + length xs \<le> DEFAULT_QUEUE_CAPACITY"
      using c1(3) Cons.prems(2) by (simp del: length_queue_list)
    from Cons.IH [OF c1(2) this] show ?thesis
      using c1 False by (auto simp: QUEUE_EMPTY_ELEMENT_def cstr_Cons)
  qed
qed

lemma QueueCopy_eq:
  assumes "queue_inv q"
  shows "\<exists>copied k. QueueCopy True (Some q) = (Some copied, Some (q\<lparr>q_iterator := k\<rparr>))
     \<and> queue_inv copied \<and> queue_list copied = cstr (queue_list q)"
proof -
  obtain e where e: "QueueCreate True = Some e"
    by (simp add: QueueCreate_def)
  note E = QueueCreate_empty [OF e]
  have "length (queue_list e) + length (queue_list q) \<le> DEFAULT_QUEUE_CAPACITY"
    using E(2) queue_invD(7) [OF assms] by (simp del: length_queue_list add: length_queue_list [of q])
  with for_each_enqueue [OF E(1) this] E(2) obtain c' where
    "for_each_list (\<lambda>c item. (snd (enqueue c item), False)) (queue_list q) (Some e) = Some c'"
    "queue_inv c'" "queue_list c' = cstr (queue_list q)"
    by auto
  then show ?thesis
    using QUEUE_FOR_EACH_eq [OF assms, of "\<lambda>c item. (snd (enqueue c item), False)" "Some e"]
    by (auto simp: QueueCopy_def e)
qed

section \<open>Properties\<close>

text \<open>The queue after a list of requests, from its creation on.\<close>

definition queue_after :: "char fifo_op list \<Rightarrow> queue" where
  "queue_after ops = snd (run_ops (fifo_impl enqueue_on dequeue) (the (QueueCreate True)) ops)"

lemma queue_after_inv:
  "queue_inv (queue_after ops)"
  "run_ops (fifo_spec DEFAULT_QUEUE_CAPACITY QUEUE_EMPTY_ELEMENT) [] ops
    = (fst (run_ops (fifo_impl enqueue_on dequeue) (the (QueueCreate True)) ops),
       queue_list (queue_after ops))"
proof -
  obtain q where q: "QueueCreate True = Some q" by (simp add: QueueCreate_def)
  note E = QueueCreate_empty [OF q]
  from aq.requests.run_refines [OF E(1), of ops] E(2) q
  show "queue_inv (queue_after ops)"
    "run_ops (fifo_spec DEFAULT_QUEUE_CAPACITY QUEUE_EMPTY_ELEMENT) [] ops
      = (fst (run_ops (fifo_impl enqueue_on dequeue) (the (QueueCreate True)) ops),
         queue_list (queue_after ops))"
    by (auto simp: queue_after_def)
qed

text \<open>
  C35. From its creation on, the ring buffer answers every sequence of requests as a list of at
  most 8192 bytes does: \<open>enqueue\<close> appends or refuses when full, \<open>dequeue\<close> takes the oldest byte
  or returns NUL when empty; its invariant holds throughout.
\<close>

theorem queue_is_bounded_fifo:
  "\<exists>answers q. run_ops (fifo_impl enqueue_on dequeue) (the (QueueCreate True)) ops = (answers, q)
     \<and> queue_inv q \<and> length (queue_list q) \<le> 8192
     \<and> run_ops (fifo_spec 8192 NUL) [] ops = (answers, queue_list q)"
proof -
  have "length (queue_list (queue_after ops)) \<le> 8192"
    using queue_invD(7) [OF queue_after_inv(1)] by (simp add: DEFAULT_QUEUE_CAPACITY_def nat_le_iff)
  then show ?thesis
    using queue_after_inv [of ops]
    by (auto simp: queue_after_def DEFAULT_QUEUE_CAPACITY_def QUEUE_EMPTY_ELEMENT_def prod_eq_iff)
qed

text \<open>
  \<open>QueueCopy\<close> copies with \<open>QUEUE_FOR_EACH\<close>, which takes a NUL byte for the end: the copy holds
  the bytes in front of the first NUL only, and the source keeps its contents.
\<close>

lemma QueueCopy_up_to_NUL:
  "\<exists>copied q. QueueCopy True (Some (queue_after ops)) = (Some copied, Some q)
     \<and> queue_list copied = takeWhile (\<lambda>c. c \<noteq> NUL) (queue_list (queue_after ops))
     \<and> queue_list q = queue_list (queue_after ops)"
  using QueueCopy_eq [OF queue_after_inv(1), of ops] by (auto simp: cstr_def)

end
