(* ===== verification/Clib_Format.thy ===== *)
theory Clib_Format imports Prelude begin

text \<open>
  The formatted input and output of the C library, as far as the code uses it: the
  conversions \<open>%d\<close>, \<open>%0\<close>\<^emph>\<open>w\<close>\<open>d\<close>, \<open>%\<close>\<^emph>\<open>w\<close>\<open>d\<close>, \<open>%c\<close> and \<open>%s\<close> of \<open>sprintf\<close> and \<open>sscanf\<close>.
  \<open>scan_int\<close> follows the C standard: white space in front of a number is skipped and does not
  count towards the field width.  A number too large for an \<open>int\<close> is left to the caller, which
  truncates it as glibc does.
\<close>

section \<open>Decimal digits\<close>

definition is_digit :: "char \<Rightarrow> bool" where
  "is_digit c \<longleftrightarrow> 48 \<le> (of_char c :: nat) \<and> (of_char c :: nat) \<le> 57"

definition is_space :: "char \<Rightarrow> bool" where
  "is_space c \<longleftrightarrow> (of_char c :: nat) = 32 \<or> (9 \<le> (of_char c :: nat) \<and> (of_char c :: nat) \<le> 13)"

definition digit_char :: "nat \<Rightarrow> char" where
  "digit_char d = char_of (48 + d)"

fun dec_digits :: "nat \<Rightarrow> string" where
  "dec_digits n = (if n < 10 then [digit_char n]
                   else dec_digits (n div 10) @ [digit_char (n mod 10)])"

declare dec_digits.simps [simp del]

definition dec_value :: "string \<Rightarrow> nat" where
  "dec_value ds = foldl (\<lambda>v c. 10 * v + (of_char c - 48)) 0 ds"

lemma of_char_digit_char [simp]: "d < 10 \<Longrightarrow> (of_char (digit_char d) :: nat) = 48 + d"
  by (simp add: digit_char_def)

lemma is_digit_digit_char [simp]: "d < 10 \<Longrightarrow> is_digit (digit_char d)"
  by (simp add: is_digit_def)

lemma digit_char_neI:
  assumes "d < 10" and "(of_char c :: nat) < 48 \<or> 57 < (of_char c :: nat)"
  shows "digit_char d \<noteq> c"
proof
  assume "digit_char d = c"
  then have "(of_char c :: nat) = 48 + d" using assms(1) by auto
  then show False using assms by auto
qed

lemma digit_char_not [simp]:
  assumes "d < 10"
  shows "digit_char d \<noteq> NUL" and "NUL \<noteq> digit_char d" and "\<not> is_space (digit_char d)"
    and "digit_char d \<noteq> CHR ''-''" and "digit_char d \<noteq> CHR ''+''"
    and "digit_char d \<noteq> CHR ''_''"
proof -
  show "digit_char d \<noteq> NUL" "digit_char d \<noteq> CHR ''-''" "digit_char d \<noteq> CHR ''+''"
    "digit_char d \<noteq> CHR ''_''" "NUL \<noteq> digit_char d"
    using digit_char_neI [OF assms] by (simp_all add: not_sym [OF digit_char_neI [OF assms]])
  show "\<not> is_space (digit_char d)"
    using assms by (auto simp: is_space_def)
qed

lemma digit_char_0: "digit_char 0 = CHR ''0''"
  by code_simp

lemma is_space_consts [simp]:
  "is_space (CHR '' '')" "\<not> is_space (CHR ''-'')" "\<not> is_space (CHR ''+'')" "\<not> is_space (CHR ''_'')"
  by (simp_all add: is_space_def)

lemma set_dec_digits: "c \<in> set (dec_digits n) \<Longrightarrow> \<exists>d < 10. c = digit_char d"
proof (induction n rule: dec_digits.induct)
  case (1 n)
  show ?case
  proof (cases "n < 10")
    case True
    then show ?thesis using "1.prems" by (auto simp: dec_digits.simps [of n])
  next
    case False
    then have "c \<in> set (dec_digits (n div 10)) \<or> c = digit_char (n mod 10)"
      using "1.prems" by (auto simp: dec_digits.simps [of n])
    then show ?thesis using "1.IH" [OF False] by (metis mod_less_divisor zero_less_numeral)
  qed
qed

lemma dec_digits_nonempty [simp]: "dec_digits n \<noteq> []"
  by (simp add: dec_digits.simps [of n])

lemma dec_value_snoc [simp]: "dec_value (ds @ [c]) = 10 * dec_value ds + (of_char c - 48)"
  by (simp add: dec_value_def)

lemma dec_value_digits [simp]: "dec_value (dec_digits n) = n"
proof (induction n rule: dec_digits.induct)
  case (1 n)
  show ?case
  proof (cases "n < 10")
    case True
    then show ?thesis by (simp add: dec_digits.simps [of n] dec_value_def)
  next
    case False
    then have "dec_value (dec_digits n) = 10 * (n div 10) + n mod 10"
      using "1.IH" by (simp add: dec_digits.simps [of n])
    then show ?thesis by simp
  qed
qed

lemma dec_value_zeros: "dec_value (replicate k (CHR ''0'') @ ds) = dec_value ds"
  by (induction k) (simp_all add: dec_value_def)

lemma length_dec_digits: "n < 10 ^ k \<Longrightarrow> 0 < k \<Longrightarrow> length (dec_digits n) \<le> k"
proof (induction n arbitrary: k rule: dec_digits.induct)
  case (1 n)
  show ?case
  proof (cases "n < 10")
    case True
    then show ?thesis using "1.prems" by (simp add: dec_digits.simps [of n])
  next
    case False
    then obtain j where k: "k = Suc j" and j: "0 < j"
      using "1.prems" by (cases k; cases "k - 1") auto
    have "length (dec_digits (n div 10)) \<le> j"
      using "1.IH" [OF False _ j] "1.prems" k by (simp add: less_mult_imp_div_less mult.commute)
    then show ?thesis using False k by (simp add: dec_digits.simps [of n])
  qed
qed

section \<open>Printing\<close>

definition sign_str :: "int \<Rightarrow> string" where
  "sign_str x = (if x < 0 then ''-'' else [])"

text \<open>\<open>%d\<close>, \<open>%0\<close>\<^emph>\<open>w\<close>\<open>d\<close> and \<open>%\<close>\<^emph>\<open>w\<close>\<open>d\<close>: never cut off, padded with zeros behind the sign or with
  blanks in front.\<close>

definition fmt_d :: "int \<Rightarrow> string" where
  "fmt_d x = sign_str x @ dec_digits (nat \<bar>x\<bar>)"

definition fmt_0d :: "nat \<Rightarrow> int \<Rightarrow> string" where
  "fmt_0d w x = sign_str x
     @ replicate (w - length (fmt_d x)) (CHR ''0'') @ dec_digits (nat \<bar>x\<bar>)"

definition fmt_wd :: "nat \<Rightarrow> int \<Rightarrow> string" where
  "fmt_wd w x = replicate (w - length (fmt_d x)) (CHR '' '') @ fmt_d x"

text \<open>How long a printed number is.\<close>

lemma length_fmt_d: "\<bar>x\<bar> < 10 ^ k \<Longrightarrow> 0 < k \<Longrightarrow> length (fmt_d x) \<le> k + (if x < 0 then 1 else 0)"
  using length_dec_digits [of "nat \<bar>x\<bar>" k]
  by (auto simp: fmt_d_def sign_str_def nat_less_iff)

lemma length_fmt_0d: "length (fmt_0d w x) = max w (length (fmt_d x))"
  by (simp add: fmt_0d_def fmt_d_def)

lemma length_fmt_wd: "length (fmt_wd w x) = max w (length (fmt_d x))"
  by (simp add: fmt_wd_def)

definition fits :: "nat \<Rightarrow> int \<Rightarrow> bool" where
  "fits w x \<longleftrightarrow> length (fmt_d x) \<le> w"

lemma fitsI_nonneg: "0 \<le> x \<Longrightarrow> x < 10 ^ w \<Longrightarrow> 0 < w \<Longrightarrow> fits w x"
  using length_fmt_d [of x w] by (simp add: fits_def)

lemma fitsI_neg: "- (10 ^ w) < x \<Longrightarrow> x < 0 \<Longrightarrow> 0 < w \<Longrightarrow> fits (Suc w) x"
  using length_fmt_d [of x w] by (simp add: fits_def)

lemma fmt_d_no_NUL [simp]: "NUL \<notin> set (fmt_d x)"
  by (auto simp: fmt_d_def sign_str_def dest!: set_dec_digits)

lemma fmt_0d_no_NUL [simp]: "NUL \<notin> set (fmt_0d w x)"
  by (auto simp: fmt_0d_def sign_str_def dest!: set_dec_digits)

lemma fmt_wd_no_NUL [simp]: "NUL \<notin> set (fmt_wd w x)"
  by (auto simp: fmt_wd_def)

section \<open>Scanning\<close>

text \<open>
  \<open>%\<close>\<^emph>\<open>w\<close>\<open>d\<close> on the rest of the input: the number and what is left, or a matching failure.
\<close>

definition scan_int :: "nat \<Rightarrow> string \<Rightarrow> (int \<times> string) option" where
  "scan_int w s =
     (let t = dropWhile is_space s;
          signed = (t \<noteq> [] \<and> (hd t = CHR ''-'' \<or> hd t = CHR ''+''));
          u = (if signed then tl t else t);
          room = (if signed then w - 1 else w);
          ds = takeWhile is_digit (take room u)
      in if ds = [] then None
         else Some (if signed \<and> hd t = CHR ''-'' then - int (dec_value ds) else int (dec_value ds),
                    drop (length ds) u))"

definition scan_char :: "string \<Rightarrow> (char \<times> string) option" where
  "scan_char s = (case s of [] \<Rightarrow> None | c # cs \<Rightarrow> Some (c, cs))"

definition scan_lit :: "char \<Rightarrow> string \<Rightarrow> string option" where
  "scan_lit l s = (case s of [] \<Rightarrow> None | c # cs \<Rightarrow> if c = l then Some cs else None)"

definition scan_word :: "string \<Rightarrow> (string \<times> string) option" where
  "scan_word s =
     (let t = dropWhile is_space s; w = takeWhile (\<lambda>c. \<not> is_space c) t
      in if w = [] then None else Some (w, drop (length w) t))"

text \<open>\<open>%d\<close> without a width reads as many digits as there are.\<close>

definition scan_d :: "string \<Rightarrow> (int \<times> string) option" where
  "scan_d s = scan_int (length s) s"

text \<open>
  The value that \<open>%d\<close> stores: \<open>strtol\<close> saturates at the bounds of \<open>long\<close>, then glibc cuts it
  to an \<open>int\<close>.
\<close>

definition scanned_int :: "int \<Rightarrow> c_int" where
  "scanned_int n = word_of_int (max (- (2 ^ 63)) (min n (2 ^ 63 - 1)))"

text \<open>
  A printed number is read back: the scan takes the digits up to the width, so it stops at the
  number's end when the field is full or when no digit follows.
\<close>

lemma takeWhile_digits_exact:
  assumes "\<forall>c \<in> set ds. is_digit c"
    and "length ds = room \<or> (length ds \<le> room \<and> (rest = [] \<or> \<not> is_digit (hd rest)))"
  shows "takeWhile is_digit (take room (ds @ rest)) = ds"
proof -
  have "take room (ds @ rest) = ds @ take (room - length ds) rest"
    using assms(2) by auto
  moreover have "takeWhile is_digit (take (room - length ds) rest) = []"
    using assms(2) by (cases rest; cases "room - length ds") auto
  ultimately show ?thesis
    using assms(1) by (simp add: takeWhile_append)
qed

lemma scan_int_signed:
  assumes ds: "\<forall>c \<in> set ds. \<exists>d < 10. c = digit_char d" and ne: "ds \<noteq> []"
    and v: "int (dec_value ds) = \<bar>x\<bar>"
    and room: "length (sign_str x @ ds) = w
       \<or> (length (sign_str x @ ds) \<le> w \<and> (rest = [] \<or> \<not> is_digit (hd rest)))"
  shows "scan_int w (replicate k (CHR '' '') @ sign_str x @ ds @ rest) = Some (x, rest)"
proof -
  let ?s = "sign_str x @ ds @ rest"
  obtain c cs where c: "ds = c # cs" "is_digit c" "\<not> is_space c" "c \<noteq> CHR ''-''" "c \<noteq> CHR ''+''"
    using ds ne by (cases ds) auto
  have "dropWhile is_space (replicate k (CHR '' '') @ ?s) = dropWhile is_space ?s"
    by (induction k) simp_all
  also have "\<dots> = ?s"
    using c by (simp add: sign_str_def)
  finally have drop: "dropWhile is_space (replicate k (CHR '' '') @ ?s) = ?s" .
  have dig: "\<forall>c \<in> set ds. is_digit c" using ds by auto
  show ?thesis
  proof (cases "x < 0")
    case True
    then have "takeWhile is_digit (take (w - 1) (ds @ rest)) = ds"
      using room by (intro takeWhile_digits_exact [OF dig]) (auto simp: sign_str_def)
    then show ?thesis
      using drop ne v True by (simp add: scan_int_def sign_str_def Let_def)
  next
    case False
    then have "takeWhile is_digit (take w (ds @ rest)) = ds"
      using room by (intro takeWhile_digits_exact [OF dig]) (auto simp: sign_str_def)
    then show ?thesis
      using drop ne v False c by (simp add: scan_int_def sign_str_def Let_def)
  qed
qed

lemma scan_fmt_0d:
  assumes "fits w x"
  shows "scan_int w (fmt_0d w x @ rest) = Some (x, rest)"
proof -
  let ?ds = "replicate (w - length (fmt_d x)) (CHR ''0'') @ dec_digits (nat \<bar>x\<bar>)"
  have ds: "\<forall>c \<in> set ?ds. \<exists>d < 10. c = digit_char d"
  proof -
    have "\<exists>d < 10. CHR ''0'' = digit_char d"
      using digit_char_0 by (intro exI [of _ 0]) simp
    then show ?thesis using set_dec_digits by auto
  qed
  have len: "length (sign_str x @ ?ds) = w"
    using assms by (simp add: fits_def fmt_d_def)
  from scan_int_signed [OF ds, of x w rest 0] len show ?thesis
    by (simp add: fmt_0d_def dec_value_zeros)
qed

lemma scan_fmt_wd:
  assumes "fits w x" and "length (fmt_d x) = w \<or> rest = [] \<or> \<not> is_digit (hd rest)"
  shows "scan_int w (fmt_wd w x @ rest) = Some (x, rest)"
proof -
  have ds: "\<forall>c \<in> set (dec_digits (nat \<bar>x\<bar>)). \<exists>d < 10. c = digit_char d"
    using set_dec_digits by auto
  show ?thesis
    using scan_int_signed [OF ds, of x w rest "w - length (fmt_d x)"] assms
    by (auto simp: fmt_wd_def fmt_d_def fits_def)
qed

lemma scan_fmt_d:
  assumes "rest = [] \<or> \<not> is_digit (hd rest)"
  shows "scan_d (fmt_d x @ rest) = Some (x, rest)"
  using scan_fmt_wd [of "length (fmt_d x @ rest)" x rest] assms scan_int_signed
    [of "dec_digits (nat \<bar>x\<bar>)" x "length (fmt_d x @ rest)" rest 0] set_dec_digits
  by (auto simp: scan_d_def fmt_d_def)

text \<open>
  A blank-padded number followed by a digit is misread: the padding does not use up the
  width, so the scan goes on into what follows.
\<close>

lemma scan_fmt_wd_overrun:
  assumes "0 \<le> x" and "length (fmt_d x) < w" and "is_digit c"
  shows "\<exists>n rest'. scan_int w (fmt_wd w x @ c # rest) = Some (n, rest')
    \<and> length rest' < length (c # rest)"
proof -
  let ?ds = "dec_digits (nat x)"
  let ?u = "?ds @ c # rest"
  have f: "fmt_wd w x @ c # rest = replicate (w - length ?ds) (CHR '' '') @ ?u"
    using assms(1) by (simp add: fmt_wd_def fmt_d_def sign_str_def)
  have ds: "\<forall>c \<in> set ?ds. \<exists>d < 10. c = digit_char d" using set_dec_digits by auto
  obtain e es where e: "?ds = e # es" "\<not> is_space e" "e \<noteq> CHR ''-''" "e \<noteq> CHR ''+''"
    using ds dec_digits_nonempty [of "nat x"] by (cases ?ds) auto
  have "dropWhile is_space (replicate k (CHR '' '') @ ?u) = dropWhile is_space ?u" for k
    by (induction k) simp_all
  then have "dropWhile is_space (replicate (w - length ?ds) (CHR '' '') @ ?u) = dropWhile is_space ?u" .
  also have "\<dots> = ?u" using e by simp
  finally have drop: "dropWhile is_space (fmt_wd w x @ c # rest) = ?u" using f by simp
  have lt: "length ?ds < w" using assms(1,2) by (simp add: fmt_d_def sign_str_def)
  let ?t = "takeWhile is_digit (take w ?u)"
  have tk: "take w ?u = ?ds @ c # take (w - length ?ds - 1) rest"
    using lt by (simp add: take_Cons' )
  have "?t = ?ds @ c # takeWhile is_digit (take (w - length ?ds - 1) rest)"
  proof -
    have "\<forall>a \<in> set ?ds. is_digit a" using ds by auto
    then show ?thesis
      using tk assms(3) by (simp add: takeWhile_append)
  qed
  then have t: "length ?ds < length ?t" and ne: "?t \<noteq> []" by auto
  have "scan_int w (fmt_wd w x @ c # rest) = Some (int (dec_value ?t), drop (length ?t) ?u)"
    using drop e ne by (simp add: scan_int_def Let_def)
  moreover have "length (drop (length ?t) ?u) < length (c # rest)"
    using t by simp
  ultimately show ?thesis by blast
qed

text \<open>More precisely, all the digits in front are taken into the number, which grows by their places.\<close>

lemma dec_fold_ge: "a * 10 ^ length ds \<le> foldl (\<lambda>v c. 10 * v + (of_char c - 48)) (a :: nat) ds"
proof (induction ds arbitrary: a)
  case (Cons c ds)
  have "a * 10 ^ length (c # ds) \<le> (10 * a + (of_char c - 48)) * 10 ^ length ds"
    by (simp add: algebra_simps)
  also have "\<dots> \<le> foldl (\<lambda>v c. 10 * v + (of_char c - 48)) (10 * a + (of_char c - 48)) ds"
    by (rule Cons.IH)
  finally show ?case by simp
qed simp

lemma dec_value_less: "\<forall>c \<in> set ds. is_digit c \<Longrightarrow> dec_value ds < 10 ^ length ds"
proof (induction ds rule: rev_induct)
  case (snoc c ds)
  have "(of_char c :: nat) \<le> 57" using snoc.prems by (simp add: is_digit_def)
  then have "of_char c - 48 < (10 :: nat)" by linarith
  moreover have "10 * dec_value ds + 10 \<le> 10 * 10 ^ length ds" using snoc by simp
  ultimately show ?case by simp
qed (simp add: dec_value_def)

lemma scan_fmt_wd_digits:
  assumes x: "0 \<le> x" and t: "t = takeWhile is_digit rest" and w: "length (fmt_d x) + length t \<le> w"
  shows "\<exists>n. scan_int w (fmt_wd w x @ rest) = Some (int n, drop (length t) rest)
     \<and> nat x * 10 ^ length t \<le> n \<and> n < 10 ^ (length (fmt_d x) + length t)"
proof -
  let ?ds = "dec_digits (nat x)"
  have fd: "fmt_d x = ?ds" using x by (simp add: fmt_d_def sign_str_def)
  have ds: "\<forall>c \<in> set ?ds. \<exists>d < 10. c = digit_char d" using set_dec_digits by auto
  have dig: "\<forall>c \<in> set (?ds @ t). is_digit c"
  proof
    fix c
    assume "c \<in> set (?ds @ t)"
    then consider "c \<in> set ?ds" | "c \<in> set t" by auto
    then show "is_digit c"
      using set_dec_digits [of c "nat x"] t by cases (auto dest: set_takeWhileD)
  qed
  obtain e es where e: "?ds = e # es" "\<not> is_space e" "e \<noteq> CHR ''-''" "e \<noteq> CHR ''+''"
    using ds dec_digits_nonempty [of "nat x"] by (cases ?ds) auto
  have sp: "dropWhile is_space (replicate k (CHR '' '') @ u) = dropWhile is_space u" for k u
    by (induction k) simp_all
  let ?r = "drop (length t) rest"
  have r: "?r = dropWhile is_digit rest" unfolding t by (rule dropWhile_eq_drop [symmetric])
  have rest: "rest = t @ ?r" unfolding r unfolding t by simp
  have nd: "?r = [] \<or> \<not> is_digit (hd ?r)"
    unfolding r using hd_dropWhile [of is_digit rest] by blast
  have "takeWhile is_digit (take w ((?ds @ t) @ ?r)) = ?ds @ t"
    using w fd nd by (intro takeWhile_digits_exact [OF dig]) auto
  moreover have "fmt_wd w x @ rest = replicate (w - length ?ds) (CHR '' '') @ (?ds @ t) @ ?r"
    using rest fd by (simp add: fmt_wd_def)
  ultimately have "scan_int w (fmt_wd w x @ rest) = Some (int (dec_value (?ds @ t)), ?r)"
    using e by (simp add: scan_int_def sp Let_def)
  moreover have "nat x * 10 ^ length t \<le> dec_value (?ds @ t)"
  proof -
    have "dec_value (?ds @ t) = foldl (\<lambda>v c. 10 * v + (of_char c - 48)) (dec_value ?ds) t"
      by (simp add: dec_value_def)
    then show ?thesis using dec_fold_ge [of "dec_value ?ds" t] by simp
  qed
  moreover have "dec_value (?ds @ t) < 10 ^ (length (fmt_d x) + length t)"
    using dec_value_less [OF dig] fd by simp
  ultimately show ?thesis by blast
qed

end
