(* ===== verification/Ip.thy ===== *)
theory Ip imports Prelude "HOL-Library.Signed_Division" begin

text \<open>
  src/ip.c and src/ip.h: the textual IP packet.  A packet on the wire is ten decimal digits of
  total length, sixteen characters of source address, sixteen of destination address, eight
  digits of checksum, then the data.  The functions that allocate take the outcome of each
  \<open>malloc\<close> as an argument: \<open>None\<close> for \<open>NULL\<close>, otherwise the block's unspecified contents.
\<close>

section \<open>The packet\<close>

record ip_packet =
  total_length :: int
  ip_src_ip :: "char list"
  ip_dst_ip :: "char list"
  header_checksum :: c_int
  ip_data :: "string option"

section \<open>Numbers and bounded copies\<close>

text \<open>
  \<open>strcpy1\<close>: from the destination's cells and the source's cells (its NUL included), at most
  \<open>size\<close> characters, the NUL being the last one copied.
\<close>

fun strcpy1 :: "char list \<Rightarrow> char list \<Rightarrow> nat \<Rightarrow> char list" where
  "strcpy1 dest source 0 = dest"
| "strcpy1 (d # dest) (c # source) (Suc n) =
     (if c = NUL then c # dest else c # strcpy1 dest source n)"

definition str_to_int :: "char list \<Rightarrow> nat \<Rightarrow> c_int" where
  "str_to_int str size_of_int =
     foldl (\<lambda>res c. res * 10 + word_of_int (schar c) - 48) 0 (take size_of_int str)"

fun power_ll :: "int \<Rightarrow> nat \<Rightarrow> int" where
  "power_ll base 0 = 1"
| "power_ll base (Suc exponent) = power_ll base exponent * base"

fun int_to_str_loop :: "nat \<Rightarrow> int \<Rightarrow> int \<Rightarrow> char list" where
  "int_to_str_loop 0 help n = []"
| "int_to_str_loop (Suc k) help n =
     (let tmp = n smod help; help' = help sdiv 10
      in char_of ((tmp sdiv help') + 48) # int_to_str_loop k help' n)"

definition int_to_str :: "nat \<Rightarrow> int \<Rightarrow> char list" where
  "int_to_str size_of_str n = int_to_str_loop size_of_str (power_ll 10 size_of_str) n"

text \<open>Writing through a pointer into the middle of an array.\<close>

definition write_at :: "nat \<Rightarrow> char list \<Rightarrow> char list \<Rightarrow> char list" where
  "write_at off cs buf = take off buf @ cs @ drop (off + length cs) buf"

definition strcpy1_at :: "char list \<Rightarrow> nat \<Rightarrow> char list \<Rightarrow> nat \<Rightarrow> char list" where
  "strcpy1_at buf off source n = take off buf @ strcpy1 (drop off buf) source n"

section \<open>Packets to text and back\<close>

definition calc_ip_checksum :: "ip_packet \<Rightarrow> c_int" where
  "calc_ip_checksum packet = 5"

definition create_ip_packet ::
  "fresh_block option \<Rightarrow> string \<Rightarrow> string \<Rightarrow> string \<Rightarrow> ip_packet option c_result" where
  "create_ip_packet m src dst data =
     (if length src \<noteq> 16 \<or> length dst \<noteq> 16 then Returns None
      else case m of
        None \<Rightarrow> Undefined
      | Some b \<Rightarrow>
          let result = \<lparr>total_length = 0,
                        ip_src_ip = strcpy1 (block_cells b 17) (src @ [NUL]) 16,
                        ip_dst_ip = strcpy1 (block_cells b 17) (dst @ [NUL]) 16,
                        header_checksum = 0, ip_data = None\<rparr>
          in Returns (Some (result\<lparr>header_checksum := calc_ip_checksum result,
                                   ip_data := Some data,
                                   total_length := 50 + int (length data)\<rparr>)))"

definition ip_to_str :: "fresh_block option \<Rightarrow> ip_packet \<Rightarrow> string option" where
  "ip_to_str m packet =
     (let length_of_msg = nat (total_length packet) in
      case m of
        None \<Rightarrow> None
      | Some b \<Rightarrow>
          let r0 = block_cells b (length_of_msg + 1);
              r1 = write_at 0 (int_to_str 10 (total_length packet)) r0;
              r2 = strcpy1_at r1 10 (ip_src_ip packet) 16;
              r3 = strcpy1_at r2 26 (ip_dst_ip packet) 16;
              r4 = write_at 42 (int_to_str 8 (sint (header_checksum packet))) r3;
              r5 = strcpy1_at r4 50 (the (ip_data packet) @ [NUL]) (length_of_msg - 50)
          in Some (cstr (r5[length_of_msg := NUL])))"

definition str_to_ip ::
  "fresh_block option \<Rightarrow> fresh_block option \<Rightarrow> string \<Rightarrow> ip_packet option c_result" where
  "str_to_ip m_packet m_data s =
     (if length s < 50 then Returns None
      else case m_packet of
        None \<Rightarrow> Undefined
      | Some b \<Rightarrow>
          let mem = s @ [NUL];
              len = str_to_int mem 10;
              src = (strcpy1 (block_cells b 17) (drop 10 mem) 16)[16 := NUL];
              dst = (strcpy1 (block_cells b 17) (drop 26 mem) 16)[16 := NUL];
              data_size = sint (len - 50);
              result = \<lparr>total_length = sint len, ip_src_ip = src, ip_dst_ip = dst,
                        header_checksum = str_to_int (drop 42 mem) 8, ip_data = None\<rparr>
          in if data_size > 0 then
               (case m_data of
                  None \<Rightarrow> Undefined
                | Some d \<Rightarrow>
                    let buf = strcpy1 (block_cells d (nat data_size + 1)) (drop 50 mem) (nat data_size)
                    in Returns (Some (result\<lparr>ip_data := Some (cstr (buf[nat data_size := NUL]))\<rparr>)))
             else Returns (Some result))"

section \<open>Digits\<close>

lemma power_ll_eq [simp]: "power_ll b n = b ^ n"
  by (induction n) simp_all

lemma length_int_to_str [simp]: "length (int_to_str k n) = k"
proof -
  have "length (int_to_str_loop k h n) = k" for h
    by (induction k h n rule: int_to_str_loop.induct) (simp_all add: Let_def)
  then show ?thesis by (simp add: int_to_str_def)
qed

lemma schar_char_of_digit:
  assumes "0 \<le> d" and "d < 10"
  shows "schar (char_of (d + 48)) = d + 48" and "char_of (d + 48) \<noteq> NUL"
proof -
  have "(of_char (char_of (d + 48) :: char) :: int) = (d + 48) mod 256"
    by simp
  then have of: "(of_char (char_of (d + 48) :: char) :: int) = d + 48"
    using assms by simp
  then show "schar (char_of (d + 48)) = d + 48"
    using assms by (simp add: schar_def)
  show "char_of (d + 48) \<noteq> NUL"
  proof
    assume "char_of (d + 48) = NUL"
    then have "d + 48 = 0" using of by simp
    then show False using assms by simp
  qed
qed

lemma sdiv_nonneg: "0 \<le> a \<Longrightarrow> 0 < b \<Longrightarrow> a sdiv b = a div (b :: int)"
  by (auto simp: signed_divide_int_def sgn_if)

lemma int_to_str_step:
  assumes "0 \<le> n"
  shows "int_to_str_loop (Suc k) (10 ^ Suc k) n
    = char_of ((n mod 10 ^ Suc k) div 10 ^ k + 48) # int_to_str_loop k (10 ^ k) n"
proof -
  have "(10 ^ Suc k :: int) sdiv 10 = 10 ^ k"
    by (simp add: signed_divide_int_def)
  moreover have "n smod 10 ^ Suc k = n mod 10 ^ Suc k"
    using assms by (simp add: signed_modulo_int_def sgn_if)
  moreover have "(n mod 10 ^ Suc k) sdiv 10 ^ k = (n mod 10 ^ Suc k) div 10 ^ k"
    by (intro sdiv_nonneg) simp_all
  ultimately show ?thesis by (simp add: Let_def)
qed

lemma top_digit:
  fixes n :: int
  shows "0 \<le> (n mod 10 ^ Suc k) div 10 ^ k" "(n mod 10 ^ Suc k) div 10 ^ k < 10"
    "(n mod 10 ^ Suc k) div 10 ^ k * 10 ^ k + n mod 10 ^ k = n mod 10 ^ Suc k"
proof -
  have b: "0 \<le> n mod 10 ^ Suc k" "n mod 10 ^ Suc k < 10 ^ Suc k" by simp_all
  then show "0 \<le> (n mod 10 ^ Suc k) div 10 ^ k"
    by (simp add: pos_imp_zdiv_nonneg_iff del: power_Suc)
  show "(n mod 10 ^ Suc k) div 10 ^ k < 10"
  proof (rule ccontr)
    assume "\<not> ?thesis"
    then have "10 * 10 ^ k \<le> (n mod 10 ^ Suc k) div 10 ^ k * 10 ^ k"
      by (intro mult_right_mono) auto
    also have "\<dots> \<le> n mod 10 ^ Suc k"
      using minus_mod_eq_div_mult [of "n mod 10 ^ Suc k" "10 ^ k"] by (smt (verit) zero_less_power pos_mod_sign)
    finally have "10 ^ Suc k \<le> n mod 10 ^ Suc k" by (simp only: power_Suc)
    then show False using b(2) by linarith
  qed
  have "n mod 10 ^ Suc k mod 10 ^ k = n mod 10 ^ k"
    by (simp add: mod_mod_cancel)
  then show "(n mod 10 ^ Suc k) div 10 ^ k * 10 ^ k + n mod 10 ^ k = n mod 10 ^ Suc k"
    using div_mult_mod_eq [of "n mod 10 ^ Suc k" "10 ^ k"] by simp
qed

lemma int_to_str_digits:
  assumes "0 \<le> n"
  shows "NUL \<notin> set (int_to_str k n)"
    and "foldl (\<lambda>res c. res * 10 + word_of_int (schar c) - 48) a (int_to_str k n)
       = a * 10 ^ k + (word_of_int (n mod 10 ^ k) :: c_int)"
proof -
  have main: "NUL \<notin> set (int_to_str_loop k (10 ^ k) n) \<and>
      foldl (\<lambda>res c. res * 10 + word_of_int (schar c) - 48) a (int_to_str_loop k (10 ^ k) n)
       = a * 10 ^ k + (word_of_int (n mod 10 ^ k) :: c_int)" for a
  proof (induction k arbitrary: a)
    case 0
    then show ?case by simp
  next
    case (Suc k)
    let ?d = "(n mod 10 ^ Suc k) div 10 ^ k"
    note D = top_digit [of n k]
    note S = schar_char_of_digit [OF D(1,2)]
    have "foldl (\<lambda>res c. res * 10 + word_of_int (schar c) - 48) a
            (int_to_str_loop (Suc k) (10 ^ Suc k) n)
        = (a * 10 + word_of_int ?d) * 10 ^ k + (word_of_int (n mod 10 ^ k) :: c_int)"
      unfolding int_to_str_step [OF assms]
      using S Suc.IH by (simp del: power_Suc)
    also have "\<dots> = a * 10 ^ Suc k + (word_of_int (?d * 10 ^ k + n mod 10 ^ k) :: c_int)"
      by (simp add: algebra_simps)
    also have "\<dots> = a * 10 ^ Suc k + word_of_int (n mod 10 ^ Suc k)"
      unfolding D(3) ..
    finally show ?case
      using S Suc.IH unfolding int_to_str_step [OF assms] by simp
  qed
  then show "NUL \<notin> set (int_to_str k n)"
    and "foldl (\<lambda>res c. res * 10 + word_of_int (schar c) - 48) a (int_to_str k n)
       = a * 10 ^ k + (word_of_int (n mod 10 ^ k) :: c_int)"
    by (simp_all add: int_to_str_def)
qed

lemma str_to_int_of_int_to_str:
  assumes "0 \<le> n" and "n < 10 ^ k"
  shows "str_to_int (int_to_str k n @ rest) k = word_of_int n"
  using int_to_str_digits(2) [OF assms(1), where k = k and a = 0] assms
  by (simp add: str_to_int_def)

section \<open>The wire format\<close>

lemma strcpy1_exact:
  "NUL \<notin> set (take n src) \<Longrightarrow> n \<le> length src \<Longrightarrow> n \<le> length dest \<Longrightarrow>
   strcpy1 dest src n = take n src @ drop n dest"
proof (induction dest src n rule: strcpy1.induct)
  case (2 d dest c source n)
  then show ?case by auto
qed auto

lemma strcpy1_cstr:
  assumes "n < length dest" and "n \<le> length s"
    and "NUL \<notin> set s"
  shows "cstr ((strcpy1 dest (s @ [NUL]) n)[n := NUL]) = take n s"
proof -
  have "strcpy1 dest (s @ [NUL]) n = take n s @ drop n dest"
    using assms by (subst strcpy1_exact) (auto dest: in_set_takeD)
  moreover have "drop n dest \<noteq> []" using assms by simp
  moreover have "NUL \<notin> set (take n s)" using assms(3) by (auto dest: in_set_takeD)
  ultimately show ?thesis
    using assms(2) by (cases "drop n dest") (simp_all add: list_update_append)
qed

text \<open>What \<open>ip_to_str\<close> writes: five fields side by side.\<close>

definition ip_wire :: "int \<Rightarrow> string \<Rightarrow> string \<Rightarrow> int \<Rightarrow> string \<Rightarrow> string" where
  "ip_wire len src dst chk data =
     int_to_str 10 len @ src @ dst @ int_to_str 8 chk @ data"

lemma write_at_front: "length cs \<le> length buf \<Longrightarrow> write_at 0 cs buf = cs @ drop (length cs) buf"
  by (simp add: write_at_def)

lemma write_at_append:
  "length pre = off \<Longrightarrow> write_at off cs (pre @ buf) = pre @ cs @ drop (length cs) buf"
  by (simp add: write_at_def)

lemma strcpy1_at_append:
  "length pre = off \<Longrightarrow> NUL \<notin> set (take n src) \<Longrightarrow> n \<le> length src \<Longrightarrow> n \<le> length buf \<Longrightarrow>
   strcpy1_at (pre @ buf) off src n = pre @ take n src @ drop n buf"
  by (simp add: strcpy1_at_def strcpy1_exact)

lemma ip_to_str_wire:
  assumes src: "length (ip_src_ip p) \<ge> 16" "NUL \<notin> set (take 16 (ip_src_ip p))"
    and dst: "length (ip_dst_ip p) \<ge> 16" "NUL \<notin> set (take 16 (ip_dst_ip p))"
    and data: "ip_data p = Some d" "NUL \<notin> set d"
    and len: "total_length p = 50 + int (length d)"
    and chk: "0 \<le> sint (header_checksum p)"
  shows "ip_to_str (Some b) p
    = Some (ip_wire (total_length p) (take 16 (ip_src_ip p)) (take 16 (ip_dst_ip p))
              (sint (header_checksum p)) d)"
proof -
  let ?n = "50 + length d"
  let ?L = "int_to_str 10 (total_length p)"
  let ?S = "take 16 (ip_src_ip p)" and ?D = "take 16 (ip_dst_ip p)"
  let ?C = "int_to_str 8 (sint (header_checksum p))"
  define z where "z = block_cells b (?n + 1)"
  have z: "length z = ?n + 1" by (simp add: z_def)
  have n: "nat (total_length p) = ?n" using len by simp
  have 1: "write_at 0 ?L z = ?L @ drop 10 z"
    using z by (subst write_at_front) simp_all
  have 2: "strcpy1_at (?L @ drop 10 z) 10 (ip_src_ip p) 16 = (?L @ ?S) @ drop 26 z"
    using z src by (subst strcpy1_at_append) (simp_all)
  have 3: "strcpy1_at ((?L @ ?S) @ drop 26 z) 26 (ip_dst_ip p) 16 = (?L @ ?S @ ?D) @ drop 42 z"
    using z dst src by (subst strcpy1_at_append) (simp_all)
  have 4: "write_at 42 ?C ((?L @ ?S @ ?D) @ drop 42 z) = (?L @ ?S @ ?D @ ?C) @ drop 50 z"
    using z dst src by (subst write_at_append) (simp_all)
  have 5: "strcpy1_at ((?L @ ?S @ ?D @ ?C) @ drop 50 z) 50 (d @ [NUL]) (length d)
      = (?L @ ?S @ ?D @ ?C @ d) @ drop ?n z"
    using z dst src data by (subst strcpy1_at_append) (simp_all add: add.commute)
  let ?w = "?L @ ?S @ ?D @ ?C @ d"
  have lw: "length ?w = ?n" using src dst by simp
  have ne: "drop ?n z = [z ! ?n]" using z by (intro drop_last_cell) simp
  have w: "NUL \<notin> set ?w"
    using src(2) dst(2) data(2) len chk by (simp add: int_to_str_digits(1))
  have "(?w @ drop ?n z)[?n := NUL] = ?w @ [NUL]"
    using lw ne by (simp only: list_update_append) simp
  then have "cstr ((?w @ drop ?n z)[?n := NUL]) = ?w"
    by (simp only: cstr_append_NUL [OF w])
  then show ?thesis
    using 1 2 3 4 5 by (simp add: ip_to_str_def n Let_def z_def ip_wire_def data(1))
qed

lemma str_to_ip_wire:
  assumes src: "length src = 16" "NUL \<notin> set src" and dst: "length dst = 16" "NUL \<notin> set dst"
    and data: "data \<noteq> []" "NUL \<notin> set data" and len: "50 + int (length data) < 2147483648"
    and chk: "0 \<le> chk" "chk < 10 ^ 8"
  shows "\<exists>q. str_to_ip (Some b) (Some b') (ip_wire (50 + int (length data)) src dst chk data)
       = Returns (Some q)
     \<and> total_length q = 50 + int (length data)
     \<and> ip_src_ip q = src @ [NUL] \<and> ip_dst_ip q = dst @ [NUL]
     \<and> header_checksum q = word_of_int chk \<and> ip_data q = Some data"
proof -
  let ?len = "50 + int (length data)"
  define wire where "wire = ip_wire ?len src dst chk data"
  define mem where "mem = wire @ [NUL]"
  have m0: "mem = int_to_str 10 ?len @ (src @ dst @ int_to_str 8 chk @ data @ [NUL])"
    by (simp add: mem_def wire_def ip_wire_def)
  have m42: "drop 42 mem = int_to_str 8 chk @ (data @ [NUL])"
    using src dst by (simp add: m0)
  have w50: "\<not> length wire < 50" using src dst by (simp add: wire_def ip_wire_def)
  have l: "str_to_int mem 10 = word_of_int ?len"
    unfolding m0 using len by (intro str_to_int_of_int_to_str) auto
  have sl: "sint (word_of_int ?len :: c_int) = ?len"
    using len by (intro sint_word_of_int_32) auto
  have ds: "sint (word_of_int ?len - 50 :: c_int) = int (length data)"
  proof -
    have "(word_of_int ?len - 50 :: c_int) = word_of_int (int (length data))" by simp
    then show ?thesis using len by (simp only:) (intro sint_word_of_int_32; simp)
  qed
  have c: "str_to_int (drop 42 mem) 8 = word_of_int chk"
    unfolding m42 using chk by (intro str_to_int_of_int_to_str) auto
  have s: "(strcpy1 (block_cells b 17) (drop 10 mem) 16)[16 := NUL] = src @ [NUL]"
    using src by (subst strcpy1_exact) (auto simp: m0 list_update_append drop_last_cell)
  have d: "(strcpy1 (block_cells b 17) (drop 26 mem) 16)[16 := NUL] = dst @ [NUL]"
    using src dst by (subst strcpy1_exact) (auto simp: m0 list_update_append drop_last_cell)
  have dt: "cstr ((strcpy1 (block_cells b' (length data + 1)) (drop 50 mem) (length data))[length data := NUL])
      = data"
  proof -
    have "drop 50 mem = data @ [NUL]" using src dst by (simp add: m0)
    then show ?thesis using data by (simp add: strcpy1_cstr)
  qed
  have pos: "0 < int (length data)" using data by simp
  show ?thesis
    unfolding str_to_ip_def wire_def [symmetric] mem_def [symmetric] Let_def l ds sl c
    using w50 pos dt s d by (simp add: nat_add_distrib)
qed

section \<open>Properties\<close>

text \<open>
  A packet made by \<open>create_ip_packet\<close> survives the wire: its text parses back to a packet with
  the same length, addresses and data and a correct checksum.
\<close>

theorem ip_packet_roundtrip:
  assumes "length src = 16" and "NUL \<notin> set src" and "length dst = 16" and "NUL \<notin> set dst"
    and "data \<noteq> []" and "NUL \<notin> set data" and "length data < 2147483598"
  shows "\<exists>p text q. create_ip_packet (Some b) src dst data = Returns (Some p)
     \<and> ip_to_str (Some b1) p = Some text \<and> length text = 50 + length data
     \<and> str_to_ip (Some b2) (Some b3) text = Returns (Some q)
     \<and> total_length q = total_length p \<and> cstr (ip_src_ip q) = src \<and> cstr (ip_dst_ip q) = dst
     \<and> ip_data q = Some data \<and> header_checksum q = calc_ip_checksum q"
proof -
  define p where "p = \<lparr>total_length = 50 + int (length data),
     ip_src_ip = strcpy1 (block_cells b 17) (src @ [NUL]) 16,
     ip_dst_ip = strcpy1 (block_cells b 17) (dst @ [NUL]) 16, header_checksum = 5, ip_data = Some data\<rparr>"
  have p: "create_ip_packet (Some b) src dst data = Returns (Some p)"
    using assms by (simp add: create_ip_packet_def p_def calc_ip_checksum_def)
  have f: "take 16 (ip_src_ip p) = src" "length (ip_src_ip p) = 17"
    "take 16 (ip_dst_ip p) = dst" "length (ip_dst_ip p) = 17"
    using assms by (auto simp: p_def strcpy1_exact)
  have s5: "sint (5 :: c_int) = 5" by simp
  have t: "ip_to_str (Some b1) p = Some (ip_wire (50 + int (length data)) src dst 5 data)"
    using ip_to_str_wire [of p data b1] f assms s5 by (simp add: p_def)
  have l: "length (ip_wire (50 + int (length data)) src dst 5 data) = 50 + length data"
    using assms by (simp add: ip_wire_def)
  have len: "50 + int (length data) < 2147483648" using assms(7) by linarith
  from str_to_ip_wire [of src dst data 5 b2 b3] assms len obtain q where
    q: "str_to_ip (Some b2) (Some b3) (ip_wire (50 + int (length data)) src dst 5 data) = Returns (Some q)"
      "total_length q = 50 + int (length data)" "ip_src_ip q = src @ [NUL]" "ip_dst_ip q = dst @ [NUL]"
      "header_checksum q = word_of_int 5" "ip_data q = Some data" by auto
  show ?thesis
    using p t l q assms by (simp add: calc_ip_checksum_def p_def)
qed

lemma ip_packet_roundtrip_witness:
  "\<exists>p text q. create_ip_packet (Some (\<lambda>_. NUL)) ''1111111111111111'' ''2222222222222222'' ''hello'' = Returns (Some p)
     \<and> ip_to_str (Some (\<lambda>_. NUL)) p = Some text \<and> length text = 50 + length ''hello''
     \<and> str_to_ip (Some (\<lambda>_. NUL)) (Some (\<lambda>_. NUL)) text = Returns (Some q)
     \<and> total_length q = total_length p \<and> cstr (ip_src_ip q) = ''1111111111111111''
     \<and> cstr (ip_dst_ip q) = ''2222222222222222''
     \<and> ip_data q = Some ''hello'' \<and> header_checksum q = calc_ip_checksum q"
  by (rule ip_packet_roundtrip) simp_all

end
