(* ===== verification/Socket_Types.thy ===== *)
theory Socket_Types imports Array_Queue Functions begin

text \<open>
  The data of src/util_types.h and src/network.h: socket identifiers, the states of a
  connection, sockets, and the constants of src/socket_utils.h.  The field \<open>id\<close> of a socket
  identifier is left out: no function reads or writes it.  The two window arrays of a socket
  are never \<open>NULL\<close> once it exists (\<open>create_new_socket\<close> gives up otherwise), so they are lists;
  \<open>send_window\<close> is an option because the code keeps testing it.
\<close>

section \<open>Constants\<close>

definition MAX_IP_LENGTH :: nat where "MAX_IP_LENGTH = 16"
definition MAX_WINDOW_SIZE :: nat where "MAX_WINDOW_SIZE = 1024"
definition EMPTY_PORT :: c_int where "EMPTY_PORT = 0"
definition SOCKET_TIMEOUT :: int where "SOCKET_TIMEOUT = 10"
definition SOCKET_SEND_AGAIN_TIME :: int where "SOCKET_SEND_AGAIN_TIME = 3"
definition SOCKET_FIN_RST_TIME :: int where "SOCKET_FIN_RST_TIME = 8"
definition SOCKET_TIME_WAIT_TIMEOUT :: int where "SOCKET_TIME_WAIT_TIMEOUT = 1"
definition MAX_DATA_PER_PACKET :: nat where "MAX_DATA_PER_PACKET = 128"

text \<open>
  \<open>DIFF2SEC(diff) > n\<close>: a difference of \<open>clock()\<close> values, in double precision seconds, against a
  whole number of seconds.  POSIX fixes \<open>CLOCKS_PER_SEC\<close> at a million.
\<close>

definition CLOCKS_PER_SEC :: int where "CLOCKS_PER_SEC = 1000000"

definition DIFF2SEC_gt :: "int \<Rightarrow> int \<Rightarrow> bool" where
  "DIFF2SEC_gt diff n \<longleftrightarrow> diff > n * CLOCKS_PER_SEC"

section \<open>States\<close>

datatype SocketState = CONNECTED_SOCKET | BOUND_ONLY_SOCKET | EMPTY_SOCKET | INVALID_SOCKET

datatype TCPState = CLOSED | LISTEN | SYN_SENT | SYN_RECEIVED | ESTABLISED | CLOSE_WAIT
  | LAST_ACK | FIN_WAIT_1 | FIN_WAIT_2 | CLOSING | TIME_WAIT

text \<open>The finitely many states, so that statements over all of them are decided by evaluation.\<close>

instantiation TCPState :: enum
begin

definition enum_TCPState :: "TCPState list" where
  "enum_TCPState = [CLOSED, LISTEN, SYN_SENT, SYN_RECEIVED, ESTABLISED, CLOSE_WAIT,
                    LAST_ACK, FIN_WAIT_1, FIN_WAIT_2, CLOSING, TIME_WAIT]"

definition enum_all_TCPState :: "(TCPState \<Rightarrow> bool) \<Rightarrow> bool" where
  "enum_all_TCPState P \<longleftrightarrow> list_all P enum_class.enum"

definition enum_ex_TCPState :: "(TCPState \<Rightarrow> bool) \<Rightarrow> bool" where
  "enum_ex_TCPState P \<longleftrightarrow> list_ex P enum_class.enum"

instance
proof
  have all: "x \<in> set (enum_class.enum :: TCPState list)" for x
    by (cases x) (simp_all add: enum_TCPState_def)
  then show "UNIV = set (enum_class.enum :: TCPState list)"
    by auto
  show "distinct (enum_class.enum :: TCPState list)"
    by (simp add: enum_TCPState_def)
  show "enum_class.enum_all P = Ball UNIV P" for P :: "TCPState \<Rightarrow> bool"
    using all by (auto simp: enum_all_TCPState_def list_all_iff)
  show "enum_class.enum_ex P = Bex UNIV P" for P :: "TCPState \<Rightarrow> bool"
    using all by (auto simp: enum_ex_TCPState_def list_ex_iff)
qed

end

section \<open>Socket identifiers and sockets\<close>

record sockid =
  src_port :: c_int
  dst_port :: c_int
  src_ip :: "char list"
  dst_ip :: "char list"

record socket =
  sk_id :: "addr option"
  sk_state :: TCPState
  listen_fifo_read_end :: int
  listen_fifo_write_end :: int
  accept_fifo_write_end :: int
  out_fifo_read_end :: int
  in_fifo_write_end :: int
  end_fifo_read_end :: int
  end_fifo_write_end :: int
  send_window :: "queue option"
  seq_of_first_send_window :: c_int
  recv_window :: "char list"
  max_recv_window_size :: c_int
  seq_of_first_recv_window :: c_int
  recv_window_isvalid :: "bool list"
  max_connections :: c_int
  last_send_clock :: int
  creation_time :: int
  time_since_fin_sent :: int

text \<open>
  An address array in order: seventeen cells with a NUL among them.  What a comparison of
  identifiers sees of one is its key.
\<close>

definition wf_ip :: "char list \<Rightarrow> bool" where
  "wf_ip ip \<longleftrightarrow> length ip = MAX_IP_LENGTH + 1 \<and> terminated ip"

definition wf_sockid :: "sockid \<Rightarrow> bool" where
  "wf_sockid i \<longleftrightarrow> wf_ip (src_ip i) \<and> wf_ip (dst_ip i)"

type_synonym sock_key = "string \<times> c_int \<times> string \<times> c_int"

definition sid_key :: "sockid \<Rightarrow> sock_key" where
  "sid_key i = (cstr (src_ip i), src_port i, cstr (dst_ip i), dst_port i)"

lemma wf_sockidD [inv_dest]:
  assumes "wf_sockid i"
  shows "length (src_ip i) = 17" "terminated (src_ip i)"
    "length (dst_ip i) = 17" "terminated (dst_ip i)"
  using assms by (auto simp: wf_sockid_def wf_ip_def MAX_IP_LENGTH_def)

lemma length_cstr_wf_ip: "wf_ip ip \<Longrightarrow> length (cstr ip) \<le> 16"
  using length_cstr_terminated [of ip] by (auto simp: wf_ip_def MAX_IP_LENGTH_def)

end
