(* ===== verification/Hashmap.thy ===== *)
theory Hashmap imports Socket_Types begin

text \<open>
  src/Hashmap.c: the table of all sockets of a network manager, an array of a hundred slots
  searched from the front.  Pointers are addresses into two heaps, one of socket identifiers
  and one of sockets, because the table, the sockets and the manager share identifier objects.
  The theory states the registry contract that the manager relies on and discharges it for
  the table.
\<close>

section \<open>State and operations\<close>

type_synonym id_heap = "addr \<Rightarrow> sockid option"
type_synonym sock_heap = "addr \<Rightarrow> socket option"

definition HASH_MAP_DEFAULT_SIZE :: nat where
  "HASH_MAP_DEFAULT_SIZE = 100"

record hashmap =
  hm_size :: int
  hm_number_of_sockets :: int
  hm_table :: "addr option list"
  hm_socket_id :: "addr option list"
  hm_iterator_index :: int

text \<open>\<open>compareKeys\<close>: equal pointers, or equal fields.\<close>

definition key_eq :: "sockid \<Rightarrow> sockid \<Rightarrow> bool" where
  "key_eq i1 i2 \<longleftrightarrow> dst_port i1 = dst_port i2 \<and> strcmp_t (src_ip i1) (src_ip i2) = 0
     \<and> src_port i1 = src_port i2 \<and> strcmp_t (dst_ip i1) (dst_ip i2) = 0"

definition compareKeys :: "id_heap \<Rightarrow> addr \<Rightarrow> addr \<Rightarrow> bool" where
  "compareKeys ids key1 key2 = (if key1 = key2 then True
     else key_eq (the (ids key1)) (the (ids key2)))"

text \<open>\<open>createHashMap\<close> does not test its \<open>xmalloc\<close>.\<close>

definition createHashMap :: "bool \<Rightarrow> hashmap c_result" where
  "createHashMap allocated =
     (if allocated then
        Returns \<lparr>hm_size = int HASH_MAP_DEFAULT_SIZE, hm_number_of_sockets = 0,
                 hm_table = replicate HASH_MAP_DEFAULT_SIZE None,
                 hm_socket_id = replicate HASH_MAP_DEFAULT_SIZE None,
                 hm_iterator_index = 0\<rparr>
      else Undefined)"

definition hasKey :: "id_heap \<Rightarrow> hashmap option \<Rightarrow> addr option \<Rightarrow> bool" where
  "hasKey ids hm socketId =
     (case (hm, socketId) of
        (Some h, Some k) \<Rightarrow>
          (case find (\<lambda>i. case hm_socket_id h ! i of None \<Rightarrow> False | Some k' \<Rightarrow> compareKeys ids k' k)
                  [0..<HASH_MAP_DEFAULT_SIZE] of
             None \<Rightarrow> False | Some _ \<Rightarrow> True)
      | _ \<Rightarrow> False)"

definition insertSocket ::
  "id_heap \<Rightarrow> sock_heap \<Rightarrow> hashmap option \<Rightarrow> addr option \<Rightarrow> bool \<times> hashmap option" where
  "insertSocket ids socks hm socket =
     (case (hm, socket) of
        (Some h, Some s) \<Rightarrow>
          if hm_number_of_sockets h = int HASH_MAP_DEFAULT_SIZE then (False, Some h)
          else if hasKey ids (Some h) (sk_id (the (socks s))) then (False, Some h)
          else (case find (\<lambda>j. hm_table h ! j = None) [0..<HASH_MAP_DEFAULT_SIZE] of
                  None \<Rightarrow> (False, Some h)
                | Some j \<Rightarrow>
                    (True, Some (h\<lparr>hm_table := (hm_table h)[j := Some s],
                                   hm_socket_id := (hm_socket_id h)[j := sk_id (the (socks s))],
                                   hm_number_of_sockets := hm_number_of_sockets h + 1\<rparr>)))
      | _ \<Rightarrow> (False, hm))"

definition getHashMapSize :: "hashmap \<Rightarrow> int" where
  "getHashMapSize h = hm_size h"

definition getHashMapNumberOfSockets :: "hashmap option \<Rightarrow> int" where
  "getHashMapNumberOfSockets hm = (case hm of None \<Rightarrow> - 1 | Some h \<Rightarrow> hm_number_of_sockets h)"

definition getSocket :: "id_heap \<Rightarrow> hashmap option \<Rightarrow> addr option \<Rightarrow> addr option" where
  "getSocket ids hm key =
     (case (hm, key) of
        (Some h, Some k) \<Rightarrow>
          if getHashMapNumberOfSockets hm = 0 then None
          else if hasKey ids hm key = False then None
          else (case find (\<lambda>i. case (hm_table h ! i, hm_socket_id h ! i) of
                               (Some _, Some k') \<Rightarrow> compareKeys ids k k' | _ \<Rightarrow> False)
                       [0..<HASH_MAP_DEFAULT_SIZE] of
                  None \<Rightarrow> None | Some i \<Rightarrow> hm_table h ! i)
      | _ \<Rightarrow> None)"

definition hashmapRemove ::
  "id_heap \<Rightarrow> sock_heap \<Rightarrow> hashmap option \<Rightarrow> addr option \<Rightarrow> bool \<times> hashmap option" where
  "hashmapRemove ids socks hm key =
     (case (hm, key) of
        (Some h, Some k) \<Rightarrow>
          (case find (\<lambda>i. case hm_table h ! i of None \<Rightarrow> False
                          | Some s \<Rightarrow> compareKeys ids k (the (sk_id (the (socks s)))))
                  [0..<HASH_MAP_DEFAULT_SIZE] of
             None \<Rightarrow> (False, Some h)
           | Some i \<Rightarrow>
               (True, Some (h\<lparr>hm_table := (hm_table h)[i := None],
                              hm_socket_id := (hm_socket_id h)[i := None],
                              hm_number_of_sockets := hm_number_of_sockets h - 1\<rparr>)))
      | _ \<Rightarrow> (False, hm))"

text \<open>The iteration: the identifier found, and the table with its iterator moved.\<close>

definition hashMapGetFirst :: "hashmap option \<Rightarrow> addr option \<times> hashmap option" where
  "hashMapGetFirst hm =
     (case hm of
        None \<Rightarrow> (None, None)
      | Some h \<Rightarrow>
          (case find (\<lambda>i. hm_socket_id h ! i \<noteq> None) [0..<nat (getHashMapSize h)] of
             None \<Rightarrow> (None, Some h)
           | Some i \<Rightarrow> (hm_socket_id h ! i, Some (h\<lparr>hm_iterator_index := int i\<rparr>))))"

definition hashMapGetNext :: "hashmap option \<Rightarrow> addr option \<times> hashmap option" where
  "hashMapGetNext hm =
     (case hm of
        None \<Rightarrow> (None, None)
      | Some h \<Rightarrow>
          if hm_iterator_index h \<ge> getHashMapSize h then (None, Some h)
          else let h' = h\<lparr>hm_iterator_index := hm_iterator_index h + 1\<rparr> in
               (case find (\<lambda>i. hm_socket_id h' ! i \<noteq> None)
                       [nat (hm_iterator_index h')..<nat (getHashMapSize h')] of
                  None \<Rightarrow> (None, Some h')
                | Some i \<Rightarrow> (hm_socket_id h' ! i, Some (h'\<lparr>hm_iterator_index := int i\<rparr>))))"

section \<open>Invariant and abstraction\<close>

text \<open>
  The key of a slot, and the table as a finite map from keys to sockets.
\<close>

definition slot_key :: "id_heap \<Rightarrow> hashmap \<Rightarrow> nat \<Rightarrow> sock_key" where
  "slot_key ids h i = sid_key (the (ids (the (hm_socket_id h ! i))))"

definition used :: "hashmap \<Rightarrow> nat \<Rightarrow> bool" where
  "used h i \<longleftrightarrow> hm_table h ! i \<noteq> None"

definition hm_abs :: "id_heap \<Rightarrow> hashmap \<Rightarrow> sock_key \<Rightarrow> addr option" where
  "hm_abs ids h k =
     (case find (\<lambda>i. used h i \<and> slot_key ids h i = k) [0..<HASH_MAP_DEFAULT_SIZE] of
        None \<Rightarrow> None | Some i \<Rightarrow> hm_table h ! i)"

text \<open>A socket whose identifier is an object of the heap in good order.\<close>

definition sock_ok :: "id_heap \<Rightarrow> sock_heap \<Rightarrow> addr \<Rightarrow> bool" where
  "sock_ok ids socks a \<longleftrightarrow>
     (\<exists>s k i. socks a = Some s \<and> sk_id s = Some k \<and> ids k = Some i \<and> wf_sockid i)"

definition id_ok :: "id_heap \<Rightarrow> addr \<Rightarrow> bool" where
  "id_ok ids k \<longleftrightarrow> (\<exists>i. ids k = Some i \<and> wf_sockid i)"

definition sock_key_of :: "id_heap \<Rightarrow> sock_heap \<Rightarrow> addr \<Rightarrow> sock_key" where
  "sock_key_of ids socks a = sid_key (the (ids (the (sk_id (the (socks a))))))"

definition hm_inv :: "id_heap \<Rightarrow> sock_heap \<Rightarrow> hashmap \<Rightarrow> bool" where
  "hm_inv ids socks h \<longleftrightarrow>
     hm_size h = int HASH_MAP_DEFAULT_SIZE
   \<and> length (hm_table h) = HASH_MAP_DEFAULT_SIZE
   \<and> length (hm_socket_id h) = HASH_MAP_DEFAULT_SIZE
   \<and> hm_number_of_sockets h = int (length (filter (\<lambda>t. t \<noteq> None) (hm_table h)))
   \<and> (\<forall>i < HASH_MAP_DEFAULT_SIZE.
        (case hm_table h ! i of
           None \<Rightarrow> hm_socket_id h ! i = None
         | Some a \<Rightarrow> sock_ok ids socks a \<and> hm_socket_id h ! i = sk_id (the (socks a))))
   \<and> (\<forall>i < HASH_MAP_DEFAULT_SIZE. \<forall>j < HASH_MAP_DEFAULT_SIZE.
        used h i \<and> used h j \<and> slot_key ids h i = slot_key ids h j \<longrightarrow> i = j)"

lemma key_eq_iff: "wf_sockid a \<Longrightarrow> wf_sockid b \<Longrightarrow> key_eq a b \<longleftrightarrow> sid_key a = sid_key b"
  by (auto simp: key_eq_def sid_key_def strcmp_t_eq_0 inv_dest)

lemma compareKeys_iff:
  assumes "id_ok ids k1" and "id_ok ids k2"
  shows "compareKeys ids k1 k2 \<longleftrightarrow> sid_key (the (ids k1)) = sid_key (the (ids k2))"
  using assms by (auto simp: compareKeys_def id_ok_def key_eq_iff)

lemma hm_invD [inv_dest]:
  assumes "hm_inv ids socks h"
  shows "hm_size h = int HASH_MAP_DEFAULT_SIZE"
    and "length (hm_table h) = HASH_MAP_DEFAULT_SIZE"
    and "length (hm_socket_id h) = HASH_MAP_DEFAULT_SIZE"
    and "hm_number_of_sockets h = int (length (filter (\<lambda>t. t \<noteq> None) (hm_table h)))"
    and "\<And>i. i < HASH_MAP_DEFAULT_SIZE \<Longrightarrow> hm_table h ! i = None \<Longrightarrow> hm_socket_id h ! i = None"
    and "\<And>i a. i < HASH_MAP_DEFAULT_SIZE \<Longrightarrow> hm_table h ! i = Some a \<Longrightarrow>
           sock_ok ids socks a \<and> hm_socket_id h ! i = sk_id (the (socks a))"
    and "\<And>i j. i < HASH_MAP_DEFAULT_SIZE \<Longrightarrow> j < HASH_MAP_DEFAULT_SIZE \<Longrightarrow> used h i \<Longrightarrow> used h j \<Longrightarrow>
           slot_key ids h i = slot_key ids h j \<Longrightarrow> i = j"
  using assms unfolding hm_inv_def by (fastforce split: option.splits)+

lemma slot_facts:
  assumes "hm_inv ids socks h" and "i < HASH_MAP_DEFAULT_SIZE" and "hm_table h ! i = Some a"
  obtains k where "hm_socket_id h ! i = Some k" "sk_id (the (socks a)) = Some k" "id_ok ids k"
    "slot_key ids h i = sid_key (the (ids k))" "sock_key_of ids socks a = sid_key (the (ids k))"
  using hm_invD(6) [OF assms]
  by (auto simp: sock_ok_def id_ok_def slot_key_def sock_key_of_def)

text \<open>The abstraction finds the only slot with a key.\<close>

lemma hm_abs_eq_Some:
  assumes inv: "hm_inv ids socks h"
  shows "hm_abs ids h k = Some a \<longleftrightarrow>
    (\<exists>i < HASH_MAP_DEFAULT_SIZE. hm_table h ! i = Some a \<and> slot_key ids h i = k)"
proof
  assume "hm_abs ids h k = Some a"
  then show "\<exists>i < HASH_MAP_DEFAULT_SIZE. hm_table h ! i = Some a \<and> slot_key ids h i = k"
  proof (cases "find (\<lambda>i. used h i \<and> slot_key ids h i = k) [0..<HASH_MAP_DEFAULT_SIZE]")
    case (Some i)
    then show ?thesis
      using \<open>hm_abs ids h k = Some a\<close> find_upt_Some [OF Some] by (auto simp: hm_abs_def)
  qed (simp add: hm_abs_def)
next
  assume "\<exists>i < HASH_MAP_DEFAULT_SIZE. hm_table h ! i = Some a \<and> slot_key ids h i = k"
  then obtain i where i: "i < HASH_MAP_DEFAULT_SIZE" "hm_table h ! i = Some a" "slot_key ids h i = k"
    by blast
  let ?P = "\<lambda>i. used h i \<and> slot_key ids h i = k"
  obtain j where j: "find ?P [0..<HASH_MAP_DEFAULT_SIZE] = Some j"
    using i find_upt_None [of ?P] by (cases "find ?P [0..<HASH_MAP_DEFAULT_SIZE]") (auto simp: used_def)
  have "j = i"
    using find_upt_Some [OF j] i hm_invD(7) [OF inv, of j i] by (auto simp: used_def)
  then show "hm_abs ids h k = Some a" using j i by (simp add: hm_abs_def)
qed

lemma hm_abs_eq_None:
  assumes inv: "hm_inv ids socks h"
  shows "hm_abs ids h k = None \<longleftrightarrow>
    (\<forall>i < HASH_MAP_DEFAULT_SIZE. used h i \<longrightarrow> slot_key ids h i \<noteq> k)"
  using hm_abs_eq_Some [OF inv, of k] by (metis not_None_eq used_def)

lemma hm_abs_ext:
  assumes "hm_inv ids socks h"
    and "\<And>k a. (\<exists>i < HASH_MAP_DEFAULT_SIZE. hm_table h ! i = Some a \<and> slot_key ids h i = k)
          \<longleftrightarrow> m k = Some a"
  shows "hm_abs ids h = m"
proof
  fix k
  have "hm_abs ids h k = Some a \<longleftrightarrow> m k = Some a" for a
    using hm_abs_eq_Some [OF assms(1)] assms(2) by metis
  then show "hm_abs ids h k = m k" by (metis option.exhaust)
qed

lemma hm_count:
  assumes inv: "hm_inv ids socks h"
  shows "card (dom (hm_abs ids h)) = length (filter (\<lambda>t. t \<noteq> None) (hm_table h))"
proof -
  let ?U = "{i. i < HASH_MAP_DEFAULT_SIZE \<and> used h i}"
  have "dom (hm_abs ids h) = slot_key ids h ` ?U"
    using hm_abs_eq_Some [OF inv] by (fastforce simp: used_def image_iff)
  moreover have "inj_on (slot_key ids h) ?U"
    using hm_invD(7) [OF inv] by (auto intro!: inj_onI)
  moreover have "card ?U = length (filter (\<lambda>t. t \<noteq> None) (hm_table h))"
    using hm_invD(2) [OF inv] by (simp add: length_filter_conv_card used_def)
  ultimately show ?thesis by (simp add: card_image)
qed

section \<open>The operations over the abstraction\<close>

lemma createHashMap_inv:
  "createHashMap True = Returns h \<Longrightarrow> hm_inv ids socks h \<and> hm_abs ids h = Map.empty"
proof -
  assume "createHashMap True = Returns h"
  then have h: "hm_inv ids socks h" "\<not> used h i" if "i < HASH_MAP_DEFAULT_SIZE" for i
    using that by (auto simp: createHashMap_def hm_inv_def used_def)
  have inv: "hm_inv ids socks h" using h(1) [of 0] by (simp add: HASH_MAP_DEFAULT_SIZE_def)
  have "hm_abs ids h k = None" for k
    using hm_abs_eq_None [OF inv] h(2) by blast
  then show ?thesis using inv by blast
qed

lemma hasKey_iff:
  assumes inv: "hm_inv ids socks h" and k: "id_ok ids k"
  shows "hasKey ids (Some h) (Some k) \<longleftrightarrow> hm_abs ids h (sid_key (the (ids k))) \<noteq> None"
proof -
  let ?P = "\<lambda>i. case hm_socket_id h ! i of None \<Rightarrow> False | Some k' \<Rightarrow> compareKeys ids k' k"
  have P: "?P i \<longleftrightarrow> used h i \<and> slot_key ids h i = sid_key (the (ids k))"
    if "i < HASH_MAP_DEFAULT_SIZE" for i
  proof (cases "hm_table h ! i")
    case None
    then show ?thesis using hm_invD(5) [OF inv that] by (simp add: used_def)
  next
    case (Some a)
    from slot_facts [OF inv that Some] obtain k' where
      "hm_socket_id h ! i = Some k'" "id_ok ids k'" "slot_key ids h i = sid_key (the (ids k'))" .
    then show ?thesis using Some compareKeys_iff [OF _ k] by (simp add: used_def)
  qed
  have "hasKey ids (Some h) (Some k) \<longleftrightarrow> \<not> (\<forall>i < HASH_MAP_DEFAULT_SIZE. \<not> ?P i)"
    using find_upt_None [of ?P HASH_MAP_DEFAULT_SIZE] by (auto simp: hasKey_def split: option.splits)
  then show ?thesis
    using P hm_abs_eq_None [OF inv, of "sid_key (the (ids k))"] by auto
qed

lemma getSocket_abs:
  assumes inv: "hm_inv ids socks h" and k: "id_ok ids k"
  shows "getSocket ids (Some h) (Some k) = hm_abs ids h (sid_key (the (ids k)))"
proof (cases "hm_abs ids h (sid_key (the (ids k)))")
  case None
  then show ?thesis using hasKey_iff [OF inv k] by (simp add: getSocket_def)
next
  case (Some a)
  let ?P = "\<lambda>i. case (hm_table h ! i, hm_socket_id h ! i) of
             (Some _, Some k') \<Rightarrow> compareKeys ids k k' | _ \<Rightarrow> False"
  obtain i where i: "i < HASH_MAP_DEFAULT_SIZE" "hm_table h ! i = Some a"
      "slot_key ids h i = sid_key (the (ids k))"
    using Some hm_abs_eq_Some [OF inv] by auto
  have P: "j = i" if j: "j < HASH_MAP_DEFAULT_SIZE" and Pj: "?P j" for j
  proof -
    obtain b where b: "hm_table h ! j = Some b" using Pj by (auto split: option.splits)
    from slot_facts [OF inv j b] obtain k' where
      k': "hm_socket_id h ! j = Some k'" "id_ok ids k'" "slot_key ids h j = sid_key (the (ids k'))" .
    then have "slot_key ids h j = slot_key ids h i"
      using Pj b i(3) compareKeys_iff [OF k k'(2)] by simp
    then show ?thesis
      using hm_invD(7) [OF inv j i(1)] b i(2) by (simp add: used_def)
  qed
  have Pi: "?P i"
  proof -
    from slot_facts [OF inv i(1,2)] obtain k' where
      "hm_socket_id h ! i = Some k'" "id_ok ids k'" "slot_key ids h i = sid_key (the (ids k'))" .
    then show ?thesis using i compareKeys_iff [OF k] by simp
  qed
  have "find ?P [0..<HASH_MAP_DEFAULT_SIZE] = Some i"
  proof (cases "find ?P [0..<HASH_MAP_DEFAULT_SIZE]")
    case None
    then show ?thesis using find_upt_None [of ?P] Pi i(1) by blast
  next
    case (Some j)
    then show ?thesis using find_upt_Some [OF Some] P [of j] by blast
  qed
  moreover have "hm_number_of_sockets h \<noteq> 0"
  proof -
    have "Some a \<in> set (hm_table h)"
      using i(1,2) hm_invD(2) [OF inv] by (metis nth_mem)
    then have "filter (\<lambda>t. t \<noteq> None) (hm_table h) \<noteq> []"
      by (auto simp: filter_empty_conv)
    then show ?thesis using hm_invD(4) [OF inv] by simp
  qed
  ultimately show ?thesis
    using Some i(2) hasKey_iff [OF inv k] by (simp add: getSocket_def getHashMapNumberOfSockets_def)
qed

text \<open>One slot written: what the invariant needs.\<close>

lemma slot_key_update:
  "i < HASH_MAP_DEFAULT_SIZE \<Longrightarrow> j \<noteq> i \<Longrightarrow>
   slot_key ids (h\<lparr>hm_table := t, hm_socket_id := (hm_socket_id h)[i := x],
                   hm_number_of_sockets := n\<rparr>) j = slot_key ids h j"
  by (simp add: slot_key_def)

lemma insertSocket_new:
  assumes inv: "hm_inv ids socks h" and a: "sock_ok ids socks a"
    and fresh: "hm_abs ids h (sock_key_of ids socks a) = None"
    and room: "card (dom (hm_abs ids h)) < HASH_MAP_DEFAULT_SIZE"
  shows "\<exists>h'. insertSocket ids socks (Some h) (Some a) = (True, Some h') \<and> hm_inv ids socks h'
    \<and> hm_abs ids h' = (hm_abs ids h)(sock_key_of ids socks a \<mapsto> a)"
proof -
  note I = hm_invD [OF inv]
  let ?N = HASH_MAP_DEFAULT_SIZE
  let ?key = "sock_key_of ids socks a"
  obtain k where k: "sk_id (the (socks a)) = Some k" "id_ok ids k" "?key = sid_key (the (ids k))"
    using a by (auto simp: sock_ok_def id_ok_def sock_key_of_def)
  have cnt: "length (filter (\<lambda>t. t \<noteq> None) (hm_table h)) < ?N"
    using room hm_count [OF inv] by simp
  have "\<exists>j < ?N. hm_table h ! j = None"
  proof (rule ccontr)
    assume "\<not> ?thesis"
    then have "\<forall>t \<in> set (hm_table h). t \<noteq> None" using I(2) by (auto simp: in_set_conv_nth)
    then have "filter (\<lambda>t. t \<noteq> None) (hm_table h) = hm_table h" by (simp add: filter_id_conv)
    then show False using cnt I(2) by simp
  qed
  then obtain j where j: "find (\<lambda>j. hm_table h ! j = None) [0..<?N] = Some j"
    using find_upt_None [of "\<lambda>j. hm_table h ! j = None" ?N] by (metis not_None_eq)
  have jN: "j < ?N" "hm_table h ! j = None" using find_upt_Some [OF j] by auto
  define h' where "h' = h\<lparr>hm_table := (hm_table h)[j := Some a],
     hm_socket_id := (hm_socket_id h)[j := Some k], hm_number_of_sockets := hm_number_of_sockets h + 1\<rparr>"
  have slot: "slot_key ids h' i = (if i = j then ?key else slot_key ids h i)" if "i < ?N" for i
    using that jN(1) I(3) k(3) by (simp add: h'_def slot_key_def)
  have used': "used h' i \<longleftrightarrow> i = j \<or> used h i" if "i < ?N" for i
    using that jN I(2) by (simp add: h'_def used_def nth_list_update)
  have tab: "hm_table h' ! i = (if i = j then Some a else hm_table h ! i)" if "i < ?N" for i
    using that I(2) by (simp add: h'_def nth_list_update)
  have no: "slot_key ids h i \<noteq> ?key" if "i < ?N" "used h i" for i
    using fresh hm_abs_eq_None [OF inv] that by blast
  have inv': "hm_inv ids socks h'"
    unfolding hm_inv_def
  proof (intro conjI allI impI)
    show "hm_number_of_sockets h' = int (length (filter (\<lambda>t. t \<noteq> None) (hm_table h')))"
      using count_filter_update [of j "hm_table h" "\<lambda>t. t \<noteq> None" "Some a"] jN I(2,4)
      by (simp add: h'_def)
    show "i = i'" if "i < ?N" "i' < ?N"
      "used h' i \<and> used h' i' \<and> slot_key ids h' i = slot_key ids h' i'" for i i'
      using that slot used' no I(7) [of i i'] by (metis (full_types))
    show "case hm_table h' ! i of None \<Rightarrow> hm_socket_id h' ! i = None
         | Some b \<Rightarrow> sock_ok ids socks b \<and> hm_socket_id h' ! i = sk_id (the (socks b))"
      if "i < ?N" for i
      using that I(2,3) I(5) [OF that] I(6) [OF that] a k(1) jN(1)
      by (auto simp: h'_def nth_list_update split: option.splits)
  qed (use I in \<open>simp_all add: h'_def\<close>)
  have "hm_abs ids h' = (hm_abs ids h)(?key \<mapsto> a)"
  proof (rule hm_abs_ext [OF inv'])
    fix k' b
    show "(\<exists>i < ?N. hm_table h' ! i = Some b \<and> slot_key ids h' i = k')
        \<longleftrightarrow> ((hm_abs ids h)(?key \<mapsto> a)) k' = Some b"
    proof (cases "k' = ?key")
      case True
      then have "(\<exists>i < ?N. hm_table h' ! i = Some b \<and> slot_key ids h' i = k') \<longleftrightarrow> b = a"
        using slot no jN(1) tab by (metis not_None_eq option.inject used_def)
      then show ?thesis using True by auto
    next
      case False
      then have "(\<exists>i < ?N. hm_table h' ! i = Some b \<and> slot_key ids h' i = k')
        \<longleftrightarrow> (\<exists>i < ?N. hm_table h ! i = Some b \<and> slot_key ids h i = k')"
        using slot jN tab by (metis option.distinct(1))
      then show ?thesis using False hm_abs_eq_Some [OF inv] by simp
    qed
  qed
  moreover have "insertSocket ids socks (Some h) (Some a) = (True, Some h')"
    using cnt I(4) k hasKey_iff [OF inv k(2)] fresh j by (simp add: insertSocket_def h'_def)
  ultimately show ?thesis using inv' by blast
qed

lemma insertSocket_refused:
  assumes inv: "hm_inv ids socks h" and a: "sock_ok ids socks a"
    and "hm_abs ids h (sock_key_of ids socks a) \<noteq> None
         \<or> card (dom (hm_abs ids h)) = HASH_MAP_DEFAULT_SIZE"
  shows "insertSocket ids socks (Some h) (Some a) = (False, Some h)"
proof -
  obtain k where k: "sk_id (the (socks a)) = Some k" "id_ok ids k"
      "sock_key_of ids socks a = sid_key (the (ids k))"
    using a by (auto simp: sock_ok_def id_ok_def sock_key_of_def)
  then show ?thesis
    using assms(3) hasKey_iff [OF inv k(2)] hm_count [OF inv] hm_invD(4) [OF inv]
    by (auto simp: insertSocket_def)
qed

lemma hashmapRemove_none:
  assumes inv: "hm_inv ids socks h" and k: "id_ok ids k"
    and none: "hm_abs ids h (sid_key (the (ids k))) = None"
  shows "hashmapRemove ids socks (Some h) (Some k) = (False, Some h)"
proof -
  let ?P = "\<lambda>i. case hm_table h ! i of None \<Rightarrow> False
              | Some s \<Rightarrow> compareKeys ids k (the (sk_id (the (socks s))))"
  have "\<not> ?P i" if "i < HASH_MAP_DEFAULT_SIZE" for i
  proof (cases "hm_table h ! i")
    case (Some a)
    from slot_facts [OF inv that Some] obtain k' where
      k': "sk_id (the (socks a)) = Some k'" "id_ok ids k'" "slot_key ids h i = sid_key (the (ids k'))" .
    then have "slot_key ids h i \<noteq> sid_key (the (ids k))"
      using none hm_abs_eq_None [OF inv] that Some by (auto simp: used_def)
    then show ?thesis using Some k' compareKeys_iff [OF k k'(2)] by simp
  qed simp
  then have "find ?P [0..<HASH_MAP_DEFAULT_SIZE] = None"
    using find_upt_None [of ?P] by blast
  then show ?thesis by (simp add: hashmapRemove_def)
qed

lemma hashmapRemove_some:
  assumes inv: "hm_inv ids socks h" and k: "id_ok ids k"
    and some: "hm_abs ids h (sid_key (the (ids k))) = Some a"
  shows "\<exists>h'. hashmapRemove ids socks (Some h) (Some k) = (True, Some h') \<and> hm_inv ids socks h'
    \<and> hm_abs ids h' = (hm_abs ids h)(sid_key (the (ids k)) := None)"
proof -
  note I = hm_invD [OF inv]
  let ?N = HASH_MAP_DEFAULT_SIZE
  let ?key = "sid_key (the (ids k))"
  let ?P = "\<lambda>i. case hm_table h ! i of None \<Rightarrow> False
              | Some s \<Rightarrow> compareKeys ids k (the (sk_id (the (socks s))))"
  have P: "?P i \<longleftrightarrow> used h i \<and> slot_key ids h i = ?key" if "i < ?N" for i
  proof (cases "hm_table h ! i")
    case (Some b)
    from slot_facts [OF inv that Some] obtain k' where
      "sk_id (the (socks b)) = Some k'" "id_ok ids k'" "slot_key ids h i = sid_key (the (ids k'))" .
    then show ?thesis using Some compareKeys_iff [OF k] by (auto simp: used_def)
  qed (simp add: used_def)
  obtain i where i: "i < ?N" "hm_table h ! i = Some a" "slot_key ids h i = ?key"
    using some hm_abs_eq_Some [OF inv] by auto
  have fi: "find ?P [0..<?N] = Some i"
  proof (cases "find ?P [0..<?N]")
    case None
    then show ?thesis using find_upt_None [of ?P] P [of i] i by (auto simp: used_def)
  next
    case (Some j)
    then have "j < ?N" "used h j" "slot_key ids h j = ?key"
      using find_upt_Some [OF Some] P [of j] by auto
    then show ?thesis using Some I(7) [of j i] i by (simp add: used_def)
  qed
  define h' where "h' = h\<lparr>hm_table := (hm_table h)[i := None],
     hm_socket_id := (hm_socket_id h)[i := None], hm_number_of_sockets := hm_number_of_sockets h - 1\<rparr>"
  have slot: "slot_key ids h' j = slot_key ids h j" if "j < ?N" "j \<noteq> i" for j
    using that by (simp add: h'_def slot_key_def)
  have tab: "hm_table h' ! j = (if j = i then None else hm_table h ! j)" if "j < ?N" for j
    using that I(2) by (simp add: h'_def nth_list_update)
  have used': "used h' j \<longleftrightarrow> j \<noteq> i \<and> used h j" if "j < ?N" for j
    using that i(1) I(2) by (simp add: h'_def used_def nth_list_update)
  have inv': "hm_inv ids socks h'"
    unfolding hm_inv_def
  proof (intro conjI allI impI)
    show "hm_number_of_sockets h' = int (length (filter (\<lambda>t. t \<noteq> None) (hm_table h')))"
      using count_filter_update [of i "hm_table h" "\<lambda>t. t \<noteq> None" None] i I(2,4)
      by (simp add: h'_def)
    show "j = j'" if "j < ?N" "j' < ?N"
      "used h' j \<and> used h' j' \<and> slot_key ids h' j = slot_key ids h' j'" for j j'
      using that slot used' I(7) [of j j'] by auto
    show "case hm_table h' ! j of None \<Rightarrow> hm_socket_id h' ! j = None
         | Some b \<Rightarrow> sock_ok ids socks b \<and> hm_socket_id h' ! j = sk_id (the (socks b))"
      if "j < ?N" for j
      using that I(2,3) I(5) [OF that] I(6) [OF that] i(1)
      by (auto simp: h'_def nth_list_update split: option.splits)
  qed (use I in \<open>simp_all add: h'_def\<close>)
  have "hm_abs ids h' = (hm_abs ids h)(?key := None)"
  proof (rule hm_abs_ext [OF inv'])
    fix k' b
    have "(\<exists>j < ?N. hm_table h' ! j = Some b \<and> slot_key ids h' j = k')
        \<longleftrightarrow> (\<exists>j < ?N. j \<noteq> i \<and> hm_table h ! j = Some b \<and> slot_key ids h j = k')"
    proof -
      have "hm_table h' ! j = Some b \<and> slot_key ids h' j = k'
          \<longleftrightarrow> j \<noteq> i \<and> hm_table h ! j = Some b \<and> slot_key ids h j = k'" if "j < ?N" for j
        using slot [OF that] tab [OF that] by auto
      then show ?thesis by blast
    qed
    also have "\<dots> \<longleftrightarrow> k' \<noteq> ?key \<and> hm_abs ids h k' = Some b"
    proof -
      have uq: "j \<noteq> i \<longleftrightarrow> slot_key ids h j \<noteq> ?key" if "j < ?N" "hm_table h ! j = Some b" for j
      proof -
        have "used h j" "used h i" using that(2) i(2) by (simp_all add: used_def)
        then show ?thesis using I(7) [OF that(1) i(1)] i(3) by metis
      qed
      show ?thesis
        unfolding hm_abs_eq_Some [OF inv, of k' b] using uq by blast
    qed
    also have "\<dots> \<longleftrightarrow> ((hm_abs ids h)(?key := None)) k' = Some b" by auto
    finally show "(\<exists>j < ?N. hm_table h' ! j = Some b \<and> slot_key ids h' j = k')
        \<longleftrightarrow> ((hm_abs ids h)(?key := None)) k' = Some b" .
  qed
  moreover have "hashmapRemove ids socks (Some h) (Some k) = (True, Some h')"
    using fi by (simp add: hashmapRemove_def h'_def)
  ultimately show ?thesis using inv' by blast
qed

section \<open>The registry contract\<close>

text \<open>
  What the network manager relies on: a finite map from keys to sockets of bounded size, in
  which a key is registered at most once.  Key arguments and values are pointers, so the
  contract speaks about those that point to objects in good order.
\<close>

datatype ('p, 'v) reg_op = Look 'p | Register 'v | Unregister 'p

datatype 'v reg_answer = Found "'v option" | Done bool

fun reg_spec :: "nat \<Rightarrow> ('p \<Rightarrow> 'k) \<Rightarrow> ('v \<Rightarrow> 'k) \<Rightarrow> ('k \<rightharpoonup> 'v) \<Rightarrow> ('p, 'v) reg_op
    \<Rightarrow> 'v reg_answer \<times> ('k \<rightharpoonup> 'v)" where
  "reg_spec cap pkey vkey m (Look p) = (Found (m (pkey p)), m)"
| "reg_spec cap pkey vkey m (Register v) =
     (if m (vkey v) = None \<and> card (dom m) < cap then (Done True, m(vkey v \<mapsto> v)) else (Done False, m))"
| "reg_spec cap pkey vkey m (Unregister p) =
     (if m (pkey p) = None then (Done False, m) else (Done True, m(pkey p := None)))"

fun reg_impl :: "('m \<Rightarrow> 'p \<Rightarrow> 'v option) \<Rightarrow> ('m \<Rightarrow> 'v \<Rightarrow> bool \<times> 'm) \<Rightarrow> ('m \<Rightarrow> 'p \<Rightarrow> bool \<times> 'm)
    \<Rightarrow> 'm \<Rightarrow> ('p, 'v) reg_op \<Rightarrow> 'v reg_answer \<times> 'm" where
  "reg_impl get ins del m (Look p) = (Found (get m p), m)"
| "reg_impl get ins del m (Register v) = (let (b, m') = ins m v in (Done b, m'))"
| "reg_impl get ins del m (Unregister p) = (let (b, m') = del m p in (Done b, m'))"

fun reg_op_ok :: "('p \<Rightarrow> bool) \<Rightarrow> ('v \<Rightarrow> bool) \<Rightarrow> ('p, 'v) reg_op \<Rightarrow> bool" where
  "reg_op_ok okp okv (Look p) = okp p"
| "reg_op_ok okp okv (Register v) = okv v"
| "reg_op_ok okp okv (Unregister p) = okp p"

locale socket_registry =
  fixes inv :: "'m \<Rightarrow> bool"
    and abs :: "'m \<Rightarrow> 'k \<Rightarrow> 'v option"
    and cap :: nat
    and pkey :: "'p \<Rightarrow> 'k" and okp :: "'p \<Rightarrow> bool"
    and vkey :: "'v \<Rightarrow> 'k" and okv :: "'v \<Rightarrow> bool"
    and get :: "'m \<Rightarrow> 'p \<Rightarrow> 'v option"
    and ins :: "'m \<Rightarrow> 'v \<Rightarrow> bool \<times> 'm"
    and del :: "'m \<Rightarrow> 'p \<Rightarrow> bool \<times> 'm"
  assumes bounded: "inv m \<Longrightarrow> card (dom (abs m)) \<le> cap"
    and get_abs: "inv m \<Longrightarrow> okp p \<Longrightarrow> get m p = abs m (pkey p)"
    and ins_new: "inv m \<Longrightarrow> okv v \<Longrightarrow> abs m (vkey v) = None \<Longrightarrow> card (dom (abs m)) < cap \<Longrightarrow>
      \<exists>m'. ins m v = (True, m') \<and> inv m' \<and> abs m' = (abs m)(vkey v \<mapsto> v)"
    and ins_refused: "inv m \<Longrightarrow> okv v \<Longrightarrow> abs m (vkey v) \<noteq> None \<or> card (dom (abs m)) = cap \<Longrightarrow>
      ins m v = (False, m)"
    and del_some: "inv m \<Longrightarrow> okp p \<Longrightarrow> abs m (pkey p) = Some v \<Longrightarrow>
      \<exists>m'. del m p = (True, m') \<and> inv m' \<and> abs m' = (abs m)(pkey p := None)"
    and del_none: "inv m \<Longrightarrow> okp p \<Longrightarrow> abs m (pkey p) = None \<Longrightarrow> del m p = (False, m)"
begin

lemma step_refines:
  assumes "inv m" and "reg_op_ok okp okv op"
  shows "\<exists>r m'. reg_impl get ins del m op = (r, m') \<and> inv m'
    \<and> reg_spec cap pkey vkey (abs m) op = (r, abs m')"
proof (cases op)
  case (Look p)
  then show ?thesis using assms get_abs by simp
next
  case (Register v)
  show ?thesis
  proof (cases "abs m (vkey v) = None \<and> card (dom (abs m)) < cap")
    case True
    with ins_new [of m v] assms Register show ?thesis by auto
  next
    case False
    then have "abs m (vkey v) \<noteq> None \<or> card (dom (abs m)) = cap"
      using bounded [OF assms(1)] by auto
    with ins_refused [of m v] False assms Register show ?thesis by auto
  qed
next
  case (Unregister p)
  then show ?thesis
    using del_some [of m p] del_none [of m p] assms by (cases "abs m (pkey p)") auto
qed

end

sublocale socket_registry \<subseteq> requests: data_refinement inv "reg_op_ok okp okv" abs "reg_impl get ins del" "reg_spec cap pkey vkey"
  by unfold_locales (rule step_refines)

text \<open>The table as such a registry, for any two heaps.\<close>

definition reg_insert :: "id_heap \<Rightarrow> sock_heap \<Rightarrow> hashmap \<Rightarrow> addr \<Rightarrow> bool \<times> hashmap" where
  "reg_insert ids socks h a = (let (b, h') = insertSocket ids socks (Some h) (Some a) in (b, the h'))"

definition reg_remove :: "id_heap \<Rightarrow> sock_heap \<Rightarrow> hashmap \<Rightarrow> addr \<Rightarrow> bool \<times> hashmap" where
  "reg_remove ids socks h k = (let (b, h') = hashmapRemove ids socks (Some h) (Some k) in (b, the h'))"

definition reg_lookup :: "id_heap \<Rightarrow> hashmap \<Rightarrow> addr \<Rightarrow> addr option" where
  "reg_lookup ids h k = getSocket ids (Some h) (Some k)"

definition id_key :: "id_heap \<Rightarrow> addr \<Rightarrow> sock_key" where
  "id_key ids k = sid_key (the (ids k))"

lemma hm_bounded:
  assumes "hm_inv ids socks h"
  shows "card (dom (hm_abs ids h)) \<le> HASH_MAP_DEFAULT_SIZE"
  using hm_count [OF assms] hm_invD(2) [OF assms] length_filter_le by metis

interpretation hr: socket_registry "hm_inv ids socks" "hm_abs ids" HASH_MAP_DEFAULT_SIZE
  "id_key ids" "id_ok ids" "sock_key_of ids socks" "sock_ok ids socks"
  "reg_lookup ids" "reg_insert ids socks" "reg_remove ids socks"
  for ids socks
proof unfold_locales
  fix h a
  assume "hm_inv ids socks h" "sock_ok ids socks a" "hm_abs ids h (sock_key_of ids socks a) = None"
    "card (dom (hm_abs ids h)) < HASH_MAP_DEFAULT_SIZE"
  then show "\<exists>h'. reg_insert ids socks h a = (True, h') \<and> hm_inv ids socks h'
      \<and> hm_abs ids h' = (hm_abs ids h)(sock_key_of ids socks a \<mapsto> a)"
    using insertSocket_new [of ids socks h a] by (auto simp: reg_insert_def)
next
  fix h k a
  assume "hm_inv ids socks h" "id_ok ids k" "hm_abs ids h (id_key ids k) = Some a"
  then show "\<exists>h'. reg_remove ids socks h k = (True, h') \<and> hm_inv ids socks h'
      \<and> hm_abs ids h' = (hm_abs ids h)(id_key ids k := None)"
    using hashmapRemove_some [of ids socks h k a] by (auto simp: reg_remove_def id_key_def)
qed (auto simp: reg_insert_def reg_remove_def reg_lookup_def id_key_def hm_bounded getSocket_abs
       insertSocket_refused hashmapRemove_none)

section \<open>Iteration\<close>

text \<open>\<open>HASH_MAP_FOREACH\<close> with a body that leaves the table alone: the identifiers it visits.\<close>

function foreach_from :: "addr option \<Rightarrow> hashmap option \<Rightarrow> addr list" where
  "foreach_from sock_id hm =
     (case sock_id of
        None \<Rightarrow> []
      | Some k \<Rightarrow> let (sock_id', hm') = hashMapGetNext hm in k # foreach_from sock_id' hm')"
  by pat_completeness auto
termination
proof (relation "measure (\<lambda>(item, hm). case item of None \<Rightarrow> 0 | Some _ \<Rightarrow>
    (case hm of None \<Rightarrow> 1 | Some h \<Rightarrow> Suc (nat (hm_size h - hm_iterator_index h))))")
  fix sock_id :: "addr option" and hm k x item' hm'
  assume "sock_id = Some k" and "x = hashMapGetNext hm" and "(item', hm') = x"
  then show "((item', hm'), sock_id, hm) \<in> measure (\<lambda>(item, hm). case item of None \<Rightarrow> 0 | Some _ \<Rightarrow>
    (case hm of None \<Rightarrow> 1 | Some h \<Rightarrow> Suc (nat (hm_size h - hm_iterator_index h))))"
    by (auto simp: hashMapGetNext_def getHashMapSize_def Let_def split: option.splits if_splits
        dest!: find_SomeD(1))
qed simp

declare foreach_from.simps [simp del]

definition HASH_MAP_FOREACH :: "hashmap option \<Rightarrow> addr list" where
  "HASH_MAP_FOREACH hm = (let (item, hm') = hashMapGetFirst hm in foreach_from item hm')"

lemma find_filter_upt:
  "m \<le> n \<Longrightarrow> (case find P [m..<n] of
      None \<Rightarrow> filter P [m..<n] = []
    | Some i \<Rightarrow> m \<le> i \<and> i < n \<and> filter P [m..<n] = i # filter P [Suc i..<n])"
proof (induction m rule: inc_induct)
  case (step m)
  then show ?case
    by (auto simp: upt_conv_Cons split: option.splits)
qed simp

lemma foreach_from_eq:
  assumes "hm_size h = int n" and "hm_iterator_index h = int i" and "i < n"
  shows "foreach_from (Some k) (Some h)
    = k # map (\<lambda>j. the (hm_socket_id h ! j)) (filter (\<lambda>j. hm_socket_id h ! j \<noteq> None) [Suc i..<n])"
  using assms
proof (induction "n - i" arbitrary: i h k rule: less_induct)
  case less
  let ?P = "\<lambda>j. hm_socket_id h ! j \<noteq> None"
  have nxt: "nat (int i + 1) = Suc i" by simp
  note F = find_filter_upt [of "Suc i" n ?P]
  show ?case
  proof (cases "find ?P [Suc i..<n]")
    case None
    then show ?thesis
      using less.prems F nxt
      by (simp add: foreach_from.simps [of "Some k"] foreach_from.simps [of None]
          hashMapGetNext_def getHashMapSize_def Let_def)
  next
    case (Some j)
    let ?h = "h\<lparr>hm_iterator_index := int j\<rparr>"
    have j: "Suc i \<le> j" "j < n" "filter ?P [Suc i..<n] = j # filter ?P [Suc j..<n]"
      using F Some less.prems(3) by auto
    have "?P j" using find_SomeD(2) [OF Some] .
    then obtain k' where k': "hm_socket_id h ! j = Some k'" by blast
    have "foreach_from (Some k') (Some ?h) = k' # map (\<lambda>j. the (hm_socket_id ?h ! j))
        (filter (\<lambda>j. hm_socket_id ?h ! j \<noteq> None) [Suc j..<n])"
      by (rule less.hyps) (use less.prems j in auto)
    moreover have "hashMapGetNext (Some h) = (Some k', Some ?h)"
      using less.prems Some nxt k' by (simp add: hashMapGetNext_def getHashMapSize_def Let_def)
    ultimately show ?thesis
      using j(3) k' by (simp add: foreach_from.simps [of "Some k"])
  qed
qed

lemma filter_upt_nth:
  "map (\<lambda>i. f (xs ! i)) (filter (\<lambda>i. P (xs ! i)) [0..<length xs]) = map f (filter P xs)"
proof -
  have "map f (filter P xs) = map f (filter P (map (\<lambda>i. xs ! i) [0..<length xs]))"
    by (simp only: map_nth)
  then show ?thesis by (simp add: filter_map comp_def del: map_nth)
qed

lemma HASH_MAP_FOREACH_eq:
  assumes "hm_inv ids socks h"
  shows "HASH_MAP_FOREACH (Some h) = map the (filter (\<lambda>k. k \<noteq> None) (hm_socket_id h))"
proof -
  let ?P = "\<lambda>j. hm_socket_id h ! j \<noteq> None"
  note I = hm_invD(1,3) [OF assms]
  note F = find_filter_upt [of 0 HASH_MAP_DEFAULT_SIZE ?P]
  have all: "map (\<lambda>i. the (hm_socket_id h ! i)) (filter ?P [0..<HASH_MAP_DEFAULT_SIZE])
      = map the (filter (\<lambda>k. k \<noteq> None) (hm_socket_id h))"
    using filter_upt_nth [of the "hm_socket_id h" "\<lambda>k. k \<noteq> None"] I(2) by simp
  show ?thesis
  proof (cases "find ?P [0..<HASH_MAP_DEFAULT_SIZE]")
    case None
    then show ?thesis
      using F I all by (simp add: HASH_MAP_FOREACH_def hashMapGetFirst_def getHashMapSize_def
          foreach_from.simps [of None])
  next
    case (Some i)
    let ?h = "h\<lparr>hm_iterator_index := int i\<rparr>"
    have i: "i < HASH_MAP_DEFAULT_SIZE"
      "filter ?P [0..<HASH_MAP_DEFAULT_SIZE] = i # filter ?P [Suc i..<HASH_MAP_DEFAULT_SIZE]"
      using F Some by auto
    obtain k where k: "hm_socket_id h ! i = Some k" using find_SomeD(2) [OF Some] by blast
    have "hashMapGetFirst (Some h) = (Some k, Some ?h)"
      using Some I k by (simp add: hashMapGetFirst_def getHashMapSize_def)
    moreover have "foreach_from (Some k) (Some ?h) = k # map (\<lambda>j. the (hm_socket_id ?h ! j))
       (filter (\<lambda>j. hm_socket_id ?h ! j \<noteq> None) [Suc i..<HASH_MAP_DEFAULT_SIZE])"
      by (rule foreach_from_eq) (use I i in simp_all)
    ultimately show ?thesis
      using i(2) k all by (simp add: HASH_MAP_FOREACH_def)
  qed
qed

section \<open>Properties\<close>

definition empty_table :: hashmap where
  "empty_table = (case createHashMap True of Returns h \<Rightarrow> h)"

lemma empty_table: "hm_inv ids socks empty_table" "hm_abs ids empty_table = Map.empty"
proof -
  have "createHashMap True = Returns empty_table" by (simp add: empty_table_def createHashMap_def)
  from createHashMap_inv [OF this] show "hm_inv ids socks empty_table" "hm_abs ids empty_table = Map.empty"
    by blast+
qed

text \<open>
  C9. From its creation on, the socket table answers every sequence of lookups, insertions and
  removals as a finite map from connection endpoints to sockets does: an insertion fails exactly
  when the endpoints are registered already or a hundred sockets are, a removal exactly when
  nothing is registered under the key.  The table's invariant, with its count, holds throughout.
\<close>

theorem table_is_bounded_map:
  assumes "\<forall>op \<in> set ops. reg_op_ok (id_ok ids) (sock_ok ids socks) op"
  shows "\<exists>answers h.
     run_ops (reg_impl (reg_lookup ids) (reg_insert ids socks) (reg_remove ids socks)) empty_table ops
       = (answers, h)
   \<and> hm_inv ids socks h \<and> hm_number_of_sockets h = int (card (dom (hm_abs ids h)))
   \<and> run_ops (reg_spec 100 (id_key ids) (sock_key_of ids socks)) Map.empty ops = (answers, hm_abs ids h)"
  using hr.requests.run_refines [OF empty_table(1) assms] hm_count hm_invD(4)
  unfolding empty_table(2) HASH_MAP_DEFAULT_SIZE_def by fastforce

text \<open>Two connections of one host, as concrete objects.\<close>

definition ip_cells :: "char \<Rightarrow> char list" where
  "ip_cells c = replicate 16 c @ [NUL]"

definition example_ids :: id_heap where
  "example_ids = [0 \<mapsto> \<lparr>src_port = 80, dst_port = 9, src_ip = ip_cells (CHR ''1''), dst_ip = ip_cells (CHR ''2'')\<rparr>,
                  1 \<mapsto> \<lparr>src_port = 80, dst_port = 7, src_ip = ip_cells (CHR ''1''), dst_ip = ip_cells (CHR ''2'')\<rparr>]"

definition example_socket :: "addr \<Rightarrow> socket" where
  "example_socket k =
     \<lparr>sk_id = Some k, sk_state = ESTABLISED, listen_fifo_read_end = - 1, listen_fifo_write_end = - 1,
      accept_fifo_write_end = - 1, out_fifo_read_end = - 1, in_fifo_write_end = - 1,
      end_fifo_read_end = - 1, end_fifo_write_end = - 1, send_window = QueueCreate True,
      seq_of_first_send_window = 100, recv_window = replicate MAX_WINDOW_SIZE NUL,
      max_recv_window_size = of_nat MAX_WINDOW_SIZE, seq_of_first_recv_window = 500,
      recv_window_isvalid = replicate MAX_WINDOW_SIZE False, max_connections = 5,
      last_send_clock = 0, creation_time = 0, time_since_fin_sent = 0\<rparr>"

definition example_socks :: sock_heap where
  "example_socks = [2 \<mapsto> example_socket 0, 3 \<mapsto> example_socket 1]"

lemma wf_ip_cells: "c \<noteq> NUL \<Longrightarrow> wf_ip (ip_cells c)"
  by (simp add: wf_ip_def ip_cells_def MAX_IP_LENGTH_def)

lemma example_ok: "id_ok example_ids 0" "id_ok example_ids 1"
  "sock_ok example_ids example_socks 2" "sock_ok example_ids example_socks 3"
  by (simp_all add: id_ok_def sock_ok_def example_ids_def example_socks_def example_socket_def
      wf_sockid_def wf_ip_cells)

lemma table_is_bounded_map_witness:
  "\<exists>answers h.
     run_ops (reg_impl (reg_lookup example_ids) (reg_insert example_ids example_socks)
               (reg_remove example_ids example_socks)) empty_table
             [Register 2, Look 0, Register 2, Register 3, Unregister 0, Look 0]
       = (answers, h)
   \<and> hm_inv example_ids example_socks h \<and> hm_number_of_sockets h = int (card (dom (hm_abs example_ids h)))
   \<and> run_ops (reg_spec 100 (id_key example_ids) (sock_key_of example_ids example_socks)) Map.empty
             [Register 2, Look 0, Register 2, Register 3, Unregister 0, Look 0] = (answers, hm_abs example_ids h)"
  by (rule table_is_bounded_map) (simp add: example_ok)

text \<open>
  \<open>HASH_MAP_FOREACH\<close> over a table in order visits the identifier of every registered socket
  exactly once.
\<close>

lemma foreach_visits_each_socket_once:
  assumes "hm_inv ids socks h"
  shows "distinct (map (id_key ids) (HASH_MAP_FOREACH (Some h)))
    \<and> id_key ids ` set (HASH_MAP_FOREACH (Some h)) = dom (hm_abs ids h)"
proof -
  let ?L = "HASH_MAP_FOREACH (Some h)"
  let ?ix = "filter (\<lambda>i. used h i) [0..<HASH_MAP_DEFAULT_SIZE]"
  note I = hm_invD [OF assms]
  have iff: "hm_socket_id h ! i \<noteq> None \<longleftrightarrow> used h i" if "i < HASH_MAP_DEFAULT_SIZE" for i
    using I(5) [OF that] slot_facts [OF assms that] by (cases "hm_table h ! i") (auto simp: used_def)
  have "?L = map (\<lambda>i. the (hm_socket_id h ! i))
      (filter (\<lambda>i. hm_socket_id h ! i \<noteq> None) [0..<HASH_MAP_DEFAULT_SIZE])"
    using HASH_MAP_FOREACH_eq [OF assms] filter_upt_nth [of the "hm_socket_id h" "\<lambda>k. k \<noteq> None"] I(3)
    by simp
  also have "filter (\<lambda>i. hm_socket_id h ! i \<noteq> None) [0..<HASH_MAP_DEFAULT_SIZE] = ?ix"
    using iff by (intro filter_cong) auto
  finally have L: "map (id_key ids) ?L = map (slot_key ids h) ?ix"
    by (simp add: slot_key_def id_key_def)
  have "distinct (map (slot_key ids h) ?ix)"
    using I(7) by (auto simp: distinct_map intro!: inj_onI)
  moreover have "set (map (slot_key ids h) ?ix) = dom (hm_abs ids h)"
  proof (rule set_eqI)
    fix k
    have "k \<in> dom (hm_abs ids h) \<longleftrightarrow> (\<exists>a. \<exists>i < HASH_MAP_DEFAULT_SIZE. hm_table h ! i = Some a \<and> slot_key ids h i = k)"
      using hm_abs_eq_Some [OF assms] by (auto simp: dom_def)
    then show "k \<in> set (map (slot_key ids h) ?ix) \<longleftrightarrow> k \<in> dom (hm_abs ids h)"
      by (auto simp: used_def)
  qed
  ultimately show ?thesis
    using L by (metis list.set_map)
qed

lemma foreach_visits_each_socket_once_witness:
  "\<exists>h. hm_abs example_ids h (id_key example_ids 0) = Some 2
     \<and> distinct (map (id_key example_ids) (HASH_MAP_FOREACH (Some h)))
     \<and> id_key example_ids ` set (HASH_MAP_FOREACH (Some h)) = dom (hm_abs example_ids h)"
proof -
  have "hm_abs example_ids empty_table (sock_key_of example_ids example_socks 2) = None"
    "card (dom (hm_abs example_ids empty_table)) < HASH_MAP_DEFAULT_SIZE"
    by (simp_all add: empty_table HASH_MAP_DEFAULT_SIZE_def)
  from insertSocket_new [OF empty_table(1) example_ok(3) this] obtain h where
    h: "hm_inv example_ids example_socks h"
       "hm_abs example_ids h = (hm_abs example_ids empty_table)(sock_key_of example_ids example_socks 2 \<mapsto> 2)"
    by blast
  have "sock_key_of example_ids example_socks 2 = id_key example_ids 0"
    by (simp add: sock_key_of_def id_key_def example_socks_def example_socket_def)
  then show ?thesis
    using foreach_visits_each_socket_once [OF h(1)] h(2) by (intro exI [of _ h]) simp
qed

end
