(* ===== verification/Environment.thy ===== *)
theory Environment imports Hashmap begin

text \<open>
  The process state of a network manager and its operating system.  The POSIX calls are not
  code of the program: they are a record of functions \<open>'s posix\<close> over an arbitrary system
  state \<open>'s\<close>, an argument of every definition that calls them, so a theorem holds for every
  behaviour of the system (what other processes do is part of \<open>'s\<close>).  A call that blocks
  returns whatever it returns once it is done; the client library, which promises to give up after a
  while, is modelled with the calls that never are: \<open>px_open_waits\<close> tells whether an \<open>open\<close>, \<open>px_read_waits\<close> whether
  a \<open>read\<close> would wait for ever.

  The process state \<open>'s world\<close> holds the system state, the two heaps, the manager structure
  (one per process) and the flag \<open>ub\<close>, set as soon as the C program runs into undefined
  behaviour.  Strings made by the name functions are values: that their blocks are freed is not
  tracked, except where the code frees or dereferences wrongly, which sets \<open>ub\<close>.
\<close>

section \<open>The operating system\<close>

datatype open_mode = O_RDONLY | O_WRONLY | O_RDWR | O_RDONLY_NONBLOCK | O_WRONLY_NONBLOCK

text \<open>\<open>read\<close>: bytes (none at the end of the file), \<open>-1\<close> with \<open>EAGAIN\<close>, or \<open>-1\<close> with another error.\<close>

datatype read_outcome = Read string | Read_again | Read_error

record 's posix =
  px_malloc :: "nat \<Rightarrow> 's \<Rightarrow> fresh_block option \<times> 's"
  px_new :: "'s \<Rightarrow> bool \<times> 's"
  px_open :: "string \<Rightarrow> open_mode \<Rightarrow> 's \<Rightarrow> int \<times> 's"
  px_close :: "int \<Rightarrow> 's \<Rightarrow> 's"
  px_read :: "int \<Rightarrow> nat \<Rightarrow> 's \<Rightarrow> read_outcome \<times> 's"
  px_write :: "int \<Rightarrow> string \<Rightarrow> 's \<Rightarrow> int \<times> 's"
  px_mkfifo :: "string \<Rightarrow> 's \<Rightarrow> int \<times> 's"
  px_unlink :: "string \<Rightarrow> 's \<Rightarrow> int \<times> 's"
  px_stat :: "string \<Rightarrow> 's \<Rightarrow> int \<times> 's"
  px_mkdir :: "string \<Rightarrow> 's \<Rightarrow> int \<times> 's"
  px_clock :: "'s \<Rightarrow> int \<times> 's"
  px_rand :: "'s \<Rightarrow> c_int \<times> 's"
  px_getpid :: "'s \<Rightarrow> c_int"
  px_open_waits :: "string \<Rightarrow> open_mode \<Rightarrow> 's \<Rightarrow> bool"
  px_read_waits :: "int \<Rightarrow> 's \<Rightarrow> bool"

section \<open>The process\<close>

record 's world =
  os :: 's
  ids :: id_heap
  socks :: sock_heap
  next_addr :: addr
  mgr_ip :: string
  mgr_sockets :: "hashmap option"
  in_packet_fifo_fd :: int
  bind_request_fifo_fd :: int
  connect_request_fifo_fd :: int
  terminate_fifo_fd :: int
  ub :: bool

definition set_ub :: "'s world \<Rightarrow> 's world" where
  "set_ub w = w\<lparr>ub := True\<rparr>"

text \<open>The calls, threaded through the process state.  \<open>sys_new\<close> is a \<open>malloc\<close> of a structure.\<close>

definition sys_malloc :: "'s posix \<Rightarrow> nat \<Rightarrow> 's world \<Rightarrow> fresh_block option \<times> 's world" where
  "sys_malloc P n w = (let (r, s) = px_malloc P n (os w) in (r, w\<lparr>os := s\<rparr>))"

definition sys_new :: "'s posix \<Rightarrow> 's world \<Rightarrow> bool \<times> 's world" where
  "sys_new P w = (let (r, s) = px_new P (os w) in (r, w\<lparr>os := s\<rparr>))"

definition sys_open :: "'s posix \<Rightarrow> string \<Rightarrow> open_mode \<Rightarrow> 's world \<Rightarrow> int \<times> 's world" where
  "sys_open P name mode w = (let (r, s) = px_open P name mode (os w) in (r, w\<lparr>os := s\<rparr>))"

definition open_waits :: "'s posix \<Rightarrow> string \<Rightarrow> open_mode \<Rightarrow> 's world \<Rightarrow> bool" where
  "open_waits P name mode w = px_open_waits P name mode (os w)"

definition read_waits :: "'s posix \<Rightarrow> int \<Rightarrow> 's world \<Rightarrow> bool" where
  "read_waits P fd w = px_read_waits P fd (os w)"

definition sys_close :: "'s posix \<Rightarrow> int \<Rightarrow> 's world \<Rightarrow> 's world" where
  "sys_close P fd w = w\<lparr>os := px_close P fd (os w)\<rparr>"

definition sys_read :: "'s posix \<Rightarrow> int \<Rightarrow> nat \<Rightarrow> 's world \<Rightarrow> read_outcome \<times> 's world" where
  "sys_read P fd n w = (let (r, s) = px_read P fd n (os w) in (r, w\<lparr>os := s\<rparr>))"

definition sys_write :: "'s posix \<Rightarrow> int \<Rightarrow> string \<Rightarrow> 's world \<Rightarrow> int \<times> 's world" where
  "sys_write P fd bs w = (let (r, s) = px_write P fd bs (os w) in (r, w\<lparr>os := s\<rparr>))"

definition sys_mkfifo :: "'s posix \<Rightarrow> string \<Rightarrow> 's world \<Rightarrow> int \<times> 's world" where
  "sys_mkfifo P name w = (let (r, s) = px_mkfifo P name (os w) in (r, w\<lparr>os := s\<rparr>))"

text \<open>\<open>unlink(NULL)\<close> fails with \<open>EFAULT\<close>.\<close>

definition sys_unlink :: "'s posix \<Rightarrow> string option \<Rightarrow> 's world \<Rightarrow> int \<times> 's world" where
  "sys_unlink P name w =
     (case name of
        None \<Rightarrow> (- 1, w)
      | Some n \<Rightarrow> (let (r, s) = px_unlink P n (os w) in (r, w\<lparr>os := s\<rparr>)))"

definition sys_stat :: "'s posix \<Rightarrow> string \<Rightarrow> 's world \<Rightarrow> int \<times> 's world" where
  "sys_stat P name w = (let (r, s) = px_stat P name (os w) in (r, w\<lparr>os := s\<rparr>))"

definition sys_mkdir :: "'s posix \<Rightarrow> string \<Rightarrow> 's world \<Rightarrow> int \<times> 's world" where
  "sys_mkdir P name w = (let (r, s) = px_mkdir P name (os w) in (r, w\<lparr>os := s\<rparr>))"

definition sys_clock :: "'s posix \<Rightarrow> 's world \<Rightarrow> int \<times> 's world" where
  "sys_clock P w = (let (r, s) = px_clock P (os w) in (r, w\<lparr>os := s\<rparr>))"

definition sys_rand :: "'s posix \<Rightarrow> 's world \<Rightarrow> c_int \<times> 's world" where
  "sys_rand P w = (let (r, s) = px_rand P (os w) in (r, w\<lparr>os := s\<rparr>))"

text \<open>A number in unspecified memory: the four bytes at an offset of a fresh block.\<close>

definition fresh_word :: "fresh_block \<Rightarrow> nat \<Rightarrow> c_int" where
  "fresh_word b off = of_nat (\<Sum>i \<leftarrow> [0..<4]. of_char (b (off + i)) * 256 ^ i)"

text \<open>Heap objects.\<close>

definition id_at :: "'s world \<Rightarrow> addr \<Rightarrow> sockid" where
  "id_at w k = the (ids w k)"

definition sock_at :: "'s world \<Rightarrow> addr \<Rightarrow> socket" where
  "sock_at w a = the (socks w a)"

definition upd_id :: "addr \<Rightarrow> (sockid \<Rightarrow> sockid) \<Rightarrow> 's world \<Rightarrow> 's world" where
  "upd_id k f w = w\<lparr>ids := (ids w)(k := map_option f (ids w k))\<rparr>"

definition upd_sock :: "addr \<Rightarrow> (socket \<Rightarrow> socket) \<Rightarrow> 's world \<Rightarrow> 's world" where
  "upd_sock a f w = w\<lparr>socks := (socks w)(a := map_option f (socks w a))\<rparr>"

definition new_id :: "sockid \<Rightarrow> 's world \<Rightarrow> addr \<times> 's world" where
  "new_id i w = (next_addr w, w\<lparr>ids := (ids w)(next_addr w \<mapsto> i), next_addr := next_addr w + 1\<rparr>)"

definition new_sock :: "socket \<Rightarrow> 's world \<Rightarrow> addr \<times> 's world" where
  "new_sock s w =
     (next_addr w, w\<lparr>socks := (socks w)(next_addr w \<mapsto> s), next_addr := next_addr w + 1\<rparr>)"

definition free_id :: "addr \<Rightarrow> 's world \<Rightarrow> 's world" where
  "free_id k w = w\<lparr>ids := (ids w)(k := None)\<rparr>"

definition free_sock :: "addr \<Rightarrow> 's world \<Rightarrow> 's world" where
  "free_sock a w = w\<lparr>socks := (socks w)(a := None)\<rparr>"

text \<open>Reading the heap after a change.\<close>

lemma upd_sock_simps [simp]:
  "socks (upd_sock a f w) b = (if b = a then map_option f (socks w a) else socks w b)"
  "ids (upd_sock a f w) = ids w" "os (upd_sock a f w) = os w"
  "next_addr (upd_sock a f w) = next_addr w" "mgr_ip (upd_sock a f w) = mgr_ip w"
  "mgr_sockets (upd_sock a f w) = mgr_sockets w" "ub (upd_sock a f w) = ub w"
  "id_at (upd_sock a f w) k = id_at w k"
  by (simp_all add: upd_sock_def id_at_def)

lemma upd_id_simps [simp]:
  "ids (upd_id k f w) j = (if j = k then map_option f (ids w k) else ids w j)"
  "socks (upd_id k f w) = socks w" "os (upd_id k f w) = os w"
  "next_addr (upd_id k f w) = next_addr w" "mgr_ip (upd_id k f w) = mgr_ip w"
  "mgr_sockets (upd_id k f w) = mgr_sockets w" "ub (upd_id k f w) = ub w"
  "sock_at (upd_id k f w) a = sock_at w a"
  by (simp_all add: upd_id_def sock_at_def)

lemma set_ub_simps [simp]:
  "ids (set_ub w) = ids w" "socks (set_ub w) = socks w" "os (set_ub w) = os w"
  "next_addr (set_ub w) = next_addr w" "mgr_ip (set_ub w) = mgr_ip w"
  "mgr_sockets (set_ub w) = mgr_sockets w" "ub (set_ub w)"
  by (simp_all add: set_ub_def)

lemma sock_at_Some: "socks w a = Some s \<Longrightarrow> sock_at w a = s"
  by (simp add: sock_at_def)

section \<open>What a call leaves alone\<close>

text \<open>
  Two process states that differ at most in the system state: everything a system call can do
  to the process.
\<close>

definition same_proc :: "'s world \<Rightarrow> 's world \<Rightarrow> bool" where
  "same_proc w w' \<longleftrightarrow> w' = w\<lparr>os := os w'\<rparr>"

lemma same_proc_refl [simp, intro]: "same_proc w w"
  by (simp add: same_proc_def)

lemma same_proc_os [simp]: "same_proc w (w\<lparr>os := s\<rparr>)"
  by (simp add: same_proc_def)

lemma same_proc_trans [trans]: "same_proc w1 w2 \<Longrightarrow> same_proc w2 w3 \<Longrightarrow> same_proc w1 w3"
  unfolding same_proc_def by (metis world.select_convs(1) world.surjective world.update_convs(1))

lemma same_procD [inv_dest]:
  assumes "same_proc w w'"
  shows "ids w' = ids w" "socks w' = socks w" "next_addr w' = next_addr w" "mgr_ip w' = mgr_ip w"
    "mgr_sockets w' = mgr_sockets w" "ub w' = ub w"
  using assms unfolding same_proc_def by (metis world.ext_inject world.surjective world.update_convs(1))+

lemma sys_same_proc [intro, dest]:
  "sys_malloc P n w = (m, w') \<Longrightarrow> same_proc w w'"
  "sys_new P w = (b, w') \<Longrightarrow> same_proc w w'"
  "sys_open P name mode w = (r, w') \<Longrightarrow> same_proc w w'"
  "sys_read P fd n w = (rd, w') \<Longrightarrow> same_proc w w'"
  "sys_write P fd bs w = (r, w') \<Longrightarrow> same_proc w w'"
  "sys_mkfifo P name w = (r, w') \<Longrightarrow> same_proc w w'"
  "sys_unlink P nm w = (r, w') \<Longrightarrow> same_proc w w'"
  "sys_stat P name w = (r, w') \<Longrightarrow> same_proc w w'"
  "sys_mkdir P name w = (r, w') \<Longrightarrow> same_proc w w'"
  "sys_clock P w = (r, w') \<Longrightarrow> same_proc w w'"
  "sys_rand P w = (c, w') \<Longrightarrow> same_proc w w'"
  by (auto simp: sys_malloc_def sys_new_def sys_open_def sys_read_def sys_write_def sys_mkfifo_def
      sys_unlink_def sys_stat_def sys_mkdir_def sys_clock_def sys_rand_def
      split: prod.splits option.splits)

lemma same_proc_close [simp]: "same_proc w (sys_close P fd w)"
  by (simp add: sys_close_def)

lemma same_proc_closeI [intro]: "same_proc w w1 \<Longrightarrow> same_proc w (sys_close P fd w1)"
  by (rule same_proc_trans [OF _ same_proc_close])

section \<open>What POSIX promises about writing\<close>

text \<open>
  Documented behaviour of the calls, as a hypothesis of the theorems on data delivery.  \<open>out s n\<close>
  is everything this process has written to the FIFO \<open>n\<close> so far, \<open>tgt s fd\<close> the FIFO behind an
  open descriptor.  Only a successful \<open>write\<close> adds to the former: the first bytes of its
  argument, as many as it returns.
\<close>

definition fifo_laws :: "'s posix \<Rightarrow> ('s \<Rightarrow> string \<Rightarrow> string) \<Rightarrow> ('s \<Rightarrow> int \<Rightarrow> string) \<Rightarrow> bool" where
  "fifo_laws P out tgt \<longleftrightarrow>
     (\<forall>n s. out (snd (px_malloc P n s)) = out s)
   \<and> (\<forall>s. out (snd (px_new P s)) = out s)
   \<and> (\<forall>fd s. out (px_close P fd s) = out s)
   \<and> (\<forall>name mode s fd s'. px_open P name mode s = (fd, s') \<longrightarrow>
        out s' = out s \<and> (fd \<noteq> - 1 \<longrightarrow> tgt s' fd = name))
   \<and> (\<forall>fd bs s r s'. px_write P fd bs s = (r, s') \<longrightarrow>
        (r = - 1 \<and> out s' = out s)
        \<or> (0 \<le> r \<and> r \<le> int (length bs)
            \<and> out s' = (out s)(tgt s fd := out s (tgt s fd) @ take (nat r) bs)))"

lemma fifo_laws_simps [env_simps]:
  assumes "fifo_laws P out tgt"
  shows "sys_malloc P n w = (m, w') \<Longrightarrow> out (os w') = out (os w)"
    and "sys_new P w = (b, w') \<Longrightarrow> out (os w') = out (os w)"
    and "out (os (sys_close P fd w)) = out (os w)"
    and "sys_open P name mode w = (fd, w') \<Longrightarrow> out (os w') = out (os w)"
    and "sys_open P name mode w = (fd, w') \<Longrightarrow> fd \<noteq> - 1 \<Longrightarrow> tgt (os w') fd = name"
proof -
  note L = assms [unfolded fifo_laws_def]
  show "sys_malloc P n w = (m, w') \<Longrightarrow> out (os w') = out (os w)"
    and "sys_new P w = (b, w') \<Longrightarrow> out (os w') = out (os w)"
    using L by (auto simp: sys_malloc_def sys_new_def split: prod.splits)
      (metis snd_conv)+
  show "out (os (sys_close P fd w)) = out (os w)"
    using L by (simp add: sys_close_def)
  show "sys_open P name mode w = (fd, w') \<Longrightarrow> out (os w') = out (os w)"
    and "sys_open P name mode w = (fd, w') \<Longrightarrow> fd \<noteq> - 1 \<Longrightarrow> tgt (os w') fd = name"
    using L by (auto simp: sys_open_def split: prod.splits)
qed

lemma fifo_laws_write:
  assumes "fifo_laws P out tgt" and "sys_write P fd bs w = (r, w')"
  obtains "r = - 1" "out (os w') = out (os w)"
  | n where "r = int n" "n \<le> length bs"
      "out (os w') = (out (os w))(tgt (os w) fd := out (os w) (tgt (os w) fd) @ take n bs)"
proof -
  obtain s' where s': "px_write P fd bs (os w) = (r, s')" "os w' = s'"
    using assms(2) by (auto simp: sys_write_def split: prod.splits)
  with assms(1) have "(r = - 1 \<and> out s' = out (os w))
      \<or> (0 \<le> r \<and> r \<le> int (length bs)
          \<and> out s' = (out (os w))(tgt (os w) fd := out (os w) (tgt (os w) fd) @ take (nat r) bs))"
    unfolding fifo_laws_def by blast
  then show thesis
    using that s'(2) by (metis nat_le_iff int_nat_eq nonneg_int_cases nat_int of_nat_le_iff)
qed

text \<open>The heap is allocated from the bottom.\<close>

definition heap_ok :: "'s world \<Rightarrow> bool" where
  "heap_ok w \<longleftrightarrow> (\<forall>a. ids w a \<noteq> None \<longrightarrow> a < next_addr w) \<and> (\<forall>a. socks w a \<noteq> None \<longrightarrow> a < next_addr w)"

lemma heap_okD [inv_dest]:
  assumes "heap_ok w"
  shows "ids w a = Some i \<Longrightarrow> a < next_addr w" "socks w a = Some s \<Longrightarrow> a < next_addr w"
    "ids w (next_addr w) = None" "socks w (next_addr w) = None"
  using assms by (auto simp: heap_ok_def)

text \<open>
  The heap, the table and the address unchanged: what operations do that use the system, allocate
  temporary objects, or run into undefined behaviour.
\<close>

definition same_heap :: "'s world \<Rightarrow> 's world \<Rightarrow> bool" where
  "same_heap w w' \<longleftrightarrow> ids w' = ids w \<and> socks w' = socks w \<and> mgr_sockets w' = mgr_sockets w
     \<and> mgr_ip w' = mgr_ip w \<and> next_addr w \<le> next_addr w'"

lemma same_heapD [inv_dest]:
  assumes "same_heap w w'"
  shows "ids w' = ids w" "socks w' = socks w" "mgr_sockets w' = mgr_sockets w" "mgr_ip w' = mgr_ip w"
    "next_addr w \<le> next_addr w'" "id_at w' k = id_at w k" "sock_at w' a = sock_at w a"
  using assms by (simp_all add: same_heap_def id_at_def sock_at_def)

lemma same_heap_refl [simp, intro]: "same_heap w w"
  by (simp add: same_heap_def)

lemma same_heap_trans [trans]: "same_heap w w1 \<Longrightarrow> same_heap w1 w2 \<Longrightarrow> same_heap w w2"
  by (auto simp: same_heap_def)

lemma same_proc_heap [intro]: "same_proc w w' \<Longrightarrow> same_heap w w'"
  using same_procD [of w w'] by (simp add: same_heap_def)

lemma same_heap_set_ub [simp, intro]: "same_heap w (set_ub w)"
  by (simp add: same_heap_def)

lemma same_heap_close [simp, intro]: "same_heap w (sys_close P fd w)"
  by (simp add: same_proc_heap)

lemma same_heap_upd_os [simp, intro]: "same_heap w (w\<lparr>os := s\<rparr>)"
  by (simp add: same_heap_def)

text \<open>The system calls as steps of this kind.\<close>

lemma sys_same_heap [intro, dest]:
  "sys_malloc P n w = (m, w') \<Longrightarrow> same_heap w w'"
  "sys_new P w = (b, w') \<Longrightarrow> same_heap w w'"
  "sys_open P name mode w = (r, w') \<Longrightarrow> same_heap w w'"
  "sys_read P fd n w = (rd, w') \<Longrightarrow> same_heap w w'"
  "sys_write P fd bs w = (r, w') \<Longrightarrow> same_heap w w'"
  "sys_mkfifo P name w = (r, w') \<Longrightarrow> same_heap w w'"
  "sys_unlink P nm w = (r, w') \<Longrightarrow> same_heap w w'"
  "sys_stat P name w = (r, w') \<Longrightarrow> same_heap w w'"
  "sys_mkdir P name w = (r, w') \<Longrightarrow> same_heap w w'"
  "sys_clock P w = (r, w') \<Longrightarrow> same_heap w w'"
  "sys_rand P w = (c, w') \<Longrightarrow> same_heap w w'"
  by (simp_all add: same_proc_heap sys_same_proc)

end
