(* ===== verification/Fifo_Utils.thy ===== *)
theory Fifo_Utils imports Environment Clib_Format begin

text \<open>
  The socket identifier functions of src/socket_utils.c (lines 123 to 209) and all of
  src/fifo_utils.c: the names of the FIFOs through which managers and clients talk, and the
  reads and writes on them.  A name is a \<open>string option\<close>, \<open>None\<close> when an allocation fails.
  Loops that end only if the system lets them are partial functions: \<open>None\<close> means that the call
  does not return.
\<close>

section \<open>Socket identifiers\<close>

definition is_empty_ip :: "char list \<Rightarrow> bool" where
  "is_empty_ip ip \<longleftrightarrow> ip ! 0 = CHR ''e''"

text \<open>\<open>ip_set_empty\<close> overwrites all seventeen cells of an address array.\<close>

definition ip_set_empty :: "char list \<Rightarrow> char list" where
  "ip_set_empty ip =
     (foldl (\<lambda>a i. a[i := CHR ''e'']) ip [0..<MAX_IP_LENGTH])[MAX_IP_LENGTH := NUL]"

definition init_empty_socket_id :: "sockid \<Rightarrow> sockid" where
  "init_empty_socket_id i =
     i\<lparr>dst_ip := ip_set_empty (dst_ip i), src_ip := ip_set_empty (src_ip i),
       dst_port := EMPTY_PORT, src_port := EMPTY_PORT\<rparr>"

definition is_socket_connected :: "sockid \<Rightarrow> bool" where
  "is_socket_connected i \<longleftrightarrow> \<not> is_empty_ip (dst_ip i) \<and> dst_port i \<noteq> EMPTY_PORT
     \<and> \<not> is_empty_ip (src_ip i) \<and> src_port i \<noteq> EMPTY_PORT"

definition is_socket_bound_only :: "sockid \<Rightarrow> bool" where
  "is_socket_bound_only i \<longleftrightarrow> is_empty_ip (dst_ip i) \<and> dst_port i = EMPTY_PORT
     \<and> \<not> is_empty_ip (src_ip i) \<and> src_port i \<noteq> EMPTY_PORT"

definition is_socket_empty :: "sockid \<Rightarrow> bool" where
  "is_socket_empty i \<longleftrightarrow> is_empty_ip (dst_ip i) \<and> dst_port i = EMPTY_PORT
     \<and> is_empty_ip (src_ip i) \<and> src_port i = EMPTY_PORT"

definition get_socket_state :: "sockid option \<Rightarrow> SocketState" where
  "get_socket_state sid =
     (case sid of
        None \<Rightarrow> INVALID_SOCKET
      | Some i \<Rightarrow>
          if is_socket_connected i then CONNECTED_SOCKET
          else if is_socket_bound_only i then BOUND_ONLY_SOCKET
          else if is_socket_empty i then EMPTY_SOCKET
          else INVALID_SOCKET)"

text \<open>
  A fresh identifier has unspecified contents: here both arrays of the block.
\<close>

definition fresh_sockid :: "fresh_block \<Rightarrow> sockid" where
  "fresh_sockid b = \<lparr>src_port = 0, dst_port = 0, src_ip = block_cells b 17, dst_ip = block_cells b 17\<rparr>"

definition copy_socket_id :: "'s posix \<Rightarrow> addr \<Rightarrow> 's world \<Rightarrow> addr option \<times> 's world" where
  "copy_socket_id P k w =
     (let (m, w1) = sys_malloc P 48 w in
      case m of
        None \<Rightarrow> (None, w1)
      | Some b \<Rightarrow>
          let i = id_at w1 k; r = fresh_sockid b;
              r1 = r\<lparr>src_ip := ip_set_empty (src_ip r), dst_ip := ip_set_empty (dst_ip r)\<rparr>;
              r2 = r1\<lparr>src_ip := strcpy_arr (src_ip r1) (src_ip i),
                      dst_ip := strcpy_arr (dst_ip r1) (dst_ip i)\<rparr>;
              r3 = r2\<lparr>src_port := src_port i, dst_port := dst_port i\<rparr>;
              (a, w2) = new_id r3 w1
          in (Some a, w2))"

definition compare_socket_id :: "id_heap \<Rightarrow> addr \<Rightarrow> addr \<Rightarrow> bool" where
  "compare_socket_id h id1 id2 = (if id1 = id2 then True
     else key_eq (the (h id1)) (the (h id2)))"

definition destroy_socket_id :: "addr option \<Rightarrow> 's world \<Rightarrow> 's world" where
  "destroy_socket_id sid w = (case sid of None \<Rightarrow> w | Some k \<Rightarrow> free_id k w)"

text \<open>The C library's \<open>strcpy\<close> into an array: a string that does not fit overruns it.\<close>

definition strcpy_lib :: "char list \<Rightarrow> string \<Rightarrow> char list c_result" where
  "strcpy_lib dest s =
     (if length s < length dest then Returns (s @ NUL # drop (length s + 1) dest) else Undefined)"

section \<open>Names\<close>

definition FIFO_FOLDER_PATH_PREFIX :: string where
  "FIFO_FOLDER_PATH_PREFIX = ''/tmp/vnetwork_fifos/''"

definition MAX_SOCKET_STRING_REPR_SIZE :: nat where "MAX_SOCKET_STRING_REPR_SIZE = 80"
definition REQUEST_GRANTED_FIFO :: char where "REQUEST_GRANTED_FIFO = CHR ''K''"
definition REQUEST_DENIED_FIFO :: char where "REQUEST_DENIED_FIFO = CHR ''N''"
definition CONN_CLOSED :: char where "CONN_CLOSED = CHR 0x01"

definition init_fifo_directory :: "'s posix \<Rightarrow> 's world \<Rightarrow> int \<times> 's world" where
  "init_fifo_directory P w =
     (let (r, w1) = sys_stat P FIFO_FOLDER_PATH_PREFIX w
      in if r = - 1 then sys_mkdir P FIFO_FOLDER_PATH_PREFIX w1 else (0, w1))"

definition add_folder_prefix :: "'s posix \<Rightarrow> string \<Rightarrow> 's world \<Rightarrow> string option \<times> 's world" where
  "add_folder_prefix P s w =
     (let (m, w1) = sys_malloc P (length s + length FIFO_FOLDER_PATH_PREFIX + 1) w
      in case m of None \<Rightarrow> (None, w1) | Some _ \<Rightarrow> (Some (FIFO_FOLDER_PATH_PREFIX @ s), w1))"

definition add_as_prefix :: "'s posix \<Rightarrow> string \<Rightarrow> string \<Rightarrow> 's world \<Rightarrow> string option \<times> 's world" where
  "add_as_prefix P prefix s w =
     (let (m, w1) = sys_malloc P (length s + length prefix + 1) w
      in case m of None \<Rightarrow> (None, w1) | Some _ \<Rightarrow> (Some (prefix @ s), w1))"

definition construct_full_fifo_name ::
  "'s posix \<Rightarrow> string \<Rightarrow> string \<Rightarrow> 's world \<Rightarrow> string option \<times> 's world" where
  "construct_full_fifo_name P prefix s w =
     (let (r, w1) = add_as_prefix P prefix s w
      in case r of None \<Rightarrow> (None, w1) | Some n \<Rightarrow> add_folder_prefix P n w1)"

definition TERMINATE_FIFO_PREFIX :: string where
  "TERMINATE_FIFO_PREFIX = ''vnetwork_terminate_''"
definition IN_PACKET_FIFO_PREFIX :: string where
  "IN_PACKET_FIFO_PREFIX = ''vnetwork_in_packets_''"
definition BIND_REQUEST_FIFO_PREFIX :: string where
  "BIND_REQUEST_FIFO_PREFIX = ''vnetwork_bind_requests_''"
definition CONNECT_REQUEST_FIFO_PREFIX :: string where
  "CONNECT_REQUEST_FIFO_PREFIX = ''vnetwork_connect_requests_''"
definition LISTEN_SOCKET_READ_FIFO_PREFIX :: string where
  "LISTEN_SOCKET_READ_FIFO_PREFIX = ''vnetwork_listen_socket_read_''"
definition LISTEN_SOCKET_WRITE_FIFO_PREFIX :: string where
  "LISTEN_SOCKET_WRITE_FIFO_PREFIX = ''vnetwork_listen_socket_write_''"
definition ACCEPT_SOCKET_READ_FIFO_PREFIX :: string where
  "ACCEPT_SOCKET_READ_FIFO_PREFIX = ''vnetwork_accept_socket_read_''"
definition CONNECT_SOCKET_READ_FIFO_PREFIX :: string where
  "CONNECT_SOCKET_READ_FIFO_PREFIX = ''vnetwork_connect_soket_read_''"
definition CONNECT_SOCKET_WRITE_FIFO_PREFIX :: string where
  "CONNECT_SOCKET_WRITE_FIFO_PREFIX = ''vnetwork_connect_socket_write_''"
definition OUT_DATA_SOCKET_FIFO_PREFIX :: string where
  "OUT_DATA_SOCKET_FIFO_PREFIX = ''vnetwork_out_data_''"
definition IN_DATA_SOCKET_FIFO_PREFIX :: string where
  "IN_DATA_SOCKET_FIFO_PREFIX = ''vnetwork_in_data_socket_read_''"
definition END_SOCKET_WRITE_FIFO_PREFIX :: string where
  "END_SOCKET_WRITE_FIFO_PREFIX = ''vnetwork_end_socket_write_''"
definition END_SOCKET_READ_FIFO_PREFIX :: string where
  "END_SOCKET_READ_FIFO_PREFIX = ''vnetwork_end_socket_read_''"
definition CLIENT_FIFO_PREFIX :: string where
  "CLIENT_FIFO_PREFIX = ''vnetwork_nonbound_client_''"

definition get_terminate_fifo_name where
  "get_terminate_fifo_name P ip w = construct_full_fifo_name P TERMINATE_FIFO_PREFIX ip w"
definition get_in_packet_fifo_name where
  "get_in_packet_fifo_name P ip w = construct_full_fifo_name P IN_PACKET_FIFO_PREFIX ip w"
definition get_bind_requests_fifo_name where
  "get_bind_requests_fifo_name P ip w = construct_full_fifo_name P BIND_REQUEST_FIFO_PREFIX ip w"
definition get_connect_requests_fifo_name where
  "get_connect_requests_fifo_name P ip w = construct_full_fifo_name P CONNECT_REQUEST_FIFO_PREFIX ip w"

text \<open>The text \<open>(src_ip_src_port_dst_ip_dst_port)\<close>, printed into an array of eighty cells.\<close>

definition socket_repr :: "sockid \<Rightarrow> string" where
  "socket_repr i = ''('' @ cstr (src_ip i) @ ''_'' @ fmt_d (sint (src_port i)) @ ''_''
     @ cstr (dst_ip i) @ ''_'' @ fmt_d (sint (dst_port i)) @ '')''"

definition construct_full_socket_fifo_name ::
  "'s posix \<Rightarrow> string \<Rightarrow> addr option \<Rightarrow> 's world \<Rightarrow> string option \<times> 's world" where
  "construct_full_socket_fifo_name P prefix sock_id w =
     (case sock_id of
        None \<Rightarrow> (None, w)
      | Some k \<Rightarrow>
          let repr = socket_repr (id_at w k);
              w1 = (if length repr < MAX_SOCKET_STRING_REPR_SIZE then w else set_ub w)
          in construct_full_fifo_name P prefix repr w1)"

definition get_listen_fifo_read_end_name where
  "get_listen_fifo_read_end_name P = construct_full_socket_fifo_name P LISTEN_SOCKET_READ_FIFO_PREFIX"
definition get_listen_fifo_write_end_name where
  "get_listen_fifo_write_end_name P = construct_full_socket_fifo_name P LISTEN_SOCKET_WRITE_FIFO_PREFIX"
definition get_accept_fifo_write_end_name where
  "get_accept_fifo_write_end_name P = construct_full_socket_fifo_name P ACCEPT_SOCKET_READ_FIFO_PREFIX"
definition get_connect_fifo_read_end_name where
  "get_connect_fifo_read_end_name P = construct_full_socket_fifo_name P CONNECT_SOCKET_READ_FIFO_PREFIX"
definition get_connect_fifo_write_end_name where
  "get_connect_fifo_write_end_name P = construct_full_socket_fifo_name P CONNECT_SOCKET_WRITE_FIFO_PREFIX"
definition get_socket_recv_fifo_name where
  "get_socket_recv_fifo_name P = construct_full_socket_fifo_name P IN_DATA_SOCKET_FIFO_PREFIX"
definition get_end_fifo_read_end_name where
  "get_end_fifo_read_end_name P = construct_full_socket_fifo_name P END_SOCKET_READ_FIFO_PREFIX"
definition get_end_fifo_write_end_name where
  "get_end_fifo_write_end_name P = construct_full_socket_fifo_name P END_SOCKET_WRITE_FIFO_PREFIX"
definition get_socket_send_fifo_name where
  "get_socket_send_fifo_name P = construct_full_socket_fifo_name P OUT_DATA_SOCKET_FIFO_PREFIX"

definition get_bound_socket_repr_string ::
  "'s posix \<Rightarrow> addr option \<Rightarrow> 's world \<Rightarrow> string option \<times> 's world" where
  "get_bound_socket_repr_string P sock_id w =
     (case sock_id of
        None \<Rightarrow> (None, w)
      | Some k \<Rightarrow>
          if get_socket_state (Some (id_at w k)) \<noteq> BOUND_ONLY_SOCKET then (None, w)
          else let (m, w1) = sys_malloc P MAX_SOCKET_STRING_REPR_SIZE w;
                   text = cstr (src_ip (id_at w k)) @ ''_'' @ fmt_d (sint (src_port (id_at w k))) @ ''_BOUND''
               in case m of None \<Rightarrow> (None, w1)
                  | Some _ \<Rightarrow> (Some text,
                      if length text < MAX_SOCKET_STRING_REPR_SIZE then w1 else set_ub w1))"

definition get_client_fifo_name ::
  "'s posix \<Rightarrow> c_int \<Rightarrow> c_int \<Rightarrow> 's world \<Rightarrow> string option \<times> 's world" where
  "get_client_fifo_name P pid socket_counter w =
     (let (m, w1) = sys_malloc P MAX_SOCKET_STRING_REPR_SIZE w in
      case m of
        None \<Rightarrow> (None, w1)
      | Some _ \<Rightarrow>
          let text = fmt_d (sint pid) @ ''_'' @ fmt_d (sint socket_counter)
          in construct_full_fifo_name P CLIENT_FIFO_PREFIX text
               (if length text < MAX_SOCKET_STRING_REPR_SIZE then w1 else set_ub w1))"

text \<open>The text always fits.\<close>

lemma length_fmt_c_int: "length (fmt_d (sint (x :: c_int))) \<le> 11"
proof -
  have "\<bar>sint x\<bar> < 10 ^ 10" using sint_bounds_32 [of x] by simp
  from length_fmt_d [OF this] show ?thesis by (simp split: if_splits)
qed

lemma get_client_fifo_name_eq:
  "get_client_fifo_name P pid n w =
     (let (m, w1) = sys_malloc P MAX_SOCKET_STRING_REPR_SIZE w in
      case m of
        None \<Rightarrow> (None, w1)
      | Some _ \<Rightarrow> construct_full_fifo_name P CLIENT_FIFO_PREFIX (fmt_d (sint pid) @ ''_'' @ fmt_d (sint n)) w1)"
  using length_fmt_c_int [of pid] length_fmt_c_int [of n]
  by (simp add: get_client_fifo_name_def MAX_SOCKET_STRING_REPR_SIZE_def Let_def split: prod.splits option.splits)

section \<open>Writing\<close>

definition write_char_to_fifo_name ::
  "'s posix \<Rightarrow> string option \<Rightarrow> char \<Rightarrow> 's world \<Rightarrow> int \<times> 's world" where
  "write_char_to_fifo_name P fifo_name to_write w =
     (case fifo_name of
        None \<Rightarrow> (- 1, w)
      | Some n \<Rightarrow>
          let (fd, w1) = sys_open P n O_RDWR w in
          if fd = - 1 then (- 1, w1)
          else let (r, w2) = sys_write P fd [to_write] w1 in
               if r = - 1 then (- 1, sys_close P fd w2) else (0, sys_close P fd w2))"

definition write_string_to_fifo_name ::
  "'s posix \<Rightarrow> string option \<Rightarrow> string \<Rightarrow> 's world \<Rightarrow> int \<times> 's world" where
  "write_string_to_fifo_name P fifo_name to_write w =
     (case fifo_name of
        None \<Rightarrow> (- 1, w)
      | Some n \<Rightarrow>
          let (fd, w1) = sys_open P n O_WRONLY_NONBLOCK w in
          if fd = - 1 then (- 1, w1)
          else let (written, w2) = sys_write P fd to_write w1
               in (written, sys_close P fd w2))"

section \<open>The FIFOs of a socket\<close>

definition close_if_open :: "'s posix \<Rightarrow> int \<Rightarrow> 's world \<Rightarrow> 's world" where
  "close_if_open P fd w = (if fd \<noteq> - 1 then sys_close P fd w else w)"

definition close_socket_fifos :: "'s posix \<Rightarrow> addr \<Rightarrow> 's world \<Rightarrow> 's world" where
  "close_socket_fifos P a w =
     (let s = sock_at w a;
          w1 = close_if_open P (listen_fifo_read_end s) w;
          w2 = close_if_open P (listen_fifo_write_end s) w1;
          w3 = close_if_open P (accept_fifo_write_end s) w2;
          w4 = close_if_open P (out_fifo_read_end s) w3;
          w5 = close_if_open P (in_fifo_write_end s) w4;
          w6 = close_if_open P (end_fifo_read_end s) w5
      in close_if_open P (end_fifo_write_end s) w6)"

definition unlink_socket_fifos :: "'s posix \<Rightarrow> addr \<Rightarrow> 's world \<Rightarrow> 's world" where
  "unlink_socket_fifos P a w =
     (let k = sk_id (sock_at w a);
          (n1, w1) = get_listen_fifo_read_end_name P k w;
          (n2, w2) = get_listen_fifo_write_end_name P k w1;
          (n3, w3) = get_accept_fifo_write_end_name P k w2;
          (n4, w4) = get_socket_send_fifo_name P k w3;
          (n5, w5) = get_socket_recv_fifo_name P k w4;
          (n6, w6) = get_end_fifo_read_end_name P k w5;
          (n7, w7) = get_end_fifo_write_end_name P k w6
      in snd (sys_unlink P n7 (snd (sys_unlink P n6 (snd (sys_unlink P n5 (snd (sys_unlink P n4
           (snd (sys_unlink P n3 (snd (sys_unlink P n2 (snd (sys_unlink P n1 w7))))))))))))))"

text \<open>\<open>mkfifo(a) != 0 || mkfifo(b) != 0\<close>: the second call only if the first succeeds.\<close>

definition create_socket_end_fifos :: "'s posix \<Rightarrow> addr option \<Rightarrow> 's world \<Rightarrow> int \<times> 's world" where
  "create_socket_end_fifos P sock_id w =
     (let (rd, w1) = get_end_fifo_read_end_name P sock_id w;
          (wr, w2) = get_end_fifo_write_end_name P sock_id w1
      in case (rd, wr) of
           (Some rn, Some wn) \<Rightarrow>
             (let (r1, w3) = sys_mkfifo P rn w2;
                  (r2, w4) = (if r1 \<noteq> 0 then (r1, w3) else sys_mkfifo P wn w3)
              in if r1 \<noteq> 0 \<or> r2 \<noteq> 0
                 then (- 1, snd (sys_unlink P (Some wn) (snd (sys_unlink P (Some rn) w4))))
                 else (0, w4))
         | _ \<Rightarrow> (- 1, w2))"

section \<open>Reading\<close>

text \<open>
  The result of a read function: its return value and the bytes it has put into the buffer.
  \<open>read_rest\<close> is the loop that fetches the rest of a message; the end of the file leaves it where
  it is.
\<close>

partial_function (option) read_rest ::
  "'s posix \<Rightarrow> int \<Rightarrow> nat \<Rightarrow> string \<Rightarrow> nat \<Rightarrow> 's world \<Rightarrow> (int \<times> string \<times> 's world) option" where
  "read_rest P fd len acc bytes_left w =
     (if bytes_left = 0 then Some (int len, acc, w)
      else case sys_read P fd bytes_left w of
             (Read bs, w1) \<Rightarrow> read_rest P fd len (acc @ bs) (bytes_left - length bs) w1
           | (Read_again, w1) \<Rightarrow> Some (0, acc, w1)
           | (Read_error, w1) \<Rightarrow> Some (- 1, acc, w1))"

definition read_entire_message ::
  "'s posix \<Rightarrow> int \<Rightarrow> int \<Rightarrow> 's world \<Rightarrow> (int \<times> string \<times> 's world) option" where
  "read_entire_message P fd len w =
     (if len < 0 then Some (- 1, [], w)
      else case sys_read P fd (nat len) w of
             (Read bs, w1) \<Rightarrow>
               if bs = [] then Some (0, [], w1)
               else read_rest P fd (nat len) bs (nat len - length bs) w1
           | (Read_again, w1) \<Rightarrow> Some (0, [], w1)
           | (Read_error, w1) \<Rightarrow> Some (- 1, [], w1))"

partial_function (option) read_nonzero_entire_message ::
  "'s posix \<Rightarrow> int \<Rightarrow> int \<Rightarrow> 's world \<Rightarrow> (int \<times> string \<times> 's world) option" where
  "read_nonzero_entire_message P fd len w =
     (case read_entire_message P fd len w of
        None \<Rightarrow> None
      | Some (r, bs, w1) \<Rightarrow>
          if r = - 1 then Some (- 1, bs, w1)
          else if r > 0 then Some (r, bs, w1)
          else read_nonzero_entire_message P fd len w1)"

text \<open>Byte by byte up to and including a stop character, with no bound on the buffer.\<close>

partial_function (option) read_until ::
  "'s posix \<Rightarrow> int \<Rightarrow> char \<Rightarrow> string \<Rightarrow> 's world \<Rightarrow> (read_outcome \<times> string \<times> 's world) option" where
  "read_until P fd stop acc w =
     (case sys_read P fd 1 w of
        (Read (c # cs), w1) \<Rightarrow>
          if c = stop then Some (Read [c], acc @ [c], w1)
          else read_until P fd stop (acc @ [c]) w1
      | (r, w1) \<Rightarrow> Some (r, acc, w1))"

definition read_message_until_char ::
  "'s posix \<Rightarrow> int \<Rightarrow> char \<Rightarrow> 's world \<Rightarrow> (int \<times> string \<times> 's world) option" where
  "read_message_until_char P fd stop w =
     (case read_until P fd stop [] w of
        None \<Rightarrow> None
      | Some (read_value, bs, w1) \<Rightarrow>
          if read_value = Read_error then Some (- 1, bs, w1)
          else if bs = [] then Some (0, bs, w1)
          else if last bs \<noteq> stop then Some (- 1, bs, w1)
          else Some (int (length bs), bs, w1))"

partial_function (option) read_nonzero_message_until_char ::
  "'s posix \<Rightarrow> int \<Rightarrow> char \<Rightarrow> 's world \<Rightarrow> (int \<times> string \<times> 's world) option" where
  "read_nonzero_message_until_char P fd stop w =
     (case read_message_until_char P fd stop w of
        None \<Rightarrow> None
      | Some (r, bs, w1) \<Rightarrow>
          if r = - 1 then Some (- 1, bs, w1)
          else if r > 0 then Some (r, bs, w1)
          else read_nonzero_message_until_char P fd stop w1)"

section \<open>What the name functions compute\<close>

definition fifo_path :: "string \<Rightarrow> string \<Rightarrow> string" where
  "fifo_path prefix s = FIFO_FOLDER_PATH_PREFIX @ prefix @ s"

definition socket_fifo_path :: "string \<Rightarrow> sockid \<Rightarrow> string" where
  "socket_fifo_path prefix i = fifo_path prefix (socket_repr i)"

lemma construct_full_fifo_name_spec:
  assumes "construct_full_fifo_name P prefix s w = (r, w')"
  shows "same_proc w w'" and "r = None \<or> r = Some (fifo_path prefix s)"
    and "fifo_laws P out tgt \<Longrightarrow> out (os w') = out (os w)"
  using assms
  by (auto simp: construct_full_fifo_name_def add_as_prefix_def add_folder_prefix_def fifo_path_def
      fifo_laws_simps intro: same_proc_trans split: prod.splits option.splits)

lemma length_socket_repr: "wf_sockid i \<Longrightarrow> length (socket_repr i) \<le> 59"
proof -
  assume wf: "wf_sockid i"
  have L: "length (cstr (src_ip i)) \<le> 16" "length (cstr (dst_ip i)) \<le> 16"
    using wf length_cstr_wf_ip by (simp_all add: wf_sockid_def)
  have F: "length (fmt_d (sint x)) \<le> 11" for x :: c_int
  proof -
    have "\<bar>sint x\<bar> < 10 ^ 10" using sint_bounds_32 [of x] by simp
    from length_fmt_d [OF this] show ?thesis by (simp split: if_splits)
  qed
  show ?thesis
    using L F [of "src_port i"] F [of "dst_port i"] by (simp add: socket_repr_def)
qed

lemma construct_full_socket_fifo_name_spec:
  assumes "construct_full_socket_fifo_name P prefix (Some k) w = (r, w')"
    and "wf_sockid (id_at w k)"
  shows "same_proc w w'" and "r = None \<or> r = Some (socket_fifo_path prefix (id_at w k))"
    and "fifo_laws P out tgt \<Longrightarrow> out (os w') = out (os w)"
proof -
  have "length (socket_repr (id_at w k)) < MAX_SOCKET_STRING_REPR_SIZE"
    using length_socket_repr [OF assms(2)] by (simp add: MAX_SOCKET_STRING_REPR_SIZE_def)
  then have "construct_full_fifo_name P prefix (socket_repr (id_at w k)) w = (r, w')"
    using assms(1) by (simp add: construct_full_socket_fifo_name_def)
  from construct_full_fifo_name_spec [OF this]
  show "same_proc w w'" and "r = None \<or> r = Some (socket_fifo_path prefix (id_at w k))"
    and "fifo_laws P out tgt \<Longrightarrow> out (os w') = out (os w)"
    by (simp_all add: socket_fifo_path_def)
qed

lemmas socket_name_defs = get_listen_fifo_read_end_name_def get_listen_fifo_write_end_name_def
  get_accept_fifo_write_end_name_def get_connect_fifo_read_end_name_def
  get_connect_fifo_write_end_name_def get_socket_recv_fifo_name_def get_end_fifo_read_end_name_def
  get_end_fifo_write_end_name_def get_socket_send_fifo_name_def

text \<open>Writing to a FIFO changes nothing of the process but the system state.\<close>

lemma write_same_proc [intro, dest]:
  "write_string_to_fifo_name P nm bs w = (r, w') \<Longrightarrow> same_proc w w'"
  "write_char_to_fifo_name P nm c w = (r, w') \<Longrightarrow> same_proc w w'"
  by (auto simp: write_string_to_fifo_name_def write_char_to_fifo_name_def
      intro: same_proc_trans split: option.splits prod.splits if_splits)

text \<open>A write to a FIFO adds to what was written to it, and to nothing else.\<close>

lemma write_string_to_fifo_name_spec:
  assumes "write_string_to_fifo_name P (Some n) bs w = (r, w')" and laws: "fifo_laws P out tgt"
  obtains "r = - 1" "same_proc w w'" "out (os w') = out (os w)"
  | m where "r = int m" "m \<le> length bs" "same_proc w w'"
      "out (os w') = (out (os w))(n := out (os w) n @ take m bs)"
proof -
  obtain fd w1 where o: "sys_open P n O_WRONLY_NONBLOCK w = (fd, w1)" by fastforce
  note O = fifo_laws_simps(4,5) [OF laws o] and p1 = sys_same_proc(3) [OF o]
  show thesis
  proof (cases "fd = - 1")
    case True
    then show thesis using assms(1) o O(1) p1 that(1) by (simp add: write_string_to_fifo_name_def)
  next
    case False
    obtain wr w2 where wr: "sys_write P fd bs w1 = (wr, w2)" by fastforce
    have res: "r = wr" "w' = sys_close P fd w2"
      using assms(1) o False wr by (simp_all add: write_string_to_fifo_name_def)
    have sp: "same_proc w w'"
      using p1 sys_same_proc(5) [OF wr] res(2) by (metis same_proc_close same_proc_trans)
    from fifo_laws_write [OF laws wr] show thesis
      using that res sp O False by (metis fifo_laws_simps(3) [OF laws])
  qed
qed

text \<open>The calls around a FIFO name of a well-formed identifier leave the process alone.\<close>

lemma socket_name_same_proc:
  assumes "wf_sockid (id_at w k)"
  shows "get_listen_fifo_read_end_name P (Some k) w = (r, w') \<Longrightarrow> same_proc w w'"
    "get_listen_fifo_write_end_name P (Some k) w = (r, w') \<Longrightarrow> same_proc w w'"
    "get_accept_fifo_write_end_name P (Some k) w = (r, w') \<Longrightarrow> same_proc w w'"
    "get_connect_fifo_read_end_name P (Some k) w = (r, w') \<Longrightarrow> same_proc w w'"
    "get_connect_fifo_write_end_name P (Some k) w = (r, w') \<Longrightarrow> same_proc w w'"
    "get_socket_recv_fifo_name P (Some k) w = (r, w') \<Longrightarrow> same_proc w w'"
    "get_end_fifo_read_end_name P (Some k) w = (r, w') \<Longrightarrow> same_proc w w'"
    "get_end_fifo_write_end_name P (Some k) w = (r, w') \<Longrightarrow> same_proc w w'"
    "get_socket_send_fifo_name P (Some k) w = (r, w') \<Longrightarrow> same_proc w w'"
  unfolding socket_name_defs using construct_full_socket_fifo_name_spec(1) [OF _ assms] by blast+

lemma id_at_same_proc: "same_proc w w' \<Longrightarrow> id_at w' k = id_at w k"
  using same_procD(1) [of w w'] by (simp add: id_at_def)

lemma sock_at_same_proc: "same_proc w w' \<Longrightarrow> sock_at w' a = sock_at w a"
  using same_procD(2) [of w w'] by (simp add: sock_at_def)

lemma same_proc_unlink: "same_proc w (snd (sys_unlink P n w))"
  by (metis prod.collapse sys_same_proc(7))

lemma create_socket_end_fifos_same_proc:
  assumes "create_socket_end_fifos P (Some k) w = (r, w')" and wf: "wf_sockid (id_at w k)"
  shows "same_proc w w'"
proof -
  obtain rd w1 where 1: "get_end_fifo_read_end_name P (Some k) w = (rd, w1)" by fastforce
  note p1 = socket_name_same_proc(7) [OF wf 1]
  obtain wr w2 where 2: "get_end_fifo_write_end_name P (Some k) w1 = (wr, w2)" by fastforce
  have "wf_sockid (id_at w1 k)" using wf id_at_same_proc [OF p1] by simp
  from same_proc_trans [OF p1 socket_name_same_proc(8) [OF this 2]] have p2: "same_proc w w2" .
  show ?thesis
  proof (cases "rd = None \<or> wr = None")
    case True
    then show ?thesis using assms(1) 1 2 p2 by (auto simp: create_socket_end_fifos_def split: option.splits)
  next
    case False
    then obtain rn wn where n: "rd = Some rn" "wr = Some wn" by auto
    obtain r1 w3 where 3: "sys_mkfifo P rn w2 = (r1, w3)" by fastforce
    have p3: "same_proc w w3" using p2 sys_same_proc(6) [OF 3] same_proc_trans by blast
    obtain r2 w4 where 4: "(if r1 \<noteq> 0 then (r1, w3) else sys_mkfifo P wn w3) = (r2, w4)" by fastforce
    have p4: "same_proc w w4"
      using 4 p3 sys_same_proc(6) same_proc_trans by (metis prod.inject)
    have "w' = w4 \<or> w' = snd (sys_unlink P (Some wn) (snd (sys_unlink P (Some rn) w4)))"
      using assms(1) 1 2 n 3 4 by (auto simp: create_socket_end_fifos_def split: if_splits)
    then show ?thesis
      using p4 same_proc_unlink same_proc_trans by metis
  qed
qed

lemma unlink_socket_fifos_same_proc:
  assumes "\<And>k. sk_id (sock_at w a) = Some k \<Longrightarrow> wf_sockid (id_at w k)"
  shows "same_proc w (unlink_socket_fifos P a w)"
proof -
  let ?k = "sk_id (sock_at w a)"
  have N: "same_proc w w2"
    if "construct_full_socket_fifo_name P prefix ?k w1 = (n, w2)" "same_proc w w1" for prefix n w1 w2
  proof (cases ?k)
    case None
    then show ?thesis using that by (simp add: construct_full_socket_fifo_name_def)
  next
    case (Some k)
    have "same_proc w1 w2"
      using construct_full_socket_fifo_name_spec(1) [OF that(1) [unfolded Some]] assms [OF Some]
        id_at_same_proc [OF that(2)] by simp
    then show ?thesis by (rule same_proc_trans [OF that(2)])
  qed
  obtain n1 w1 where 1: "get_listen_fifo_read_end_name P ?k w = (n1, w1)" by fastforce
  obtain n2 w2 where 2: "get_listen_fifo_write_end_name P ?k w1 = (n2, w2)" by fastforce
  obtain n3 w3 where 3: "get_accept_fifo_write_end_name P ?k w2 = (n3, w3)" by fastforce
  obtain n4 w4 where 4: "get_socket_send_fifo_name P ?k w3 = (n4, w4)" by fastforce
  obtain n5 w5 where 5: "get_socket_recv_fifo_name P ?k w4 = (n5, w5)" by fastforce
  obtain n6 w6 where 6: "get_end_fifo_read_end_name P ?k w5 = (n6, w6)" by fastforce
  obtain n7 w7 where 7: "get_end_fifo_write_end_name P ?k w6 = (n7, w7)" by fastforce
  note D = 1 [unfolded socket_name_defs] 2 [unfolded socket_name_defs] 3 [unfolded socket_name_defs]
    4 [unfolded socket_name_defs] 5 [unfolded socket_name_defs] 6 [unfolded socket_name_defs]
    7 [unfolded socket_name_defs]
  note p = N [OF D(7) N [OF D(6) N [OF D(5) N [OF D(4) N [OF D(3) N [OF D(2) N [OF D(1) same_proc_refl]]]]]]]
  have "unlink_socket_fifos P a w = snd (sys_unlink P n7 (snd (sys_unlink P n6 (snd (sys_unlink P n5
      (snd (sys_unlink P n4 (snd (sys_unlink P n3 (snd (sys_unlink P n2 (snd (sys_unlink P n1 w7)))))))))))))"
    using 1 2 3 4 5 6 7 by (simp add: unlink_socket_fifos_def)
  then show ?thesis
    using p by (simp only:) (rule same_proc_trans [OF _ same_proc_unlink] | assumption)+
qed

text \<open>Whatever the identifier, names and transfers leave the heap alone.\<close>

lemma construct_full_socket_fifo_name_heap:
  "construct_full_socket_fifo_name P prefix k w = (r, w') \<Longrightarrow> same_heap w w'"
proof -
  assume a: "construct_full_socket_fifo_name P prefix k w = (r, w')"
  show "same_heap w w'"
  proof (cases k)
    case (Some j)
    let ?w = "if length (socket_repr (id_at w j)) < MAX_SOCKET_STRING_REPR_SIZE then w else set_ub w"
    have "construct_full_fifo_name P prefix (socket_repr (id_at w j)) ?w = (r, w')"
      using a Some by (simp add: construct_full_socket_fifo_name_def Let_def)
    from construct_full_fifo_name_spec(1) [OF this] have "same_heap ?w w'" by (rule same_proc_heap)
    moreover have "same_heap w ?w" by simp
    ultimately show ?thesis by (rule same_heap_trans [rotated])
  qed (use a in \<open>simp add: construct_full_socket_fifo_name_def\<close>)
qed

lemma fifo_name_heap [intro, dest]:
  "get_listen_fifo_read_end_name P k w = (r, w') \<Longrightarrow> same_heap w w'"
  "get_listen_fifo_write_end_name P k w = (r, w') \<Longrightarrow> same_heap w w'"
  "get_accept_fifo_write_end_name P k w = (r, w') \<Longrightarrow> same_heap w w'"
  "get_connect_fifo_read_end_name P k w = (r, w') \<Longrightarrow> same_heap w w'"
  "get_connect_fifo_write_end_name P k w = (r, w') \<Longrightarrow> same_heap w w'"
  "get_socket_recv_fifo_name P k w = (r, w') \<Longrightarrow> same_heap w w'"
  "get_end_fifo_read_end_name P k w = (r, w') \<Longrightarrow> same_heap w w'"
  "get_end_fifo_write_end_name P k w = (r, w') \<Longrightarrow> same_heap w w'"
  "get_socket_send_fifo_name P k w = (r, w') \<Longrightarrow> same_heap w w'"
  "get_in_packet_fifo_name P ip w = (r, w') \<Longrightarrow> same_heap w w'"
  "get_terminate_fifo_name P ip w = (r, w') \<Longrightarrow> same_heap w w'"
  "get_bind_requests_fifo_name P ip w = (r, w') \<Longrightarrow> same_heap w w'"
  "get_connect_requests_fifo_name P ip w = (r, w') \<Longrightarrow> same_heap w w'"
  "write_string_to_fifo_name P nm bs w = (n, w') \<Longrightarrow> same_heap w w'"
  "write_char_to_fifo_name P nm c w = (n, w') \<Longrightarrow> same_heap w w'"
  unfolding socket_name_defs get_in_packet_fifo_name_def get_terminate_fifo_name_def
    get_bind_requests_fifo_name_def get_connect_requests_fifo_name_def
  by (auto intro: construct_full_socket_fifo_name_heap construct_full_fifo_name_spec(1) write_same_proc)

lemma get_client_fifo_name_heap [intro, dest]:
  "get_client_fifo_name P pid n w = (r, w') \<Longrightarrow> same_heap w w'"
  by (auto simp: get_client_fifo_name_eq split: prod.splits option.splits
      dest!: construct_full_fifo_name_spec(1) intro: same_heap_trans)

lemma same_heap_unlink [simp, intro]: "same_heap w (snd (sys_unlink P n w))"
  using same_proc_unlink by (rule same_proc_heap)

lemma create_socket_end_fifos_heap [intro, dest]:
  "create_socket_end_fifos P k w = (r, w') \<Longrightarrow> same_heap w w'"
proof -
  assume a: "create_socket_end_fifos P k w = (r, w')"
  obtain rd w1 where 1: "get_end_fifo_read_end_name P k w = (rd, w1)" by fastforce
  obtain wr w2 where 2: "get_end_fifo_write_end_name P k w1 = (wr, w2)" by fastforce
  have p2: "same_heap w w2" using 1 2 same_heap_trans fifo_name_heap(7,8) by blast
  show "same_heap w w'"
  proof (cases "rd = None \<or> wr = None")
    case True
    then show ?thesis using a 1 2 p2 by (auto simp: create_socket_end_fifos_def split: option.splits)
  next
    case False
    then obtain rn wn where n: "rd = Some rn" "wr = Some wn" by auto
    obtain r1 w3 where 3: "sys_mkfifo P rn w2 = (r1, w3)" by fastforce
    obtain r2 w4 where 4: "(if r1 \<noteq> 0 then (r1, w3) else sys_mkfifo P wn w3) = (r2, w4)" by fastforce
    have "same_heap w3 w4" using 4 by (cases "r1 \<noteq> 0") auto
    then have p4: "same_heap w w4" using p2 sys_same_heap(6) [OF 3] same_heap_trans by blast
    have "w' = w4 \<or> w' = snd (sys_unlink P (Some wn) (snd (sys_unlink P (Some rn) w4)))"
      using a 1 2 n 3 4 by (auto simp: create_socket_end_fifos_def split: if_splits)
    then show ?thesis using p4 same_heap_trans same_heap_unlink by metis
  qed
qed

lemma unlink_socket_fifos_heap [simp, intro]: "same_heap w (unlink_socket_fifos P a w)"
proof -
  let ?k = "sk_id (sock_at w a)"
  obtain n1 w1 where 1: "get_listen_fifo_read_end_name P ?k w = (n1, w1)" by fastforce
  obtain n2 w2 where 2: "get_listen_fifo_write_end_name P ?k w1 = (n2, w2)" by fastforce
  obtain n3 w3 where 3: "get_accept_fifo_write_end_name P ?k w2 = (n3, w3)" by fastforce
  obtain n4 w4 where 4: "get_socket_send_fifo_name P ?k w3 = (n4, w4)" by fastforce
  obtain n5 w5 where 5: "get_socket_recv_fifo_name P ?k w4 = (n5, w5)" by fastforce
  obtain n6 w6 where 6: "get_end_fifo_read_end_name P ?k w5 = (n6, w6)" by fastforce
  obtain n7 w7 where 7: "get_end_fifo_write_end_name P ?k w6 = (n7, w7)" by fastforce
  note D = fifo_name_heap(1) [OF 1] fifo_name_heap(2) [OF 2] fifo_name_heap(3) [OF 3]
    fifo_name_heap(9) [OF 4] fifo_name_heap(6) [OF 5] fifo_name_heap(7) [OF 6] fifo_name_heap(8) [OF 7]
  note p = D(1) [THEN same_heap_trans, OF D(2), THEN same_heap_trans, OF D(3), THEN same_heap_trans,
      OF D(4), THEN same_heap_trans, OF D(5), THEN same_heap_trans, OF D(6), THEN same_heap_trans, OF D(7)]
  have "unlink_socket_fifos P a w = snd (sys_unlink P n7 (snd (sys_unlink P n6 (snd (sys_unlink P n5
      (snd (sys_unlink P n4 (snd (sys_unlink P n3 (snd (sys_unlink P n2 (snd (sys_unlink P n1 w7)))))))))))))"
    using 1 2 3 4 5 6 7 by (simp add: unlink_socket_fifos_def)
  then show ?thesis
    using p by (simp only:) (rule same_heap_trans [OF _ same_heap_unlink] | assumption)+
qed

end
