(* ===== verification/Sim_Os.thy ===== *)
theory Sim_Os imports Environment begin

text \<open>
  A small executable operating system: FIFOs as byte strings by name, descriptors, a clock that
  ticks one second per call, and a log of everything written.  It is an instance of the parameter
  \<open>'s posix\<close> and shows that the hypotheses about POSIX hold for a concrete system.
\<close>

record sim =
  sim_files :: "(string \<times> string) list"
  sim_fds :: "(int \<times> string) list"
  sim_next_fd :: int
  sim_clock :: int
  sim_seed :: c_int
  sim_log :: "(string \<times> string) list"

definition sim_out :: "sim \<Rightarrow> string \<Rightarrow> string" where
  "sim_out s n = concat (map snd (filter (\<lambda>e. fst e = n) (sim_log s)))"

definition sim_tgt :: "sim \<Rightarrow> int \<Rightarrow> string" where
  "sim_tgt s fd = (case map_of (sim_fds s) fd of None \<Rightarrow> [] | Some n \<Rightarrow> n)"

definition sim_open :: "string \<Rightarrow> open_mode \<Rightarrow> sim \<Rightarrow> int \<times> sim" where
  "sim_open name mode s =
     (if map_of (sim_files s) name = None then (- 1, s)
      else (sim_next_fd s, s\<lparr>sim_fds := (sim_next_fd s, name) # sim_fds s,
                             sim_next_fd := sim_next_fd s + 1\<rparr>))"

definition sim_read :: "int \<Rightarrow> nat \<Rightarrow> sim \<Rightarrow> read_outcome \<times> sim" where
  "sim_read fd n s =
     (case map_of (sim_fds s) fd of
        None \<Rightarrow> (Read_error, s)
      | Some name \<Rightarrow>
          (case map_of (sim_files s) name of
             None \<Rightarrow> (Read [], s)
           | Some content \<Rightarrow>
               if content = [] then (Read_again, s)
               else (Read (take n content), s\<lparr>sim_files := (name, drop n content) # sim_files s\<rparr>)))"

definition sim_write :: "int \<Rightarrow> string \<Rightarrow> sim \<Rightarrow> int \<times> sim" where
  "sim_write fd bs s =
     (case map_of (sim_fds s) fd of
        None \<Rightarrow> (- 1, s)
      | Some name \<Rightarrow>
          (int (length bs),
           s\<lparr>sim_files := (name, (case map_of (sim_files s) name of None \<Rightarrow> [] | Some c \<Rightarrow> c) @ bs)
               # sim_files s,
             sim_log := sim_log s @ [(name, bs)]\<rparr>))"

definition sim_posix :: "sim posix" where
  "sim_posix =
     \<lparr>px_malloc = (\<lambda>n s. (Some (\<lambda>_. NUL), s)),
      px_new = (\<lambda>s. (True, s)),
      px_open = sim_open,
      px_close = (\<lambda>fd s. s\<lparr>sim_fds := filter (\<lambda>e. fst e \<noteq> fd) (sim_fds s)\<rparr>),
      px_read = sim_read,
      px_write = sim_write,
      px_mkfifo = (\<lambda>name s. if map_of (sim_files s) name = None
                            then (0, s\<lparr>sim_files := (name, []) # sim_files s\<rparr>) else (- 1, s)),
      px_unlink = (\<lambda>name s. if map_of (sim_files s) name = None then (- 1, s)
                            else (0, s\<lparr>sim_files := filter (\<lambda>e. fst e \<noteq> name) (sim_files s)\<rparr>)),
      px_stat = (\<lambda>name s. (0, s)),
      px_mkdir = (\<lambda>name s. (0, s)),
      px_clock = (\<lambda>s. (sim_clock s, s\<lparr>sim_clock := sim_clock s + CLOCKS_PER_SEC\<rparr>)),
      px_rand = (\<lambda>s. (sim_seed s, s\<lparr>sim_seed := sim_seed s + 1\<rparr>)),
      px_getpid = (\<lambda>s. 42),
      px_open_waits = (\<lambda>name mode s. False), px_read_waits = (\<lambda>fd s. False)\<rparr>"

definition sim_boot :: sim where
  "sim_boot = \<lparr>sim_files = [], sim_fds = [], sim_next_fd = 3, sim_clock = 0, sim_seed = 7, sim_log = []\<rparr>"

text \<open>A process with an empty heap and the table of a fresh manager.\<close>

definition sim_world :: "string \<Rightarrow> sim world" where
  "sim_world ip =
     \<lparr>os = sim_boot, ids = Map.empty, socks = Map.empty, next_addr = 0, mgr_ip = ip,
      mgr_sockets = (case createHashMap True of Undefined \<Rightarrow> None | Returns h \<Rightarrow> Some h),
      in_packet_fifo_fd = - 1, bind_request_fifo_fd = - 1, connect_request_fifo_fd = - 1,
      terminate_fifo_fd = - 1, ub = False\<rparr>"

lemma sim_fifo_laws: "fifo_laws sim_posix sim_out sim_tgt"
  by (auto simp: fifo_laws_def sim_posix_def sim_open_def sim_write_def sim_out_def sim_tgt_def
      split: if_splits option.splits)

lemma sim_alloc [env_simps]:
  "sys_malloc sim_posix n w = (Some (\<lambda>_. NUL), w)"
  "sys_new sim_posix w = (True, w)"
  by (simp_all add: sys_malloc_def sys_new_def sim_posix_def)

text \<open>The process with two established connections, and a system where every open succeeds.\<close>

definition example_world :: "sim world" where
  "example_world = (sim_world (replicate 16 (CHR ''1'')))
     \<lparr>ids := example_ids, socks := example_socks, next_addr := 4\<rparr>"

definition open_posix :: "sim posix" where
  "open_posix = sim_posix\<lparr>px_open := (\<lambda>name mode s. (3, s\<lparr>sim_fds := (3, name) # sim_fds s\<rparr>))\<rparr>"

end
