(* ===== verification/Tcp.thy ===== *)
theory Tcp imports Fifo_Utils Sim_Os "HOL-Library.Monad_Syntax" begin

text \<open>
  src/tcp.c and src/tcp.h: the textual TCP segment.  A segment on the wire is two ports of five
  digits, two numbers of ten digits padded with zeros, one character of flags, a checksum of
  ten characters padded with blanks, then the data.  The functions that allocate thread the
  process state; a buffer too small for what \<open>sprintf\<close> writes sets \<open>ub\<close>.
\<close>

section \<open>The segment\<close>

record TCPPacket =
  tcp_src_port :: c_int
  tcp_dst_port :: c_int
  tcp_seq_num :: c_int
  tcp_ack_num :: c_int
  tcp_flags :: "8 word"
  tcp_checksum :: c_int
  tcp_data :: "string option"

text \<open>\<open>TCP_FLAGS\<close>, as bits of the flags character.\<close>

definition ACK :: "8 word" where "ACK = 1"
definition FIN :: "8 word" where "FIN = 2"
definition RST :: "8 word" where "RST = 4"
definition SYN :: "8 word" where "SYN = 8"

definition flags_char :: "8 word \<Rightarrow> char" where
  "flags_char f = char_of (unat f)"

definition char_flags :: "char \<Rightarrow> 8 word" where
  "char_flags c = of_nat (of_char c)"

text \<open>The test \<open>packet->flags & f\<close>.\<close>

definition has_flag :: "TCPPacket \<Rightarrow> 8 word \<Rightarrow> bool" where
  "has_flag p f \<longleftrightarrow> and (tcp_flags p) f \<noteq> 0"

section \<open>Segments to text and back\<close>

text \<open>\<open>flags\<close> is a signed \<open>char\<close>, promoted to \<open>int\<close> with its sign.\<close>

definition calc_checksum :: "TCPPacket \<Rightarrow> c_int" where
  "calc_checksum p =
     tcp_src_port p + tcp_dst_port p + tcp_seq_num p + tcp_ack_num p + scast (tcp_flags p)"

text \<open>The conversions of \<open>tcp_str_repr_no_data\<close> on the input, all six of them.\<close>

definition sscanf_tcp :: "string \<Rightarrow> TCPPacket option" where
  "sscanf_tcp s =
     do {
       (sp, s1) \<leftarrow> scan_int 5 s;
       (dp, s2) \<leftarrow> scan_int 5 s1;
       (sn, s3) \<leftarrow> scan_int 10 s2;
       (an, s4) \<leftarrow> scan_int 10 s3;
       (fl, s5) \<leftarrow> scan_char s4;
       (ck, _) \<leftarrow> scan_int 10 s5;
       Some \<lparr>tcp_src_port = word_of_int sp, tcp_dst_port = word_of_int dp,
             tcp_seq_num = word_of_int sn, tcp_ack_num = word_of_int an,
             tcp_flags = char_flags fl, tcp_checksum = word_of_int ck, tcp_data = None\<rparr>
     }"

definition str_to_tcp :: "'s posix \<Rightarrow> string option \<Rightarrow> 's world \<Rightarrow> TCPPacket option \<times> 's world" where
  "str_to_tcp P s w =
     (let (allocated, w1) = sys_new P w in
      if \<not> allocated then (None, w1)
      else case s of
        None \<Rightarrow> (None, set_ub w1)
      | Some t \<Rightarrow>
          (case sscanf_tcp t of
             None \<Rightarrow> (None, w1)
           | Some p \<Rightarrow>
               if length t > 41 then
                 (let data_length = length t - 41;
                      (m, w2) = sys_malloc P (data_length + 1) w1
                  in case m of
                       None \<Rightarrow> (None, w2)
                     | Some _ \<Rightarrow> (Some (p\<lparr>tcp_data := Some (drop 41 t)\<rparr>), w2))
               else (Some p, w1)))"

text \<open>What \<open>sprintf\<close> writes in front of the data, and the string that the caller finds.\<close>

definition tcp_head :: "TCPPacket \<Rightarrow> string" where
  "tcp_head p = fmt_0d 5 (sint (tcp_src_port p)) @ fmt_0d 5 (sint (tcp_dst_port p))
     @ fmt_0d 10 (sint (tcp_seq_num p)) @ fmt_0d 10 (sint (tcp_ack_num p))
     @ [flags_char (tcp_flags p)] @ fmt_wd 10 (sint (tcp_checksum p))"

definition tcp_to_str :: "'s posix \<Rightarrow> TCPPacket \<Rightarrow> 's world \<Rightarrow> string option \<times> 's world" where
  "tcp_to_str P packet w =
     (case tcp_data packet of
        None \<Rightarrow> (None, set_ub w)
      | Some d \<Rightarrow>
          let (m, w1) = sys_malloc P (41 + length d + 1) w in
          case m of
            None \<Rightarrow> (None, w1)
          | Some _ \<Rightarrow>
              (Some (cstr (tcp_head packet @ d)),
               if length (tcp_head packet @ d) \<le> 41 + length d then w1 else set_ub w1))"

definition construct_packet ::
  "'s posix \<Rightarrow> addr \<Rightarrow> string \<Rightarrow> 8 word \<Rightarrow> c_int \<Rightarrow> 's world \<Rightarrow> TCPPacket option \<times> 's world" where
  "construct_packet P socket data flags to_port w =
     (let (allocated, w1) = sys_new P w in
      if \<not> allocated then (None, w1)
      else let (m, w2) = sys_malloc P (length data + 1) w1 in
        case m of
          None \<Rightarrow> (None, w2)
        | Some _ \<Rightarrow>
            let s = sock_at w2 socket;
                result = \<lparr>tcp_src_port = src_port (id_at w2 (the (sk_id s))),
                          tcp_dst_port = to_port,
                          tcp_seq_num = seq_of_first_send_window s,
                          tcp_ack_num = seq_of_first_recv_window s,
                          tcp_flags = flags, tcp_checksum = 0, tcp_data = None\<rparr>
            in (Some (result\<lparr>tcp_checksum := calc_checksum result, tcp_data := Some data\<rparr>), w2))"

section \<open>Round trip\<close>

text \<open>
  The segments whose text can be read back: every field fits its column, the flags are not
  all clear, and the data does not continue the checksum.
\<close>

definition tcp_sane :: "TCPPacket \<Rightarrow> bool" where
  "tcp_sane p \<longleftrightarrow> fits 5 (sint (tcp_src_port p)) \<and> fits 5 (sint (tcp_dst_port p))
     \<and> fits 10 (sint (tcp_seq_num p)) \<and> fits 10 (sint (tcp_ack_num p))
     \<and> fits 10 (sint (tcp_checksum p)) \<and> tcp_flags p \<noteq> 0"

definition separated :: "c_int \<Rightarrow> string \<Rightarrow> bool" where
  "separated checksum d \<longleftrightarrow> d = [] \<or> \<not> is_digit (hd d) \<or> length (fmt_d (sint checksum)) = 10"

lemma char_flags_char [simp]: "char_flags (flags_char f) = f"
proof -
  have "unat f < 256"
    using unsigned_less [of f, where 'a = nat] by simp
  then show ?thesis by (simp add: char_flags_def flags_char_def)
qed

lemma flags_char_eq_NUL [simp]: "flags_char f = NUL \<longleftrightarrow> f = 0"
proof
  assume "flags_char f = NUL"
  then have "f = char_flags NUL" by (metis char_flags_char)
  then show "f = 0" by (simp add: char_flags_def)
qed (simp add: flags_char_def char_of_def)

lemma length_tcp_head: "tcp_sane p \<Longrightarrow> length (tcp_head p) = 41"
  by (auto simp: tcp_sane_def tcp_head_def length_fmt_0d length_fmt_wd fits_def)

lemma tcp_head_no_NUL: "tcp_sane p \<Longrightarrow> NUL \<notin> set (tcp_head p)"
  by (auto simp: tcp_sane_def tcp_head_def dest: sym)

lemma sscanf_tcp_head:
  assumes "tcp_sane p" and "separated (tcp_checksum p) d"
  shows "sscanf_tcp (tcp_head p @ d) = Some (p\<lparr>tcp_data := None\<rparr>)"
  using assms
  by (simp add: tcp_sane_def separated_def sscanf_tcp_def tcp_head_def scan_fmt_0d scan_char_def
      scan_fmt_wd disj_ac)

text \<open>
  Printing a sane segment: the text, with nothing written past the buffer.  Parsing the text gives
  the segment back; the data of an empty segment comes back as \<open>NULL\<close>.
\<close>

definition norm_data :: "TCPPacket \<Rightarrow> string \<Rightarrow> TCPPacket" where
  "norm_data p d = p\<lparr>tcp_data := (if d = [] then None else Some d)\<rparr>"

lemma tcp_to_str_sane:
  assumes "tcp_sane p" and "tcp_data p = Some d" and "NUL \<notin> set d"
    and "sys_malloc P (41 + length d + 1) w = (Some b, w1)"
  shows "tcp_to_str P p w = (Some (tcp_head p @ d), w1)"
  using assms by (simp add: tcp_to_str_def length_tcp_head tcp_head_no_NUL)

lemma str_to_tcp_head:
  assumes "tcp_sane p" and "separated (tcp_checksum p) d"
    and "sys_new P w = (True, w1)"
    and "d \<noteq> [] \<Longrightarrow> sys_malloc P (length d + 1) w1 = (Some b, w2)"
  shows "str_to_tcp P (Some (tcp_head p @ d)) w = (Some (norm_data p d), if d = [] then w1 else w2)"
  using assms sscanf_tcp_head [of p d]
  by (cases "d = []") (simp_all add: str_to_tcp_def length_tcp_head norm_data_def)

lemma construct_packet_eq:
  assumes "construct_packet P a d f port w = (Some p, w')"
  shows "p = (let s = sock_at w a; q = \<lparr>tcp_src_port = src_port (id_at w (the (sk_id s))),
      tcp_dst_port = port, tcp_seq_num = seq_of_first_send_window s,
      tcp_ack_num = seq_of_first_recv_window s, tcp_flags = f, tcp_checksum = 0, tcp_data = Some d\<rparr>
    in q\<lparr>tcp_checksum := calc_checksum q\<rparr>)"
    and "same_proc w w'"
proof -
  obtain ok w1 where w1: "sys_new P w = (ok, w1)" by fastforce
  obtain m w2 where w2: "sys_malloc P (length d + 1) w1 = (m, w2)" by fastforce
  have sp: "same_proc w w2" using w1 w2 by (blast intro: same_proc_trans)
  have "sock_at w2 a = sock_at w a" and "id_at w2 k = id_at w k" for k
    using same_procD [OF sp] by (simp_all add: sock_at_def id_at_def)
  then show "p = (let s = sock_at w a; q = \<lparr>tcp_src_port = src_port (id_at w (the (sk_id s))),
      tcp_dst_port = port, tcp_seq_num = seq_of_first_send_window s,
      tcp_ack_num = seq_of_first_recv_window s, tcp_flags = f, tcp_checksum = 0, tcp_data = Some d\<rparr>
    in q\<lparr>tcp_checksum := calc_checksum q\<rparr>)" and "same_proc w w'"
    using assms w1 w2 sp
    by (auto simp: construct_packet_def Let_def calc_checksum_def split: if_splits option.splits)
qed

lemma construct_packet_out:
  assumes "fifo_laws P out tgt" and "construct_packet P a d f port w = (r, w')"
  shows "out (os w') = out (os w)" and "same_proc w w'"
  using assms(2)
  by (auto simp: construct_packet_def Let_def fifo_laws_simps [OF assms(1)] intro: same_proc_trans
      split: prod.splits if_splits option.splits)

section \<open>Properties\<close>

text \<open>A segment of an example connection, with a given text as its data.\<close>

definition example_segment :: "string \<Rightarrow> TCPPacket" where
  "example_segment d =
     (let p = \<lparr>tcp_src_port = 80, tcp_dst_port = 9, tcp_seq_num = 100, tcp_ack_num = 200,
               tcp_flags = ACK, tcp_checksum = 0, tcp_data = Some d\<rparr>
      in p\<lparr>tcp_checksum := calc_checksum p\<rparr>)"

lemma example_segment:
  "tcp_sane (example_segment d)" "tcp_data (example_segment d) = Some d"
  "tcp_checksum (example_segment d) = 390" "calc_checksum (example_segment d) = 390"
  by (simp_all add: example_segment_def tcp_sane_def Let_def calc_checksum_def ACK_def fitsI_nonneg)

text \<open>
  C34. A segment whose fields fit their columns, with some flag set and whose data does not begin
  with a digit (or whose checksum fills its column), survives the wire: its text is 41 characters
  longer than the data, nothing is written past the buffer, and the text parses back to the same
  segment, with no data for empty data.
\<close>

theorem tcp_segment_roundtrip:
  assumes "tcp_sane p" and "tcp_data p = Some d" and "NUL \<notin> set d"
    and "separated (tcp_checksum p) d"
    and "sys_malloc P (41 + length d + 1) w = (Some b, w1)"
    and "sys_new P w1 = (True, w2)"
    and "d \<noteq> [] \<Longrightarrow> sys_malloc P (length d + 1) w2 = (Some b', w3)"
  shows "\<exists>text. tcp_to_str P p w = (Some text, w1) \<and> length text = 41 + length d
     \<and> str_to_tcp P (Some text) w1 = (Some (norm_data p d), if d = [] then w2 else w3)"
  using tcp_to_str_sane [OF assms(1,2,3,5)] str_to_tcp_head [OF assms(1,4,6,7)]
    length_tcp_head [OF assms(1)]
  by auto

lemma tcp_segment_roundtrip_witness:
  "\<exists>text. tcp_to_str sim_posix (example_segment ''hello'') (sim_world []) = (Some text, sim_world [])
     \<and> length text = 41 + length ''hello''
     \<and> str_to_tcp sim_posix (Some text) (sim_world [])
       = (Some (norm_data (example_segment ''hello'') ''hello''), if ''hello'' = [] then sim_world [] else sim_world [])"
  by (rule tcp_segment_roundtrip)
    (simp_all add: example_segment sim_alloc separated_def is_digit_def)

text \<open>
  C40. The checksum column is padded with blanks, which \<open>sscanf("%10d")\<close> skips without counting them:
  data that begins with digits is read into the checksum, and a segment sent with the right
  checksum parses to one whose checksum is wrong, which the receiver drops.  (Stated for at most
  nine digits in all.)
\<close>

theorem tcp_digits_corrupt_checksum:
  assumes sane: "tcp_sane p" and chk: "tcp_checksum p = calc_checksum p" "0 < sint (tcp_checksum p)"
    and t: "t = takeWhile is_digit d" "t \<noteq> []" "length (fmt_d (sint (tcp_checksum p))) + length t \<le> 9"
    and new: "sys_new P w = (True, w1)" "sys_malloc P (length d + 1) w1 = (Some b, w2)"
  shows "\<exists>q. str_to_tcp P (Some (tcp_head p @ d)) w = (Some q, w2) \<and> tcp_data q = Some d
    \<and> tcp_checksum q \<noteq> calc_checksum q"
proof -
  let ?c = "sint (tcp_checksum p)"
  have w: "length (fmt_d ?c) + length t \<le> 10" using t(3) by simp
  from scan_fmt_wd_digits [OF _ t(1) w] chk(2) obtain n where
    n: "scan_int 10 (fmt_wd 10 ?c @ d) = Some (int n, drop (length t) d)"
       "nat ?c * 10 ^ length t \<le> n" "n < 10 ^ (length (fmt_d ?c) + length t)" by auto
  have "(10 :: nat) ^ (length (fmt_d ?c) + length t) \<le> 10 ^ 9"
    using t(3) by (intro power_increasing) simp_all
  then have "n < 2147483648" using n(3) by simp
  then have sn: "sint (word_of_int (int n) :: c_int) = int n"
    by (intro sint_word_of_int_32) simp_all
  have "nat ?c * 10 ^ 1 \<le> nat ?c * 10 ^ length t"
    using t(2) by (intro mult_le_mono2 power_increasing) (auto simp: Suc_le_eq)
  then have "nat ?c * 10 ^ 1 \<le> n" using n(2) by (rule order_trans)
  then have "nat ?c * 10 \<le> n" by simp
  then have "?c < int n" using chk(2) by linarith
  then have ne: "word_of_int (int n) \<noteq> tcp_checksum p" using sn by auto
  have scan: "sscanf_tcp (tcp_head p @ d)
      = Some (p\<lparr>tcp_checksum := word_of_int (int n), tcp_data := None\<rparr>)"
    using sane n(1) by (simp add: tcp_sane_def sscanf_tcp_def tcp_head_def scan_fmt_0d scan_char_def)
  have "d \<noteq> []" using t by auto
  then show ?thesis
    using scan new length_tcp_head [OF sane] ne chk(1)
    by (simp add: str_to_tcp_def calc_checksum_def)
qed

lemma tcp_digits_corrupt_checksum_witness:
  "\<exists>q. str_to_tcp sim_posix (Some (tcp_head (example_segment ''7up'') @ ''7up'')) (sim_world [])
      = (Some q, sim_world []) \<and> tcp_data q = Some ''7up'' \<and> tcp_checksum q \<noteq> calc_checksum q"
proof (rule tcp_digits_corrupt_checksum)
  show "''7'' = takeWhile is_digit ''7up''" by (simp add: is_digit_def)
  have "length (fmt_d 390) \<le> 3" using length_fmt_d [of 390 3] by simp
  then show "length (fmt_d (sint (tcp_checksum (example_segment ''7up'')))) + length ''7'' \<le> 9"
    by (simp add: example_segment)
qed (simp_all add: example_segment sim_alloc)

end
