(* ===== verification/Socket_Utils.thy ===== *)
theory Socket_Utils imports Fifo_Utils begin

text \<open>
  The socket objects of src/socket_utils.c: creation with empty windows, destruction, and
  \<open>update_recv_window\<close>, which hands the contiguous front of the receive window to the user and
  slides the window.  The fields of a socket that creation leaves unset are read from the fresh
  block.
\<close>

section \<open>Creation and destruction\<close>

text \<open>\<open>destroy_socket\<close> frees the socket and its identifier; the windows are not tracked as blocks.\<close>

definition destroy_socket :: "addr \<Rightarrow> 's world \<Rightarrow> 's world" where
  "destroy_socket socket_to_destroy w =
     (let s = sock_at w socket_to_destroy;
          w1 = (if sk_id s \<noteq> None then destroy_socket_id (sk_id s) w else w)
      in free_sock socket_to_destroy w1)"

definition destroy_socket_fifos :: "'s posix \<Rightarrow> addr \<Rightarrow> 's world \<Rightarrow> 's world" where
  "destroy_socket_fifos P socket w =
     (let w1 = close_socket_fifos P socket w
      in if sk_id (sock_at w1 socket) \<noteq> None then unlink_socket_fifos P socket w1 else w1)"

text \<open>
  A new socket.  Its state is left unset by the code; every caller sets it before the socket is
  reachable from the table, and the model starts it at \<open>CLOSED\<close>.  The loop over
  \<open>recv_window_isvalid\<close> runs before the array is tested for \<open>NULL\<close>.
\<close>

definition fresh_socket :: "fresh_block \<Rightarrow> queue option \<Rightarrow> fresh_block \<Rightarrow> int \<Rightarrow> int \<Rightarrow> socket" where
  "fresh_socket b q r sent created =
     \<lparr>sk_id = None, sk_state = CLOSED,
      listen_fifo_read_end = - 1, listen_fifo_write_end = - 1, accept_fifo_write_end = - 1,
      out_fifo_read_end = - 1, in_fifo_write_end = - 1, end_fifo_read_end = - 1,
      end_fifo_write_end = - 1,
      send_window = q, seq_of_first_send_window = 0,
      recv_window = block_cells r MAX_WINDOW_SIZE, max_recv_window_size = of_nat MAX_WINDOW_SIZE,
      seq_of_first_recv_window = 0, recv_window_isvalid = replicate MAX_WINDOW_SIZE False,
      max_connections = fresh_word b 0, last_send_clock = sent, creation_time = created,
      time_since_fin_sent = sint (fresh_word b 4)\<rparr>"

definition create_new_socket :: "'s posix \<Rightarrow> 's world \<Rightarrow> addr option \<times> 's world" where
  "create_new_socket P w =
     (let (m, w1) = sys_malloc P 112 w in
      case m of
        None \<Rightarrow> (None, w1)
      | Some b \<Rightarrow>
          let (allocated, w2) = sys_new P w1;
              q = QueueCreate allocated;
              (recv, w3) = sys_malloc P MAX_WINDOW_SIZE w2;
              (isvalid, w4) = sys_malloc P MAX_WINDOW_SIZE w3
          in if isvalid = None then (None, set_ub w4)
             else let (sent, w5) = sys_clock P w4;
                      (created, w6) = sys_clock P w5
                  in if q = None \<or> recv = None then (None, w6)
                     else let s = fresh_socket b q (the recv) sent created;
                              (a, w7) = new_sock (s\<lparr>recv_window := replicate MAX_WINDOW_SIZE NUL\<rparr>) w6
                          in (Some a, w7))"

definition create_bound_socket :: "'s posix \<Rightarrow> addr \<Rightarrow> 's world \<Rightarrow> addr option \<times> 's world" where
  "create_bound_socket P sock_id w =
     (let (result, w1) = create_new_socket P w in
      case result of
        None \<Rightarrow> (None, w1)
      | Some a \<Rightarrow>
          let w2 = upd_sock a (\<lambda>s. s\<lparr>sk_state := CLOSED\<rparr>) w1;
              (r, w3) = create_socket_end_fifos P (Some sock_id) w2
          in if r \<noteq> 0 then (None, destroy_socket a w3)
             else (Some a, upd_sock a (\<lambda>s. s\<lparr>sk_id := Some sock_id\<rparr>) w3))"

definition compare_socket :: "'s world \<Rightarrow> addr option \<Rightarrow> addr option \<Rightarrow> bool c_result" where
  "compare_socket w s1 s2 =
     (case s1 of
        None \<Rightarrow> Returns (s2 = None)
      | Some a \<Rightarrow>
          (case s2 of
             None \<Rightarrow> Undefined
           | Some b \<Rightarrow> Returns (compare_socket_id (ids w) (the (sk_id (sock_at w a)))
                                 (the (sk_id (sock_at w b))))))"

section \<open>The receive window\<close>

text \<open>The length of the contiguous front, and the loops that slide both arrays.\<close>

definition valid_recvs :: "socket \<Rightarrow> nat" where
  "valid_recvs s = length (takeWhile id
     (map (\<lambda>i. recv_window_isvalid s ! i) [0..<nat (sint (max_recv_window_size s))]))"

definition slide_recv_window :: "nat \<Rightarrow> socket \<Rightarrow> socket" where
  "slide_recv_window n s =
     (let m = nat (sint (max_recv_window_size s));
          s1 = foldl (\<lambda>s i. s\<lparr>recv_window := (recv_window s)[i := recv_window s ! (i + n)],
                              recv_window_isvalid :=
                                (recv_window_isvalid s)[i := recv_window_isvalid s ! (i + n)]\<rparr>)
                     s [0..<m - n]
      in foldl (\<lambda>s i. s\<lparr>recv_window_isvalid := (recv_window_isvalid s)[i := False]\<rparr>) s1 [m - n..<m])"

text \<open>A count that \<open>write\<close> cannot return would make the loops leave the arrays.\<close>

definition update_recv_window :: "'s posix \<Rightarrow> addr \<Rightarrow> 's world \<Rightarrow> 's world" where
  "update_recv_window P a w =
     (let s = sock_at w a;
          (name, w1) = get_socket_recv_fifo_name P (sk_id s) w
      in if name = None then w1
         else let (n, w2) = write_string_to_fifo_name P name (take (valid_recvs s) (recv_window s)) w1
              in if n = - 1 then w2
                 else if n < 0 \<or> n > sint (max_recv_window_size s) then set_ub w2
                 else upd_sock a (\<lambda>s. slide_recv_window (nat n)
                        (s\<lparr>seq_of_first_recv_window := seq_of_first_recv_window s + word_of_int n\<rparr>)) w2)"

section \<open>Sliding\<close>

definition wf_windows :: "socket \<Rightarrow> bool" where
  "wf_windows s \<longleftrightarrow> max_recv_window_size s = of_nat MAX_WINDOW_SIZE
     \<and> length (recv_window s) = MAX_WINDOW_SIZE \<and> length (recv_window_isvalid s) = MAX_WINDOW_SIZE"

lemma sint_window_size [simp]: "sint (word_of_nat MAX_WINDOW_SIZE :: c_int) = 1024"
  by (simp add: MAX_WINDOW_SIZE_def)

lemma wf_windowsD [inv_dest]:
  assumes "wf_windows s"
  shows "sint (max_recv_window_size s) = 1024" "length (recv_window s) = 1024"
    "length (recv_window_isvalid s) = 1024"
  using assms by (auto simp: wf_windows_def MAX_WINDOW_SIZE_def)

text \<open>Copying cells down, front first, never reads a cell already overwritten.\<close>

lemma fold_shift:
  assumes "k + n \<le> length xs"
  shows "foldl (\<lambda>xs i. xs[i := xs ! (i + n)]) xs [0..<k] = take k (drop n xs) @ drop k xs"
  using assms
proof (induction k)
  case (Suc k)
  then have "foldl (\<lambda>xs i. xs[i := xs ! (i + n)]) xs [0..<Suc k]
      = (take k (drop n xs) @ drop k xs)[k := (take k (drop n xs) @ drop k xs) ! (k + n)]"
    by simp
  also have "\<dots> = take (Suc k) (drop n xs) @ drop (Suc k) xs"
  proof -
    let ?f = "take k (drop n xs)"
    have d: "drop k xs = xs ! k # drop (Suc k) xs"
      using Suc.prems by (intro Cons_nth_drop_Suc [symmetric]) simp
    have t: "take (Suc k) (drop n xs) = ?f @ [xs ! (k + n)]"
      using Suc.prems by (simp add: take_Suc_conv_app_nth add.commute)
    have l: "length ?f = k" using Suc.prems by simp
    have "(?f @ drop k xs) ! (k + n) = drop k xs ! n"
      by (metis l nth_append_length_plus)
    also have "\<dots> = xs ! (k + n)" using Suc.prems by simp
    finally have "(?f @ drop k xs)[k := (?f @ drop k xs) ! (k + n)] = (?f @ drop k xs)[k := xs ! (k + n)]"
      by simp
    also have "\<dots> = ?f @ xs ! (k + n) # drop (Suc k) xs"
      unfolding d using l by (metis list_update_length)
    finally show ?thesis unfolding t by simp
  qed
  finally show ?case .
qed simp

lemma fold_clear:
  assumes "k \<le> length xs"
  shows "foldl (\<lambda>xs i. xs[i := False]) xs [j..<k]
       = take j xs @ replicate (k - j) False @ drop (max j k) xs"
proof (cases "j \<le> k")
  case True
  then show ?thesis using assms
  proof (induction k)
    case (Suc k)
    show ?case
    proof (cases "j = Suc k")
      case False
      then have "foldl (\<lambda>xs i. xs[i := False]) xs [j..<Suc k]
          = (take j xs @ replicate (k - j) False @ drop k xs)[k := False]"
        using Suc by (simp add: max_def)
      also have "\<dots> = take j xs @ replicate (Suc k - j) False @ drop (Suc k) xs"
        using False Suc.prems
        by (intro nth_equalityI) (auto simp: nth_append nth_list_update min_def less_Suc_eq)
      finally show ?thesis using False Suc.prems by (simp add: max_def)
    qed simp
  qed simp
qed simp

lemma slide_fold:
  "foldl (\<lambda>s i. s\<lparr>recv_window := (recv_window s)[i := recv_window s ! (i + n)],
                recv_window_isvalid := (recv_window_isvalid s)[i := recv_window_isvalid s ! (i + n)]\<rparr>)
     s is
   = s\<lparr>recv_window := foldl (\<lambda>xs i. xs[i := xs ! (i + n)]) (recv_window s) is,
        recv_window_isvalid := foldl (\<lambda>xs i. xs[i := xs ! (i + n)]) (recv_window_isvalid s) is\<rparr>"
  by (induction "is" rule: rev_induct) simp_all

lemma clear_fold:
  "foldl (\<lambda>s i. s\<lparr>recv_window_isvalid := (recv_window_isvalid s)[i := False]\<rparr>) s is
   = s\<lparr>recv_window_isvalid := foldl (\<lambda>xs i. xs[i := False]) (recv_window_isvalid s) is\<rparr>"
  by (induction "is" rule: rev_induct) simp_all

lemma slide_recv_window_eq:
  assumes "wf_windows s" and "n \<le> 1024"
  shows "slide_recv_window n s
    = s\<lparr>recv_window := drop n (recv_window s) @ drop (1024 - n) (recv_window s),
        recv_window_isvalid := drop n (recv_window_isvalid s) @ replicate n False\<rparr>"
proof -
  note wf = wf_windowsD [OF assms(1)]
  show ?thesis
    using wf assms(2)
    by (simp add: slide_recv_window_def Let_def slide_fold clear_fold fold_shift fold_clear max_def)
qed

lemma valid_recvs_eq:
  "wf_windows s \<Longrightarrow> valid_recvs s = length (takeWhile id (recv_window_isvalid s))"
  using wf_windowsD [of s] map_nth [of "recv_window_isvalid s"] by (simp add: valid_recvs_def)

lemma valid_recvs_le: "wf_windows s \<Longrightarrow> valid_recvs s \<le> 1024"
  using length_takeWhile_le [of id "recv_window_isvalid s"] wf_windowsD [of s]
  by (simp add: valid_recvs_eq)

lemma valid_recvs_nth: "wf_windows s \<Longrightarrow> i < valid_recvs s \<Longrightarrow> recv_window_isvalid s ! i"
  by (metis id_apply nth_mem set_takeWhileD takeWhile_nth valid_recvs_eq)

text \<open>
  \<open>update_recv_window\<close> appends some of the contiguous front to what the user can read and slides
  the window by as many bytes.
\<close>

definition advance_recv :: "nat \<Rightarrow> socket \<Rightarrow> socket" where
  "advance_recv m s = slide_recv_window m
     (s\<lparr>seq_of_first_recv_window := seq_of_first_recv_window s + word_of_nat m\<rparr>)"

lemma advance_recv_0 [simp]: "wf_windows s \<Longrightarrow> advance_recv 0 s = s"
  using wf_windowsD [of s] by (simp add: advance_recv_def slide_recv_window_eq)

lemma update_recv_window_spec:
  assumes laws: "fifo_laws P out tgt" and s: "socks w a = Some s" and k: "sk_id s = Some k"
    and wf: "wf_sockid (id_at w k)" and win: "wf_windows s"
  obtains m w1 where "m \<le> valid_recvs s" "same_proc w w1"
    "update_recv_window P a w = upd_sock a (\<lambda>_. advance_recv m s) w1"
    "out (os w1) = (let n = socket_fifo_path IN_DATA_SOCKET_FIFO_PREFIX (id_at w k)
       in (out (os w))(n := out (os w) n @ take m (recv_window s)))"
proof -
  have same: "upd_sock a (\<lambda>_. s) w1 = w1" if "same_proc w w1" for w1
    using same_procD(2) [OF that] s by (simp add: upd_sock_def fun_upd_idem)
  obtain nm w1 where n: "get_socket_recv_fifo_name P (Some k) w = (nm, w1)" by fastforce
  note N = construct_full_socket_fifo_name_spec [OF n [unfolded socket_name_defs] wf]
  have sa: "sock_at w a = s" using s by (simp add: sock_at_def)
  show thesis
  proof (cases nm)
    case None
    then show thesis
      using n sa k N(1) N(3) [OF laws] win same
      by (intro that [of 0 w1]) (simp_all add: update_recv_window_def)
  next
    case (Some p)
    let ?bs = "take (valid_recvs s) (recv_window s)"
    have p: "p = socket_fifo_path IN_DATA_SOCKET_FIFO_PREFIX (id_at w k)" using N(2) Some by simp
    have lbs: "length ?bs = valid_recvs s"
      using valid_recvs_le [OF win] wf_windowsD [OF win] by simp
    obtain r w2 where wr: "write_string_to_fifo_name P (Some p) ?bs w1 = (r, w2)" by fastforce
    from wr laws show thesis
    proof (cases rule: write_string_to_fifo_name_spec)
      case 1
      then have "same_proc w w2" using N(1) same_proc_trans by blast
      then show thesis
        using 1 n sa k Some wr N(3) [OF laws] win same
        by (intro that [of 0 w2]) (simp_all add: update_recv_window_def)
    next
      case (2 m)
      have sp: "same_proc w w2" using N(1) 2(3) same_proc_trans by blast
      have m: "m \<le> valid_recvs s" "m \<le> 1024" using 2(2) lbs valid_recvs_le [OF win] by auto
      have "update_recv_window P a w = upd_sock a (\<lambda>_. advance_recv m s) w2"
        using n sa k Some wr 2(1) m wf_windowsD(1) [OF win] same_procD(2) [OF sp] s
        by (simp add: update_recv_window_def upd_sock_def advance_recv_def)
      moreover have "take m ?bs = take m (recv_window s)" using m by simp
      ultimately show thesis
        using m sp 2(4) N(3) [OF laws] p by (intro that [of m w2]) (simp_all add: Let_def)
    qed
  qed
qed

end
