(* ===== verification/Packet_Handlers.thy ===== *)
theory Packet_Handlers imports Tcp Socket_Utils begin

text \<open>
  src/packet_handlers.c: what a socket does with an incoming segment in each state of the
  connection, and the two functions of src/network_manager/network_manager.c that tell a
  waiting client about a new connection.  The socket is an address in the heap of the process;
  a handler returns the reply segment to send, if any.
\<close>

section \<open>The table of the manager\<close>

definition mgr_getSocket :: "addr option \<Rightarrow> 's world \<Rightarrow> addr option" where
  "mgr_getSocket k w = getSocket (ids w) (mgr_sockets w) k"

definition mgr_insertSocket :: "addr option \<Rightarrow> 's world \<Rightarrow> bool \<times> 's world" where
  "mgr_insertSocket a w =
     (let (r, hm) = insertSocket (ids w) (socks w) (mgr_sockets w) a in (r, w\<lparr>mgr_sockets := hm\<rparr>))"

definition mgr_hashmapRemove :: "addr option \<Rightarrow> 's world \<Rightarrow> bool \<times> 's world" where
  "mgr_hashmapRemove k w =
     (let (r, hm) = hashmapRemove (ids w) (socks w) (mgr_sockets w) k in (r, w\<lparr>mgr_sockets := hm\<rparr>))"

section \<open>Telling the client\<close>

text \<open>The identifier of the bound-only socket from which a connection came.\<close>

definition unconnected :: "sockid \<Rightarrow> sockid" where
  "unconnected i = i\<lparr>dst_port := EMPTY_PORT, dst_ip := ip_set_empty (dst_ip i)\<rparr>"

definition notify_connect_client :: "'s posix \<Rightarrow> addr \<Rightarrow> 's world \<Rightarrow> int \<times> 's world" where
  "notify_connect_client P socket w =
     (let (r, w1) = create_socket_end_fifos P (sk_id (sock_at w socket)) w in
      if r \<noteq> 0 then (- 1, w1)
      else let (old_id, w2) = copy_socket_id P (the (sk_id (sock_at w1 socket))) w1 in
        case old_id of
          None \<Rightarrow> (- 1, w2)
        | Some k \<Rightarrow>
            let w3 = upd_id k unconnected w2;
                (connect_fifo_name, w4) = get_connect_fifo_read_end_name P (Some k) w3
            in if connect_fifo_name = None then (- 1, free_id k w4)
               else let (result, w5) = write_char_to_fifo_name P connect_fifo_name REQUEST_GRANTED_FIFO w4
                    in (result, free_id k w5))"

definition notify_accept_client :: "'s posix \<Rightarrow> addr \<Rightarrow> 's world \<Rightarrow> int \<times> 's world" where
  "notify_accept_client P socket w =
     (let (old_id, w1) = copy_socket_id P (the (sk_id (sock_at w socket))) w in
      case old_id of
        None \<Rightarrow> (- 1, w1)
      | Some k \<Rightarrow>
          let w2 = upd_id k unconnected w1;
              (accept_fifo_name, w3) = get_accept_fifo_write_end_name P (Some k) w2
          in case accept_fifo_name of
               None \<Rightarrow> (- 1, free_id k w3)
             | Some n \<Rightarrow>
                 let i = id_at w3 (the (sk_id (sock_at w3 socket)));
                     reply_string = cstr (dst_ip i) @ ''_'' @ fmt_d (sint (dst_port i));
                     (accept_fifo_fd, w4) = sys_open P n O_WRONLY_NONBLOCK w3;
                     (result, w6) =
                       (if accept_fifo_fd = - 1 then (- 1, w4)
                        else let (written, w5) = sys_write P accept_fifo_fd (reply_string @ [NUL]) w4
                             in (if written = int (length reply_string) + 1 then 0 else - 1,
                                 sys_close P accept_fifo_fd w5))
                 in (result, free_id k w6))"

section \<open>Handlers\<close>

definition generate_rst_packet ::
  "'s posix \<Rightarrow> addr \<Rightarrow> c_int \<Rightarrow> 's world \<Rightarrow> TCPPacket option \<times> 's world" where
  "generate_rst_packet P socket to_port w = construct_packet P socket [] RST to_port w"

definition handle_packet_listen ::
  "'s posix \<Rightarrow> addr \<Rightarrow> TCPPacket \<Rightarrow> char list \<Rightarrow> 's world \<Rightarrow> TCPPacket option \<times> 's world" where
  "handle_packet_listen P socket packet from_ip w =
     (if \<not> has_flag packet SYN then (None, w)
      else if max_connections (sock_at w socket) = 0
        then generate_rst_packet P socket (tcp_src_port packet) w
      else let (new_conn_id, w1) = copy_socket_id P (the (sk_id (sock_at w socket))) w in
        case new_conn_id of
          None \<Rightarrow> (None, w1)
        | Some k \<Rightarrow>
          let ip = strcpy_lib (dst_ip (id_at w1 k)) (cstr from_ip);
              w2 = (case ip of
                      Undefined \<Rightarrow> set_ub w1
                    | Returns s \<Rightarrow> upd_id k (\<lambda>i. i\<lparr>dst_ip := s, dst_port := tcp_src_port packet\<rparr>) w1);
              (new_conn, w3) = create_new_socket P w2
          in case new_conn of
               None \<Rightarrow> (None, destroy_socket_id (Some k) w3)
             | Some n \<Rightarrow>
               let (r, w4) = create_socket_end_fifos P (Some k) w3 in
               if r \<noteq> 0 then (None, destroy_socket_id (Some k) (destroy_socket n w4))
               else let w5 = upd_sock n (\<lambda>s. s\<lparr>sk_id := Some k\<rparr>) w4;
                        (my_seq, w6) = sys_rand P w5;
                        w7 = upd_sock n (\<lambda>s. s\<lparr>seq_of_first_send_window := my_seq,
                               sk_state := SYN_RECEIVED,
                               seq_of_first_recv_window := tcp_seq_num packet + 1\<rparr>) w6;
                        (inserted, w8) = mgr_insertSocket (Some n) w7
                    in if \<not> inserted then (None, destroy_socket n (unlink_socket_fifos P n w8))
                       else (None, upd_sock socket (\<lambda>s. s\<lparr>max_connections := max_connections s - 1\<rparr>) w8))"

definition handle_packet_syn_sent ::
  "'s posix \<Rightarrow> addr \<Rightarrow> TCPPacket \<Rightarrow> 's world \<Rightarrow> TCPPacket option \<times> 's world" where
  "handle_packet_syn_sent P socket packet w =
     (if \<not> has_flag packet SYN then (None, w)
      else if \<not> has_flag packet ACK
          \<or> tcp_ack_num packet \<noteq> seq_of_first_send_window (sock_at w socket) then (None, w)
      else let (result, w1) = notify_connect_client P socket w in
        if result = 0 then
          (None, upd_sock socket (\<lambda>s. s\<lparr>seq_of_first_recv_window := tcp_seq_num packet + 1,
                                        sk_state := ESTABLISED\<rparr>) w1)
        else (None, w1))"

definition handle_packet_syn_received ::
  "'s posix \<Rightarrow> addr \<Rightarrow> TCPPacket \<Rightarrow> 's world \<Rightarrow> TCPPacket option \<times> 's world" where
  "handle_packet_syn_received P socket packet w =
     (if \<not> has_flag packet ACK then (None, w)
      else if tcp_ack_num packet \<noteq> seq_of_first_send_window (sock_at w socket) then (None, w)
      else let (result, w1) = notify_accept_client P socket w in
        if result = 0 then (None, upd_sock socket (\<lambda>s. s\<lparr>sk_state := ESTABLISED\<rparr>) w1)
        else (None, w1))"

text \<open>One byte of a data segment goes into the window if it falls inside and is missing.\<close>

definition store_byte :: "c_int \<Rightarrow> string \<Rightarrow> socket \<Rightarrow> nat \<Rightarrow> socket" where
  "store_byte seq data s i =
     (let current_byte_seq = seq + of_nat i;
          place_in_window = sint (current_byte_seq - seq_of_first_recv_window s)
      in if place_in_window \<ge> 0 \<and> place_in_window < sint (max_recv_window_size s)
            \<and> recv_window_isvalid s ! nat place_in_window = False
         then s\<lparr>recv_window := (recv_window s)[nat place_in_window := data ! i],
                recv_window_isvalid := (recv_window_isvalid s)[nat place_in_window := True]\<rparr>
         else s)"

definition store_data :: "c_int \<Rightarrow> string \<Rightarrow> socket \<Rightarrow> socket" where
  "store_data seq data s = foldl (store_byte seq data) s [0..<length data]"

definition receiveNewData :: "'s posix \<Rightarrow> addr \<Rightarrow> TCPPacket \<Rightarrow> 's world \<Rightarrow> 's world" where
  "receiveNewData P socket packet w =
     update_recv_window P socket
       (upd_sock socket (store_data (tcp_seq_num packet) (the (tcp_data packet))) w)"

text \<open>The loop that drops acknowledged bytes.\<close>

lemma signed_lt_succ:
  assumes "x <s (y :: c_int)"
  shows "sint (x + 1) = sint x + 1"
proof -
  have "sint (x + 1) = sint (word_of_int (sint x + 1) :: c_int)" by simp
  also have "\<dots> = sint x + 1"
    using assms sint_bounds_32 [of x] sint_bounds_32 [of y]
    by (intro sint_word_of_int_32) (auto simp: word_sless_alt)
  finally show ?thesis .
qed

function ack_slide :: "c_int \<Rightarrow> socket \<Rightarrow> socket" where
  "ack_slide packet_ack_num s =
     (if sint (seq_of_first_send_window s) < sint packet_ack_num
         \<and> QueueIsEmpty (send_window s) = False
      then (case send_window s of
              None \<Rightarrow> s
            | Some q \<Rightarrow>
                ack_slide packet_ack_num
                  (s\<lparr>send_window := Some (snd (dequeue q)),
                     seq_of_first_send_window := seq_of_first_send_window s + 1\<rparr>))
      else s)"
  by pat_completeness auto
termination
  by (relation "measure (\<lambda>(n, s). nat (sint n - sint (seq_of_first_send_window s)))")
     (auto simp: signed_lt_succ word_sless_alt)

declare ack_slide.simps [simp del]

definition handle_packet_established ::
  "'s posix \<Rightarrow> addr \<Rightarrow> TCPPacket \<Rightarrow> 's world \<Rightarrow> TCPPacket option \<times> 's world" where
  "handle_packet_established P socket packet w =
     (if has_flag packet SYN then (None, w)
      else if has_flag packet FIN then
        (None, upd_sock socket (\<lambda>s. s\<lparr>sk_state := CLOSE_WAIT,
                 seq_of_first_recv_window := tcp_seq_num packet + 1,
                 seq_of_first_send_window :=
                   seq_of_first_send_window s + word_of_int (QueueSize (send_window s))\<rparr>) w)
      else
        let s = sock_at w socket;
            w1 = (if has_flag packet ACK then
                    (if send_window s = None
                        \<and> sint (seq_of_first_send_window s) < sint (tcp_ack_num packet)
                     then set_ub w else upd_sock socket (ack_slide (tcp_ack_num packet)) w)
                  else w)
        in if tcp_data packet \<noteq> None then
             construct_packet P socket [] ACK (tcp_src_port packet) (receiveNewData P socket packet w1)
           else (None, w1))"

definition handle_packet_last_ack ::
  "addr \<Rightarrow> TCPPacket \<Rightarrow> 's world \<Rightarrow> TCPPacket option \<times> 's world" where
  "handle_packet_last_ack socket packet w =
     (if \<not> has_flag packet ACK then (None, w)
      else if sint (tcp_ack_num packet) \<le> sint (seq_of_first_send_window (sock_at w socket)) then (None, w)
      else (None, upd_sock socket (\<lambda>s. s\<lparr>sk_state := CLOSED\<rparr>) w))"

definition handle_packet_fin_wait_1 ::
  "'s posix \<Rightarrow> addr \<Rightarrow> TCPPacket \<Rightarrow> 's world \<Rightarrow> TCPPacket option \<times> 's world" where
  "handle_packet_fin_wait_1 P socket packet w =
     (let received_ack_fow_own_fin = (has_flag packet ACK
            \<and> sint (tcp_ack_num packet) > sint (seq_of_first_send_window (sock_at w socket)));
          w1 = (if received_ack_fow_own_fin
                then upd_sock socket (\<lambda>s. s\<lparr>sk_state := FIN_WAIT_2\<rparr>) w else w)
      in if has_flag packet FIN then
           let w2 = upd_sock socket (\<lambda>s. s\<lparr>seq_of_first_recv_window := tcp_seq_num packet + 1,
                                          sk_state := CLOSING\<rparr>) w1;
               (fin_time, w3) = sys_clock P w2;
               w4 = upd_sock socket (\<lambda>s. s\<lparr>time_since_fin_sent := fin_time\<rparr>) w3
           in if received_ack_fow_own_fin then
                let (now, w5) = sys_clock P w4
                in (None, upd_sock socket (\<lambda>s. s\<lparr>last_send_clock := now, sk_state := TIME_WAIT\<rparr>) w5)
              else (None, w4)
         else (None, w1))"

definition handle_packet_fin_wait_2 ::
  "'s posix \<Rightarrow> addr \<Rightarrow> TCPPacket \<Rightarrow> 's world \<Rightarrow> TCPPacket option \<times> 's world" where
  "handle_packet_fin_wait_2 P socket packet w =
     (if has_flag packet FIN then
        construct_packet P socket [] ACK (tcp_src_port packet)
          (upd_sock socket (\<lambda>s. s\<lparr>sk_state := TIME_WAIT,
             seq_of_first_recv_window := tcp_seq_num packet + 1\<rparr>) w)
      else (None, w))"

definition handle_packet_closing ::
  "'s posix \<Rightarrow> addr \<Rightarrow> TCPPacket \<Rightarrow> 's world \<Rightarrow> TCPPacket option \<times> 's world" where
  "handle_packet_closing P socket packet w =
     (if has_flag packet ACK
         \<and> sint (tcp_ack_num packet) > sint (seq_of_first_send_window (sock_at w socket)) then
        let (now, w1) = sys_clock P w
        in (None, upd_sock socket (\<lambda>s. s\<lparr>last_send_clock := now, sk_state := TIME_WAIT\<rparr>) w1)
      else (None, w))"

text \<open>\<open>CLOSED\<close>, \<open>CLOSE_WAIT\<close> and \<open>TIME_WAIT\<close> ignore every segment.\<close>

definition handle_packet_closed :: "'s world \<Rightarrow> TCPPacket option \<times> 's world" where
  "handle_packet_closed w = (None, w)"

definition handle_packet_close_wait :: "'s world \<Rightarrow> TCPPacket option \<times> 's world" where
  "handle_packet_close_wait w = (None, w)"

definition handle_packet_time_wait :: "'s world \<Rightarrow> TCPPacket option \<times> 's world" where
  "handle_packet_time_wait w = (None, w)"

definition handle_packet ::
  "'s posix \<Rightarrow> addr \<Rightarrow> TCPPacket \<Rightarrow> char list \<Rightarrow> 's world \<Rightarrow> TCPPacket option \<times> 's world" where
  "handle_packet P socket packet from_ip w =
     (let s = sock_at w socket in
      if has_flag packet RST \<and> sk_state s \<noteq> LISTEN then
        (None, upd_sock socket (\<lambda>s. s\<lparr>sk_state := CLOSED\<rparr>) w)
      else if sk_state s \<noteq> LISTEN \<and> tcp_src_port packet \<noteq> dst_port (id_at w (the (sk_id s))) then (None, w)
      else (case sk_state s of
              CLOSED \<Rightarrow> handle_packet_closed w
            | LISTEN \<Rightarrow> handle_packet_listen P socket packet from_ip w
            | SYN_SENT \<Rightarrow> handle_packet_syn_sent P socket packet w
            | SYN_RECEIVED \<Rightarrow> handle_packet_syn_received P socket packet w
            | ESTABLISED \<Rightarrow> handle_packet_established P socket packet w
            | CLOSE_WAIT \<Rightarrow> handle_packet_close_wait w
            | LAST_ACK \<Rightarrow> handle_packet_last_ack socket packet w
            | FIN_WAIT_1 \<Rightarrow> handle_packet_fin_wait_1 P socket packet w
            | FIN_WAIT_2 \<Rightarrow> handle_packet_fin_wait_2 P socket packet w
            | CLOSING \<Rightarrow> handle_packet_closing P socket packet w
            | TIME_WAIT \<Rightarrow> handle_packet_time_wait w))"

end
