(* ===== verification/Delivery.thy ===== *)
theory Delivery imports Packet_Handlers Sim_Os begin

text \<open>
  What an established socket delivers to its user.  The peer sends a message; byte \<open>i\<close> of it has
  the sequence number \<open>base + i\<close>.  Segments carry pieces of the message and arrive in any order,
  any number of times, or not at all.  The contract: what the user can read is at every moment a
  prefix of the message, and the acknowledgement number counts exactly the bytes handed over.
\<close>

section \<open>The window against the message\<close>

definition window_of :: "string \<Rightarrow> c_int \<Rightarrow> nat \<Rightarrow> socket \<Rightarrow> bool" where
  "window_of msg base n s \<longleftrightarrow> wf_windows s \<and> n \<le> length msg
     \<and> seq_of_first_recv_window s = base + of_nat n
     \<and> (\<forall>i < 1024. recv_window_isvalid s ! i \<longrightarrow> n + i < length msg \<and> recv_window s ! i = msg ! (n + i))"

text \<open>A segment that carries a piece of the message, from byte \<open>q\<close> on, or nothing.\<close>

definition piece_at :: "string \<Rightarrow> c_int \<Rightarrow> nat \<Rightarrow> c_int \<Rightarrow> string \<Rightarrow> bool" where
  "piece_at msg base q seq d \<longleftrightarrow>
     seq = base + of_nat q \<and> q + length d \<le> length msg \<and> d = take (length d) (drop q msg)"

definition carries :: "string \<Rightarrow> c_int \<Rightarrow> TCPPacket \<Rightarrow> bool" where
  "carries msg base p \<longleftrightarrow>
     (case tcp_data p of None \<Rightarrow> True
      | Some d \<Rightarrow> \<exists>q \<le> length msg. piece_at msg base q (tcp_seq_num p) d)"

text \<open>A message shorter than half the sequence space: positions compare as the code compares them.\<close>

lemma place_in_window:
  assumes "a < 2147483648" and "b < 2147483648"
  shows "sint (base + word_of_nat a - (base + word_of_nat b) :: c_int) = int a - int b"
proof -
  have "(base + word_of_nat a - (base + word_of_nat b) :: c_int) = word_of_int (int a - int b)"
    by simp
  then show ?thesis using assms by (simp only:) (intro sint_word_of_int_32; simp)
qed

lemma store_byte_cases:
  assumes win: "window_of msg base n s" and p: "piece_at msg base q seq d"
    and short: "length msg < 2147483648" and i: "i < length d"
  shows "store_byte seq d s i =
    (if n \<le> q + i \<and> q + i < n + 1024 \<and> \<not> recv_window_isvalid s ! (q + i - n)
     then s\<lparr>recv_window := (recv_window s)[q + i - n := msg ! (q + i)],
            recv_window_isvalid := (recv_window_isvalid s)[q + i - n := True]\<rparr>
     else s)"
proof -
  have n: "n < 2147483648" and qi: "q + i < 2147483648"
    using win p short i by (auto simp: window_of_def piece_at_def)
  have e: "seq + of_nat i = base + of_nat (q + i)" using p by (simp add: piece_at_def)
  have f: "seq_of_first_recv_window s = base + of_nat n" using win by (simp add: window_of_def)
  have place: "sint (seq + of_nat i - seq_of_first_recv_window s) = int (q + i) - int n"
    unfolding e f by (rule place_in_window [OF qi n])
  have di: "d ! i = msg ! (q + i)"
  proof -
    have "d ! i = take (length d) (drop q msg) ! i" using p by (simp add: piece_at_def)
    then show ?thesis using i p by (simp add: piece_at_def)
  qed
  have nat: "nat (int (q + i) - int n) = q + i - n" by simp
  have max: "sint (max_recv_window_size s) = 1024"
    using win by (intro wf_windowsD) (simp add: window_of_def)
  show ?thesis
    unfolding store_byte_def Let_def place max nat di
    by (cases "n \<le> q + i"; cases "q + i < n + 1024") auto
qed

lemma store_byte_window:
  assumes win: "window_of msg base n s" and "piece_at msg base q seq d"
    and "length msg < 2147483648" and "i < length d"
  shows "window_of msg base n (store_byte seq d s i)"
proof -
  let ?j = "q + i - n"
  let ?s = "s\<lparr>recv_window := (recv_window s)[?j := msg ! (q + i)],
              recv_window_isvalid := (recv_window_isvalid s)[?j := True]\<rparr>"
  have qi: "q + i < length msg" using assms(2,4) by (auto simp: piece_at_def)
  have wf: "wf_windows s" using win by (simp add: window_of_def)
  note L = wf_windowsD [OF wf]
  have "window_of msg base n ?s" if c: "n \<le> q + i" "q + i < n + 1024"
  proof -
    have "n + k < length msg \<and> recv_window ?s ! k = msg ! (n + k)"
      if k: "k < 1024" and v: "recv_window_isvalid ?s ! k" for k
    proof (cases "k = ?j")
      case True
      then show ?thesis using c qi L k by simp
    next
      case False
      then have "recv_window_isvalid s ! k" using v by simp
      then show ?thesis using False win k by (simp add: window_of_def)
    qed
    moreover have "wf_windows ?s" using wf by (simp add: wf_windows_def)
    ultimately show ?thesis using win by (simp add: window_of_def)
  qed
  then show ?thesis
    using win unfolding store_byte_cases [OF assms] by simp
qed

lemma store_data_window:
  assumes "window_of msg base n s" and "piece_at msg base q seq d" and "length msg < 2147483648"
  shows "window_of msg base n (store_data seq d s)"
proof -
  have "window_of msg base n (foldl (store_byte seq d) s is)" if "\<forall>i \<in> set is. i < length d" for "is"
    using that assms(1)
    by (induction "is" arbitrary: s) (auto intro: store_byte_window [OF _ assms(2,3)])
  then show ?thesis by (simp add: store_data_def)
qed

lemma window_front:
  assumes win: "window_of msg base n s" and m: "m \<le> valid_recvs s"
  shows "take m (recv_window s) = take m (drop n msg)" and "n + m \<le> length msg"
proof -
  have wf: "wf_windows s" using win by (simp add: window_of_def)
  have v: "n + i < length msg \<and> recv_window s ! i = msg ! (n + i)" if "i < m" for i
    using win valid_recvs_nth [OF wf] valid_recvs_le [OF wf] that m by (auto simp: window_of_def)
  show le: "n + m \<le> length msg"
  proof (cases m)
    case 0
    then show ?thesis using win by (simp add: window_of_def)
  next
    case (Suc j)
    then show ?thesis using v [of j] by simp
  qed
  show "take m (recv_window s) = take m (drop n msg)"
    using v le m valid_recvs_le [OF wf] wf_windowsD [OF wf] by (intro nth_equalityI) auto
qed

lemma window_advance:
  assumes win: "window_of msg base n s" and m: "m \<le> valid_recvs s"
  shows "window_of msg base (n + m) (advance_recv m s)"
proof -
  have wf: "wf_windows s" using win by (simp add: window_of_def)
  have m1: "m \<le> 1024" using m valid_recvs_le [OF wf] by simp
  let ?s = "s\<lparr>seq_of_first_recv_window := seq_of_first_recv_window s + word_of_nat m\<rparr>"
  have "wf_windows ?s" using wf by (simp add: wf_windows_def)
  note S = slide_recv_window_eq [OF this m1]
  have "n + m + i < length msg
      \<and> (drop m (recv_window s) @ drop (1024 - m) (recv_window s)) ! i = msg ! (n + m + i)"
    if i: "i < 1024" and v: "(drop m (recv_window_isvalid s) @ replicate m False) ! i" for i
  proof -
    have lt: "m + i < 1024"
      using v i m1 wf_windowsD(3) [OF wf] by (auto simp: nth_append split: if_splits)
    then have i1: "i < 1024 - m" by simp
    then have "recv_window_isvalid s ! (m + i)"
      using v lt wf_windowsD(3) [OF wf] by (simp add: nth_append)
    then have "n + (m + i) < length msg \<and> recv_window s ! (m + i) = msg ! (n + (m + i))"
      using win lt by (simp add: window_of_def)
    then show ?thesis using i1 lt wf_windowsD(2) [OF wf] by (simp add: nth_append add.assoc)
  qed
  then show ?thesis
    using win window_front(2) [OF win m] wf_windowsD [OF wf] m1
    unfolding advance_recv_def S
    by (simp add: window_of_def wf_windows_def MAX_WINDOW_SIZE_def)
qed

section \<open>Acknowledged bytes leave the send window\<close>

text \<open>
  \<open>ack_slide\<close> removes from the front as many bytes as the acknowledgement covers, if the queue holds
  as many, and leaves everything else alone.
\<close>

lemma ack_slide_spec:
  assumes "send_window s = Some q" and "queue_inv q"
  shows "\<exists>q'. ack_slide n s = s\<lparr>send_window := Some q',
            seq_of_first_send_window := seq_of_first_send_window s
              + of_nat (min (nat (sint n - sint (seq_of_first_send_window s))) (length (queue_list q)))\<rparr>
       \<and> queue_inv q'
       \<and> queue_list q' = drop (nat (sint n - sint (seq_of_first_send_window s))) (queue_list q)"
  using assms
proof (induction n s arbitrary: q rule: ack_slide.induct)
  case (1 n s)
  let ?a = "seq_of_first_send_window s"
  show ?case
  proof (cases "sint ?a < sint n \<and> q_size q \<noteq> 0")
    case False
    then have "nat (sint n - sint ?a) = 0 \<or> (queue_list q = [] \<and> nat (q_size q) = 0)"
      using length_queue_list [of q] by (cases "queue_list q") auto
    moreover have "ack_slide n s = s"
      using False "1.prems" by (subst ack_slide.simps) auto
    ultimately show ?thesis
      using "1.prems" by (intro exI [of _ q]) auto
  next
    case True
    obtain x xs where l: "queue_list q = x # xs"
      using True queue_invD(6) [OF "1.prems"(2)] length_queue_list [of q] by (cases "queue_list q") auto
    obtain q1 where q1: "dequeue q = (x, q1)" "queue_inv q1" "queue_list q1 = xs"
      using dequeue_nonempty [OF "1.prems"(2) l] by blast
    let ?s = "s\<lparr>send_window := Some q1, seq_of_first_send_window := ?a + 1\<rparr>"
    have step: "ack_slide n s = ack_slide n ?s"
      using True "1.prems" q1 by (subst ack_slide.simps) simp
    have sa: "sint (?a + 1) = sint ?a + 1"
      using True by (intro signed_lt_succ [of _ n]) (simp add: word_sless_alt)
    define d where "d = nat (sint n - sint (?a + 1))"
    have d: "nat (sint n - sint ?a) = Suc d"
      using True unfolding d_def sa by (simp add: Suc_nat_eq_nat_zadd1)
    have "\<exists>q'. ack_slide n ?s = ?s\<lparr>send_window := Some q',
            seq_of_first_send_window := ?a + 1 + of_nat (min d (length xs))\<rparr>
        \<and> queue_inv q' \<and> queue_list q' = drop d xs"
      using "1.IH" [of q q1] True "1.prems" q1 by (simp add: d_def)
    then obtain q' where q': "ack_slide n ?s = ?s\<lparr>send_window := Some q',
            seq_of_first_send_window := ?a + 1 + of_nat (min d (length xs))\<rparr>"
        "queue_inv q'" "queue_list q' = drop d xs" by blast
    have "length (queue_list q) = Suc (length xs)" using l by simp
    then show ?thesis
      unfolding step d l using q' by (intro exI [of _ q']) (simp add: ac_simps)
  qed
qed

section \<open>Runs of segments\<close>

text \<open>
  The situation of a receiver: an established socket at address \<open>a\<close>, whose identifier at \<open>k\<close> is \<open>i\<close>,
  has handed over the first \<open>n\<close> bytes of the message to the user's FIFO.
\<close>

definition recv_path :: "sockid \<Rightarrow> string" where
  "recv_path i = socket_fifo_path IN_DATA_SOCKET_FIFO_PREFIX i"

definition receiving ::
  "('s \<Rightarrow> string \<Rightarrow> string) \<Rightarrow> addr \<Rightarrow> addr \<Rightarrow> sockid \<Rightarrow> string \<Rightarrow> c_int \<Rightarrow> string \<Rightarrow> nat
    \<Rightarrow> 's world \<Rightarrow> bool" where
  "receiving out a k i msg base before n w \<longleftrightarrow>
     (\<exists>s q. socks w a = Some s \<and> sk_state s = ESTABLISED \<and> sk_id s = Some k
        \<and> id_at w k = i \<and> wf_sockid i \<and> send_window s = Some q \<and> queue_inv q \<and> window_of msg base n s
        \<and> out (os w) (recv_path i) = before @ take n msg)"

definition established_segment :: "TCPPacket \<Rightarrow> bool" where
  "established_segment p \<longleftrightarrow> \<not> has_flag p SYN \<and> \<not> has_flag p FIN \<and> \<not> has_flag p RST"

lemma same_proc_id_at: "same_proc w w' \<Longrightarrow> id_at w' k = id_at w k"
  using same_procD(1) [of w w'] by (simp add: id_at_def)

lemma receiving_same_proc:
  assumes "receiving out a k i msg base before n w" and "same_proc w w'" and "out (os w') = out (os w)"
  shows "receiving out a k i msg base before n w'"
  using assms same_procD(2) [OF assms(2)] same_proc_id_at [OF assms(2)]
  by (simp add: receiving_def)

lemma receiving_ack:
  assumes "receiving out a k i msg base before n w"
  shows "receiving out a k i msg base before n (upd_sock a (ack_slide m) w)"
proof -
  obtain s q where s: "socks w a = Some s" "sk_state s = ESTABLISED" "sk_id s = Some k"
      "id_at w k = i" "wf_sockid (id_at w k)" "send_window s = Some q" "queue_inv q" "window_of msg base n s"
      "out (os w) (recv_path i) = before @ take n msg"
    using assms by (auto simp: receiving_def)
  from ack_slide_spec [OF s(6,7), of m] obtain q' v where
    q': "ack_slide m s = s\<lparr>send_window := Some q', seq_of_first_send_window := v\<rparr>" "queue_inv q'"
    by blast
  then show ?thesis
    using s by (simp add: receiving_def window_of_def wf_windows_def)
qed

lemma receiving_data:
  assumes laws: "fifo_laws P out tgt" and rec: "receiving out a k i msg base before n w"
    and p: "tcp_data p = Some d" "piece_at msg base q (tcp_seq_num p) d"
    and short: "length msg < 2147483648"
  shows "\<exists>n'. n \<le> n' \<and> receiving out a k i msg base before n' (receiveNewData P a p w)"
proof -
  obtain s sq where s: "socks w a = Some s" "sk_state s = ESTABLISED" "sk_id s = Some k"
      "id_at w k = i" "wf_sockid (id_at w k)" "send_window s = Some sq" "queue_inv sq" "window_of msg base n s"
      "out (os w) (recv_path i) = before @ take n msg"
    using rec by (auto simp: receiving_def)
  let ?s = "store_data (tcp_seq_num p) d s"
  let ?w = "upd_sock a (store_data (tcp_seq_num p) d) w"
  have keep: "sk_state (store_data x y t) = sk_state t \<and> sk_id (store_data x y t) = sk_id t
      \<and> send_window (store_data x y t) = send_window t" for x y t
  proof -
    have "sk_state (foldl (store_byte x y) t is) = sk_state t \<and> sk_id (foldl (store_byte x y) t is) = sk_id t
      \<and> send_window (foldl (store_byte x y) t is) = send_window t" for "is"
      by (induction "is" arbitrary: t) (auto simp: store_byte_def Let_def)
    then show ?thesis by (simp add: store_data_def)
  qed
  have win: "window_of msg base n ?s" using store_data_window [OF s(8) p(2) short] .
  have s': "socks ?w a = Some ?s" "sk_id ?s = Some k" "wf_sockid (id_at ?w k)" "wf_windows ?s"
    using s keep win by (simp_all add: window_of_def)
  from update_recv_window_spec [OF laws s'] obtain m w1 where
    m: "m \<le> valid_recvs ?s" "same_proc ?w w1"
       "update_recv_window P a ?w = upd_sock a (\<lambda>_. advance_recv m ?s) w1"
       "out (os w1) = (let f = socket_fifo_path IN_DATA_SOCKET_FIFO_PREFIX (id_at ?w k)
          in (out (os ?w))(f := out (os ?w) f @ take m (recv_window ?s)))" .
  have adv: "sk_state (advance_recv m ?s) = sk_state s" "sk_id (advance_recv m ?s) = sk_id s"
    "send_window (advance_recv m ?s) = send_window s"
  proof -
    let ?t = "?s\<lparr>seq_of_first_recv_window := seq_of_first_recv_window ?s + word_of_nat m\<rparr>"
    have "m \<le> 1024" using m(1) valid_recvs_le [OF s'(4)] by simp
    moreover have "wf_windows ?t" using s'(4) by (simp add: wf_windows_def)
    ultimately have "slide_recv_window m ?t = ?t\<lparr>recv_window := drop m (recv_window ?t) @ drop (1024 - m) (recv_window ?t),
        recv_window_isvalid := drop m (recv_window_isvalid ?t) @ replicate m False\<rparr>"
      by (intro slide_recv_window_eq)
    then show "sk_state (advance_recv m ?s) = sk_state s" "sk_id (advance_recv m ?s) = sk_id s"
      "send_window (advance_recv m ?s) = send_window s"
      using keep [of "tcp_seq_num p" d s] by (simp_all add: advance_recv_def)
  qed
  have "take (n + m) msg = take n msg @ take m (recv_window ?s)"
    using window_front(1) [OF win m(1)] by (simp add: take_add)
  then have "receiving out a k i msg base before (n + m) (upd_sock a (\<lambda>_. advance_recv m ?s) w1)"
    using s adv m(2,4) window_advance [OF win m(1)] same_procD(2) [OF m(2)] same_proc_id_at [OF m(2)] s'(1)
    by (simp add: receiving_def recv_path_def Let_def)
  then show ?thesis
    using m(3) p(1) by (intro exI [of _ "n + m"]) (simp add: receiveNewData_def)
qed

lemma handle_packet_established_segment:
  assumes "socks w a = Some s" and "sk_state s = ESTABLISED" and "sk_id s = Some k"
    and "send_window s = Some q" and "established_segment p"
  shows "handle_packet P a p from_ip w =
     (if tcp_src_port p \<noteq> dst_port (id_at w k) then (None, w)
      else let w1 = (if has_flag p ACK then upd_sock a (ack_slide (tcp_ack_num p)) w else w)
           in if tcp_data p \<noteq> None
              then construct_packet P a [] ACK (tcp_src_port p) (receiveNewData P a p w1)
              else (None, w1))"
  using assms
  by (simp add: handle_packet_def sock_at_Some established_segment_def Let_def
      handle_packet_established_def)

lemma receiving_reply:
  assumes laws: "fifo_laws P out tgt" and rec: "receiving out a k i msg base before n w"
    and c: "construct_packet P a [] f port w = (r, w')"
  shows "receiving out a k i msg base before n w'"
    and "r = Some p \<Longrightarrow> tcp_ack_num p = base + of_nat n \<and> tcp_flags p = f"
proof -
  show "receiving out a k i msg base before n w'"
    by (rule receiving_same_proc [OF rec construct_packet_out(2) [OF laws c]
          construct_packet_out(1) [OF laws c]])
  assume "r = Some p"
  with c have "construct_packet P a [] f port w = (Some p, w')" by simp
  from construct_packet_eq(1) [OF this] rec show "tcp_ack_num p = base + of_nat n \<and> tcp_flags p = f"
    by (auto simp: receiving_def sock_at_Some window_of_def Let_def)
qed

lemma receiving_handle_packet:
  assumes laws: "fifo_laws P out tgt" and rec: "receiving out a k i msg base before n w"
    and est: "established_segment p" and p: "carries msg base p" and short: "length msg < 2147483648"
    and h: "handle_packet P a p from_ip w = (r, w')"
  shows "\<exists>n'. n \<le> n' \<and> receiving out a k i msg base before n' w'
     \<and> (\<forall>p'. r = Some p' \<longrightarrow> tcp_ack_num p' = base + of_nat n' \<and> tcp_flags p' = ACK)"
proof -
  define w1 where "w1 = (if has_flag p ACK then upd_sock a (ack_slide (tcp_ack_num p)) w else w)"
  have rec1: "receiving out a k i msg base before n w1"
    using rec receiving_ack [OF rec] by (simp add: w1_def)
  obtain s q where s: "socks w a = Some s" "sk_state s = ESTABLISED" "sk_id s = Some k"
      "send_window s = Some q"
    using rec by (auto simp: receiving_def)
  note H = handle_packet_established_segment [OF s est, of P from_ip, folded w1_def, unfolded h Let_def]
  consider "w' = w" "r = None" | "w' = w1" "r = None"
    | d where "tcp_data p = Some d"
        "construct_packet P a [] ACK (tcp_src_port p) (receiveNewData P a p w1) = (r, w')"
    using H by (auto split: if_splits)
  then show ?thesis
  proof cases
    case 1
    then show ?thesis using rec by blast
  next
    case 2
    then show ?thesis using rec1 by blast
  next
    case (3 d)
    then obtain q where q: "piece_at msg base q (tcp_seq_num p) d"
      using p by (auto simp: carries_def)
    from receiving_data [OF laws rec1 3(1) q short] obtain n' where
      n': "n \<le> n'" "receiving out a k i msg base before n' (receiveNewData P a p w1)" by blast
    then show ?thesis
      using receiving_reply [OF laws n'(2) 3(2)] by blast
  qed
qed

fun handle_segments :: "'s posix \<Rightarrow> addr \<Rightarrow> char list \<Rightarrow> TCPPacket list \<Rightarrow> 's world \<Rightarrow> 's world" where
  "handle_segments P a from_ip [] w = w"
| "handle_segments P a from_ip (p # ps) w =
     handle_segments P a from_ip ps (snd (handle_packet P a p from_ip w))"

lemma handle_segments_append:
  "handle_segments P a from_ip (ps @ qs) w
   = handle_segments P a from_ip qs (handle_segments P a from_ip ps w)"
  by (induction ps arbitrary: w) simp_all

lemma receiving_run:
  assumes laws: "fifo_laws P out tgt" and short: "length msg < 2147483648"
    and ps: "\<forall>p \<in> set ps. established_segment p \<and> carries msg base p"
    and rec: "receiving out a k i msg base before n w"
  shows "\<exists>n' \<ge> n. receiving out a k i msg base before n' (handle_segments P a from_ip ps w)"
  using ps rec
proof (induction ps arbitrary: w n)
  case (Cons p ps)
  obtain r w1 where h: "handle_packet P a p from_ip w = (r, w1)" by fastforce
  from receiving_handle_packet [OF laws Cons.prems(2) _ _ short h] Cons.prems(1)
  obtain n1 where n1: "n \<le> n1"
      "receiving out a k i msg base before n1 (snd (handle_packet P a p from_ip w))"
    using h by auto
  from Cons.IH [OF _ n1(2)] Cons.prems(1) obtain n' where
    "n1 \<le> n'" "receiving out a k i msg base before n'
       (handle_segments P a from_ip ps (snd (handle_packet P a p from_ip w)))" by auto
  then show ?case using n1(1) by (auto intro: order_trans)
qed auto

section \<open>Progress\<close>

text \<open>A system that hands out memory and takes every byte for the user's FIFO.\<close>

definition reader_ready :: "'s posix \<Rightarrow> string \<Rightarrow> bool" where
  "reader_ready P nm \<longleftrightarrow> (\<forall>n s. fst (px_malloc P n s) \<noteq> None)
     \<and> (\<forall>bs w :: 's world. fst (write_string_to_fifo_name P (Some nm) bs w) = int (length bs))"

lemma reader_ready_name:
  assumes "reader_ready P nm" and "wf_sockid (id_at w k)"
    and "nm = socket_fifo_path IN_DATA_SOCKET_FIFO_PREFIX (id_at w k)"
  shows "fst (get_socket_recv_fifo_name P (Some k) w) = Some nm"
proof -
  have "length (socket_repr (id_at w k)) < MAX_SOCKET_STRING_REPR_SIZE"
    using length_socket_repr [OF assms(2)] by (simp add: MAX_SOCKET_STRING_REPR_SIZE_def)
  moreover have "fst (construct_full_fifo_name P prefix s w) = Some (fifo_path prefix s)"
    for prefix s and w :: "'a world"
  proof -
    have M: "\<exists>b w'. sys_malloc P n w = (Some b, w')" for n and w :: "'a world"
    proof -
      have "fst (px_malloc P n (os w)) \<noteq> None" using assms(1) by (simp add: reader_ready_def)
      then show ?thesis by (auto simp: sys_malloc_def split: prod.splits)
    qed
    obtain b w1 where 1: "sys_malloc P (length s + length prefix + 1) w = (Some b, w1)"
      using M by blast
    obtain b' w2 where 2: "sys_malloc P (length (prefix @ s) + length FIFO_FOLDER_PATH_PREFIX + 1) w1
        = (Some b', w2)" using M by blast
    show ?thesis
      using 1 2 by (simp add: construct_full_fifo_name_def add_as_prefix_def add_folder_prefix_def
          fifo_path_def)
  qed
  ultimately show ?thesis
    using assms(3)
    by (simp add: get_socket_recv_fifo_name_def construct_full_socket_fifo_name_def socket_fifo_path_def)
qed

lemma update_recv_window_all:
  assumes ready: "reader_ready P nm" and s: "socks w a = Some s" and k: "sk_id s = Some k"
    and wf: "wf_sockid (id_at w k)" and win: "wf_windows s"
    and nm: "nm = socket_fifo_path IN_DATA_SOCKET_FIFO_PREFIX (id_at w k)"
  shows "\<exists>w1. same_proc w w1
    \<and> update_recv_window P a w = upd_sock a (\<lambda>_. advance_recv (valid_recvs s) s) w1"
proof -
  have sa: "sock_at w a = s" using s by (simp add: sock_at_def)
  obtain w1 where n: "get_socket_recv_fifo_name P (Some k) w = (Some nm, w1)"
    using reader_ready_name [OF ready wf nm] by (cases "get_socket_recv_fifo_name P (Some k) w") auto
  let ?bs = "take (valid_recvs s) (recv_window s)"
  obtain w2 where w2: "write_string_to_fifo_name P (Some nm) ?bs w1 = (int (length ?bs), w2)"
    using ready unfolding reader_ready_def by (metis prod.collapse)
  have lbs: "length ?bs = valid_recvs s"
    using valid_recvs_le [OF win] wf_windowsD [OF win] by simp
  have sp: "same_proc w w2"
    using construct_full_socket_fifo_name_spec(1) [OF n [unfolded socket_name_defs] wf]
      write_same_proc(1) [OF w2] same_proc_trans by blast
  have "update_recv_window P a w = upd_sock a (\<lambda>_. advance_recv (valid_recvs s) s) w2"
    using n w2 k sa valid_recvs_le [OF win] wf_windowsD(1) [OF win] lbs same_procD(2) [OF sp] s
    by (simp add: update_recv_window_def upd_sock_def advance_recv_def)
  then show ?thesis using sp by blast
qed

text \<open>After a segment is stored, every byte of it that falls into the window is there.\<close>

lemma store_data_fills:
  assumes win: "window_of msg base n s" and p: "piece_at msg base q seq d"
    and short: "length msg < 2147483648" and i: "i < length d" "n \<le> q + i" "q + i < n + 1024"
  shows "recv_window_isvalid (store_data seq d s) ! (q + i - n)"
proof -
  have keep: "recv_window_isvalid (store_byte seq d t j) ! x"
    if "window_of msg base n t" "j < length d" "recv_window_isvalid t ! x" for t j x
    using that(3) unfolding store_byte_cases [OF that(1) p short that(2)]
    by (cases "q + j - n = x") (auto simp: nth_list_update split: if_splits)
  have "window_of msg base n (foldl (store_byte seq d) s [0..<m])
      \<and> (i < m \<longrightarrow> recv_window_isvalid (foldl (store_byte seq d) s [0..<m]) ! (q + i - n))"
    if "m \<le> length d" for m
    using that
  proof (induction m)
    case 0
    then show ?case using win by simp
  next
    case (Suc m)
    let ?t = "foldl (store_byte seq d) s [0..<m]"
    have t: "window_of msg base n ?t" "i < m \<Longrightarrow> recv_window_isvalid ?t ! (q + i - n)"
      using Suc by auto
    have m: "m < length d" using Suc.prems by simp
    have "recv_window_isvalid (store_byte seq d ?t m) ! (q + i - n)" if "i < Suc m"
    proof (cases "i = m")
      case False
      then show ?thesis using keep [OF t(1) m] t(2) that by simp
    next
      case True
      have "length (recv_window_isvalid ?t) = 1024"
        using t(1) by (intro wf_windowsD(3)) (simp add: window_of_def)
      then show ?thesis
        using i unfolding store_byte_cases [OF t(1) p short m] True by auto
    qed
    then show ?case using store_byte_window [OF t(1) p short m] by simp
  qed
  from this [of "length d"] i(1) show ?thesis by (simp add: store_data_def)
qed

lemma valid_recvs_ge:
  assumes "wf_windows s" and "\<forall>i < m. recv_window_isvalid s ! i" and "m \<le> 1024"
  shows "m \<le> valid_recvs s"
proof (rule ccontr)
  let ?v = "recv_window_isvalid s"
  assume "\<not> m \<le> valid_recvs s"
  then have lt: "length (takeWhile id ?v) < m" using assms(1) by (simp add: valid_recvs_eq)
  then have "length (takeWhile id ?v) < length ?v" using wf_windowsD(3) [OF assms(1)] assms(3) by simp
  then have "\<not> ?v ! length (takeWhile id ?v)" using nth_length_takeWhile [of id ?v] by simp
  then show False using assms(2) lt by blast
qed

lemma word_of_nat_inj_31:
  "(word_of_nat a :: c_int) = word_of_nat b \<Longrightarrow> a < 4294967296 \<Longrightarrow> b < 4294967296 \<Longrightarrow> a = b"
  by (simp add: word_of_nat_eq_iff take_bit_eq_mod)

lemma receiving_data_progress:
  assumes laws: "fifo_laws P out tgt" and ready: "reader_ready P (recv_path i)"
    and rec: "receiving out a k i msg base before n w"
    and p: "tcp_data p = Some d" "piece_at msg base q (tcp_seq_num p) d"
    and short: "length msg < 2147483648" and q: "q \<le> n"
  shows "\<exists>n'. n \<le> n' \<and> min (q + length d) (n + 1024) \<le> n'
     \<and> receiving out a k i msg base before n' (receiveNewData P a p w)"
proof -
  obtain s where s: "socks w a = Some s" "sk_id s = Some k" "wf_sockid (id_at w k)"
      "window_of msg base n s" "recv_path i = socket_fifo_path IN_DATA_SOCKET_FIFO_PREFIX (id_at w k)"
    using rec by (auto simp: receiving_def recv_path_def)
  from receiving_data [OF laws rec p short] obtain n' where
    n': "n \<le> n'" "receiving out a k i msg base before n' (receiveNewData P a p w)" by blast
  let ?s = "store_data (tcp_seq_num p) d s"
  let ?w = "upd_sock a (store_data (tcp_seq_num p) d) w"
  have win: "window_of msg base n ?s" using store_data_window [OF s(4) p(2) short] .
  then have wf: "wf_windows ?s" by (simp add: window_of_def)
  have id: "sk_id ?s = Some k"
  proof -
    have "sk_id (foldl (store_byte x y) t is) = sk_id t" for x y t "is"
      by (induction "is" arbitrary: t) (auto simp: store_byte_def Let_def)
    then show ?thesis using s(2) by (simp add: store_data_def)
  qed
  let ?v = "valid_recvs ?s"
  have sat: "socks ?w a = Some ?s" "sock_at ?w a = ?s" using s(1) by (simp_all add: sock_at_def)
  from update_recv_window_all [OF ready sat(1) id _ wf] s(3,5) obtain w1 where
    w1: "same_proc ?w w1" and
    u: "receiveNewData P a p w = upd_sock a (\<lambda>_. advance_recv ?v ?s) w1"
    using p(1) by (auto simp: receiveNewData_def)
  have "seq_of_first_recv_window (advance_recv ?v ?s) = base + word_of_nat (n + ?v)"
    using window_advance [OF win order_refl] by (simp add: window_of_def)
  moreover have "socks w1 a = Some ?s"
    using same_procD(2) [OF w1] sat(1) by (simp only:)
  then have "socks (receiveNewData P a p w) a = Some (advance_recv ?v ?s)"
    using u by simp
  moreover obtain s' where "socks (receiveNewData P a p w) a = Some s'" "window_of msg base n' s'"
    using n'(2) by (auto simp: receiving_def)
  ultimately have eq: "(word_of_nat n' :: c_int) = word_of_nat (n + ?v)" and le: "n' \<le> length msg"
    by (simp_all add: window_of_def)
  have "n' = n + ?v"
    by (rule word_of_nat_inj_31 [OF eq])
      (use le short window_front(2) [OF win order_refl] in linarith)+
  moreover have "min (q + length d - n) 1024 \<le> ?v"
  proof (rule valid_recvs_ge [OF wf])
    show "\<forall>i < min (q + length d - n) 1024. recv_window_isvalid ?s ! i"
    proof (intro allI impI)
      fix i assume i: "i < min (q + length d - n) 1024"
      have "recv_window_isvalid ?s ! (q + (n + i - q) - n)"
        by (rule store_data_fills [OF s(4) p(2) short]) (use i q in auto)
      then show "recv_window_isvalid ?s ! i" using q by simp
    qed
  qed simp
  ultimately show ?thesis
    using n' by (intro exI [of _ n']) auto
qed

lemma receiving_handle_progress:
  assumes laws: "fifo_laws P out tgt" and ready: "reader_ready P (recv_path i)"
    and rec: "receiving out a k i msg base before n w" and est: "established_segment p"
    and port: "tcp_src_port p = dst_port i"
    and p: "tcp_data p = Some d" "piece_at msg base q (tcp_seq_num p) d" "q \<le> n"
    and short: "length msg < 2147483648"
  shows "\<exists>n'. n \<le> n' \<and> min (q + length d) (n + 1024) \<le> n'
     \<and> receiving out a k i msg base before n' (snd (handle_packet P a p from_ip w))"
proof -
  define w1 where "w1 = (if has_flag p ACK then upd_sock a (ack_slide (tcp_ack_num p)) w else w)"
  have rec1: "receiving out a k i msg base before n w1"
    using rec receiving_ack [OF rec] by (simp add: w1_def)
  obtain s sq where s: "socks w a = Some s" "sk_state s = ESTABLISED" "sk_id s = Some k"
      "send_window s = Some sq" "id_at w k = i"
    using rec by (auto simp: receiving_def)
  obtain r w' where c: "construct_packet P a [] ACK (tcp_src_port p) (receiveNewData P a p w1) = (r, w')"
    by fastforce
  have h: "handle_packet P a p from_ip w = (r, w')"
    using handle_packet_established_segment [OF s(1-4) est, of P from_ip, folded w1_def] c p(1) port s(5)
    by simp
  from receiving_data_progress [OF laws ready rec1 p(1,2) short p(3)] obtain n' where
    "n \<le> n'" "min (q + length d) (n + 1024) \<le> n'"
    "receiving out a k i msg base before n' (receiveNewData P a p w1)" by blast
  then show ?thesis
    using receiving_reply(1) [OF laws _ c] h by auto
qed

text \<open>
  Segments that cover the message from byte \<open>n\<close> on: each starts no later than what is covered and
  ends inside the window.
\<close>

fun in_order :: "string \<Rightarrow> c_int \<Rightarrow> c_int \<Rightarrow> nat \<Rightarrow> (nat \<times> TCPPacket) list \<Rightarrow> bool" where
  "in_order msg base port n [] \<longleftrightarrow> n = length msg"
| "in_order msg base port n ((q, p) # ps) \<longleftrightarrow>
     established_segment p \<and> tcp_src_port p = port
   \<and> (case tcp_data p of None \<Rightarrow> False
      | Some d \<Rightarrow> piece_at msg base q (tcp_seq_num p) d \<and> q \<le> n \<and> q + length d \<le> n + 1024
                  \<and> in_order msg base port (max n (q + length d)) ps)"

lemma in_order_run:
  assumes laws: "fifo_laws P out tgt" and ready: "reader_ready P (recv_path i)"
    and short: "length msg < 2147483648"
    and "in_order msg base (dst_port i) c ps" and "c \<le> n"
    and "receiving out a k i msg base before n w"
  shows "receiving out a k i msg base before (length msg) (handle_segments P a from_ip (map snd ps) w)"
  using assms(4-6)
proof (induction ps arbitrary: c n w)
  case Nil
  then have "n = length msg" by (auto simp: receiving_def window_of_def)
  then show ?case using Nil by simp
next
  case (Cons x ps)
  obtain q p where x: "x = (q, p)" by fastforce
  from Cons.prems(1) x obtain d where d: "tcp_data p = Some d" "piece_at msg base q (tcp_seq_num p) d"
      "q \<le> c" "q + length d \<le> c + 1024" "established_segment p" "tcp_src_port p = dst_port i"
      "in_order msg base (dst_port i) (max c (q + length d)) ps"
    by (auto split: option.splits)
  have q: "q \<le> n" using d(3) Cons.prems(2) by simp
  from receiving_handle_progress [OF laws ready Cons.prems(3) d(5,6,1,2) q short, of from_ip] obtain n' where
    n': "n \<le> n'" "min (q + length d) (n + 1024) \<le> n'"
      "receiving out a k i msg base before n' (snd (handle_packet P a p from_ip w))" by blast
  have "max c (q + length d) \<le> n'" using n'(1,2) d(4) Cons.prems(2) by auto
  from Cons.IH [OF d(7) this n'(3)] show ?case using x by simp
qed

section \<open>Properties\<close>

text \<open>
  C5. However the network drops, repeats, delays or reorders the segments of a message (shorter
  than half the sequence space), an established socket hands its user a prefix of the message:
  every byte once, in order, without gaps; and the sequence number it acknowledges counts exactly
  these bytes.  Holds for every system whose \<open>write\<close> keeps its contract, full FIFOs and failed
  calls included.
\<close>

theorem delivered_is_prefix:
  assumes "fifo_laws P out tgt" and "length msg < 2147483648"
    and "\<forall>p \<in> set ps. established_segment p \<and> carries msg base p"
    and "receiving out a k i msg base before 0 w"
  shows "\<exists>n \<le> length msg. \<exists>s. let w' = handle_segments P a from_ip ps w in
     out (os w') (recv_path i) = before @ take n msg
   \<and> socks w' a = Some s \<and> seq_of_first_recv_window s = base + of_nat n \<and> sk_state s = ESTABLISED"
  using receiving_run [OF assms(1-4), of from_ip] by (auto simp: receiving_def window_of_def Let_def)

text \<open>The example connection is at the start of a message whose first byte has number 500.\<close>

definition example_id :: sockid where
  "example_id = \<lparr>src_port = 80, dst_port = 9, src_ip = ip_cells (CHR ''1''), dst_ip = ip_cells (CHR ''2'')\<rparr>"

lemma example_receiving:
  "receiving sim_out 2 0 example_id ''hello'' 500 [] 0 example_world"
proof -
  obtain q where q: "QueueCreate True = Some q" by (simp add: QueueCreate_def)
  have "queue_inv q" using QueueCreate_empty [OF q] by blast
  then show ?thesis
    using q by (simp add: receiving_def example_world_def sim_world_def example_socks_def
        example_socket_def id_at_def example_ids_def example_id_def wf_sockid_def wf_ip_cells window_of_def
        wf_windows_def sim_out_def sim_boot_def MAX_WINDOW_SIZE_def)
qed

definition data_segment :: "c_int \<Rightarrow> string \<Rightarrow> TCPPacket" where
  "data_segment seq d =
     \<lparr>tcp_src_port = 9, tcp_dst_port = 80, tcp_seq_num = seq, tcp_ack_num = 100, tcp_flags = ACK,
      tcp_checksum = 0, tcp_data = Some d\<rparr>"

lemma data_segment [simp]:
  "established_segment (data_segment seq d)" "tcp_src_port (data_segment seq d) = 9"
  "tcp_seq_num (data_segment seq d) = seq" "tcp_data (data_segment seq d) = Some d"
  by (simp_all add: data_segment_def established_segment_def has_flag_def SYN_def FIN_def RST_def ACK_def)

lemma delivered_is_prefix_witness:
  "\<exists>n \<le> length ''hello''. \<exists>s. let w' = handle_segments sim_posix 2 [] [data_segment 502 ''llo'', data_segment 500 ''hel'',
        data_segment 500 ''hel''] example_world in
     sim_out (os w') (recv_path example_id) = [] @ take n ''hello''
   \<and> socks w' 2 = Some s \<and> seq_of_first_recv_window s = 500 + of_nat n \<and> sk_state s = ESTABLISED"
proof (rule delivered_is_prefix [OF sim_fifo_laws _ _ example_receiving])
  have "piece_at ''hello'' 500 2 502 ''llo''" "piece_at ''hello'' 500 0 500 ''hel''"
    by (simp_all add: piece_at_def)
  then show "\<forall>p \<in> set [data_segment 502 ''llo'', data_segment 500 ''hel'', data_segment 500 ''hel''].
      established_segment p \<and> carries ''hello'' 500 p"
    by (auto simp: carries_def intro: exI [of _ 2] exI [of _ 0])
qed simp

text \<open>
  C16. A message sent in order arrives whole: when memory does not run out and the user's FIFO takes
  every byte, segments that cover the message without leaving the window are all handed over.
\<close>

theorem in_order_message_arrives:
  assumes "fifo_laws P out tgt" and "reader_ready P (recv_path i)" and "length msg < 2147483648"
    and "in_order msg base (dst_port i) 0 ps" and "receiving out a k i msg base before 0 w"
  shows "out (os (handle_segments P a from_ip (map snd ps) w)) (recv_path i) = before @ msg"
  using in_order_run [OF assms(1-4) order_refl assms(5), of from_ip] by (auto simp: receiving_def)

lemma in_order_message_arrives_witness:
  "sim_out (os (handle_segments open_posix 2 [] (map snd [(0 :: nat, data_segment 500 ''hel''), (2, data_segment 502 ''llo'')])
     example_world)) (recv_path example_id) = [] @ ''hello''"
proof (rule in_order_message_arrives [OF _ _ _ _ example_receiving])
  show "fifo_laws open_posix sim_out sim_tgt"
    by (auto simp: fifo_laws_def open_posix_def sim_posix_def sim_write_def sim_out_def sim_tgt_def
        split: option.splits)
  show "reader_ready open_posix (recv_path example_id)"
    by (simp add: reader_ready_def open_posix_def sim_posix_def write_string_to_fifo_name_def sys_open_def
        sys_write_def sys_close_def sim_write_def Let_def)
qed (simp_all add: piece_at_def example_id_def)

end
