(* ===== verification/Manager_Packets.thy ===== *)
theory Manager_Packets imports Packet_Handlers Ip begin

text \<open>
  The packet path of src/network_manager/network_manager.c: reading IP packets from the
  manager's FIFO, handing their segments to sockets, and sending segments to other managers;
  and the removal of sockets.  The two functions of src/ip.c that allocate are wrapped so that
  their \<open>malloc\<close> calls happen in the order of the code.
\<close>

section \<open>Allocating wrappers\<close>

definition ip_data_size :: "string \<Rightarrow> int" where
  "ip_data_size s = sint (str_to_int (s @ [NUL]) 10 - 50)"

definition sys_str_to_ip :: "'s posix \<Rightarrow> string \<Rightarrow> 's world \<Rightarrow> ip_packet option \<times> 's world" where
  "sys_str_to_ip P s w =
     (let (m, w1) = sys_malloc P 56 w;
          (d, w2) = (if length s \<ge> 50 \<and> m \<noteq> None \<and> ip_data_size s > 0
                     then sys_malloc P (nat (ip_data_size s) + 1) w1 else (None, w1))
      in case str_to_ip m d s of
           Undefined \<Rightarrow> (None, set_ub w2)
         | Returns r \<Rightarrow> (r, w2))"

definition sys_create_ip_packet ::
  "'s posix \<Rightarrow> string \<Rightarrow> string \<Rightarrow> string \<Rightarrow> 's world \<Rightarrow> ip_packet option \<times> 's world" where
  "sys_create_ip_packet P src dst data w =
     (let (m, w1) = (if length src \<noteq> 16 \<or> length dst \<noteq> 16 then (None, w) else sys_malloc P 56 w)
      in case create_ip_packet m src dst data of
           Undefined \<Rightarrow> (None, set_ub w1)
         | Returns r \<Rightarrow> (r, w1))"

definition sys_ip_to_str :: "'s posix \<Rightarrow> ip_packet \<Rightarrow> 's world \<Rightarrow> string option \<times> 's world" where
  "sys_ip_to_str P packet w =
     (let (m, w1) = sys_malloc P (nat (total_length packet) + 1) w in (ip_to_str m packet, w1))"

section \<open>Reading and sending packets\<close>

text \<open>
  The store to \<open>total_length_str[11]\<close>, one past the array, is taken to hit padding.  The packet
  buffer has \<open>total_length + 1\<close> bytes; the first ten are stored whatever its size.
\<close>

definition read_ip_packet_from_file ::
  "'s posix \<Rightarrow> int \<Rightarrow> 's world \<Rightarrow> (ip_packet option \<times> 's world) option" where
  "read_ip_packet_from_file P fd w =
     (case read_entire_message P fd 10 w of
        None \<Rightarrow> None
      | Some (read_length, total_length_str, w1) \<Rightarrow>
          if read_length \<noteq> 10 then Some (None, w1)
          else (case scan_d (cstr total_length_str) of
            None \<Rightarrow> Some (None, w1)
          | Some (n, _) \<Rightarrow>
              let len = scanned_int n;
                  (m, w2) = sys_malloc P (nat (sint (len + 1) mod 2 ^ 64)) w1
              in case m of
                   None \<Rightarrow> Some (None, w2)
                 | Some _ \<Rightarrow>
                     let w3 = (if sint (len + 1) < 10 then set_ub w2 else w2) in
                     (case read_nonzero_entire_message P fd (sint (len - 10)) w3 of
                        None \<Rightarrow> None
                      | Some (r, rest, w4) \<Rightarrow>
                          if sint (len - 10) \<noteq> r then Some (None, w4)
                          else Some (sys_str_to_ip P
                                 (cstr (take (nat (sint len)) (total_length_str @ rest))) w4))))"

definition send_TCP_packet ::
  "'s posix \<Rightarrow> TCPPacket option \<Rightarrow> char list \<Rightarrow> 's world \<Rightarrow> int \<times> 's world" where
  "send_TCP_packet P packet to_ip w =
     (case packet of
        None \<Rightarrow> (- 1, w)
      | Some p \<Rightarrow>
          let (tcp_string, w1) = tcp_to_str P p w in
          case tcp_string of
            None \<Rightarrow> (- 1, w1)
          | Some ts \<Rightarrow>
            let (ip_packet, w2) = sys_create_ip_packet P (mgr_ip w1) (cstr to_ip) ts w1 in
            case ip_packet of
              None \<Rightarrow> (- 1, w2)
            | Some ipp \<Rightarrow>
              let (ip_str, w3) = sys_ip_to_str P ipp w2 in
              case ip_str of
                None \<Rightarrow> (- 1, w3)
              | Some text \<Rightarrow>
                let (dst_fifo_name, w4) = get_in_packet_fifo_name P (cstr to_ip) w3 in
                case dst_fifo_name of
                  None \<Rightarrow> (- 1, w4)
                | Some name \<Rightarrow>
                  let (dst_fifo_fd, w5) = sys_open P name O_RDWR w4 in
                  if dst_fifo_fd = - 1 then (- 2, w5)
                  else let (written, w6) = sys_write P dst_fifo_fd text w5
                       in (if written = - 1 then - 1 else 0, sys_close P dst_fifo_fd w6))"

section \<open>Handing a packet to its socket\<close>

definition fresh_incoming_id :: "fresh_block \<Rightarrow> ip_packet \<Rightarrow> TCPPacket \<Rightarrow> sockid c_result" where
  "fresh_incoming_id b packet tcp_packet =
     (let i = init_empty_socket_id (fresh_sockid b) in
      case (strcpy_lib (src_ip i) (cstr (ip_dst_ip packet)),
            strcpy_lib (dst_ip i) (cstr (ip_src_ip packet))) of
        (Returns s, Returns d) \<Rightarrow>
          Returns (i\<lparr>src_ip := s, dst_ip := d, src_port := tcp_dst_port tcp_packet,
                     dst_port := tcp_src_port tcp_packet\<rparr>)
      | _ \<Rightarrow> Undefined)"

text \<open>
  First the connection with exactly these endpoints, then the socket bound to the port.  The
  handlers get \<open>id->src_ip\<close>, the address of this manager; the reply goes to \<open>id->dst_ip\<close>, which
  the second lookup has overwritten.
\<close>

definition dispatch_segment :: "'s posix \<Rightarrow> addr \<Rightarrow> TCPPacket \<Rightarrow> 's world \<Rightarrow> 's world" where
  "dispatch_segment P k tcp_packet w =
     (let (sock, reply, w1) =
        (case mgr_getSocket (Some k) w of
           Some a \<Rightarrow> (Some a, handle_packet P a tcp_packet (src_ip (id_at w k)) w)
         | None \<Rightarrow>
             let w' = upd_id k unconnected w in
             (case mgr_getSocket (Some k) w' of
                Some a \<Rightarrow> (Some a, handle_packet P a tcp_packet (src_ip (id_at w' k)) w')
              | None \<Rightarrow> (None, None, w')));
        w2 = (if reply = None then w1
              else let (r, w1') = send_TCP_packet P reply (dst_ip (id_at w1 k)) w1 in
                   if r = 0 then let (now, w1'') = sys_clock P w1'
                                 in upd_sock (the sock) (\<lambda>s. s\<lparr>last_send_clock := now\<rparr>) w1''
                   else w1')
      in free_id k w2)"

definition handle_incoming_ip_packet ::
  "'s posix \<Rightarrow> ip_packet option \<Rightarrow> 's world \<Rightarrow> int \<times> 's world" where
  "handle_incoming_ip_packet P packet w =
     (case packet of
        None \<Rightarrow> (- 1, w)
      | Some p \<Rightarrow>
          if calc_ip_checksum p \<noteq> header_checksum p then (0, w)
          else if cstr (ip_dst_ip p) \<noteq> mgr_ip w then (0, w)
          else let (tcp_packet, w1) = str_to_tcp P (ip_data p) w in
            case tcp_packet of
              None \<Rightarrow> (- 1, w1)
            | Some t \<Rightarrow>
                if calc_checksum t \<noteq> tcp_checksum t then (0, w1)
                else let (m, w2) = sys_malloc P 48 w1 in
                  case m of
                    None \<Rightarrow> (0, set_ub w2)
                  | Some b \<Rightarrow>
                    (case fresh_incoming_id b p t of
                       Undefined \<Rightarrow> (0, set_ub w2)
                     | Returns i \<Rightarrow> let (k, w3) = new_id i w2 in (0, dispatch_segment P k t w3)))"

fun in_packets_loop :: "nat \<Rightarrow> 's posix \<Rightarrow> 's world \<Rightarrow> (int \<times> 's world) option" where
  "in_packets_loop 0 P w = Some (0, w)"
| "in_packets_loop (Suc i) P w =
     (case read_ip_packet_from_file P (in_packet_fifo_fd w) w of
        None \<Rightarrow> None
      | Some (None, w1) \<Rightarrow> Some (0, w1)
      | Some (Some packet, w1) \<Rightarrow>
          let (r, w2) = handle_incoming_ip_packet P (Some packet) w1 in
          if r \<noteq> 0 then Some (0, w2) else in_packets_loop i P w2)"

definition MAX_HANDLES_PER_EPOCH :: nat where "MAX_HANDLES_PER_EPOCH = 10"

definition handle_in_packets_fifo :: "'s posix \<Rightarrow> 's world \<Rightarrow> (int \<times> 's world) option" where
  "handle_in_packets_fifo P w = in_packets_loop MAX_HANDLES_PER_EPOCH P w"

section \<open>Removing a socket\<close>

definition unlink_named :: "'s posix \<Rightarrow> string option \<times> 's world \<Rightarrow> 's world" where
  "unlink_named P nw = (case nw of (None, w) \<Rightarrow> w | (Some n, w) \<Rightarrow> snd (sys_unlink P (Some n) w))"

text \<open>The other end of the connection, whose user may be waiting for data.\<close>

definition disconnect_partner :: "'s posix \<Rightarrow> addr \<Rightarrow> 's world \<Rightarrow> 's world" where
  "disconnect_partner P sock w =
     (let sid = the (sk_id (sock_at w sock)); (partner_id, w1) = copy_socket_id P sid w in
      case partner_id of
        None \<Rightarrow> w1
      | Some k \<Rightarrow>
          let i = id_at w1 sid; r = id_at w1 k;
              w2 = (case (strcpy_lib (src_ip r) (cstr (dst_ip i)), strcpy_lib (dst_ip r) (cstr (src_ip i))) of
                      (Returns s, Returns d) \<Rightarrow>
                        upd_id k (\<lambda>r. r\<lparr>src_ip := s, src_port := dst_port i, dst_ip := d,
                                       dst_port := src_port i\<rparr>) w1
                    | _ \<Rightarrow> set_ub w1);
              (partner_recv_fifo_name, w3) = get_socket_recv_fifo_name P (Some k) w2;
              w5 = (case partner_recv_fifo_name of
                      None \<Rightarrow> w3
                    | Some n \<Rightarrow>
                        let (fd, w4) = sys_open P n O_RDWR w3 in
                        if fd = - 1 then w4
                        else sys_close P fd (snd (sys_write P fd [CONN_CLOSED] w4)))
          in destroy_socket_id (Some k) w5)"

definition unlink_socket_fifos_server_side :: "'s posix \<Rightarrow> addr \<Rightarrow> 's world \<Rightarrow> 's world" where
  "unlink_socket_fifos_server_side P sock w =
     (let sid = sk_id (sock_at w sock);
          w1 = unlink_named P (get_end_fifo_write_end_name P sid w);
          w2 = unlink_named P (get_accept_fifo_write_end_name P sid w1);
          w3 = unlink_named P (get_socket_send_fifo_name P sid w2);
          w4 = unlink_named P (get_socket_recv_fifo_name P sid w3)
      in if seq_of_first_send_window (sock_at w4 sock) \<noteq> 0 then disconnect_partner P sock w4 else w4)"

definition remove_and_destroy_socket :: "'s posix \<Rightarrow> addr \<Rightarrow> 's world \<Rightarrow> 's world" where
  "remove_and_destroy_socket P sock_id w =
     (case mgr_getSocket (Some sock_id) w of
        None \<Rightarrow> w
      | Some to_remove \<Rightarrow>
          destroy_socket to_remove
            (unlink_socket_fifos_server_side P to_remove
              (snd (mgr_hashmapRemove (Some sock_id) w))))"

end
