(* ===== verification/Manager_Requests.thy ===== *)
theory Manager_Requests imports Manager_Packets begin

text \<open>
  The requests of clients in src/network_manager/network_manager.c: bind, listen, connect and
  close, and what the manager does for each socket in every round: resending data, the messages
  that drive the state of a connection (SYN, SYN+ACK, FIN, RST), timeouts, and taking bytes from
  the user into the send window.
\<close>

definition BREAK_ITERATION :: int where "BREAK_ITERATION = 2"
definition MAX_BIND_REQUEST_SIZE :: nat where "MAX_BIND_REQUEST_SIZE = 100"

section \<open>Bind\<close>

definition can_bind_new_socket :: "addr \<Rightarrow> 's world \<Rightarrow> bool" where
  "can_bind_new_socket sock_id w \<longleftrightarrow> mgr_getSocket (Some sock_id) w = None"

definition bind_new_socket :: "'s posix \<Rightarrow> addr \<Rightarrow> 's world \<Rightarrow> int \<times> 's world" where
  "bind_new_socket P sock_id w =
     (let (new_socket, w1) = create_bound_socket P sock_id w in
      case new_socket of
        None \<Rightarrow> (- 1, w1)
      | Some a \<Rightarrow> let (inserted, w2) = mgr_insertSocket (Some a) w1
                  in (if inserted then 0 else - 1, w2))"

text \<open>\<open>sscanf(bind_request, "%d_%d_%d", ...)\<close>\<close>

definition scan_bind_request :: "string \<Rightarrow> (c_int \<times> c_int \<times> c_int) option" where
  "scan_bind_request s =
     do {
       (port, s1) \<leftarrow> scan_d s;
       s2 \<leftarrow> scan_lit (CHR ''_'') s1;
       (pid, s3) \<leftarrow> scan_d s2;
       s4 \<leftarrow> scan_lit (CHR ''_'') s3;
       (counter, _) \<leftarrow> scan_d s4;
       Some (scanned_int port, scanned_int pid, scanned_int counter)
     }"

definition handle_bind_request :: "'s posix \<Rightarrow> string \<Rightarrow> 's world \<Rightarrow> int \<times> 's world" where
  "handle_bind_request P bind_request w =
     (case scan_bind_request bind_request of
        None \<Rightarrow> (- 1, w)
      | Some (port, pid, socket_counter) \<Rightarrow>
          let (m, w1) = sys_malloc P 48 w in
          case m of
            None \<Rightarrow> (- 1, w1)
          | Some b \<Rightarrow>
              let i = init_empty_socket_id (fresh_sockid b);
                  (i', w2) = (case strcpy_lib (src_ip i) (mgr_ip w1) of
                                Undefined \<Rightarrow> (i, set_ub w1) | Returns s \<Rightarrow> (i\<lparr>src_ip := s\<rparr>, w1));
                  (sock_id, w3) = new_id (i'\<lparr>src_port := port\<rparr>) w2;
                  (result, reply, w4) =
                    (if can_bind_new_socket sock_id w3 then
                       let (bind_result, w3') = bind_new_socket P sock_id w3 in
                       if bind_result \<noteq> 0
                       then (- 1, REQUEST_DENIED_FIFO, destroy_socket_id (Some sock_id) w3')
                       else (0, REQUEST_GRANTED_FIFO, w3')
                     else (0, REQUEST_DENIED_FIFO, w3));
                  (client_fifo_name, w5) = get_client_fifo_name P pid socket_counter w4;
                  (r, w6) = write_char_to_fifo_name P client_fifo_name reply w5
              in if r \<noteq> 0 then
                   (if reply = REQUEST_GRANTED_FIFO
                    then (BREAK_ITERATION, remove_and_destroy_socket P sock_id w6)
                    else (- 1, w6))
                 else (result, w6))"

definition handle_bind_fifo :: "'s posix \<Rightarrow> 's world \<Rightarrow> (int \<times> 's world) option" where
  "handle_bind_fifo P w =
     (case read_message_until_char P (bind_request_fifo_fd w) NUL w of
        None \<Rightarrow> None
      | Some (read_len, bs, w1) \<Rightarrow>
          let w2 = (if length bs \<le> MAX_BIND_REQUEST_SIZE then w1 else set_ub w1)
          in if read_len < 0 then Some (- 1, w2)
             else if read_len = 0 then Some (0, w2)
             else Some (handle_bind_request P (cstr bs) w2))"

section \<open>Listen\<close>

text \<open>
  When the accept FIFO cannot be made, the code frees its name and closes the descriptors, and
  then frees and uses them again.
\<close>

definition check_and_handle_listen_request ::
  "'s posix \<Rightarrow> addr \<Rightarrow> 's world \<Rightarrow> (int \<times> 's world) option" where
  "check_and_handle_listen_request P sock_id w =
     (case mgr_getSocket (Some sock_id) w of
        None \<Rightarrow> Some (0, w)
      | Some sock \<Rightarrow>
        if sk_state (sock_at w sock) = LISTEN then Some (0, w)
        else let (listen_fifo_write_name, w1) = get_listen_fifo_write_end_name P (Some sock_id) w in
        case listen_fifo_write_name of
          None \<Rightarrow> Some (0, w1)
        | Some write_name \<Rightarrow>
          let (accept_fifo_name, w2) = get_accept_fifo_write_end_name P (Some sock_id) w1 in
          case accept_fifo_name of
            None \<Rightarrow> Some (0, w2)
          | Some accept_name \<Rightarrow>
            let (listen_fifo_read_name, w3) = get_listen_fifo_read_end_name P (Some sock_id) w2 in
            case listen_fifo_read_name of
              None \<Rightarrow> Some (0, w3)
            | Some read_name \<Rightarrow>
              let (listen_fifo_read_fd, w4) = sys_open P read_name O_WRONLY_NONBLOCK w3 in
              if listen_fifo_read_fd = - 1 then Some (0, w4)
              else let (listen_fifo_write_fd, w5) = sys_open P write_name O_RDONLY w4 in
              if listen_fifo_write_fd = - 1 then Some (0, w5)
              else (case read_entire_message P listen_fifo_write_fd 1 w5 of
                None \<Rightarrow> None
              | Some (read_length, request, w6) \<Rightarrow>
                if read_length = - 1 \<or> read_length = 0
                then Some (0, sys_close P listen_fifo_read_fd (sys_close P listen_fifo_write_fd w6))
                else
                  let w7 = upd_sock sock (\<lambda>s. s\<lparr>sk_state := LISTEN,
                             max_connections := word_of_int (schar (request ! 0))\<rparr>) w6;
                      (made, w8) = sys_mkfifo P accept_name w7;
                      (reply, w9) =
                        (if made \<noteq> 0 then
                           (REQUEST_DENIED_FIFO,
                            set_ub (upd_sock sock (\<lambda>s. s\<lparr>sk_state := CLOSED\<rparr>)
                              (sys_close P listen_fifo_read_fd (sys_close P listen_fifo_write_fd w8))))
                         else (REQUEST_GRANTED_FIFO, w8));
                      (written, w10) = sys_write P listen_fifo_read_fd [reply] w9;
                      w11 = (if written \<noteq> 1 \<and> reply = REQUEST_GRANTED_FIFO
                             then upd_sock sock (\<lambda>s. s\<lparr>sk_state := CLOSED\<rparr>) w10 else w10)
                  in Some (0, sys_close P listen_fifo_read_fd (sys_close P listen_fifo_write_fd w11))))"

section \<open>Connect\<close>

text \<open>
  The request \<open><ip>_<port>\<close>: the port behind the first underscore and the word in front.
\<close>

definition parse_connect_request :: "string \<Rightarrow> (string \<times> c_int) option" where
  "parse_connect_request request =
     (if CHR ''_'' \<in> set request then
        let front = takeWhile (\<lambda>c. c \<noteq> CHR ''_'') request
        in case (scan_d (drop (length front + 1) request), scan_word front) of
             (Some (port, _), Some (ip, _)) \<Rightarrow> Some (ip, scanned_int port)
           | _ \<Rightarrow> None
      else None)"

definition start_connection :: "'s posix \<Rightarrow> addr \<Rightarrow> string \<Rightarrow> c_int \<Rightarrow> 's world \<Rightarrow> int \<times> 's world" where
  "start_connection P sock_id to_ip to_port w =
     (case mgr_getSocket (Some sock_id) w of
        None \<Rightarrow> (0, w)
      | Some sock \<Rightarrow>
        if sk_state (sock_at w sock) = LISTEN then (0, w)
        else let (removed, w1) = mgr_hashmapRemove (Some sock_id) w in
        if \<not> removed then (- 1, w1)
        else
          let (r, w2) = sys_rand P w1;
              w3 = upd_sock sock (\<lambda>s. s\<lparr>sk_state := SYN_SENT,
                     seq_of_first_send_window := word_of_int (sint r smod 2000 + 1),
                     seq_of_first_recv_window := 0\<rparr>) w2;
              set_dst = (\<lambda>k w. case strcpy_lib (dst_ip (id_at w k)) to_ip of
                           Undefined \<Rightarrow> set_ub w
                         | Returns s \<Rightarrow> upd_id k (\<lambda>i. i\<lparr>dst_ip := s, dst_port := to_port\<rparr>) w);
              w4 = set_dst (the (sk_id (sock_at w3 sock))) w3;
              w5 = set_dst sock_id w4;
              (inserted, w6) = mgr_insertSocket (Some sock) w5
          in if \<not> inserted then (0, destroy_socket sock w6) else (BREAK_ITERATION, w6))"

definition check_and_handle_connect_request ::
  "'s posix \<Rightarrow> addr \<Rightarrow> 's world \<Rightarrow> (int \<times> 's world) option" where
  "check_and_handle_connect_request P sock_id w =
     (case mgr_getSocket (Some sock_id) w of
        None \<Rightarrow> Some (0, w)
      | Some sock \<Rightarrow>
        if sk_state (sock_at w sock) \<noteq> CLOSED then Some (0, w)
        else let (read_end_name, w1) = get_connect_fifo_read_end_name P (Some sock_id) w in
        case read_end_name of
          None \<Rightarrow> Some (0, w1)
        | Some read_name \<Rightarrow>
          let (connect_fifo_read_fd, w2) = sys_open P read_name O_WRONLY_NONBLOCK w1 in
          if connect_fifo_read_fd = - 1 then Some (0, w2)
          else let w3 = sys_close P connect_fifo_read_fd w2;
                   (write_end_name, w4) = get_connect_fifo_write_end_name P (Some sock_id) w3 in
          case write_end_name of
            None \<Rightarrow> Some (0, w4)
          | Some write_name \<Rightarrow>
            let (connect_fifo_write_fd, w5) = sys_open P write_name O_RDONLY w4 in
            if connect_fifo_write_fd = - 1 then Some (0, w5)
            else (case read_nonzero_message_until_char P connect_fifo_write_fd NUL w5 of
              None \<Rightarrow> None
            | Some (read_length, bs, w6) \<Rightarrow>
              let w7 = sys_close P connect_fifo_write_fd
                         (if length bs \<le> MAX_SOCKET_STRING_REPR_SIZE then w6 else set_ub w6) in
              if read_length = - 1 \<or> read_length = 0 then Some (0, w7)
              else (case parse_connect_request (cstr bs) of
                None \<Rightarrow> Some (0, w7)
              | Some (to_ip, to_port) \<Rightarrow>
                let w8 = (if length to_ip \<le> MAX_IP_LENGTH then w7 else set_ub w7);
                    (connected_client_id, w9) = copy_socket_id P sock_id w8 in
                case connected_client_id of
                  None \<Rightarrow> Some (0, w9)
                | Some k \<Rightarrow>
                  let w10 = (case strcpy_lib (dst_ip (id_at w9 k)) to_ip of
                               Undefined \<Rightarrow> set_ub w9
                             | Returns s \<Rightarrow> upd_id k (\<lambda>i. i\<lparr>dst_ip := s, dst_port := to_port\<rparr>) w9)
                  in if mgr_getSocket (Some k) w10 \<noteq> None
                     then Some (0, destroy_socket_id (Some k) w10)
                     else Some (start_connection P sock_id to_ip to_port
                                  (destroy_socket_id (Some k) w10)))))"

section \<open>Close\<close>

definition check_and_handle_closed_socket ::
  "'s posix \<Rightarrow> addr \<Rightarrow> addr \<Rightarrow> 's world \<Rightarrow> int \<times> 's world" where
  "check_and_handle_closed_socket P id_for_fifo socket_to_close w =
     (let (now, w1) = (if sk_state (sock_at w socket_to_close) = CLOSED then sys_clock P w else (0, w)) in
      if sk_state (sock_at w socket_to_close) = CLOSED
         \<and> DIFF2SEC_gt (now - creation_time (sock_at w1 socket_to_close)) SOCKET_TIMEOUT then
        let (end_fifo_read_name, w2) = get_end_fifo_read_end_name P (Some id_for_fifo) w1 in
        case end_fifo_read_name of
          None \<Rightarrow> (0, w2)
        | Some n \<Rightarrow>
            let (fd, w3) = sys_open P n O_RDWR w2;
                w4 = (if fd = - 1 then w3 else sys_close P fd (snd (sys_write P fd ''E'' w3)))
            in (BREAK_ITERATION,
                remove_and_destroy_socket P (the (sk_id (sock_at w4 socket_to_close))) w4)
      else (0, w1))"

definition check_and_handle_close_command ::
  "'s posix \<Rightarrow> addr \<Rightarrow> addr \<Rightarrow> 's world \<Rightarrow> int \<times> 's world" where
  "check_and_handle_close_command P id_for_fifo socket_to_close w =
     (let (end_fifo_write_name, w1) = get_end_fifo_write_end_name P (Some id_for_fifo) w in
      case end_fifo_write_name of
        None \<Rightarrow> (0, w1)
      | Some write_name \<Rightarrow>
        let (end_fifo_read_name, w2) = get_end_fifo_read_end_name P (Some id_for_fifo) w1 in
        case end_fifo_read_name of
          None \<Rightarrow> (0, w2)
        | Some read_name \<Rightarrow>
          let (end_fifo_read_fd, w3) = sys_open P read_name O_WRONLY_NONBLOCK w2 in
          if end_fifo_read_fd = - 1 then (0, w3)
          else let w4 = sys_close P end_fifo_read_fd w3;
                   (end_fifo_write_fd, w5) = sys_open P write_name O_RDONLY w4 in
          if end_fifo_write_fd = - 1 then (0, w5)
          else let (message, w6) = sys_read P end_fifo_write_fd 1 w5;
                   w9 = (case message of
                     Read [c] \<Rightarrow>
                       let s = sock_at w6 socket_to_close;
                           w7 = (if sk_state s = SYN_SENT then upd_id (the (sk_id s)) unconnected w6 else w6);
                           (now, w8) = sys_clock P w7
                       in upd_sock socket_to_close (\<lambda>s. s\<lparr>seq_of_first_send_window :=
                              seq_of_first_send_window s + word_of_int (QueueSize (send_window s)),
                            sk_state := FIN_WAIT_1, time_since_fin_sent := now\<rparr>) w8
                   | _ \<Rightarrow> w6)
               in (0, sys_close P end_fifo_write_fd w9))"

definition check_and_handle_socket_end_fifo :: "'s posix \<Rightarrow> addr \<Rightarrow> 's world \<Rightarrow> int \<times> 's world" where
  "check_and_handle_socket_end_fifo P sock_id w =
     (case mgr_getSocket (Some sock_id) w of
        None \<Rightarrow> (0, w)
      | Some socket_to_close \<Rightarrow>
          let (id_for_fifo, w1) =
            (if sk_state (sock_at w socket_to_close) = SYN_SENT then copy_socket_id P sock_id w
             else (Some sock_id, w)) in
          case id_for_fifo of
            None \<Rightarrow> (0, w1)
          | Some k \<Rightarrow>
              let w2 = (if k \<noteq> sock_id then upd_id k unconnected w1 else w1);
                  (result, w3) = check_and_handle_close_command P k socket_to_close w2;
                  (result', w4) = (if result \<noteq> 0 then (result, w3)
                                   else check_and_handle_closed_socket P k socket_to_close w3)
              in (result', if k \<noteq> sock_id then destroy_socket_id (Some k) w4 else w4))"

text \<open>A parsed address is a C string.\<close>

lemma parse_connect_request_no_NUL:
  assumes "parse_connect_request (cstr bs) = Some (ip, p)"
  shows "NUL \<notin> set ip"
proof -
  let ?front = "takeWhile (\<lambda>c. c \<noteq> CHR ''_'') (cstr bs)"
  obtain rest where "scan_word ?front = Some (ip, rest)"
    using assms by (auto simp: parse_connect_request_def Let_def split: if_splits option.splits)
  then have "ip = takeWhile (\<lambda>c. \<not> is_space c) (dropWhile is_space ?front)"
    by (auto simp: scan_word_def Let_def split: if_splits)
  then have "set ip \<subseteq> set (cstr bs)"
    using set_takeWhileD set_dropWhileD by (metis subsetI)
  then show ?thesis using cstr_no_NUL by blast
qed

end
