(* ===== verification/Manager_Timers.thy ===== *)
theory Manager_Timers imports Manager_Requests begin

text \<open>
  The periodic work of src/network_manager/network_manager.c for one socket: resending
  unacknowledged data, the messages that drive the state of a connection, its timeouts, and the
  bytes taken from the user's FIFO into the send window.
\<close>

section \<open>Resending data\<close>

text \<open>
  The data of the next segment: at most 128 bytes from the front of the send window.  The
  iteration moves the iterator of the queue.
\<close>

definition get_next_socket_packet_data ::
  "'s posix \<Rightarrow> addr \<Rightarrow> 's world \<Rightarrow> string option \<times> 's world" where
  "get_next_socket_packet_data P sock w =
     (if send_window (sock_at w sock) = None then (None, w)
      else let (m, w1) = sys_malloc P (MAX_DATA_PER_PACKET + 1) w in
        case m of
          None \<Rightarrow> (None, w1)
        | Some _ \<Rightarrow>
            let (data, q) = QUEUE_FOR_EACH
                  (\<lambda>data item. (data @ [item], length data + 1 = MAX_DATA_PER_PACKET))
                  [] (send_window (sock_at w1 sock))
            in (Some data, upd_sock sock (\<lambda>s. s\<lparr>send_window := q\<rparr>) w1))"

definition older_than :: "'s posix \<Rightarrow> int \<Rightarrow> int \<Rightarrow> 's world \<Rightarrow> bool \<times> 's world" where
  "older_than P t secs w = (let (now, w1) = sys_clock P w in (DIFF2SEC_gt (now - t) secs, w1))"

definition stamp_last_send :: "'s posix \<Rightarrow> addr \<Rightarrow> 's world \<Rightarrow> 's world" where
  "stamp_last_send P sock w =
     (let (now, w1) = sys_clock P w in upd_sock sock (\<lambda>s. s\<lparr>last_send_clock := now\<rparr>) w1)"

text \<open>Without data to send, the code frees the literal \<open>""\<close>.\<close>

definition check_and_handle_send_window :: "'s posix \<Rightarrow> addr \<Rightarrow> 's world \<Rightarrow> int \<times> 's world" where
  "check_and_handle_send_window P sock_id w =
     (case mgr_getSocket (Some sock_id) w of
        None \<Rightarrow> (0, w)
      | Some sock \<Rightarrow>
        if sk_state (sock_at w sock) \<noteq> ESTABLISED then (0, w)
        else let (due, w1) = older_than P (last_send_clock (sock_at w sock)) SOCKET_SEND_AGAIN_TIME w in
        if \<not> due then (0, w1)
        else let (est_socket_data, w2) = get_next_socket_packet_data P sock w1;
                 (ack_packet, w3) = construct_packet P sock (case est_socket_data of None \<Rightarrow> [] | Some d \<Rightarrow> d)
                    ACK (dst_port (id_at w2 sock_id)) w2;
                 w4 = (if est_socket_data = None then set_ub w3 else w3)
             in case ack_packet of
                  None \<Rightarrow> (0, w4)
                | Some p \<Rightarrow>
                    let s = sock_at w4 sock;
                        p' = p\<lparr>tcp_seq_num := seq_of_first_send_window s,
                              tcp_ack_num := seq_of_first_recv_window s\<rparr>;
                        (r, w5) = send_TCP_packet P (Some p') (dst_ip (id_at w4 sock_id)) w4
                    in (0, if r = 0 then stamp_last_send P sock w5 else w5))"

section \<open>Status messages\<close>

text \<open>A segment without data; the time of sending is noted when it went out.\<close>

definition send_status ::
  "'s posix \<Rightarrow> addr \<Rightarrow> addr \<Rightarrow> 8 word \<Rightarrow> (TCPPacket \<Rightarrow> TCPPacket) \<Rightarrow> c_int \<Rightarrow> 's world \<Rightarrow> 's world" where
  "send_status P sock_id sock flags adjust seq_shift w =
     (let w1 = upd_sock sock (\<lambda>s. s\<lparr>seq_of_first_send_window := seq_of_first_send_window s - seq_shift\<rparr>) w;
          (packet, w2) = construct_packet P sock [] flags (dst_port (id_at w1 sock_id)) w1;
          w3 = upd_sock sock (\<lambda>s. s\<lparr>seq_of_first_send_window := seq_of_first_send_window s + seq_shift\<rparr>) w2
      in case packet of
           None \<Rightarrow> w3
         | Some p \<Rightarrow>
             let (r, w4) = send_TCP_packet P (Some (adjust p)) (dst_ip (id_at w3 sock_id)) w3
             in if r = 0 then stamp_last_send P sock w4 else w4)"

text \<open>The bytes of the user: one \<open>read\<close> after another, with the descriptor closed after each byte.\<close>

fun take_user_bytes :: "nat \<Rightarrow> 's posix \<Rightarrow> addr \<Rightarrow> int \<Rightarrow> 's world \<Rightarrow> 's world" where
  "take_user_bytes 0 P sock fd w = w"
| "take_user_bytes (Suc i) P sock fd w =
     (if QueueSize (send_window (sock_at w sock)) \<ge> QueueCapacity (send_window (sock_at w sock)) then w
      else (case sys_read P fd 1 w of
              (Read [read_byte], w1) \<Rightarrow>
                take_user_bytes i P sock fd
                  (sys_close P fd (upd_sock sock
                     (\<lambda>s. s\<lparr>send_window := snd (enqueue (send_window s) read_byte)\<rparr>) w1))
            | (_, w1) \<Rightarrow> w1))"

text \<open>A reset after the connection could not be closed in time: whether it was sent as required.\<close>

definition send_rst ::
  "'s posix \<Rightarrow> addr \<Rightarrow> addr \<Rightarrow> (int \<Rightarrow> bool) \<Rightarrow> 's world \<Rightarrow> bool \<times> 's world" where
  "send_rst P sock_id sock accepted w =
     (let (rst_packet, w1) = construct_packet P sock [] RST (dst_port (id_at w sock_id)) w in
      case rst_packet of
        None \<Rightarrow> (False, w1)
      | Some p \<Rightarrow>
          let (r, w2) = send_TCP_packet P (Some p) (dst_ip (id_at w1 sock_id)) w1 in
          if accepted r then (True, upd_sock sock (\<lambda>s. s\<lparr>sk_state := TIME_WAIT\<rparr>) w2)
          else (False, w2))"

definition status_syn_sent :: "'s posix \<Rightarrow> addr \<Rightarrow> addr \<Rightarrow> 's world \<Rightarrow> 's world" where
  "status_syn_sent P sock_id sock w =
     (let (due, w1) = older_than P (last_send_clock (sock_at w sock)) SOCKET_SEND_AGAIN_TIME w
      in if due then send_status P sock_id sock SYN (\<lambda>p. p) 1 w1 else w1)"

definition status_syn_received :: "'s posix \<Rightarrow> addr \<Rightarrow> addr \<Rightarrow> 's world \<Rightarrow> 's world" where
  "status_syn_received P sock_id sock w =
     (let (due, w1) = older_than P (last_send_clock (sock_at w sock)) SOCKET_SEND_AGAIN_TIME w;
          s = sock_at w1 sock
      in if due then send_status P sock_id sock (or SYN ACK)
           (\<lambda>p. p\<lparr>tcp_seq_num := seq_of_first_send_window s - 1,
                  tcp_ack_num := seq_of_first_recv_window s\<rparr>) 1 w1
         else w1)"

definition status_established :: "'s posix \<Rightarrow> addr \<Rightarrow> addr \<Rightarrow> 's world \<Rightarrow> 's world" where
  "status_established P sock_id sock w =
     (if send_window (sock_at w sock) = None then w
      else let (name, w1) = get_socket_send_fifo_name P (sk_id (sock_at w sock)) w in
        case name of
          None \<Rightarrow> w1
        | Some n \<Rightarrow>
            let (fd, w2) = sys_open P n O_RDONLY_NONBLOCK w1
            in if fd = - 1 then w2
               else sys_close P fd (take_user_bytes MAX_DATA_PER_PACKET P sock fd w2))"

definition status_fin_wait_1 :: "'s posix \<Rightarrow> addr \<Rightarrow> addr \<Rightarrow> 's world \<Rightarrow> 's world" where
  "status_fin_wait_1 P sock_id sock w =
     (let (late, w1) = older_than P (time_since_fin_sent (sock_at w sock)) SOCKET_FIN_RST_TIME w;
          (done, w2) = (if late then send_rst P sock_id sock (\<lambda>r. r \<noteq> - 1) w1 else (False, w1))
      in if done then w2
         else let (due, w3) = older_than P (last_send_clock (sock_at w2 sock)) SOCKET_SEND_AGAIN_TIME w2
              in if due then send_status P sock_id sock FIN (\<lambda>p. p) 0 w3 else w3)"

definition status_close_wait :: "addr \<Rightarrow> 's world \<Rightarrow> 's world" where
  "status_close_wait sock w =
     upd_sock sock (\<lambda>s. s\<lparr>seq_of_first_send_window :=
         seq_of_first_send_window s + word_of_int (QueueSize (send_window s)),
       sk_state := LAST_ACK\<rparr>) w"

definition status_closing :: "'s posix \<Rightarrow> addr \<Rightarrow> addr \<Rightarrow> 's world \<Rightarrow> 's world" where
  "status_closing P sock_id sock w =
     (let (late, w1) = older_than P (time_since_fin_sent (sock_at w sock)) SOCKET_FIN_RST_TIME w
      in if late then snd (send_rst P sock_id sock (\<lambda>r. r = 0) w1) else w1)"

definition status_last_ack :: "'s posix \<Rightarrow> addr \<Rightarrow> addr \<Rightarrow> 's world \<Rightarrow> 's world" where
  "status_last_ack P sock_id sock w =
     (let (due, w1) = older_than P (last_send_clock (sock_at w sock)) SOCKET_SEND_AGAIN_TIME w
      in if due then send_status P sock_id sock (or FIN ACK) (\<lambda>p. p) 0 w1 else w1)"

definition status_time_wait :: "'s posix \<Rightarrow> addr \<Rightarrow> 's world \<Rightarrow> 's world" where
  "status_time_wait P sock w =
     (let (over, w1) = older_than P (last_send_clock (sock_at w sock)) SOCKET_TIME_WAIT_TIMEOUT w
      in if over then upd_sock sock (\<lambda>s. s\<lparr>sk_state := CLOSED\<rparr>) w1 else w1)"

definition check_and_handle_outgoing_status_messages ::
  "'s posix \<Rightarrow> addr \<Rightarrow> 's world \<Rightarrow> int \<times> 's world" where
  "check_and_handle_outgoing_status_messages P sock_id w =
     (case mgr_getSocket (Some sock_id) w of
        None \<Rightarrow> (0, w)
      | Some sock \<Rightarrow>
          (0, case sk_state (sock_at w sock) of
                SYN_SENT \<Rightarrow> status_syn_sent P sock_id sock w
              | SYN_RECEIVED \<Rightarrow> status_syn_received P sock_id sock w
              | ESTABLISED \<Rightarrow> status_established P sock_id sock w
              | FIN_WAIT_1 \<Rightarrow> status_fin_wait_1 P sock_id sock w
              | CLOSE_WAIT \<Rightarrow> status_close_wait sock w
              | CLOSING \<Rightarrow> status_closing P sock_id sock w
              | LAST_ACK \<Rightarrow> status_last_ack P sock_id sock w
              | TIME_WAIT \<Rightarrow> status_time_wait P sock w
              | _ \<Rightarrow> w))"

end
