(* ===== verification/Network_Manager.thy ===== *)
theory Network_Manager imports Manager_Timers begin

text \<open>
  The manager of src/network_manager/network_manager.c as a whole: its creation, its FIFOs, its
  main loop and its end.
\<close>

section \<open>One round for one socket\<close>

definition check_and_handle_out_fifo :: "addr \<Rightarrow> 's world \<Rightarrow> int \<times> 's world" where
  "check_and_handle_out_fifo sock_id w = (0, w)"

definition handle_socket_in_network :: "'s posix \<Rightarrow> addr \<Rightarrow> 's world \<Rightarrow> (int \<times> 's world) option" where
  "handle_socket_in_network P sock_id w =
     (let tail = (\<lambda>w.
        let (r1, w1) = check_and_handle_socket_end_fifo P sock_id w in
        if r1 \<noteq> 0 then (r1, w1)
        else let (r2, w2) = check_and_handle_send_window P sock_id w1 in
        if r2 \<noteq> 0 then (r2, w2)
        else check_and_handle_outgoing_status_messages P sock_id w2)
      in case get_socket_state (Some (id_at w sock_id)) of
           BOUND_ONLY_SOCKET \<Rightarrow>
             (case check_and_handle_listen_request P sock_id w of
                None \<Rightarrow> None
              | Some (r, w1) \<Rightarrow>
                  if r \<noteq> 0 then Some (r, w1)
                  else (case check_and_handle_connect_request P sock_id w1 of
                          None \<Rightarrow> None
                        | Some (r', w2) \<Rightarrow> if r' \<noteq> 0 then Some (r', w2) else Some (tail w2)))
         | CONNECTED_SOCKET \<Rightarrow>
             let (r, w1) = check_and_handle_out_fifo sock_id w
             in if r \<noteq> 0 then Some (r, w1) else Some (tail w1)
         | _ \<Rightarrow> Some (tail w))"

text \<open>
  The loop over the table, from a given identifier on.  The body may change the table; its result
  \<open>BREAK_ITERATION\<close> or \<open>-1\<close> ends the loop.
\<close>

partial_function (option) socket_loop ::
  "(addr \<Rightarrow> 's world \<Rightarrow> (int \<times> 's world) option) \<Rightarrow> addr option \<Rightarrow> 's world \<Rightarrow> (int \<times> 's world) option" where
  "socket_loop body item w =
     (case item of
        None \<Rightarrow> Some (0, w)
      | Some k \<Rightarrow>
          (case body k w of
             None \<Rightarrow> None
           | Some (r, w1) \<Rightarrow>
               if r = BREAK_ITERATION \<or> r = - 1 then Some (r, w1)
               else let (item', hm') = hashMapGetNext (mgr_sockets w1)
                    in socket_loop body item' (w1\<lparr>mgr_sockets := hm'\<rparr>)))"

definition for_each_socket ::
  "(addr \<Rightarrow> 's world \<Rightarrow> (int \<times> 's world) option) \<Rightarrow> 's world \<Rightarrow> (int \<times> 's world) option" where
  "for_each_socket body w =
     (let (item, hm') = hashMapGetFirst (mgr_sockets w)
      in socket_loop body item (w\<lparr>mgr_sockets := hm'\<rparr>))"

section \<open>The manager's FIFOs\<close>

definition mkfifo_opt :: "'s posix \<Rightarrow> string option \<Rightarrow> 's world \<Rightarrow> int \<times> 's world" where
  "mkfifo_opt P name w = (case name of None \<Rightarrow> (- 1, w) | Some n \<Rightarrow> sys_mkfifo P n w)"

definition open_opt :: "'s posix \<Rightarrow> string option \<Rightarrow> open_mode \<Rightarrow> 's world \<Rightarrow> int \<times> 's world" where
  "open_opt P name mode w = (case name of None \<Rightarrow> (- 1, w) | Some n \<Rightarrow> sys_open P n mode w)"

text \<open>\<open>mkfifo\<close> of each name in turn, up to the first that fails.\<close>

fun mkfifo_all :: "'s posix \<Rightarrow> string option list \<Rightarrow> 's world \<Rightarrow> bool \<times> 's world" where
  "mkfifo_all P [] w = (True, w)"
| "mkfifo_all P (n # ns) w =
     (let (r, w1) = mkfifo_opt P n w in if r \<noteq> 0 then (False, w1) else mkfifo_all P ns w1)"

definition manager_fifo_names ::
  "'s posix \<Rightarrow> 's world \<Rightarrow> (string option \<times> string option \<times> string option \<times> string option) \<times> 's world" where
  "manager_fifo_names P w =
     (let (terminate_name, w1) = get_terminate_fifo_name P (mgr_ip w) w;
          (in_packet_name, w2) = get_in_packet_fifo_name P (mgr_ip w) w1;
          (bind_name, w3) = get_bind_requests_fifo_name P (mgr_ip w) w2;
          (connect_name, w4) = get_connect_requests_fifo_name P (mgr_ip w) w3
      in ((terminate_name, in_packet_name, bind_name, connect_name), w4))"

text \<open>The test for missing names leaves out the bind request FIFO; \<open>mkfifo(NULL)\<close> then fails.\<close>

definition initialize_network_manager_fifos :: "'s posix \<Rightarrow> 's world \<Rightarrow> int \<times> 's world" where
  "initialize_network_manager_fifos P w =
     (let ((terminate_name, in_packet_name, bind_name, connect_name), w1) = manager_fifo_names P w in
      if terminate_name = None \<or> in_packet_name = None \<or> in_packet_name = None \<or> connect_name = None
      then (- 1, w1)
      else let (made, w2) = mkfifo_all P [terminate_name, in_packet_name, bind_name, connect_name] w1 in
        if \<not> made then (- 1, w2)
        else let (fd1, w3) = open_opt P terminate_name O_RDONLY_NONBLOCK w2;
                 (fd2, w4) = open_opt P in_packet_name O_RDONLY_NONBLOCK w3;
                 (fd3, w5) = open_opt P bind_name O_RDONLY_NONBLOCK w4;
                 (fd4, w6) = open_opt P connect_name O_RDONLY_NONBLOCK w5;
                 w7 = w6\<lparr>terminate_fifo_fd := fd1, in_packet_fifo_fd := fd2,
                         bind_request_fifo_fd := fd3, connect_request_fifo_fd := fd4\<rparr>
             in (if fd1 = - 1 \<or> fd2 = - 1 \<or> fd3 = - 1 \<or> fd4 = - 1 then - 1 else 0, w7))"

section \<open>Termination\<close>

definition should_terminate_manager :: "'s posix \<Rightarrow> 's world \<Rightarrow> (bool \<times> 's world) option" where
  "should_terminate_manager P w =
     (case read_entire_message P (terminate_fifo_fd w) 1 w of
        None \<Rightarrow> None
      | Some (read_length, _, w1) \<Rightarrow> Some (read_length = 1, w1))"

text \<open>What \<open>terminate_manager\<close> does for one socket.\<close>

definition terminate_socket :: "'s posix \<Rightarrow> addr \<Rightarrow> 's world \<Rightarrow> (int \<times> 's world) option" where
  "terminate_socket P sock_id w =
     (let (end_fifo_read_name, w1) = get_end_fifo_read_end_name P (Some sock_id) w;
          w4 = (case end_fifo_read_name of
                  None \<Rightarrow> w1
                | Some n \<Rightarrow>
                    let (fd, w2) = sys_open P n O_RDWR w1
                    in if fd = - 1 then w2
                       else sys_close P fd (snd (sys_write P fd ''E'' w2)))
      in Some (0, case mgr_getSocket (Some sock_id) w4 of
                    None \<Rightarrow> w4
                  | Some sock \<Rightarrow> unlink_socket_fifos_server_side P sock w4))"

definition terminate_manager :: "'s posix \<Rightarrow> 's world \<Rightarrow> (int \<times> 's world) option" where
  "terminate_manager P w =
     (if mgr_sockets w = None then Some (- 1, w)
      else case for_each_socket (terminate_socket P) w of
             None \<Rightarrow> None | Some (_, w1) \<Rightarrow> Some (0, w1))"

definition hashDestroy :: "hashmap option \<Rightarrow> 's world \<Rightarrow> bool \<times> 's world" where
  "hashDestroy hm w =
     (case hm of
        None \<Rightarrow> (False, w)
      | Some h \<Rightarrow>
          (True, foldl (\<lambda>w i. case hm_table h ! i of None \<Rightarrow> w | Some a \<Rightarrow> destroy_socket a w)
                   w [0..<HASH_MAP_DEFAULT_SIZE]))"

definition clean_socket :: "'s posix \<Rightarrow> addr \<Rightarrow> 's world \<Rightarrow> (int \<times> 's world) option" where
  "clean_socket P sock_id w =
     Some (0, case mgr_getSocket (Some sock_id) w of
                None \<Rightarrow> w | Some sock \<Rightarrow> destroy_socket_fifos P sock w)"

text \<open>Each of the four descriptors decides whether the first one is closed (again).\<close>

definition unlink_and_clean_manager :: "'s posix \<Rightarrow> 's world \<Rightarrow> 's world option" where
  "unlink_and_clean_manager P w =
     (let close_terminate = (\<lambda>fd w. if fd \<noteq> - 1 then sys_close P (terminate_fifo_fd w) w else w);
          w1 = close_terminate (terminate_fifo_fd w) w;
          w2 = close_terminate (in_packet_fifo_fd w1) w1;
          w3 = close_terminate (bind_request_fifo_fd w2) w2;
          w4 = close_terminate (connect_request_fifo_fd w3) w3;
          ((terminate_name, in_packet_name, bind_name, connect_name), w5) = manager_fifo_names P w4;
          w6 = unlink_named P (terminate_name, w5);
          w7 = unlink_named P (in_packet_name, w6);
          w8 = unlink_named P (bind_name, w7);
          w9 = unlink_named P (connect_name, w8)
      in if mgr_sockets w9 = None then Some w9
         else (case for_each_socket (clean_socket P) w9 of
                 None \<Rightarrow> None
               | Some (_, w10) \<Rightarrow> Some ((snd (hashDestroy (mgr_sockets w10) w10))\<lparr>mgr_sockets := None\<rparr>)))"

section \<open>Interface\<close>

definition destroyNetworkManager :: "'s posix \<Rightarrow> 's world \<Rightarrow> 's world option" where
  "destroyNetworkManager P w = unlink_and_clean_manager P w"

text \<open>
  Whether a manager was created.  When the address cannot be allocated the code destroys the
  manager, which builds FIFO names from the missing address.
\<close>

definition createNetworkManager :: "'s posix \<Rightarrow> string \<Rightarrow> 's world \<Rightarrow> bool \<times> 's world" where
  "createNetworkManager P ip w =
     (if length ip \<noteq> MAX_IP_LENGTH then (False, w)
      else let (r, w1) = init_fifo_directory P w in
        if r \<noteq> 0 then (False, w1)
        else let (allocated, w2) = sys_new P w1 in
          if \<not> allocated then (False, w2)
          else let w3 = w2\<lparr>mgr_sockets := None, terminate_fifo_fd := - 1, bind_request_fifo_fd := - 1,
                           connect_request_fifo_fd := - 1, in_packet_fifo_fd := - 1\<rparr>;
                   (m, w4) = sys_malloc P (length ip + 1) w3
               in case m of
                    None \<Rightarrow> (False, set_ub w4)
                  | Some _ \<Rightarrow> (True, w4\<lparr>mgr_ip := ip\<rparr>))"

definition manager_round :: "'s posix \<Rightarrow> 's world \<Rightarrow> (int option \<times> 's world) option" where
  "manager_round P w =
     (case should_terminate_manager P w of
        None \<Rightarrow> None
      | Some (True, w1) \<Rightarrow>
          (case terminate_manager P w1 of None \<Rightarrow> None | Some (_, w2) \<Rightarrow> Some (Some 0, w2))
      | Some (False, w1) \<Rightarrow>
          (case handle_bind_fifo P w1 of
             None \<Rightarrow> None
           | Some (r2, w2) \<Rightarrow>
               if r2 \<noteq> 0 then Some (Some (- 1), w2)
               else (case handle_in_packets_fifo P w2 of
                       None \<Rightarrow> None
                     | Some (r3, w3) \<Rightarrow>
                         if r3 \<noteq> 0 then Some (Some (- 1), w3)
                         else (case for_each_socket (handle_socket_in_network P) w3 of
                                 None \<Rightarrow> None
                               | Some (r4, w4) \<Rightarrow>
                                   if r4 = - 1 then Some (Some (- 1), w4) else Some (None, w4)))))"

text \<open>The loop: a round that does not end it has the result \<open>None\<close>.\<close>

partial_function (option) manager_rounds :: "'s posix \<Rightarrow> 's world \<Rightarrow> (int \<times> 's world) option" where
  "manager_rounds P w =
     (case manager_round P w of
        None \<Rightarrow> None
      | Some (Some r, w1) \<Rightarrow> Some (r, w1)
      | Some (None, w1) \<Rightarrow> manager_rounds P w1)"

definition managerLoop :: "'s posix \<Rightarrow> 's world \<Rightarrow> (int \<times> 's world) option" where
  "managerLoop P w =
     (if mgr_sockets w \<noteq> None then Some (- 1, w)
      else let (r, w1) = initialize_network_manager_fifos P w in
        if r \<noteq> 0 then Some (- 1, w1)
        else let (allocated, w2) = sys_new P w1 in
          case createHashMap allocated of
            Undefined \<Rightarrow> Some (- 1, set_ub w2)
          | Returns h \<Rightarrow> manager_rounds P (w2\<lparr>mgr_sockets := Some h\<rparr>))"

end
