(* ===== verification/Manager_Invariant.thy ===== *)
theory Manager_Invariant imports Packet_Handlers begin

text \<open>
  The invariant of a manager process: its heap is in order, every socket identifier and every
  socket is well formed, and the table satisfies its own invariant over the heap.  For each
  elementary change of the process the theory gives the condition under which the invariant and the
  map from endpoints to sockets survive; the operations of the manager are compositions of these.
\<close>

section \<open>The invariant\<close>

definition socket_wf :: "socket \<Rightarrow> bool" where
  "socket_wf s \<longleftrightarrow> wf_windows s \<and> (\<exists>q. send_window s = Some q \<and> queue_inv q)"

definition registered :: "'s world \<Rightarrow> addr \<Rightarrow> bool" where
  "registered w a \<longleftrightarrow> (\<exists>h. mgr_sockets w = Some h \<and> Some a \<in> set (hm_table h))"

definition reg_id :: "'s world \<Rightarrow> addr \<Rightarrow> bool" where
  "reg_id w k \<longleftrightarrow> (\<exists>a s. registered w a \<and> socks w a = Some s \<and> sk_id s = Some k)"

definition mgr_inv :: "'s world \<Rightarrow> bool" where
  "mgr_inv w \<longleftrightarrow> heap_ok w
     \<and> (\<forall>k i. ids w k = Some i \<longrightarrow> wf_sockid i)
     \<and> (\<forall>a s. socks w a = Some s \<longrightarrow> socket_wf s)
     \<and> length (mgr_ip w) = MAX_IP_LENGTH \<and> NUL \<notin> set (mgr_ip w)
     \<and> (\<exists>h. mgr_sockets w = Some h \<and> hm_inv (ids w) (socks w) h)"

text \<open>The sockets of the manager by endpoints.\<close>

definition mgr_map :: "'s world \<Rightarrow> sock_key \<Rightarrow> addr option" where
  "mgr_map w = (case mgr_sockets w of None \<Rightarrow> Map.empty | Some h \<Rightarrow> hm_abs (ids w) h)"

lemma mgr_invD [inv_dest]:
  assumes "mgr_inv w"
  shows "heap_ok w" "\<And>k i. ids w k = Some i \<Longrightarrow> wf_sockid i" "\<And>a s. socks w a = Some s \<Longrightarrow> socket_wf s"
    "length (mgr_ip w) = 16" "NUL \<notin> set (mgr_ip w)"
  using assms by (auto simp: mgr_inv_def MAX_IP_LENGTH_def)

lemma mgr_inv_table:
  assumes "mgr_inv w"
  obtains h where "mgr_sockets w = Some h" "hm_inv (ids w) (socks w) h" "mgr_map w = hm_abs (ids w) h"
  using assms by (auto simp: mgr_inv_def mgr_map_def)

lemma table_index:
  assumes "hm_inv ih sh h"
  shows "Some a \<in> set (hm_table h) \<longleftrightarrow> (\<exists>i < HASH_MAP_DEFAULT_SIZE. hm_table h ! i = Some a)"
  using hm_invD(2) [OF assms] by (auto simp: in_set_conv_nth)

text \<open>A registered socket with its identifier.\<close>

lemma registered_socket:
  assumes "mgr_inv w" and "registered w a"
  obtains s k i where "socks w a = Some s" "socket_wf s" "sk_id s = Some k" "ids w k = Some i" "wf_sockid i"
    "mgr_map w (sid_key i) = Some a"
proof -
  obtain h where h: "mgr_sockets w = Some h" "hm_inv (ids w) (socks w) h" "mgr_map w = hm_abs (ids w) h"
    using assms(1) by (rule mgr_inv_table)
  obtain j where j: "j < HASH_MAP_DEFAULT_SIZE" "hm_table h ! j = Some a"
    using assms(2) h table_index [OF h(2)] by (auto simp: registered_def)
  from hm_invD(6) [OF h(2) j] obtain s k i where
    s: "socks w a = Some s" "sk_id s = Some k" "ids w k = Some i" "wf_sockid i"
    by (auto simp: sock_ok_def)
  have "slot_key (ids w) h j = sid_key i"
    using hm_invD(6) [OF h(2) j] s by (simp add: slot_key_def)
  then have "mgr_map w (sid_key i) = Some a"
    using j hm_abs_eq_Some [OF h(2)] h(3) by auto
  then show thesis using that s mgr_invD(3) [OF assms(1)] by blast
qed

lemma mgr_map_registered:
  assumes "mgr_inv w" and "mgr_map w key = Some a"
  shows "registered w a"
proof -
  obtain h where h: "mgr_sockets w = Some h" "hm_inv (ids w) (socks w) h" "mgr_map w = hm_abs (ids w) h"
    using assms(1) by (rule mgr_inv_table)
  then show ?thesis
    using assms(2) hm_abs_eq_Some [OF h(2)] table_index [OF h(2)] by (auto simp: registered_def)
qed

lemma registered_key:
  assumes "mgr_inv w" and "mgr_map w key = Some a"
  obtains s k i where "socks w a = Some s" "socket_wf s" "sk_id s = Some k" "ids w k = Some i" "wf_sockid i"
    "sid_key i = key"
proof -
  obtain h where h: "mgr_sockets w = Some h" "hm_inv (ids w) (socks w) h" "mgr_map w = hm_abs (ids w) h"
    using assms(1) by (rule mgr_inv_table)
  obtain j where j: "j < HASH_MAP_DEFAULT_SIZE" "hm_table h ! j = Some a" "slot_key (ids w) h j = key"
    using assms(2) h(3) hm_abs_eq_Some [OF h(2)] by auto
  from hm_invD(6) [OF h(2) j(1,2)] obtain s k i where
    s: "socks w a = Some s" "sk_id s = Some k" "ids w k = Some i" "wf_sockid i"
    by (auto simp: sock_ok_def)
  then show thesis
    using that hm_invD(6) [OF h(2) j(1,2)] j(3) mgr_invD(3) [OF assms(1)] by (simp add: slot_key_def)
qed

section \<open>Changes that leave the table's view alone\<close>

lemma hm_inv_transfer:
  assumes inv: "hm_inv ih sh h"
    and sh': "\<And>a s. Some a \<in> set (hm_table h) \<Longrightarrow> sh a = Some s \<Longrightarrow> \<exists>s'. sh' a = Some s' \<and> sk_id s' = sk_id s"
    and ih': "\<And>a s k. Some a \<in> set (hm_table h) \<Longrightarrow> sh a = Some s \<Longrightarrow> sk_id s = Some k \<Longrightarrow> ih' k = ih k"
  shows "hm_inv ih' sh' h" and "hm_abs ih' h = hm_abs ih h"
proof -
  note I = hm_invD [OF inv]
  have slot: "\<exists>s s' k i. sh a = Some s \<and> sh' a = Some s' \<and> sk_id s = Some k \<and> sk_id s' = Some k
      \<and> ih k = Some i \<and> ih' k = Some i \<and> wf_sockid i \<and> hm_socket_id h ! j = Some k"
    if j: "j < HASH_MAP_DEFAULT_SIZE" "hm_table h ! j = Some a" for j a
  proof -
    have mem: "Some a \<in> set (hm_table h)" using j table_index [OF inv] by blast
    from I(6) [OF j] obtain s k i where
      s: "sh a = Some s" "sk_id s = Some k" "ih k = Some i" "wf_sockid i" "hm_socket_id h ! j = Some k"
      by (auto simp: sock_ok_def)
    then show ?thesis using sh' [OF mem s(1)] ih' [OF mem s(1,2)] by auto
  qed
  have key: "slot_key ih' h j = slot_key ih h j" if "j < HASH_MAP_DEFAULT_SIZE" "used h j" for j
    using slot [OF that(1)] that(2) by (fastforce simp: used_def slot_key_def)
  show inv': "hm_inv ih' sh' h"
    unfolding hm_inv_def
  proof (intro conjI allI impI)
    show "case hm_table h ! j of None \<Rightarrow> hm_socket_id h ! j = None
       | Some a \<Rightarrow> sock_ok ih' sh' a \<and> hm_socket_id h ! j = sk_id (the (sh' a))"
      if "j < HASH_MAP_DEFAULT_SIZE" for j
      using I(5) [OF that] slot [OF that] by (fastforce simp: sock_ok_def split: option.splits)
    show "j = j'" if "j < HASH_MAP_DEFAULT_SIZE" "j' < HASH_MAP_DEFAULT_SIZE"
      "used h j \<and> used h j' \<and> slot_key ih' h j = slot_key ih' h j'" for j j'
      using that I(7) [of j j'] key by auto
  qed (use I in simp_all)
  show "hm_abs ih' h = hm_abs ih h"
  proof (rule hm_abs_ext [OF inv'])
    fix k a
    have "(\<exists>j < HASH_MAP_DEFAULT_SIZE. hm_table h ! j = Some a \<and> slot_key ih' h j = k)
        \<longleftrightarrow> (\<exists>j < HASH_MAP_DEFAULT_SIZE. hm_table h ! j = Some a \<and> slot_key ih h j = k)"
      using key by (metis used_def option.distinct(1))
    then show "(\<exists>j < HASH_MAP_DEFAULT_SIZE. hm_table h ! j = Some a \<and> slot_key ih' h j = k)
        \<longleftrightarrow> hm_abs ih h k = Some a"
      using hm_abs_eq_Some [OF inv] by simp
  qed
qed

text \<open>
  A change of the process that keeps every registered socket with its identifier, its address and
  the well-formedness of the heap.
\<close>

lemma mgr_inv_change:
  assumes inv: "mgr_inv w" and ip: "mgr_ip w' = mgr_ip w" and tab: "mgr_sockets w' = mgr_sockets w"
    and heap: "heap_ok w'" "\<And>k i. ids w' k = Some i \<Longrightarrow> wf_sockid i" "\<And>a s. socks w' a = Some s \<Longrightarrow> socket_wf s"
    and sk: "\<And>a s. registered w a \<Longrightarrow> socks w a = Some s \<Longrightarrow> \<exists>s'. socks w' a = Some s' \<and> sk_id s' = sk_id s"
    and id: "\<And>k. reg_id w k \<Longrightarrow> ids w' k = ids w k"
  shows "mgr_inv w'" and "mgr_map w' = mgr_map w" and "registered w' = registered w"
    and "reg_id w' = reg_id w"
proof -
  obtain h where h: "mgr_sockets w = Some h" "hm_inv (ids w) (socks w) h" "mgr_map w = hm_abs (ids w) h"
    using inv by (rule mgr_inv_table)
  have reg: "registered w a \<longleftrightarrow> Some a \<in> set (hm_table h)" for a
    using h(1) by (simp add: registered_def)
  have sk': "\<exists>s'. socks w' a = Some s' \<and> sk_id s' = sk_id s"
    if "Some a \<in> set (hm_table h)" "socks w a = Some s" for a s
    using sk reg that by simp
  have id': "ids w' k = ids w k"
    if "Some a \<in> set (hm_table h)" "socks w a = Some s" "sk_id s = Some k" for a s k
    using id [of k] reg that unfolding reg_id_def by blast
  note T = hm_inv_transfer [OF h(2) sk' id']
  show inv': "mgr_inv w'"
    using inv ip tab heap T h by (auto simp: mgr_inv_def)
  show "mgr_map w' = mgr_map w"
    using T h tab by (simp add: mgr_map_def)
  show reg': "registered w' = registered w"
    using tab by (simp add: registered_def fun_eq_iff)
  show "reg_id w' = reg_id w"
  proof
    fix k
    have "reg_id w' k \<Longrightarrow> reg_id w k"
      using reg' sk registered_socket [OF inv] unfolding reg_id_def by (metis option.inject)
    moreover have "reg_id w k \<Longrightarrow> reg_id w' k"
      using reg' sk unfolding reg_id_def by metis
    ultimately show "reg_id w' k = reg_id w k" by blast
  qed
qed

text \<open>The result of such a change.\<close>

definition keeps :: "'s world \<Rightarrow> 's world \<Rightarrow> bool" where
  "keeps w w' \<longleftrightarrow> mgr_inv w' \<and> mgr_map w' = mgr_map w \<and> registered w' = registered w \<and> reg_id w' = reg_id w
     \<and> mgr_ip w' = mgr_ip w"

lemma keepsD [inv_dest]:
  assumes "keeps w w'"
  shows "mgr_inv w'" "mgr_map w' = mgr_map w" "registered w' = registered w" "reg_id w' = reg_id w"
    "mgr_ip w' = mgr_ip w"
  using assms by (simp_all add: keeps_def)

lemma keeps_refl: "mgr_inv w \<Longrightarrow> keeps w w"
  by (simp add: keeps_def)

lemma keeps_trans [trans]: "keeps w w1 \<Longrightarrow> keeps w1 w2 \<Longrightarrow> keeps w w2"
  by (simp add: keeps_def)

lemma keeps_change:
  assumes inv: "mgr_inv w" and ip: "mgr_ip w' = mgr_ip w" and tab: "mgr_sockets w' = mgr_sockets w"
    and heap: "heap_ok w'" "\<And>k i. ids w' k = Some i \<Longrightarrow> wf_sockid i" "\<And>a s. socks w' a = Some s \<Longrightarrow> socket_wf s"
    and sk: "\<And>a s. registered w a \<Longrightarrow> socks w a = Some s \<Longrightarrow> \<exists>s'. socks w' a = Some s' \<and> sk_id s' = sk_id s"
    and id: "\<And>k. reg_id w k \<Longrightarrow> ids w' k = ids w k"
  shows "keeps w w'"
  using mgr_inv_change [OF assms] ip by (simp add: keeps_def)

text \<open>Registered sockets and identifiers are objects of the heap, so fresh ones are not registered.\<close>

lemma registered_heap:
  assumes "mgr_inv w"
  shows "registered w a \<Longrightarrow> \<exists>s. socks w a = Some s" "reg_id w k \<Longrightarrow> \<exists>i. ids w k = Some i"
proof -
  show "\<exists>s. socks w a = Some s" if "registered w a"
    using registered_socket [OF assms that] by metis
  show "\<exists>i. ids w k = Some i" if r: "reg_id w k"
  proof -
    obtain b s where b: "registered w b" "socks w b = Some s" "sk_id s = Some k"
      using r by (auto simp: reg_id_def)
    from registered_socket [OF assms b(1)] b show ?thesis by (metis option.inject)
  qed
qed

lemma fresh_not_registered:
  assumes "mgr_inv w"
  shows "\<not> registered w (next_addr w)" "\<not> reg_id w (next_addr w)"
  using registered_heap [OF assms] heap_okD(3,4) [OF mgr_invD(1) [OF assms]] by fastforce+

lemma keeps_same_proc:
  assumes "mgr_inv w" and "same_proc w w'"
  shows "keeps w w'"
  using assms(1) same_procD [OF assms(2)] mgr_invD [OF assms(1)]
  by (intro keeps_change) (auto simp: heap_ok_def)

lemma keeps_set_ub: "mgr_inv w \<Longrightarrow> keeps w (set_ub w)"
  by (intro keeps_change) (auto simp: heap_ok_def dest: mgr_invD)

lemma keeps_upd_sock:
  assumes "mgr_inv w" and "\<And>s. socks w a = Some s \<Longrightarrow> socket_wf s \<Longrightarrow> socket_wf (f s)"
    and "\<And>s. registered w a \<Longrightarrow> sk_id (f s) = sk_id s"
  shows "keeps w (upd_sock a f w)"
  using assms mgr_invD [OF assms(1)]
  by (intro keeps_change) (auto simp: heap_ok_def split: if_splits)

lemma keeps_upd_id:
  assumes "mgr_inv w" and "\<not> reg_id w k" and "\<And>i. wf_sockid i \<Longrightarrow> wf_sockid (f i)"
  shows "keeps w (upd_id k f w)"
  using assms mgr_invD [OF assms(1)]
  by (intro keeps_change) (auto simp: heap_ok_def split: if_splits)

lemma keeps_free_id:
  assumes "mgr_inv w" and "\<not> reg_id w k"
  shows "keeps w (free_id k w)"
  using assms mgr_invD [OF assms(1)]
  by (intro keeps_change) (auto simp: heap_ok_def free_id_def split: if_splits)

lemma keeps_free_sock:
  assumes "mgr_inv w" and "\<not> registered w a"
  shows "keeps w (free_sock a w)"
  using assms mgr_invD [OF assms(1)]
  by (intro keeps_change) (auto simp: heap_ok_def free_sock_def split: if_splits)

lemma keeps_new_id:
  assumes "mgr_inv w" and "wf_sockid i" and "new_id i w = (k, w')"
  shows "keeps w w'" "ids w' k = Some i" "\<not> reg_id w' k" "socks w' = socks w" "ids w k = None"
    "k \<noteq> j \<Longrightarrow> ids w' j = ids w j" "mgr_sockets w' = mgr_sockets w" "os w' = os w" "ub w' = ub w"
proof -
  have w': "k = next_addr w" "w' = w\<lparr>ids := (ids w)(k \<mapsto> i), next_addr := k + 1\<rparr>"
    using assms(3) by (auto simp: new_id_def)
  note H = mgr_invD(1) [OF assms(1)]
  show K: "keeps w w'"
    using assms mgr_invD [OF assms(1)] w' fresh_not_registered [OF assms(1)]
    by (intro keeps_change) (auto simp: heap_ok_def less_Suc_eq split: if_splits)
  show "\<not> reg_id w' k" using keepsD(4) [OF K] fresh_not_registered(2) [OF assms(1)] w'(1) by simp
  show "ids w k = None" using heap_okD(3) [OF H] w'(1) by simp
qed (use assms(3) in \<open>auto simp: new_id_def\<close>)

lemma keeps_new_sock:
  assumes "mgr_inv w" and "socket_wf s" and "new_sock s w = (a, w')"
  shows "keeps w w'" "socks w' a = Some s" "\<not> registered w' a" "ids w' = ids w" "socks w a = None"
    "a \<noteq> b \<Longrightarrow> socks w' b = socks w b" "mgr_sockets w' = mgr_sockets w" "os w' = os w" "ub w' = ub w"
proof -
  have w': "a = next_addr w" "w' = w\<lparr>socks := (socks w)(a \<mapsto> s), next_addr := a + 1\<rparr>"
    using assms(3) by (auto simp: new_sock_def)
  note H = mgr_invD(1) [OF assms(1)]
  show K: "keeps w w'"
    using assms mgr_invD [OF assms(1)] w' fresh_not_registered [OF assms(1)]
    by (intro keeps_change) (auto simp: heap_ok_def less_Suc_eq split: if_splits)
  show "\<not> registered w' a" using keepsD(3) [OF K] fresh_not_registered(1) [OF assms(1)] w'(1) by simp
  show "socks w a = None" using heap_okD(4) [OF H] w'(1) by simp
qed (use assms(3) in \<open>auto simp: new_sock_def\<close>)

text \<open>\<open>destroy_socket\<close> of a socket outside the table with an identifier of its own.\<close>

lemma keeps_destroy_socket:
  assumes "mgr_inv w" and "\<not> registered w a" and "\<And>k. sk_id (sock_at w a) = Some k \<Longrightarrow> \<not> reg_id w k"
  shows "keeps w (destroy_socket a w)"
proof (cases "sk_id (sock_at w a)")
  case None
  then show ?thesis using keeps_free_sock [OF assms(1,2)] by (simp add: destroy_socket_def)
next
  case (Some k)
  note K = keeps_free_id [OF assms(1) assms(3) [OF Some]]
  have "\<not> registered (free_id k w) a" using keepsD(3) [OF K] assms(2) by simp
  from keeps_trans [OF K keeps_free_sock [OF keepsD(1) [OF K] this]] Some
  show ?thesis by (simp add: destroy_socket_def destroy_socket_id_def)
qed

section \<open>Socket operations\<close>

lemma wf_ip_strcpy_arr:
  assumes "length d = 17" and "wf_ip s"
  shows "wf_ip (strcpy_arr d s)" and "cstr (strcpy_arr d s) = cstr s"
proof -
  have s: "length s = 17" "terminated s" using assms(2) by (auto simp: wf_ip_def MAX_IP_LENGTH_def)
  show "wf_ip (strcpy_arr d s)"
    using strcpy_arr_spec(1,2) [OF assms(1), of s] s by (simp add: wf_ip_def MAX_IP_LENGTH_def)
  show "cstr (strcpy_arr d s) = cstr s"
    using strcpy_arr_spec(3) [OF assms(1), of s] s length_cstr_wf_ip [OF assms(2)] by simp
qed

lemma length_ip_set_empty: "length ip = 17 \<Longrightarrow> length (ip_set_empty ip) = 17"
proof -
  have "length (foldl (\<lambda>a i. a[i := CHR ''e'']) ip is) = length ip" for "is"
    by (induction "is" arbitrary: ip) simp_all
  then show "length ip = 17 \<Longrightarrow> length (ip_set_empty ip) = 17" by (simp add: ip_set_empty_def)
qed

lemma ip_set_empty_eq:
  assumes "length ip = 17"
  shows "ip_set_empty ip = replicate 16 (CHR ''e'') @ [NUL]"
proof -
  have f: "foldl (\<lambda>a i. a[i := CHR ''e'']) ip [0..<n] = replicate n (CHR ''e'') @ drop n ip"
    if "n \<le> length ip" for n
    using that
  proof (induction n)
    case (Suc n)
    then have "drop n ip = ip ! n # drop (Suc n) ip" by (simp add: Cons_nth_drop_Suc)
    then show ?case
      using Suc by (simp add: list_update_append replicate_append_same flip: replicate_Suc)
  qed simp
  have "drop 16 ip = [ip ! 16]" using assms by (intro drop_last_cell) simp
  then show ?thesis
    using f [of 16] assms by (simp add: ip_set_empty_def MAX_IP_LENGTH_def list_update_append)
qed

lemma wf_ip_set_empty: "length ip = 17 \<Longrightarrow> wf_ip (ip_set_empty ip)"
  by (simp add: ip_set_empty_eq wf_ip_def MAX_IP_LENGTH_def)

lemma wf_unconnected: "wf_sockid i \<Longrightarrow> wf_sockid (unconnected i)"
  using wf_ip_set_empty [of "dst_ip i"] by (simp add: wf_sockid_def unconnected_def wf_ip_def MAX_IP_LENGTH_def)

definition empty_ip_text :: string where
  "empty_ip_text = replicate 16 (CHR ''e'')"

lemma sid_key_unconnected:
  "wf_sockid i \<Longrightarrow> sid_key (unconnected i) = (cstr (src_ip i), src_port i, empty_ip_text, EMPTY_PORT)"
  by (simp add: sid_key_def unconnected_def ip_set_empty_eq wf_sockidD empty_ip_text_def)

lemma copy_socket_id_keeps:
  assumes inv: "mgr_inv w" and i: "ids w k = Some i" and c: "copy_socket_id P k w = (r, w')"
  shows "keeps w w'" and "socks w' = socks w"
    and "r = None \<Longrightarrow> same_proc w w'"
    and "r = Some c' \<Longrightarrow> \<exists>j. ids w' c' = Some j \<and> wf_sockid j \<and> sid_key j = sid_key i
           \<and> \<not> reg_id w' c' \<and> ids w c' = None \<and> (\<forall>x. x \<noteq> c' \<longrightarrow> ids w' x = ids w x)"
proof -
  obtain m w1 where m: "sys_malloc P 48 w = (m, w1)" by fastforce
  note p1 = sys_same_proc(1) [OF m]
  note K1 = keeps_same_proc [OF inv p1]
  have wf: "wf_sockid i" using mgr_invD(2) [OF inv i] .
  have "keeps w w' \<and> socks w' = socks w \<and> (r = None \<longrightarrow> same_proc w w') \<and>
     (r = Some c' \<longrightarrow> (\<exists>j. ids w' c' = Some j \<and> wf_sockid j \<and> sid_key j = sid_key i
           \<and> \<not> reg_id w' c' \<and> ids w c' = None \<and> (\<forall>x. x \<noteq> c' \<longrightarrow> ids w' x = ids w x)))" for c'
  proof (cases m)
    case None
    then show ?thesis using c m p1 K1 same_procD(2) [OF p1] by (simp add: copy_socket_id_def)
  next
    case (Some b)
    define j where "j = \<lparr>src_port = src_port i, dst_port = dst_port i,
      src_ip = strcpy_arr (ip_set_empty (block_cells b 17)) (src_ip i),
      dst_ip = strcpy_arr (ip_set_empty (block_cells b 17)) (dst_ip i)\<rparr>"
    have j: "wf_sockid j" "sid_key j = sid_key i"
      using wf wf_ip_strcpy_arr length_ip_set_empty [of "block_cells b 17"]
      by (simp_all add: j_def wf_sockid_def sid_key_def)
    have "id_at w1 k = i" using i same_procD(1) [OF p1] by (simp add: id_at_def)
    then obtain a w2 where a: "new_id j w1 = (a, w2)" "r = Some a" "w' = w2"
      using c m Some by (auto simp: copy_socket_id_def fresh_sockid_def j_def Let_def split: prod.splits)
    note N = keeps_new_id [OF keepsD(1) [OF K1] j(1) a(1)]
    show ?thesis
      using a N j keeps_trans [OF K1 N(1)] same_procD [OF p1] by auto
  qed
  then show "keeps w w'" and "socks w' = socks w" and "r = None \<Longrightarrow> same_proc w w'"
    and "r = Some c' \<Longrightarrow> \<exists>j. ids w' c' = Some j \<and> wf_sockid j \<and> sid_key j = sid_key i
           \<and> \<not> reg_id w' c' \<and> ids w c' = None \<and> (\<forall>x. x \<noteq> c' \<longrightarrow> ids w' x = ids w x)"
    by blast+
qed

lemma socket_wf_fresh:
  assumes "QueueCreate True = Some q"
  shows "socket_wf (s\<lparr>send_window := Some q, recv_window := replicate MAX_WINDOW_SIZE NUL,
      max_recv_window_size := of_nat MAX_WINDOW_SIZE, recv_window_isvalid := replicate MAX_WINDOW_SIZE False\<rparr>)"
  using QueueCreate_empty [OF assms] by (simp add: socket_wf_def wf_windows_def)

lemma create_new_socket_keeps:
  assumes inv: "mgr_inv w" and c: "create_new_socket P w = (r, w')"
  shows "keeps w w'" and "ids w' = ids w"
    and "r = Some a \<Longrightarrow> \<exists>s. socks w' a = Some s \<and> socket_wf s \<and> sk_id s = None \<and> \<not> registered w' a
           \<and> socks w a = None \<and> (\<forall>b. b \<noteq> a \<longrightarrow> socks w' b = socks w b)"
    and "r = None \<Longrightarrow> socks w' = socks w"
proof -
  obtain m w1 where 1: "sys_malloc P 112 w = (m, w1)" by fastforce
  obtain al w2 where 2: "sys_new P w1 = (al, w2)" by fastforce
  obtain rv w3 where 3: "sys_malloc P MAX_WINDOW_SIZE w2 = (rv, w3)" by fastforce
  obtain iv w4 where 4: "sys_malloc P MAX_WINDOW_SIZE w3 = (iv, w4)" by fastforce
  obtain t1 w5 where 5: "sys_clock P w4 = (t1, w5)" by fastforce
  obtain t2 w6 where 6: "sys_clock P w5 = (t2, w6)" by fastforce
  note p1 = sys_same_proc(1) [OF 1]
  have p4: "same_proc w w4" and p6: "same_proc w w6"
    using p1 sys_same_proc(2) [OF 2] sys_same_proc(1) [OF 3] sys_same_proc(1) [OF 4]
      sys_same_proc(10) [OF 5] sys_same_proc(10) [OF 6] by (meson same_proc_trans)+
  note K1 = keeps_same_proc [OF inv p1] and K4 = keeps_same_proc [OF inv p4] and K6 = keeps_same_proc [OF inv p6]
  have "keeps w w' \<and> ids w' = ids w \<and> (r = None \<longrightarrow> socks w' = socks w) \<and>
     (r = Some a \<longrightarrow> (\<exists>s. socks w' a = Some s \<and> socket_wf s \<and> sk_id s = None \<and> \<not> registered w' a
           \<and> socks w a = None \<and> (\<forall>b. b \<noteq> a \<longrightarrow> socks w' b = socks w b)))" for a
  proof -
    consider "r = None" "w' = w1" | "r = None" "w' = set_ub w4" | "r = None" "w' = w6"
      | b q rb x w7 where "QueueCreate al = Some q" "rv = Some rb"
          "new_sock ((fresh_socket b (Some q) rb t1 t2)\<lparr>recv_window := replicate MAX_WINDOW_SIZE NUL\<rparr>) w6 = (x, w7)"
          "r = Some x" "w' = w7"
      using c 1 2 3 4 5 6
      by (cases m; cases iv; cases rv; cases "QueueCreate al")
        (auto simp: create_new_socket_def Let_def split: prod.splits if_splits)
    then show ?thesis
    proof cases
      case 1
      then show ?thesis using K1 same_procD [OF p1] by simp
    next
      case 2
      then show ?thesis
        using keeps_trans [OF K4 keeps_set_ub [OF keepsD(1) [OF K4]]] same_procD [OF p4] by simp
    next
      case 3
      then show ?thesis using K6 same_procD [OF p6] by simp
    next
      case (4 b q rb x w7)
      let ?s = "(fresh_socket b (Some q) rb t1 t2)\<lparr>recv_window := replicate MAX_WINDOW_SIZE NUL\<rparr>"
      have al: "al = True" using 4(1) by (auto simp: QueueCreate_def split: if_splits)
      have "socket_wf ?s"
        using socket_wf_fresh [OF 4(1) [unfolded al], of ?s] by (simp add: fresh_socket_def)
      note N = keeps_new_sock [OF keepsD(1) [OF K6] this 4(3)]
      show ?thesis
        using 4 N keeps_trans [OF K6 N(1)] same_procD [OF p6] \<open>socket_wf ?s\<close>
        by (auto simp: fresh_socket_def)
    qed
  qed
  then show "keeps w w'" and "ids w' = ids w" and "r = None \<Longrightarrow> socks w' = socks w"
    and "r = Some a \<Longrightarrow> \<exists>s. socks w' a = Some s \<and> socket_wf s \<and> sk_id s = None \<and> \<not> registered w' a
           \<and> socks w a = None \<and> (\<forall>b. b \<noteq> a \<longrightarrow> socks w' b = socks w b)"
    by blast+
qed

section \<open>Steps on temporaries\<close>

lemma same_heap_keeps:
  assumes "mgr_inv w" and "same_heap w w'"
  shows "keeps w w'"
  using assms(1) same_heapD(1-5) [OF assms(2)] mgr_invD [OF assms(1)]
  by (intro keeps_change) (force simp: heap_ok_def)+

lemma construct_packet_heap [intro, dest]:
  "construct_packet P a d f port w = (r, w') \<Longrightarrow> same_heap w w'"
  by (auto simp: construct_packet_def Let_def intro: same_heap_trans
      split: prod.splits if_splits option.splits)

text \<open>A copy of an identifier, used for a while and freed, leaves the heap alone.\<close>

lemma copy_and_free:
  assumes inv: "mgr_inv w" and i: "ids w k = Some i" and c: "copy_socket_id P k w = (Some c, w1)"
    and use: "same_heap (upd_id c f w1) w2"
  shows "same_heap w (free_id c w2)"
proof -
  have n: "ids w c = None" "\<forall>x. x \<noteq> c \<longrightarrow> ids w1 x = ids w x" "socks w1 = socks w"
    using copy_socket_id_keeps [OF inv i c] by auto
  have rest: "mgr_sockets w1 = mgr_sockets w \<and> mgr_ip w1 = mgr_ip w \<and> next_addr w \<le> next_addr w1"
  proof -
    obtain m w0 where m: "sys_malloc P 48 w = (m, w0)" by fastforce
    show ?thesis
      using c m same_heapD [OF sys_same_heap(1) [OF m]]
      by (auto simp: copy_socket_id_def new_id_def Let_def split: option.splits)
  qed
  have "ids (free_id c w2) = ids w"
    using n use by (auto simp: free_id_def fun_eq_iff dest: same_heapD(1))
  then show ?thesis
    using n(3) rest same_heapD [OF use] by (simp add: same_heap_def free_id_def)
qed

lemma notify_connect_client_heap:
  assumes inv: "mgr_inv w" and reg: "registered w a" and n: "notify_connect_client P a w = (r, w')"
  shows "same_heap w w'"
proof -
  obtain s k i where s: "socks w a = Some s" "sk_id s = Some k" "ids w k = Some i"
    using registered_socket [OF inv reg] by metis
  obtain r0 w1 where 1: "create_socket_end_fifos P (Some k) w = (r0, w1)" by fastforce
  note h1 = create_socket_end_fifos_heap [OF 1]
  note inv1 = keepsD(1) [OF same_heap_keeps [OF inv h1]]
  have i1: "ids w1 k = Some i" "sk_id (sock_at w a) = Some k" "sk_id (sock_at w1 a) = Some k"
    using s same_heapD [OF h1] by (simp_all add: sock_at_def)
  obtain old w2 where 2: "copy_socket_id P k w1 = (old, w2)" by fastforce
  show ?thesis
  proof (cases "r0 \<noteq> 0 \<or> old = None")
    case True
    then have "w' = w1 \<or> (w' = w2 \<and> old = None)"
      using n 1 2 i1 by (auto simp: notify_connect_client_def split: if_splits)
    then have "same_heap w1 w'"
      using copy_socket_id_keeps(3) [OF inv1 i1(1) 2] by auto
    then show ?thesis by (rule same_heap_trans [OF h1])
  next
    case False
    then obtain c where c: "old = Some c" by auto
    obtain nm w4 where 4: "get_connect_fifo_read_end_name P (Some c) (upd_id c unconnected w2) = (nm, w4)"
      by fastforce
    obtain rs w5 where 5: "write_char_to_fifo_name P nm REQUEST_GRANTED_FIFO w4 = (rs, w5)" by fastforce
    note h4 = fifo_name_heap(4) [OF 4]
    have "w' = free_id c w4 \<or> w' = free_id c w5"
      using n 1 2 i1 False c 4 5 by (auto simp: notify_connect_client_def Let_def split: if_splits)
    moreover have "same_heap (upd_id c unconnected w2) w5"
      by (rule same_heap_trans [OF h4 fifo_name_heap(15) [OF 5]])
    ultimately have "same_heap w1 w'"
      using copy_and_free [OF inv1 i1(1) 2 [unfolded c]] h4 by blast
    then show ?thesis by (rule same_heap_trans [OF h1])
  qed
qed

lemma notify_accept_client_heap:
  assumes inv: "mgr_inv w" and reg: "registered w a" and n: "notify_accept_client P a w = (r, w')"
  shows "same_heap w w'"
proof -
  obtain s k i where s: "socks w a = Some s" "sk_id s = Some k" "ids w k = Some i"
    using registered_socket [OF inv reg] by metis
  have k: "sk_id (sock_at w a) = Some k" using s by (simp add: sock_at_def)
  obtain old w1 where 1: "copy_socket_id P k w = (old, w1)" by fastforce
  show ?thesis
  proof (cases old)
    case None
    then show ?thesis
      using n 1 k copy_socket_id_keeps(3) [OF inv s(3) 1] by (auto simp: notify_accept_client_def)
  next
    case (Some c)
    obtain nm w3 where 3: "get_accept_fifo_write_end_name P (Some c) (upd_id c unconnected w1) = (nm, w3)"
      by fastforce
    note h3 = fifo_name_heap(3) [OF 3]
    have "\<exists>w6. same_heap w3 w6 \<and> w' = free_id c w6"
    proof (cases nm)
      case None
      then show ?thesis
        using n 1 k Some 3 by (intro exI [of _ w3]) (simp add: notify_accept_client_def Let_def)
    next
      case (Some n')
      obtain fd w4 where 4: "sys_open P n' O_WRONLY_NONBLOCK w3 = (fd, w4)" by fastforce
      obtain wr w5 where 5: "sys_write P fd ((cstr (dst_ip (id_at w3 (the (sk_id (sock_at w3 a))))) @ ''_''
          @ fmt_d (sint (dst_port (id_at w3 (the (sk_id (sock_at w3 a))))))) @ [NUL]) w4 = (wr, w5)" by fastforce
      have "w' = free_id c w4 \<or> w' = free_id c (sys_close P fd w5)"
        using n 1 k Some \<open>old = Some c\<close> 3 4 5
        by (auto simp: notify_accept_client_def Let_def split: if_splits)
      moreover have "same_heap w3 w4" using sys_same_heap(3) [OF 4] .
      moreover have "same_heap w3 (sys_close P fd w5)"
        by (rule same_heap_trans [OF same_heap_trans [OF sys_same_heap(3) [OF 4] sys_same_heap(5) [OF 5]]
              same_heap_close])
      ultimately show ?thesis by blast
    qed
    then obtain w6 where "same_heap w3 w6" "w' = free_id c w6" by blast
    then show ?thesis
      using copy_and_free [OF inv s(3) 1 [unfolded Some]] same_heap_trans [OF h3] by blast
  qed
qed

section \<open>Operations on one socket\<close>

text \<open>The process changes in one socket only, and there as a relation says.\<close>

definition only_socket :: "addr \<Rightarrow> (socket \<Rightarrow> socket \<Rightarrow> bool) \<Rightarrow> 's world \<Rightarrow> 's world \<Rightarrow> bool" where
  "only_socket a Q w w' \<longleftrightarrow> ids w' = ids w \<and> mgr_sockets w' = mgr_sockets w \<and> mgr_ip w' = mgr_ip w
     \<and> next_addr w \<le> next_addr w' \<and> (\<forall>b. b \<noteq> a \<longrightarrow> socks w' b = socks w b)
     \<and> (\<exists>s s'. socks w a = Some s \<and> socks w' a = Some s' \<and> Q s s')"

definition kept :: "socket \<Rightarrow> socket \<Rightarrow> bool" where
  "kept s s' \<longleftrightarrow> sk_id s' = sk_id s \<and> (socket_wf s \<longrightarrow> socket_wf s')"

lemma kept_refl [simp, intro]: "kept s s"
  by (simp add: kept_def)

lemma kept_trans: "kept s s1 \<Longrightarrow> kept s1 s2 \<Longrightarrow> kept s s2"
  by (simp add: kept_def)

lemma only_socket_heap:
  "only_socket a Q w w1 \<Longrightarrow> same_heap w1 w2 \<Longrightarrow> only_socket a Q w w2"
  "same_heap w w0 \<Longrightarrow> only_socket a Q w0 w1 \<Longrightarrow> only_socket a Q w w1"
  by (auto simp: only_socket_def same_heap_def)

lemma only_socket_same: "same_heap w w' \<Longrightarrow> socks w a = Some s \<Longrightarrow> Q s s \<Longrightarrow> only_socket a Q w w'"
  by (auto simp: only_socket_def same_heap_def)

lemma only_socket_upd: "socks w a = Some s \<Longrightarrow> Q s (f s) \<Longrightarrow> only_socket a Q w (upd_sock a f w)"
  by (auto simp: only_socket_def)

lemma only_socket_then:
  "only_socket a Q w w1 \<Longrightarrow> only_socket a R w1 w2 \<Longrightarrow> (\<And>s t u. Q s t \<Longrightarrow> R t u \<Longrightarrow> S s u) \<Longrightarrow>
   only_socket a S w w2"
  by (fastforce simp: only_socket_def)

lemma only_socket_weaken:
  "only_socket a Q w w' \<Longrightarrow> (\<And>s s'. socks w a = Some s \<Longrightarrow> Q s s' \<Longrightarrow> R s s') \<Longrightarrow> only_socket a R w w'"
  by (auto simp: only_socket_def)

lemma only_socket_keeps:
  assumes inv: "mgr_inv w" and o: "only_socket a Q w w'" and Q: "\<And>s s'. Q s s' \<Longrightarrow> kept s s'"
  shows "keeps w w'"
proof -
  obtain s s' where s: "socks w a = Some s" "socks w' a = Some s'" "kept s s'"
    using o Q by (auto simp: only_socket_def)
  have O: "ids w' = ids w" "mgr_sockets w' = mgr_sockets w" "mgr_ip w' = mgr_ip w"
    "next_addr w \<le> next_addr w'" "\<And>b. b \<noteq> a \<Longrightarrow> socks w' b = socks w b"
    using o by (auto simp: only_socket_def)
  note I = mgr_invD [OF inv]
  show ?thesis
  proof (rule keeps_change [OF inv O(3,2)])
    show "heap_ok w'"
      unfolding heap_ok_def
    proof (intro conjI allI impI)
      fix b
      show "b < next_addr w'" if "ids w' b \<noteq> None"
        using that O(1,4) heap_okD(1) [OF I(1)] by fastforce
      show "b < next_addr w'" if nn: "socks w' b \<noteq> None"
      proof (cases "b = a")
        case True
        then show ?thesis using heap_okD(2) [OF I(1) s(1)] O(4) by simp
      next
        case False
        then obtain t where "socks w b = Some t" using nn O(5) by fastforce
        then show ?thesis using heap_okD(2) [OF I(1)] O(4) by (meson order_less_le_trans)
      qed
    qed
    show "socket_wf t" if "socks w' b = Some t" for b t
      using that s I(3) O(5) [of b] by (cases "b = a") (auto simp: kept_def)
    show "\<exists>t'. socks w' b = Some t' \<and> sk_id t' = sk_id t" if "registered w b" "socks w b = Some t" for b t
      using that s O(5) [of b] by (cases "b = a") (auto simp: kept_def)
  qed (use O(1) I(2) in auto)
qed

text \<open>The two halves of the data path.\<close>

lemma store_data_kept: "kept s (store_data x d s) \<and> sk_state (store_data x d s) = sk_state s"
proof -
  have "kept s (foldl (store_byte x d) s is) \<and> sk_state (foldl (store_byte x d) s is) = sk_state s" for "is"
  proof (induction "is" arbitrary: s)
    case (Cons i "is")
    have "kept s (store_byte x d s i) \<and> sk_state (store_byte x d s i) = sk_state s"
      by (auto simp: kept_def store_byte_def Let_def socket_wf_def wf_windows_def)
    with Cons [of "store_byte x d s i"] show ?case by (auto intro: kept_trans)
  qed simp
  then show ?thesis by (simp add: store_data_def)
qed

lemma slide_kept:
  assumes "wf_windows s" and "n \<le> 1024"
  shows "kept s (slide_recv_window n (s\<lparr>seq_of_first_recv_window := v\<rparr>))
    \<and> sk_state (slide_recv_window n (s\<lparr>seq_of_first_recv_window := v\<rparr>)) = sk_state s"
proof -
  have "wf_windows (s\<lparr>seq_of_first_recv_window := v\<rparr>)" using assms(1) by (simp add: wf_windows_def)
  note S = slide_recv_window_eq [OF this assms(2)]
  show ?thesis
    using assms wf_windowsD [OF assms(1)] unfolding S
    by (auto simp: kept_def socket_wf_def wf_windows_def MAX_WINDOW_SIZE_def)
qed

lemma update_recv_window_only:
  assumes "socks w a = Some s" and "wf_windows s"
  shows "only_socket a (\<lambda>s s'. kept s s' \<and> sk_state s' = sk_state s) w (update_recv_window P a w)"
proof -
  have sa: "sock_at w a = s" using assms(1) by (simp add: sock_at_def)
  obtain nm w1 where 1: "get_socket_recv_fifo_name P (sk_id s) w = (nm, w1)" by fastforce
  obtain n w2 where 2: "write_string_to_fifo_name P nm (take (valid_recvs s) (recv_window s)) w1 = (n, w2)"
    by fastforce
  note h1 = fifo_name_heap(6) [OF 1]
  note h2 = same_heap_trans [OF h1 fifo_name_heap(14) [OF 2]]
  have s2: "socks w2 a = Some s" using assms(1) same_heapD(2) [OF h2] by simp
  let ?f = "\<lambda>s. slide_recv_window (nat n)
      (s\<lparr>seq_of_first_recv_window := seq_of_first_recv_window s + word_of_int n\<rparr>)"
  consider "update_recv_window P a w = w1" | "update_recv_window P a w = w2"
    | "update_recv_window P a w = set_ub w2"
    | "update_recv_window P a w = upd_sock a ?f w2" "0 \<le> n" "n \<le> 1024"
    using 1 2 wf_windowsD(1) [OF assms(2)]
    by (cases "nm = None"; cases "n = - 1"; cases "n < 0"; cases "n > 1024")
      (simp_all add: update_recv_window_def sa)
  then show ?thesis
  proof cases
    case 4
    have "only_socket a (\<lambda>s s'. kept s s' \<and> sk_state s' = sk_state s) w2 (upd_sock a ?f w2)"
    proof -
      have "nat n \<le> 1024" using 4 by (simp add: nat_le_iff)
      from slide_kept [OF assms(2) this] show ?thesis by (intro only_socket_upd [OF s2]) blast
    qed
    then show ?thesis using 4(1) only_socket_heap(2) [OF h2] by simp
  qed (use h1 h2 assms(1) same_heap_trans [OF h2 same_heap_set_ub] in \<open>auto intro: only_socket_same\<close>)
qed

lemma receiveNewData_only:
  assumes "socks w a = Some s" and "socket_wf s"
  shows "only_socket a (\<lambda>s s'. kept s s' \<and> sk_state s' = sk_state s) w (receiveNewData P a p w)"
proof -
  let ?f = "store_data (tcp_seq_num p) (the (tcp_data p))"
  have o1: "only_socket a (\<lambda>s s'. kept s s' \<and> sk_state s' = sk_state s) w (upd_sock a ?f w)"
    using assms(1) store_data_kept by (intro only_socket_upd)
  have "wf_windows (?f s)"
    using store_data_kept assms(2) by (auto simp: kept_def socket_wf_def)
  then have "only_socket a (\<lambda>s s'. kept s s' \<and> sk_state s' = sk_state s) (upd_sock a ?f w)
      (update_recv_window P a (upd_sock a ?f w))"
    using assms(1) by (intro update_recv_window_only [of _ _ "?f s"]) simp_all
  with o1 show ?thesis
    unfolding receiveNewData_def by (rule only_socket_then) (auto intro: kept_trans)
qed

lemma ack_slide_kept:
  assumes "socket_wf s"
  shows "kept s (ack_slide n s) \<and> sk_state (ack_slide n s) = sk_state s"
proof -
  have main: "sk_id (ack_slide n s) = sk_id s \<and> sk_state (ack_slide n s) = sk_state s
      \<and> max_recv_window_size (ack_slide n s) = max_recv_window_size s
      \<and> recv_window (ack_slide n s) = recv_window s
      \<and> recv_window_isvalid (ack_slide n s) = recv_window_isvalid s" for s
  proof (induction n s rule: ack_slide.induct)
    case (1 n s)
    show ?case
      using 1 by (subst (1 2 3 4 5) ack_slide.simps) (auto split: option.splits)
  qed
  moreover have "\<exists>q. send_window (ack_slide n s) = Some q \<and> queue_inv q" if q: "send_window s = Some q" "queue_inv q" for s q
    using q
  proof (induction n s arbitrary: q rule: ack_slide.induct)
    case (1 n s)
    show ?case
    proof (cases "sint (seq_of_first_send_window s) < sint n \<and> QueueIsEmpty (send_window s) = False")
      case False
      then show ?thesis using "1.prems" by (subst ack_slide.simps) auto
    next
      case True
      have "queue_inv (snd (dequeue q))"
      proof (cases "queue_list q")
        case Nil
        then show ?thesis using dequeue_empty [OF "1.prems"(2)] "1.prems"(2) by simp
      next
        case (Cons x xs)
        then show ?thesis using dequeue_nonempty [OF "1.prems"(2) Cons] by auto
      qed
      then show ?thesis
        using "1.IH" [OF True "1.prems"(1)] True "1.prems" by (subst ack_slide.simps) simp
    qed
  qed
  ultimately show ?thesis
    using assms by (auto simp: kept_def socket_wf_def wf_windows_def)
qed

section \<open>Lookups, insertions and removals\<close>

lemma registered_iff: "mgr_inv w \<Longrightarrow> registered w a \<longleftrightarrow> (\<exists>key. mgr_map w key = Some a)"
  by (metis mgr_map_registered registered_socket)

lemma mgr_getSocket_map:
  assumes inv: "mgr_inv w" and k: "ids w k = Some i"
  shows "mgr_getSocket (Some k) w = mgr_map w (sid_key i)"
proof -
  obtain h where h: "mgr_sockets w = Some h" "hm_inv (ids w) (socks w) h" "mgr_map w = hm_abs (ids w) h"
    using inv by (rule mgr_inv_table)
  have "id_ok (ids w) k" using k mgr_invD(2) [OF inv k] by (simp add: id_ok_def)
  from hr.get_abs [OF h(2) this] show ?thesis
    using h k by (simp add: mgr_getSocket_def reg_lookup_def id_key_def)
qed

text \<open>A registered socket is found under its own identifier.\<close>

lemma mgr_map_finite: "mgr_inv w \<Longrightarrow> card (dom (mgr_map w)) \<le> 100"
  by (metis HASH_MAP_DEFAULT_SIZE_def hm_bounded mgr_inv_table)

lemma mgr_inv_new_table:
  assumes inv: "mgr_inv w" and h': "hm_inv (ids w) (socks w) h'"
  shows "mgr_inv (w\<lparr>mgr_sockets := Some h'\<rparr>)"
    and "mgr_map (w\<lparr>mgr_sockets := Some h'\<rparr>) = hm_abs (ids w) h'"
  using inv h' by (auto simp: mgr_inv_def mgr_map_def heap_ok_def)

lemma mgr_insertSocket_spec:
  assumes inv: "mgr_inv w" and a: "socks w a = Some s" "sk_id s = Some k" "ids w k = Some i"
    and r: "mgr_insertSocket (Some a) w = (b, w')"
  shows "b \<longleftrightarrow> mgr_map w (sid_key i) = None \<and> card (dom (mgr_map w)) < 100"
    and "b \<Longrightarrow> mgr_inv w' \<and> mgr_map w' = (mgr_map w)(sid_key i \<mapsto> a)"
    and "\<not> b \<Longrightarrow> w' = w"
    and "w' = w\<lparr>mgr_sockets := mgr_sockets w'\<rparr>"
proof -
  obtain h where h: "mgr_sockets w = Some h" "hm_inv (ids w) (socks w) h" "mgr_map w = hm_abs (ids w) h"
    using inv by (rule mgr_inv_table)
  have ok: "sock_ok (ids w) (socks w) a" using a mgr_invD(2) [OF inv a(3)] by (simp add: sock_ok_def)
  have key: "sock_key_of (ids w) (socks w) a = sid_key i" using a by (simp add: sock_key_of_def)
  show "w' = w\<lparr>mgr_sockets := mgr_sockets w'\<rparr>"
    using r by (auto simp: mgr_insertSocket_def split: prod.splits)
  have "(b \<longleftrightarrow> mgr_map w (sid_key i) = None \<and> card (dom (mgr_map w)) < 100)
      \<and> (b \<longrightarrow> mgr_inv w' \<and> mgr_map w' = (mgr_map w)(sid_key i \<mapsto> a)) \<and> (\<not> b \<longrightarrow> w' = w)"
  proof (cases "mgr_map w (sid_key i) = None \<and> card (dom (mgr_map w)) < 100")
    case True
    then obtain h' where h': "insertSocket (ids w) (socks w) (Some h) (Some a) = (True, Some h')"
        "hm_inv (ids w) (socks w) h'" "hm_abs (ids w) h' = (hm_abs (ids w) h)(sid_key i \<mapsto> a)"
      using insertSocket_new [OF h(2) ok] h(3) key by (auto simp: HASH_MAP_DEFAULT_SIZE_def)
    then show ?thesis
      using r h True mgr_inv_new_table [OF inv h'(2)] by (auto simp: mgr_insertSocket_def)
  next
    case False
    then have "hm_abs (ids w) h (sid_key i) \<noteq> None \<or> card (dom (hm_abs (ids w) h)) = HASH_MAP_DEFAULT_SIZE"
      using h(3) hm_bounded [OF h(2)] by (auto simp: HASH_MAP_DEFAULT_SIZE_def)
    then show ?thesis
      using r h False insertSocket_refused [OF h(2) ok] key by (auto simp: mgr_insertSocket_def)
  qed
  then show "b \<longleftrightarrow> mgr_map w (sid_key i) = None \<and> card (dom (mgr_map w)) < 100"
    and "b \<Longrightarrow> mgr_inv w' \<and> mgr_map w' = (mgr_map w)(sid_key i \<mapsto> a)" and "\<not> b \<Longrightarrow> w' = w" by blast+
qed

lemma mgr_hashmapRemove_spec:
  assumes inv: "mgr_inv w" and k: "ids w k = Some i"
    and r: "mgr_hashmapRemove (Some k) w = (b, w')"
  shows "b \<longleftrightarrow> mgr_map w (sid_key i) \<noteq> None"
    and "mgr_inv w'" and "mgr_map w' = (mgr_map w)(sid_key i := None)"
    and "w' = w\<lparr>mgr_sockets := mgr_sockets w'\<rparr>"
proof -
  obtain h where h: "mgr_sockets w = Some h" "hm_inv (ids w) (socks w) h" "mgr_map w = hm_abs (ids w) h"
    using inv by (rule mgr_inv_table)
  have ok: "id_ok (ids w) k" using k mgr_invD(2) [OF inv k] by (simp add: id_ok_def)
  show "w' = w\<lparr>mgr_sockets := mgr_sockets w'\<rparr>"
    using r by (auto simp: mgr_hashmapRemove_def split: prod.splits)
  have "(b \<longleftrightarrow> mgr_map w (sid_key i) \<noteq> None) \<and> mgr_inv w' \<and> mgr_map w' = (mgr_map w)(sid_key i := None)"
  proof (cases "mgr_map w (sid_key i)")
    case None
    then show ?thesis
      using r h hashmapRemove_none [OF h(2) ok] k mgr_inv_new_table [OF inv h(2)]
      by (auto simp: mgr_hashmapRemove_def fun_upd_idem)
  next
    case (Some a)
    then obtain h' where h': "hashmapRemove (ids w) (socks w) (Some h) (Some k) = (True, Some h')"
        "hm_inv (ids w) (socks w) h'" "hm_abs (ids w) h' = (hm_abs (ids w) h)(sid_key i := None)"
      using hashmapRemove_some [OF h(2) ok] h(3) k by auto
    then show ?thesis
      using r h Some mgr_inv_new_table [OF inv h'(2)] by (auto simp: mgr_hashmapRemove_def)
  qed
  then show "b \<longleftrightarrow> mgr_map w (sid_key i) \<noteq> None" and "mgr_inv w'"
    and "mgr_map w' = (mgr_map w)(sid_key i := None)" by blast+
qed

section \<open>Steps that no registered socket sees\<close>

definition quiet :: "'s world \<Rightarrow> 's world \<Rightarrow> bool" where
  "quiet w w' \<longleftrightarrow> keeps w w' \<and> (\<forall>b. registered w b \<longrightarrow> socks w' b = socks w b)
     \<and> (\<forall>k. reg_id w k \<longrightarrow> ids w' k = ids w k)"

lemma quietD [inv_dest]:
  assumes "quiet w w'"
  shows "keeps w w'" "mgr_inv w'" "mgr_map w' = mgr_map w" "registered w' = registered w" "reg_id w' = reg_id w"
    "mgr_ip w' = mgr_ip w" "registered w b \<Longrightarrow> socks w' b = socks w b" "reg_id w k \<Longrightarrow> ids w' k = ids w k"
  using assms by (simp_all add: quiet_def keeps_def)

lemma quiet_trans [trans]: "quiet w w1 \<Longrightarrow> quiet w1 w2 \<Longrightarrow> quiet w w2"
  using keeps_trans [of w w1 w2] keepsD(3,4) [of w w1] by (simp add: quiet_def)

lemma quiet_same_heap: "mgr_inv w \<Longrightarrow> same_heap w w' \<Longrightarrow> quiet w w'"
  using same_heapD [of w w'] same_heap_keeps [of w w'] by (simp add: quiet_def)

lemma quiet_upd_id:
  "mgr_inv w \<Longrightarrow> \<not> reg_id w k \<Longrightarrow> (\<And>i. wf_sockid i \<Longrightarrow> wf_sockid (f i)) \<Longrightarrow> quiet w (upd_id k f w)"
  using keeps_upd_id [of w k f] by (auto simp: quiet_def)

lemma quiet_upd_sock:
  "mgr_inv w \<Longrightarrow> \<not> registered w a \<Longrightarrow> (\<And>s. socket_wf s \<Longrightarrow> socket_wf (f s)) \<Longrightarrow> quiet w (upd_sock a f w)"
  using keeps_upd_sock [of w a f] by (auto simp: quiet_def)

lemma quiet_free_id: "mgr_inv w \<Longrightarrow> \<not> reg_id w k \<Longrightarrow> quiet w (free_id k w)"
  using keeps_free_id [of w k] by (auto simp: quiet_def free_id_def)

lemma quiet_free_sock: "mgr_inv w \<Longrightarrow> \<not> registered w a \<Longrightarrow> quiet w (free_sock a w)"
  using keeps_free_sock [of w a] by (auto simp: quiet_def free_sock_def)

lemma quiet_destroy_socket:
  assumes "mgr_inv w" and "\<not> registered w a" and "\<And>k. sk_id (sock_at w a) = Some k \<Longrightarrow> \<not> reg_id w k"
  shows "quiet w (destroy_socket a w)"
proof (cases "sk_id (sock_at w a)")
  case None
  then show ?thesis using quiet_free_sock [OF assms(1,2)] by (simp add: destroy_socket_def)
next
  case (Some k)
  note K = quiet_free_id [OF assms(1) assms(3) [OF Some]]
  have "\<not> registered (free_id k w) a" using quietD(4) [OF K] assms(2) by simp
  from quiet_trans [OF K quiet_free_sock [OF quietD(2) [OF K] this]] Some
  show ?thesis by (simp add: destroy_socket_def destroy_socket_id_def)
qed

lemma quiet_copy_socket_id:
  assumes inv: "mgr_inv w" and i: "ids w k = Some i" and c: "copy_socket_id P k w = (r, w')"
  shows "quiet w w'"
proof -
  note C = copy_socket_id_keeps [OF inv i c]
  have "ids w' j = ids w j" if j: "reg_id w j" for j
  proof (cases r)
    case None
    then show ?thesis using C(3) same_procD(1) by metis
  next
    case (Some c')
    then show ?thesis using C(4) [OF Some] registered_heap(2) [OF inv j] by (metis option.distinct(1))
  qed
  then show ?thesis using C(1,2) by (simp add: quiet_def)
qed

lemma quiet_create_new_socket:
  assumes inv: "mgr_inv w" and c: "create_new_socket P w = (r, w')"
  shows "quiet w w'"
proof -
  note C = create_new_socket_keeps [OF inv c]
  have "socks w' b = socks w b" if b: "registered w b" for b
  proof (cases r)
    case (Some a)
    then show ?thesis using C(3) [OF Some] registered_heap(1) [OF inv b] by (metis option.distinct(1))
  qed (use C(4) in simp)
  then show ?thesis using C(1,2) by (simp add: quiet_def)
qed

text \<open>The table alone changes.\<close>

lemma keeps_only_table:
  "w' = w\<lparr>mgr_sockets := mgr_sockets w'\<rparr> \<Longrightarrow> ids w' = ids w \<and> socks w' = socks w \<and> next_addr w' = next_addr w"
  by (metis world.select_convs(2-4) world.surjective world.update_convs(6))

lemma wf_ip_strcpy_lib:
  assumes "wf_ip d" and "length x \<le> 16" and "NUL \<notin> set x"
  shows "strcpy_lib d x = Returns (x @ NUL # drop (length x + 1) d)"
    and "wf_ip (x @ NUL # drop (length x + 1) d)" and "cstr (x @ NUL # drop (length x + 1) d) = x"
  using assms by (auto simp: strcpy_lib_def wf_ip_def MAX_IP_LENGTH_def terminated_def)

end
