(* ===== verification/Cooperative_Os.thy ===== *)
theory Cooperative_Os imports Manager_Invariant Sim_Os begin

text \<open>
  What the code can rely on when the operating system refuses nothing: memory is there, FIFOs can be
  made and opened, and take every byte.  The theory shows what the operations that make objects and
  the two functions that tell a waiting client do then, and holds a concrete such system and a
  manager with one socket, on which the properties are instantiated.
\<close>

section \<open>A system that refuses nothing\<close>

text \<open>A system that does not run out of memory and makes every FIFO.\<close>

definition resourceful :: "'s posix \<Rightarrow> bool" where
  "resourceful P \<longleftrightarrow> (\<forall>n s. fst (px_malloc P n s) \<noteq> None) \<and> (\<forall>s. fst (px_new P s))
     \<and> (\<forall>n s. fst (px_mkfifo P n s) = 0)"

lemma resourceful_calls:
  assumes "resourceful P"
  shows "sys_malloc P n w = (m, w') \<Longrightarrow> \<exists>b. m = Some b" "sys_new P w = (a, w') \<Longrightarrow> a"
    "sys_mkfifo P nm w = (r, w') \<Longrightarrow> r = 0"
  using assms by (auto simp: resourceful_def sys_malloc_def sys_new_def sys_mkfifo_def split: prod.splits)
    (metis fst_conv)+

lemma resourceful_name:
  assumes P: "resourceful P" and c: "construct_full_fifo_name P prefix s w = (r, w')"
  shows "r = Some (fifo_path prefix s)"
proof -
  obtain m w1 where 1: "sys_malloc P (length s + length prefix + 1) w = (m, w1)" by fastforce
  obtain m' w2 where 2: "sys_malloc P (length (prefix @ s) + length FIFO_FOLDER_PATH_PREFIX + 1) w1 = (m', w2)"
    by fastforce
  from resourceful_calls(1) [OF P 1] resourceful_calls(1) [OF P 2] show ?thesis
    using c 1 2 by (auto simp: construct_full_fifo_name_def add_as_prefix_def add_folder_prefix_def fifo_path_def)
qed

lemma resourceful_socket_name:
  assumes P: "resourceful P" and c: "construct_full_socket_fifo_name P prefix (Some k) w = (r, w')"
  shows "r = Some (socket_fifo_path prefix (id_at w k))"
  using c by (auto simp: construct_full_socket_fifo_name_def Let_def socket_fifo_path_def dest: resourceful_name [OF P])

lemma resourceful_client_name:
  assumes P: "resourceful P" and c: "get_client_fifo_name P pid n w = (r, w')"
  shows "r = Some (fifo_path CLIENT_FIFO_PREFIX (fmt_d (sint pid) @ ''_'' @ fmt_d (sint n)))"
proof -
  obtain m w1 where m: "sys_malloc P MAX_SOCKET_STRING_REPR_SIZE w = (m, w1)" by fastforce
  obtain b where "m = Some b" using resourceful_calls(1) [OF P m] by blast
  then show ?thesis
    using c m resourceful_name [OF P, of CLIENT_FIFO_PREFIX _ w1 r w'] by (simp add: get_client_fifo_name_eq)
qed


lemma resourceful_create:
  assumes P: "resourceful P"
  shows "create_socket_end_fifos P (Some k) w = (r, w') \<Longrightarrow> r = 0"
    and "copy_socket_id P k w = (c, w') \<Longrightarrow> c \<noteq> None"
    and "create_new_socket P w = (a, w') \<Longrightarrow> a \<noteq> None"
proof -
  show "create_socket_end_fifos P (Some k) w = (r, w') \<Longrightarrow> r = 0"
  proof -
    assume c: "create_socket_end_fifos P (Some k) w = (r, w')"
    obtain rd w1 where 1: "get_end_fifo_read_end_name P (Some k) w = (rd, w1)" by fastforce
    obtain wr w2 where 2: "get_end_fifo_write_end_name P (Some k) w1 = (wr, w2)" by fastforce
    have "\<exists>x. rd = Some x" "\<exists>x. wr = Some x"
      using resourceful_socket_name [OF P 1 [unfolded socket_name_defs]]
        resourceful_socket_name [OF P 2 [unfolded socket_name_defs]] by blast+
    then obtain rn wn where n: "rd = Some rn" "wr = Some wn" by blast
    obtain r1 w3 where 3: "sys_mkfifo P rn w2 = (r1, w3)" by fastforce
    obtain r2 w4 where 4: "sys_mkfifo P wn w3 = (r2, w4)" by fastforce
    show "r = 0"
      using c 1 2 n 3 4 resourceful_calls(3) [OF P 3] resourceful_calls(3) [OF P 4]
      by (simp add: create_socket_end_fifos_def)
  qed
  show "copy_socket_id P k w = (c, w') \<Longrightarrow> c \<noteq> None"
  proof -
    assume c: "copy_socket_id P k w = (c, w')"
    obtain m w1 where m: "sys_malloc P 48 w = (m, w1)" by fastforce
    from resourceful_calls(1) [OF P m] show "c \<noteq> None"
      using c m by (auto simp: copy_socket_id_def new_id_def Let_def)
  qed
  show "create_new_socket P w = (a, w') \<Longrightarrow> a \<noteq> None"
  proof -
    assume c: "create_new_socket P w = (a, w')"
    obtain m w1 where 1: "sys_malloc P 112 w = (m, w1)" by fastforce
    obtain al w2 where 2: "sys_new P w1 = (al, w2)" by fastforce
    obtain rv w3 where 3: "sys_malloc P MAX_WINDOW_SIZE w2 = (rv, w3)" by fastforce
    obtain iv w4 where 4: "sys_malloc P MAX_WINDOW_SIZE w3 = (iv, w4)" by fastforce
    note A = resourceful_calls [OF P]
    have "\<exists>b. m = Some b" "al" "\<exists>b. rv = Some b" "\<exists>b. iv = Some b"
      using A(1) [OF 1] A(2) [OF 2] A(1) [OF 3] A(1) [OF 4] by blast+
    moreover have "\<exists>q. QueueCreate True = Some q" by (simp add: QueueCreate_def)
    ultimately show "a \<noteq> None"
      using c 1 2 3 4 by (auto simp: create_new_socket_def Let_def new_sock_def split: prod.splits)
  qed
qed

text \<open>Every FIFO can be opened and takes every byte.\<close>

definition fifos_open :: "'s posix \<Rightarrow> bool" where
  "fifos_open P \<longleftrightarrow> (\<forall>n m s. fst (px_open P n m s) \<noteq> - 1)
     \<and> (\<forall>fd bs s. fst (px_write P fd bs s) = int (length bs))"

lemma fifos_open_calls:
  assumes "fifos_open P"
  shows "sys_open P n m w = (fd, w') \<Longrightarrow> fd \<noteq> - 1" "sys_write P fd bs w = (r, w') \<Longrightarrow> r = int (length bs)"
  using assms by (auto simp: fifos_open_def sys_open_def sys_write_def split: prod.splits) (metis fst_conv)+

lemma socket_repr_unconnected:
  assumes "wf_sockid i" "wf_sockid j" "sid_key j = sid_key i"
  shows "socket_fifo_path prefix (unconnected j) = socket_fifo_path prefix (unconnected i)"
  using assms sid_key_unconnected [of i] sid_key_unconnected [of j]
  by (simp add: socket_fifo_path_def sid_key_def socket_repr_def)

lemma copy_socket_id_out:
  assumes "fifo_laws P out tgt" and "copy_socket_id P k w = (c, w')"
  shows "out (os w') = out (os w)"
proof -
  obtain m w1 where m: "sys_malloc P 48 w = (m, w1)" by fastforce
  show ?thesis
    using assms(2) m fifo_laws_simps(1) [OF assms(1) m]
    by (auto simp: copy_socket_id_def new_id_def Let_def split: option.splits)
qed

lemma full_write:
  assumes laws: "fifo_laws P out tgt" and P: "fifos_open P"
    and o: "sys_open P n m w = (fd, w1)" and wr: "sys_write P fd bs w1 = (r, w2)"
  shows "fd \<noteq> - 1" and "r = int (length bs)"
    and "out (os (sys_close P fd w2)) = (out (os w))(n := out (os w) n @ bs)"
    and "same_heap w (sys_close P fd w2)"
proof -
  show fd: "fd \<noteq> - 1" and r: "r = int (length bs)" using fifos_open_calls [OF P] o wr by blast+
  show "same_heap w (sys_close P fd w2)"
    using same_heap_trans [OF same_heap_trans [OF sys_same_heap(3) [OF o] sys_same_heap(5) [OF wr]] same_heap_close] .
  from laws wr show "out (os (sys_close P fd w2)) = (out (os w))(n := out (os w) n @ bs)"
  proof (cases rule: fifo_laws_write)
    case 1
    then show ?thesis using r by simp
  next
    case (2 m)
    then show ?thesis
      using r fd fifo_laws_simps(3-5) [OF laws] fifo_laws_simps(4,5) [OF laws o] by simp
  qed
qed

lemma notify_accept_client_succeeds:
  assumes inv: "mgr_inv w" and s: "socks w a = Some s" "sk_id s = Some k" "ids w k = Some i"
    and P: "resourceful P" "fifos_open P" "fifo_laws P out tgt"
    and n: "notify_accept_client P a w = (r, w')"
  shows "r = 0" and "out (os w') =
    (let path = socket_fifo_path ACCEPT_SOCKET_READ_FIFO_PREFIX (unconnected i) in
     (out (os w))(path := out (os w) path @ cstr (dst_ip i) @ ''_'' @ fmt_d (sint (dst_port i)) @ [NUL]))"
proof -
  obtain c w1 where 1: "copy_socket_id P k w = (c, w1)" by fastforce
  obtain c' where c: "c = Some c'" using resourceful_create(2) [OF P(1) 1] by blast
  obtain j where j: "ids w1 c' = Some j" "wf_sockid j" "sid_key j = sid_key i" "ids w c' = None"
      "\<forall>x. x \<noteq> c' \<longrightarrow> ids w1 x = ids w x"
    using copy_socket_id_keeps(4) [OF inv s(3) 1 c] by metis
  define w2 where "w2 = upd_id c' unconnected w1"
  obtain nm w3 where 3: "get_accept_fifo_write_end_name P (Some c') w2 = (nm, w3)" by fastforce
  have id2: "id_at w2 c' = unconnected j" using j(1) by (simp add: w2_def id_at_def)
  have path: "nm = Some (socket_fifo_path ACCEPT_SOCKET_READ_FIFO_PREFIX (unconnected i))"
    using resourceful_socket_name [OF P(1) 3 [unfolded socket_name_defs]] id2
      socket_repr_unconnected [OF mgr_invD(2) [OF inv s(3)] j(2,3)] by simp
  have wf2: "wf_sockid (id_at w2 c')" using id2 wf_unconnected [OF j(2)] by simp
  note h3 = fifo_name_heap(3) [OF 3]
  have out3: "out (os w3) = out (os w)"
    using construct_full_socket_fifo_name_spec(3) [OF 3 [unfolded socket_name_defs] wf2 P(3)]
      copy_socket_id_out [OF P(3) 1] by (simp add: w2_def)
  have "k \<noteq> c'" using s(3) j(4) by auto
  then have k3: "id_at w3 (the (sk_id (sock_at w3 a))) = i"
    using same_heapD(1,2) [OF h3] s j(5) copy_socket_id_keeps(2) [OF inv s(3) 1]
    by (simp add: id_at_def sock_at_def w2_def)
  let ?path = "socket_fifo_path ACCEPT_SOCKET_READ_FIFO_PREFIX (unconnected i)"
  let ?bs = "(cstr (dst_ip i) @ ''_'' @ fmt_d (sint (dst_port i))) @ [NUL]"
  obtain fd w4 where 4: "sys_open P ?path O_WRONLY_NONBLOCK w3 = (fd, w4)" by fastforce
  obtain wr w5 where 5: "sys_write P fd ?bs w4 = (wr, w5)" by fastforce
  note F = full_write [OF P(3,2) 4 5]
  have "r = 0 \<and> w' = free_id c' (sys_close P fd w5)"
    using n 1 c 3 path k3 4 5 F(1,2) s(1,2)
    by (simp add: notify_accept_client_def w2_def [symmetric] sock_at_def Let_def)
  then show "r = 0" and "out (os w') = (let path = ?path in
     (out (os w))(path := out (os w) path @ cstr (dst_ip i) @ ''_'' @ fmt_d (sint (dst_port i)) @ [NUL]))"
    using F(3) out3 by (simp_all add: Let_def free_id_def)
qed

lemma create_socket_end_fifos_out:
  assumes "fifo_laws P out tgt" and "\<And>n s. out (snd (px_mkfifo P n s)) = out s"
    and "resourceful P" and "create_socket_end_fifos P (Some k) w = (r, w')" and wf: "wf_sockid (id_at w k)"
  shows "out (os w') = out (os w)"
proof -
  have mk: "out (os w2) = out (os w1)" if "sys_mkfifo P n w1 = (x, w2)" for n w1 w2 x
    using that assms(2) by (auto simp: sys_mkfifo_def split: prod.splits) (metis snd_conv)
  obtain rd w1 where 1: "get_end_fifo_read_end_name P (Some k) w = (rd, w1)" by fastforce
  obtain wr w2 where 2: "get_end_fifo_write_end_name P (Some k) w1 = (wr, w2)" by fastforce
  have wf1: "wf_sockid (id_at w1 k)" using wf same_heapD(6) [OF fifo_name_heap(7) [OF 1]] by simp
  obtain rn wn where n: "rd = Some rn" "wr = Some wn"
    using resourceful_socket_name [OF assms(3) 1 [unfolded socket_name_defs]]
      resourceful_socket_name [OF assms(3) 2 [unfolded socket_name_defs]] by blast
  obtain r1 w3 where 3: "sys_mkfifo P rn w2 = (r1, w3)" by fastforce
  obtain r2 w4 where 4: "sys_mkfifo P wn w3 = (r2, w4)" by fastforce
  have "w' = w4"
    using assms(4) 1 2 n 3 4 resourceful_calls(3) [OF assms(3) 3] resourceful_calls(3) [OF assms(3) 4]
    by (simp add: create_socket_end_fifos_def)
  then show ?thesis
    using mk [OF 3] mk [OF 4] construct_full_socket_fifo_name_spec(3) [OF 1 [unfolded socket_name_defs] wf assms(1)]
      construct_full_socket_fifo_name_spec(3) [OF 2 [unfolded socket_name_defs] wf1 assms(1)] by simp
qed

lemma notify_connect_client_succeeds:
  assumes inv: "mgr_inv w" and s: "socks w a = Some s" "sk_id s = Some k" "ids w k = Some i"
    and P: "resourceful P" "fifos_open P" "fifo_laws P out tgt" "\<And>n s. out (snd (px_mkfifo P n s)) = out s"
    and n: "notify_connect_client P a w = (r, w')"
  shows "r = 0" and "out (os w') =
    (let path = socket_fifo_path CONNECT_SOCKET_READ_FIFO_PREFIX (unconnected i) in
     (out (os w))(path := out (os w) path @ [REQUEST_GRANTED_FIFO]))"
proof -
  have wfi: "wf_sockid (id_at w k)" using mgr_invD(2) [OF inv s(3)] s(3) by (simp add: id_at_def)
  obtain r0 w0 where 0: "create_socket_end_fifos P (Some k) w = (r0, w0)" by fastforce
  note h0 = create_socket_end_fifos_heap [OF 0]
  have s0: "socks w0 a = Some s" "ids w0 k = Some i" using s same_heapD [OF h0] by simp_all
  have inv0: "mgr_inv w0" using keepsD(1) [OF same_heap_keeps [OF inv h0]] .
  obtain c w1 where 1: "copy_socket_id P k w0 = (c, w1)" by fastforce
  obtain c' where c: "c = Some c'" using resourceful_create(2) [OF P(1) 1] by blast
  obtain j where j: "ids w1 c' = Some j" "wf_sockid j" "sid_key j = sid_key i"
    using copy_socket_id_keeps(4) [OF inv0 s0(2) 1 c] by metis
  define w2 where "w2 = upd_id c' unconnected w1"
  obtain nm w3 where 3: "get_connect_fifo_read_end_name P (Some c') w2 = (nm, w3)" by fastforce
  have id2: "id_at w2 c' = unconnected j" using j(1) by (simp add: w2_def id_at_def)
  have path: "nm = Some (socket_fifo_path CONNECT_SOCKET_READ_FIFO_PREFIX (unconnected i))"
    using resourceful_socket_name [OF P(1) 3 [unfolded socket_name_defs]] id2
      socket_repr_unconnected [OF mgr_invD(2) [OF inv s(3)] j(2,3)] by simp
  have wf2: "wf_sockid (id_at w2 c')" using id2 wf_unconnected [OF j(2)] by simp
  have out3: "out (os w3) = out (os w)"
    using construct_full_socket_fifo_name_spec(3) [OF 3 [unfolded socket_name_defs] wf2 P(3)]
      copy_socket_id_out [OF P(3) 1] create_socket_end_fifos_out [OF P(3,4,1) 0 wfi] by (simp add: w2_def)
  let ?path = "socket_fifo_path CONNECT_SOCKET_READ_FIFO_PREFIX (unconnected i)"
  obtain fd w4 where 4: "sys_open P ?path O_RDWR w3 = (fd, w4)" by fastforce
  obtain wr w5 where 5: "sys_write P fd [REQUEST_GRANTED_FIFO] w4 = (wr, w5)" by fastforce
  note F = full_write [OF P(3,2) 4 5]
  have "write_char_to_fifo_name P nm REQUEST_GRANTED_FIFO w3 = (0, sys_close P fd w5)"
    using path 4 5 F(1,2) by (simp add: write_char_to_fifo_name_def)
  then have "r = 0 \<and> w' = free_id c' (sys_close P fd w5)"
    using n 0 1 c 3 path s(1,2) s0(1) resourceful_create(1) [OF P(1) 0]
    by (simp add: notify_connect_client_def w2_def [symmetric] sock_at_def Let_def)
  then show "r = 0" and "out (os w') = (let path = ?path in
     (out (os w))(path := out (os w) path @ [REQUEST_GRANTED_FIFO]))"
    using F(3) out3 by (simp_all add: Let_def free_id_def)
qed

section \<open>A manager with one socket\<close>

definition example_manager :: "TCPState \<Rightarrow> sim world" where
  "example_manager st =
     snd (mgr_insertSocket (Some 2) (upd_sock 2 (\<lambda>s. s\<lparr>sk_state := st\<rparr>) example_world))"

definition example_key :: sock_key where
  "example_key = (replicate 16 (CHR ''1''), 80, replicate 16 (CHR ''2''), 9)"

lemma cstr_ip_cells: "c \<noteq> NUL \<Longrightarrow> cstr (ip_cells c) = replicate 16 c"
  by (simp add: cstr_def ip_cells_def takeWhile_append)

lemma QueueCreate_True: "\<exists>q. QueueCreate True = Some q \<and> queue_inv q"
proof -
  obtain q where "QueueCreate True = Some q" by (auto simp: QueueCreate_def)
  then show ?thesis using QueueCreate_empty by blast
qed

lemma socket_wf_example: "socket_wf (example_socket k)"
  using QueueCreate_True by (simp add: socket_wf_def wf_windows_def example_socket_def)

lemma mgr_inv_example_world: "mgr_inv example_world" "mgr_map example_world = Map.empty"
proof -
  have tab: "mgr_sockets example_world = Some empty_table"
    by (simp add: example_world_def sim_world_def empty_table_def createHashMap_def)
  have h: "ids example_world = example_ids" "socks example_world = example_socks" "next_addr example_world = 4"
    "mgr_ip example_world = replicate 16 (CHR ''1'')"
    by (simp_all add: example_world_def sim_world_def)
  have ids: "wf_sockid i" if "example_ids k = Some i" for k i
    using that by (auto simp: example_ids_def wf_sockid_def wf_ip_cells split: if_splits)
  have sk: "socket_wf s" if "example_socks k = Some s" for k s
    using that socket_wf_example by (auto simp: example_socks_def split: if_splits)
  have "heap_ok example_world"
    unfolding heap_ok_def h by (auto simp: example_ids_def example_socks_def split: if_splits)
  then show "mgr_inv example_world" "mgr_map example_world = Map.empty"
    using tab h ids sk empty_table by (auto simp: mgr_inv_def mgr_map_def MAX_IP_LENGTH_def)
qed

lemma example_manager:
  shows "mgr_inv (example_manager st)" and "registered (example_manager st) 2"
    and "socks (example_manager st) 2 = Some ((example_socket 0)\<lparr>sk_state := st\<rparr>)"
    and "mgr_map (example_manager st) = [example_key \<mapsto> 2]" and "ids (example_manager st) = example_ids"
proof -
  let ?w = "upd_sock 2 (\<lambda>s. s\<lparr>sk_state := st\<rparr>) example_world"
  have K: "keeps example_world ?w"
    by (rule keeps_upd_sock [OF mgr_inv_example_world(1)]) (simp_all add: socket_wf_def wf_windows_def)
  have s: "socks ?w 2 = Some ((example_socket 0)\<lparr>sk_state := st\<rparr>)" "sk_id ((example_socket 0)\<lparr>sk_state := st\<rparr>) = Some 0"
    by (simp_all add: example_world_def sim_world_def example_socks_def example_socket_def)
  obtain i where i: "ids ?w 0 = Some i" "sid_key i = example_key"
    by (simp add: example_world_def sim_world_def example_ids_def sid_key_def cstr_ip_cells example_key_def)
  obtain b w' where r: "mgr_insertSocket (Some 2) ?w = (b, w')" by fastforce
  note I = mgr_insertSocket_spec [OF keepsD(1) [OF K] s i(1) r]
  have m: "mgr_map ?w = Map.empty" using keepsD(2) [OF K] mgr_inv_example_world(2) by simp
  have b: b using I(1) m by simp
  have e: "example_manager st = w'" using r by (simp add: example_manager_def)
  show inv: "mgr_inv (example_manager st)" and map: "mgr_map (example_manager st) = [example_key \<mapsto> 2]"
    using I(2) [OF b] m i(2) e by simp_all
  show "registered (example_manager st) 2"
    using mgr_map_registered [OF inv, of example_key] map by simp
  show "socks (example_manager st) 2 = Some ((example_socket 0)\<lparr>sk_state := st\<rparr>)"
    and "ids (example_manager st) = example_ids"
    using keeps_only_table [OF I(4)] s e by (simp_all add: example_world_def sim_world_def)
qed

text \<open>A system where every FIFO exists and takes every byte.\<close>

definition kind_posix :: "sim posix" where
  "kind_posix = open_posix\<lparr>px_mkfifo := \<lambda>n s. (0, s),
     px_write := \<lambda>fd bs s. (int (length bs), s\<lparr>sim_log := sim_log s @ [(sim_tgt s fd, bs)]\<rparr>)\<rparr>"

lemma kind_posix: "resourceful kind_posix" "fifos_open kind_posix" "fifo_laws kind_posix sim_out sim_tgt"
  "sim_out (snd (px_mkfifo kind_posix n s)) = sim_out s"
  by (simp_all add: resourceful_def kind_posix_def open_posix_def sim_posix_def)
    (auto simp: fifos_open_def fifo_laws_def kind_posix_def open_posix_def sim_posix_def
      sim_out_def sim_tgt_def)

lemma example_manager_id:
  "ids (example_manager st) 0 = Some (the (example_ids 0))" "id_at (example_manager st) 0 = the (example_ids 0)"
  "sid_key (the (example_ids 0)) = example_key" "dst_port (the (example_ids 0)) = 9"
  using example_manager(5) [of st]
  by (simp_all add: example_ids_def id_at_def sid_key_def example_key_def cstr_ip_cells)

text \<open>A segment from the peer of the example socket.\<close>

definition example_packet :: "8 word \<Rightarrow> c_int \<Rightarrow> TCPPacket" where
  "example_packet f n = \<lparr>tcp_src_port = 9, tcp_dst_port = 80, tcp_seq_num = 500, tcp_ack_num = n,
     tcp_flags = f, tcp_checksum = 0, tcp_data = None\<rparr>"

end
