(* ===== verification/Connection_States.thy ===== *)
theory Connection_States imports Cooperative_Os begin

text \<open>
  The connection state machine: which state a segment may lead to, for every handler of
  src/packet_handlers.c, and that handling a segment keeps the invariant of the manager and touches
  no other socket.  A segment for a listening socket may add one connection to the table.
\<close>

section \<open>The transitions\<close>

text \<open>
  The states a segment may leave a socket in.  Two states are given where the outcome depends on
  whether the waiting client could be told.
\<close>

definition acks_fin :: "TCPPacket \<Rightarrow> socket \<Rightarrow> bool" where
  "acks_fin p s \<longleftrightarrow> has_flag p ACK \<and> sint (tcp_ack_num p) > sint (seq_of_first_send_window s)"

definition packet_next :: "TCPPacket \<Rightarrow> socket \<Rightarrow> TCPState set" where
  "packet_next p s =
     (case sk_state s of
        SYN_SENT \<Rightarrow> if has_flag p SYN \<and> has_flag p ACK \<and> tcp_ack_num p = seq_of_first_send_window s
                    then {SYN_SENT, ESTABLISED} else {SYN_SENT}
      | SYN_RECEIVED \<Rightarrow> if has_flag p ACK \<and> tcp_ack_num p = seq_of_first_send_window s
                        then {SYN_RECEIVED, ESTABLISED} else {SYN_RECEIVED}
      | ESTABLISED \<Rightarrow> if has_flag p FIN \<and> \<not> has_flag p SYN then {CLOSE_WAIT} else {ESTABLISED}
      | LAST_ACK \<Rightarrow> if acks_fin p s then {CLOSED} else {LAST_ACK}
      | FIN_WAIT_1 \<Rightarrow> if has_flag p FIN then (if acks_fin p s then {TIME_WAIT} else {CLOSING})
                      else if acks_fin p s then {FIN_WAIT_2} else {FIN_WAIT_1}
      | FIN_WAIT_2 \<Rightarrow> if has_flag p FIN then {TIME_WAIT} else {FIN_WAIT_2}
      | CLOSING \<Rightarrow> if acks_fin p s then {TIME_WAIT} else {CLOSING}
      | st \<Rightarrow> {st})"

definition packet_step :: "TCPPacket \<Rightarrow> socket \<Rightarrow> socket \<Rightarrow> bool" where
  "packet_step p s s' \<longleftrightarrow> kept s s' \<and> sk_state s' \<in> packet_next p s"

section \<open>The handlers\<close>

lemma syn_sent_step:
  assumes inv: "mgr_inv w" and reg: "registered w a" and s: "socks w a = Some s" "sk_state s = SYN_SENT"
    and h: "handle_packet_syn_sent P a p w = (r, w')"
  shows "only_socket a (packet_step p) w w'"
proof -
  have sa: "sock_at w a = s" using s by (simp add: sock_at_def)
  have stay: "only_socket a (packet_step p) w w1" if "same_heap w w1" for w1
    using that s by (intro only_socket_same) (auto simp: packet_step_def packet_next_def)
  obtain r1 w1 where n: "notify_connect_client P a w = (r1, w1)" by fastforce
  note h1 = notify_connect_client_heap [OF inv reg n]
  let ?f = "\<lambda>s. s\<lparr>seq_of_first_recv_window := tcp_seq_num p + 1, sk_state := ESTABLISED\<rparr>"
  consider "w' = w" | "w' = w1"
    | "has_flag p SYN" "has_flag p ACK" "tcp_ack_num p = seq_of_first_send_window s" "w' = upd_sock a ?f w1"
    using h n sa by (auto simp: handle_packet_syn_sent_def split: if_splits)
  then show ?thesis
  proof cases
    case 3
    have "only_socket a (packet_step p) w1 (upd_sock a ?f w1)"
      using s 3 same_heapD(2) [OF h1]
      by (intro only_socket_upd [of _ _ s])
        (auto simp: packet_step_def packet_next_def kept_def socket_wf_def wf_windows_def)
    then show ?thesis using only_socket_heap(2) [OF h1] 3(4) by simp
  qed (use stay h1 in simp_all)
qed

lemma syn_received_step:
  assumes inv: "mgr_inv w" and reg: "registered w a" and s: "socks w a = Some s" "sk_state s = SYN_RECEIVED"
    and h: "handle_packet_syn_received P a p w = (r, w')"
  shows "only_socket a (packet_step p) w w'"
proof -
  have sa: "sock_at w a = s" using s by (simp add: sock_at_def)
  have stay: "only_socket a (packet_step p) w w1" if "same_heap w w1" for w1
    using that s by (intro only_socket_same) (auto simp: packet_step_def packet_next_def)
  obtain r1 w1 where n: "notify_accept_client P a w = (r1, w1)" by fastforce
  note h1 = notify_accept_client_heap [OF inv reg n]
  let ?f = "\<lambda>s. s\<lparr>sk_state := ESTABLISED\<rparr>"
  consider "w' = w" | "w' = w1"
    | "has_flag p ACK" "tcp_ack_num p = seq_of_first_send_window s" "w' = upd_sock a ?f w1"
    using h n sa by (auto simp: handle_packet_syn_received_def split: if_splits)
  then show ?thesis
  proof cases
    case 3
    have "only_socket a (packet_step p) w1 (upd_sock a ?f w1)"
      using s 3 same_heapD(2) [OF h1]
      by (intro only_socket_upd [of _ _ s])
        (auto simp: packet_step_def packet_next_def kept_def socket_wf_def wf_windows_def)
    then show ?thesis using only_socket_heap(2) [OF h1] 3(3) by simp
  qed (use stay h1 in simp_all)
qed

lemma established_step:
  assumes inv: "mgr_inv w" and s: "socks w a = Some s" "sk_state s = ESTABLISED"
    and h: "handle_packet_established P a p w = (r, w')"
  shows "only_socket a (packet_step p) w w'"
proof -
  have sa: "sock_at w a = s" and wf: "socket_wf s"
    using s mgr_invD(3) [OF inv] by (auto simp: sock_at_def)
  define w1 where "w1 = (if has_flag p ACK then upd_sock a (ack_slide (tcp_ack_num p)) w else w)"
  have sw: "send_window s \<noteq> None" using wf by (auto simp: socket_wf_def)
  have o1: "only_socket a (\<lambda>s s'. kept s s' \<and> sk_state s' = sk_state s) w w1"
    unfolding w1_def using s ack_slide_kept [OF wf] by (auto intro: only_socket_upd only_socket_same)
  let ?f = "\<lambda>s. s\<lparr>sk_state := CLOSE_WAIT, seq_of_first_recv_window := tcp_seq_num p + 1,
                 seq_of_first_send_window :=
                   seq_of_first_send_window s + word_of_int (QueueSize (send_window s))\<rparr>"
  consider "has_flag p SYN" "w' = w" | "\<not> has_flag p SYN" "has_flag p FIN" "w' = upd_sock a ?f w"
    | "\<not> has_flag p SYN" "\<not> has_flag p FIN" "w' = w1"
    | "\<not> has_flag p SYN" "\<not> has_flag p FIN"
        "construct_packet P a [] ACK (tcp_src_port p) (receiveNewData P a p w1) = (r, w')"
    using h sa sw by (auto simp: handle_packet_established_def w1_def Let_def split: if_splits)
  then show ?thesis
  proof cases
    case 1
    then show ?thesis using s by (auto simp: packet_step_def packet_next_def intro: only_socket_same)
  next
    case 2
    then show ?thesis
      using s by (auto simp: packet_step_def packet_next_def kept_def socket_wf_def wf_windows_def
          intro!: only_socket_upd)
  next
    case 3
    then show ?thesis
      using o1 s by (auto simp: packet_step_def packet_next_def elim!: only_socket_weaken)
  next
    case 4
    obtain s1 where s1: "socks w1 a = Some s1" "kept s s1" using o1 s by (auto simp: only_socket_def)
    then have wf1: "socket_wf s1" using wf by (simp add: kept_def)
    have "only_socket a (\<lambda>s s'. kept s s' \<and> sk_state s' = sk_state s) w (receiveNewData P a p w1)"
      by (rule only_socket_then [OF o1 receiveNewData_only [OF s1(1) wf1]]) (auto intro: kept_trans)
    from only_socket_heap(1) [OF this construct_packet_heap [OF 4(3)]]
    show ?thesis
      using 4 s by (auto simp: packet_step_def packet_next_def elim!: only_socket_weaken)
  qed
qed

lemma fin_wait_1_step:
  assumes s: "socks w a = Some s" "sk_state s = FIN_WAIT_1"
    and h: "handle_packet_fin_wait_1 P a p w = (r, w')"
  shows "only_socket a (packet_step p) w w'"
proof -
  have sa: "sock_at w a = s" using s by (simp add: sock_at_def)
  define b where "b = acks_fin p s"
  define w1 where "w1 = (if b then upd_sock a (\<lambda>s. s\<lparr>sk_state := FIN_WAIT_2\<rparr>) w else w)"
  show ?thesis
  proof (cases "has_flag p FIN")
    case False
    then have "w' = w1"
      using h sa by (auto simp: handle_packet_fin_wait_1_def w1_def b_def acks_fin_def Let_def)
    then show ?thesis
      using False s unfolding w1_def b_def
      by (auto simp: packet_step_def packet_next_def kept_def socket_wf_def wf_windows_def
          intro!: only_socket_upd only_socket_same)
  next
    case True
    let ?f = "\<lambda>s. s\<lparr>seq_of_first_recv_window := tcp_seq_num p + 1, sk_state := CLOSING\<rparr>"
    obtain t w3 where t: "sys_clock P (upd_sock a ?f w1) = (t, w3)" by fastforce
    let ?w4 = "upd_sock a (\<lambda>s. s\<lparr>time_since_fin_sent := t\<rparr>) w3"
    obtain t' w5 where t': "sys_clock P ?w4 = (t', w5)" by fastforce
    note h3 = same_heapD [OF sys_same_heap(10) [OF t]] and h5 = same_heapD [OF sys_same_heap(10) [OF t']]
    have "w' = (if b then upd_sock a (\<lambda>s. s\<lparr>last_send_clock := t', sk_state := TIME_WAIT\<rparr>) w5 else ?w4)"
      using h True sa t t' by (auto simp: handle_packet_fin_wait_1_def w1_def b_def acks_fin_def Let_def)
    then show ?thesis
      using True s h3 h5
      by (auto simp: only_socket_def packet_step_def packet_next_def kept_def socket_wf_def wf_windows_def
          w1_def b_def)
  qed
qed

lemma closing_step:
  assumes s: "socks w a = Some s" "sk_state s = CLOSING"
    and h: "handle_packet_closing P a p w = (r, w')"
  shows "only_socket a (packet_step p) w w'"
proof -
  obtain t w1 where t: "sys_clock P w = (t, w1)" by fastforce
  show ?thesis
    using h s t same_heapD [OF sys_same_heap(10) [OF t]] sock_at_Some [OF s(1)]
    by (auto simp: handle_packet_closing_def only_socket_def packet_step_def packet_next_def kept_def
        socket_wf_def wf_windows_def acks_fin_def split: if_splits)
qed

lemma last_ack_step:
  assumes s: "socks w a = Some s" "sk_state s = LAST_ACK"
    and h: "handle_packet_last_ack a p w = (r, w')"
  shows "only_socket a (packet_step p) w w'"
  using h s sock_at_Some [OF s(1)]
  by (auto simp: handle_packet_last_ack_def only_socket_def packet_step_def packet_next_def kept_def
      socket_wf_def wf_windows_def acks_fin_def split: if_splits)

lemma fin_wait_2_step:
  assumes s: "socks w a = Some s" "sk_state s = FIN_WAIT_2"
    and h: "handle_packet_fin_wait_2 P a p w = (r, w')"
  shows "only_socket a (packet_step p) w w'"
proof (cases "has_flag p FIN")
  case True
  let ?f = "\<lambda>s. s\<lparr>sk_state := TIME_WAIT, seq_of_first_recv_window := tcp_seq_num p + 1\<rparr>"
  have "construct_packet P a [] ACK (tcp_src_port p) (upd_sock a ?f w) = (r, w')"
    using h True by (simp add: handle_packet_fin_wait_2_def)
  moreover have "only_socket a (packet_step p) w (upd_sock a ?f w)"
    using s True by (intro only_socket_upd [of _ _ s])
      (auto simp: packet_step_def packet_next_def kept_def socket_wf_def wf_windows_def)
  ultimately show ?thesis using only_socket_heap(1) construct_packet_heap by blast
next
  case False
  then show ?thesis
    using h s by (auto simp: handle_packet_fin_wait_2_def packet_step_def packet_next_def intro: only_socket_same)
qed

text \<open>Every state but \<open>LISTEN\<close>: a segment from the peer, a segment from elsewhere, a reset.\<close>

lemma handle_packet_step:
  assumes inv: "mgr_inv w" and reg: "registered w a" and s: "socks w a = Some s" "sk_state s \<noteq> LISTEN"
    and h: "handle_packet P a p from_ip w = (r, w')"
  shows "only_socket a (\<lambda>s s'. kept s s' \<and> sk_state s' \<in> (if has_flag p RST then {CLOSED}
      else if tcp_src_port p \<noteq> dst_port (id_at w (the (sk_id s))) then {sk_state s} else packet_next p s)) w w'"
proof -
  have sa: "sock_at w a = s" using s by (simp add: sock_at_def)
  consider (rst) "has_flag p RST" | (other) "\<not> has_flag p RST" "tcp_src_port p \<noteq> dst_port (id_at w (the (sk_id s)))"
    | (peer) "\<not> has_flag p RST" "tcp_src_port p = dst_port (id_at w (the (sk_id s)))" by blast
  then show ?thesis
  proof cases
    case rst
    then show ?thesis
      using h s sa by (auto simp: handle_packet_def Let_def kept_def socket_wf_def wf_windows_def
          intro!: only_socket_upd)
  next
    case other
    then show ?thesis
      using h s sa by (auto simp: handle_packet_def Let_def intro!: only_socket_same)
  next
    case peer
    have "only_socket a (packet_step p) w w'"
    proof (cases "sk_state s")
      case SYN_SENT
      then show ?thesis
        using h s sa peer syn_sent_step [OF inv reg s(1) SYN_SENT] by (auto simp: handle_packet_def Let_def)
    next
      case SYN_RECEIVED
      then show ?thesis
        using h s sa peer syn_received_step [OF inv reg s(1) SYN_RECEIVED] by (auto simp: handle_packet_def Let_def)
    next
      case ESTABLISED
      then show ?thesis
        using h s sa peer established_step [OF inv s(1) ESTABLISED] by (auto simp: handle_packet_def Let_def)
    next
      case LAST_ACK
      then show ?thesis
        using h s sa peer last_ack_step [OF s(1) LAST_ACK] by (auto simp: handle_packet_def Let_def)
    next
      case FIN_WAIT_1
      then show ?thesis
        using h s sa peer fin_wait_1_step [OF s(1) FIN_WAIT_1] by (auto simp: handle_packet_def Let_def)
    next
      case FIN_WAIT_2
      then show ?thesis
        using h s sa peer fin_wait_2_step [OF s(1) FIN_WAIT_2] by (auto simp: handle_packet_def Let_def)
    next
      case CLOSING
      then show ?thesis
        using h s sa peer closing_step [OF s(1) CLOSING] by (auto simp: handle_packet_def Let_def)
    qed (use h s sa peer in \<open>auto simp: handle_packet_def handle_packet_closed_def handle_packet_close_wait_def
        handle_packet_time_wait_def Let_def packet_step_def packet_next_def intro!: only_socket_same\<close>)
    then show ?thesis
      using peer by (auto simp: packet_step_def s elim!: only_socket_weaken)
  qed
qed

section \<open>A segment for a listening socket\<close>

text \<open>
  The new connection: in state \<open>SYN_RECEIVED\<close>, under the endpoints of the listener and of the
  caller, waiting for the byte behind the caller's SYN.
\<close>

definition accepts_connection :: "addr \<Rightarrow> TCPPacket \<Rightarrow> char list \<Rightarrow> 's world \<Rightarrow> 's world \<Rightarrow> bool" where
  "accepts_connection a p from_ip w w' \<longleftrightarrow>
     (\<exists>n s k i j. mgr_inv w' \<and> ids w (the (sk_id (sock_at w a))) = Some i
        \<and> sid_key j = (cstr (src_ip i), src_port i, cstr from_ip, tcp_src_port p)
        \<and> mgr_map w (sid_key j) = None \<and> mgr_map w' = (mgr_map w)(sid_key j \<mapsto> n)
        \<and> \<not> registered w n \<and> socks w' n = Some s \<and> sk_state s = SYN_RECEIVED
        \<and> ids w k = None \<and> sk_id s = Some k \<and> ids w' k = Some j
        \<and> seq_of_first_recv_window s = tcp_seq_num p + 1
        \<and> socks w' a = map_option (\<lambda>s. s\<lparr>max_connections := max_connections s - 1\<rparr>) (socks w a)
        \<and> (\<forall>b. registered w b \<longrightarrow> b \<noteq> a \<longrightarrow> socks w' b = socks w b)
        \<and> (\<forall>k. reg_id w k \<longrightarrow> ids w' k = ids w k)
        \<and> has_flag p SYN \<and> max_connections (sock_at w a) \<noteq> 0)"

text \<open>A new socket under a new identifier goes into the table or is destroyed.\<close>

lemma connection_registered:
  assumes q: "quiet w w3" and c: "ids w3 c = Some j" "\<not> reg_id w3 c"
    and n: "socks w3 n = Some t" "socket_wf t" "sk_id t = None" "\<not> registered w3 n"
    and f: "create_socket_end_fifos P (Some c) w3 = (r4, w4)"
    and upd: "same_heap (upd_sock n (\<lambda>s. s\<lparr>sk_id := Some c\<rparr>) w4) w6"
    and g: "\<And>s. socket_wf s \<longrightarrow> socket_wf (g s) \<and> sk_id (g s) = sk_id s"
    and ins: "mgr_insertSocket (Some n) (upd_sock n g w6) = (b, w8)"
  shows "quiet w (destroy_socket_id (Some c) (destroy_socket n w4))"
    and "\<not> b \<Longrightarrow> quiet w (destroy_socket n (unlink_socket_fifos P n w8))"
    and "b \<Longrightarrow> mgr_inv w8 \<and> mgr_map w (sid_key j) = None \<and> mgr_map w8 = (mgr_map w)(sid_key j \<mapsto> n)
      \<and> socks w8 n = Some (g (t\<lparr>sk_id := Some c\<rparr>)) \<and> sk_id (g (t\<lparr>sk_id := Some c\<rparr>)) = Some c \<and> ids w8 c = Some j
      \<and> (\<forall>b. registered w b \<longrightarrow> socks w8 b = socks w b) \<and> (\<forall>k. reg_id w k \<longrightarrow> ids w8 k = ids w k)
      \<and> \<not> registered w n"
    and "mgr_map w (sid_key j) = None \<Longrightarrow> card (dom (mgr_map w)) < 100 \<Longrightarrow> b"
proof -
  note h4 = create_socket_end_fifos_heap [OF f]
  note q4 = quiet_trans [OF q quiet_same_heap [OF quietD(2) [OF q] h4]]
  have c4: "\<not> reg_id w4 c" and n4: "\<not> registered w4 n" and s4: "socks w4 n = Some t"
    using c n quietD(4,5) [OF q] quietD(4,5) [OF q4] same_heapD(2) [OF h4] by simp_all
  have "quiet w4 (destroy_socket n w4)"
    using n(3) s4 by (intro quiet_destroy_socket [OF quietD(2) [OF q4] n4]) (simp add: sock_at_def)
  note qd = quiet_trans [OF q4 this]
  show "quiet w (destroy_socket_id (Some c) (destroy_socket n w4))"
    using quiet_trans [OF qd quiet_free_id [OF quietD(2) [OF qd]]] c4 quietD(5) [OF qd] quietD(5) [OF q4]
    by (simp add: destroy_socket_id_def)
  let ?w5 = "upd_sock n (\<lambda>s. s\<lparr>sk_id := Some c\<rparr>) w4" and ?w7 = "upd_sock n g w6"
  let ?t = "t\<lparr>sk_id := Some c\<rparr>"
  have q5: "quiet w ?w5"
    by (rule quiet_trans [OF q4 quiet_upd_sock [OF quietD(2) [OF q4] n4]])
      (simp add: socket_wf_def wf_windows_def)
  note q6 = quiet_trans [OF q5 quiet_same_heap [OF quietD(2) [OF q5] upd]]
  have n6: "\<not> registered w6 n" using n4 quietD(4) [OF q6] quietD(4) [OF q4] by simp
  have wft: "socket_wf ?t" using n(2) by (simp add: socket_wf_def wf_windows_def)
  have q7: "quiet w ?w7"
    by (rule quiet_trans [OF q6 quiet_upd_sock [OF quietD(2) [OF q6] n6]]) (use g in simp)
  have s7: "socks ?w7 n = Some (g ?t)" "sk_id (g ?t) = Some c" "ids ?w7 c = Some j"
    using s4 same_heapD(1,2) [OF upd] same_heapD(1) [OF h4] c(1) g [of ?t] wft by simp_all
  note I = mgr_insertSocket_spec [OF quietD(2) [OF q7] s7 ins]
  show "quiet w (destroy_socket n (unlink_socket_fifos P n w8))" if b: "\<not> b"
  proof -
    have w8: "w8 = ?w7" using I(3) b by simp
    note q9 = quiet_trans [OF q7 quiet_same_heap [OF quietD(2) [OF q7] unlink_socket_fifos_heap [of ?w7 P n]]]
    have "sk_id (sock_at (unlink_socket_fifos P n ?w7) n) = Some c"
      using s7(1,2) same_heapD(7) [OF unlink_socket_fifos_heap [of ?w7 P n], of n] by (metis sock_at_Some)
    moreover have "\<not> registered (unlink_socket_fifos P n ?w7) n" "\<not> reg_id (unlink_socket_fifos P n ?w7) c"
      using n4 c4 quietD(4,5) [OF q9] quietD(4,5) [OF q4] by simp_all
    ultimately have "quiet (unlink_socket_fifos P n ?w7) (destroy_socket n (unlink_socket_fifos P n ?w7))"
      by (intro quiet_destroy_socket quietD(2) [OF q9]) simp_all
    then show ?thesis using quiet_trans [OF q9] w8 by simp
  qed
  show "mgr_inv w8 \<and> mgr_map w (sid_key j) = None \<and> mgr_map w8 = (mgr_map w)(sid_key j \<mapsto> n)
      \<and> socks w8 n = Some (g ?t) \<and> sk_id (g ?t) = Some c \<and> ids w8 c = Some j
      \<and> (\<forall>b. registered w b \<longrightarrow> socks w8 b = socks w b) \<and> (\<forall>k. reg_id w k \<longrightarrow> ids w8 k = ids w k)
      \<and> \<not> registered w n" if b
    using I(1,2) that quietD(3) [OF q7] keeps_only_table [OF I(4)] s7 quietD(7,8) [OF q7] n quietD(4) [OF q] by simp
  show "mgr_map w (sid_key j) = None \<Longrightarrow> card (dom (mgr_map w)) < 100 \<Longrightarrow> b"
    using I(1) quietD(3) [OF q7] by simp
qed

lemma handle_packet_listen_step:
  assumes inv: "mgr_inv w" and reg: "registered w a" and s: "socks w a = Some s"
    and ip: "length (cstr from_ip) \<le> 16"
    and h: "handle_packet_listen P a p from_ip w = (r, w')"
    and k: "sk_id s = Some k" "ids w k = Some i"
  shows "quiet w w' \<and> \<not> (resourceful P \<and> has_flag p SYN \<and> max_connections s \<noteq> 0
        \<and> mgr_map w (cstr (src_ip i), src_port i, cstr from_ip, tcp_src_port p) = None
        \<and> card (dom (mgr_map w)) < 100)
    \<or> r = None \<and> accepts_connection a p from_ip w w'"
proof -
  have sa: "sock_at w a = s" using s by (simp add: sock_at_def)
  have q0: "quiet w w" by (rule quiet_same_heap [OF inv same_heap_refl])
  show ?thesis
  proof (cases "has_flag p SYN \<and> max_connections s \<noteq> 0")
    case False
    then have "w' = w \<or> generate_rst_packet P a (tcp_src_port p) w = (r, w')"
      using h sa by (auto simp: handle_packet_listen_def split: if_splits)
    then show ?thesis
      using q0 quiet_same_heap [OF inv] False by (auto simp: generate_rst_packet_def)
  next
    case True
    obtain c w1 where 1: "copy_socket_id P k w = (c, w1)" by fastforce
    note q1 = quiet_copy_socket_id [OF inv k(2) 1]
    show ?thesis
    proof (cases c)
      case None
      then show ?thesis
        using h sa k True 1 q1 resourceful_create(2) [OF _ 1] by (auto simp: handle_packet_listen_def)
    next
      case (Some c)
      obtain j where j: "ids w1 c = Some j" "wf_sockid j" "sid_key j = sid_key i" "\<not> reg_id w1 c"
          "ids w c = None"
        using copy_socket_id_keeps(4) [OF inv k(2) 1 Some] by metis
      have nn: "NUL \<notin> set (cstr from_ip)" by (rule cstr_no_NUL)
      have wd: "wf_ip (dst_ip j)" using j(2) by (simp add: wf_sockid_def)
      note L = wf_ip_strcpy_lib [OF wd ip nn]
      let ?d = "cstr from_ip @ NUL # drop (length (cstr from_ip) + 1) (dst_ip j)"
      let ?f = "\<lambda>i. i\<lparr>dst_ip := ?d, dst_port := tcp_src_port p\<rparr>"
      have idj: "id_at w1 c = j" using j(1) by (simp add: id_at_def)
      define w2 where "w2 = upd_id c ?f w1"
      have q2: "quiet w w2"
        unfolding w2_def
        by (rule quiet_trans [OF q1 quiet_upd_id [OF quietD(2) [OF q1] j(4)]])
          (use L(2) in \<open>simp add: wf_sockid_def\<close>)
      have c2: "ids w2 c = Some (?f j)" "\<not> reg_id w2 c"
        using j quietD(5) [OF q2] quietD(5) [OF q1] by (simp_all add: w2_def)
      obtain n w3 where 3: "create_new_socket P w2 = (n, w3)" by fastforce
      note q3 = quiet_trans [OF q2 quiet_create_new_socket [OF quietD(2) [OF q2] 3]]
      note C3 = create_new_socket_keeps [OF quietD(2) [OF q2] 3]
      have c3: "ids w3 c = Some (?f j)" "\<not> reg_id w3 c"
        using c2 C3(2) quietD(5) [OF q3] quietD(5) [OF q2] by simp_all
      show ?thesis
      proof (cases n)
        case None
        then have "w' = free_id c w3"
          using h sa k True 1 Some 3 L(1) idj
          by (simp add: handle_packet_listen_def Let_def w2_def destroy_socket_id_def)
        then show ?thesis
          using quiet_trans [OF q3 quiet_free_id [OF quietD(2) [OF q3] c3(2)]] None resourceful_create(3) [OF _ 3]
          by auto
      next
        case n: (Some n)
        obtain t where t: "socks w3 n = Some t" "socket_wf t" "sk_id t = None" "\<not> registered w3 n"
          using C3(3) [OF n] by metis
        obtain r4 w4 where 4: "create_socket_end_fifos P (Some c) w3 = (r4, w4)" by fastforce
        obtain seq w6 where 6: "sys_rand P (upd_sock n (\<lambda>s. s\<lparr>sk_id := Some c\<rparr>) w4) = (seq, w6)" by fastforce
        let ?g = "\<lambda>s. s\<lparr>seq_of_first_send_window := seq, sk_state := SYN_RECEIVED,
                         seq_of_first_recv_window := tcp_seq_num p + 1\<rparr>"
        obtain b w8 where 8: "mgr_insertSocket (Some n) (upd_sock n ?g w6) = (b, w8)" by fastforce
        have g: "socket_wf s \<longrightarrow> socket_wf (?g s) \<and> sk_id (?g s) = sk_id s" for s
          by (simp add: socket_wf_def wf_windows_def)
        note R = connection_registered [OF q3 c3 t 4 sys_same_heap(11) [OF 6] g 8]
        have res: "r = None \<and> w' = (if r4 \<noteq> 0 then destroy_socket_id (Some c) (destroy_socket n w4)
            else if \<not> b then destroy_socket n (unlink_socket_fifos P n w8)
            else upd_sock a (\<lambda>s. s\<lparr>max_connections := max_connections s - 1\<rparr>) w8)"
          using h sa k True 1 Some 3 L(1) idj n 4 6 8
          by (simp add: handle_packet_listen_def Let_def w2_def split: if_splits)
        have key: "sid_key (?f j) = (cstr (src_ip i), src_port i, cstr from_ip, tcp_src_port p)"
          using j(3) L(3) by (simp add: sid_key_def)
        show ?thesis
        proof (cases "r4 = 0 \<and> b")
          case False
          then show ?thesis
            using res R(1,2,4) key resourceful_create(1) [OF _ 4] by (auto split: if_splits)
        next
          case ok: True
          let ?h = "\<lambda>s. s\<lparr>max_connections := max_connections s - 1\<rparr>"
          have w': "w' = upd_sock a ?h w8" using res ok by simp
          note A = R(3) [OF conjunct2 [OF ok]]
          have an: "a \<noteq> n" using A reg by blast
          have K: "keeps w8 w'"
            unfolding w' using A by (intro keeps_upd_sock) (simp_all add: socket_wf_def wf_windows_def)
          have "accepts_connection a p from_ip w w'"
            unfolding accepts_connection_def
            apply (rule exI [of _ n], rule exI [of _ "?g (t\<lparr>sk_id := Some c\<rparr>)"], rule exI [of _ c], rule exI [of _ i],
                rule exI [of _ "?f j"])
            using A K k sa True reg an key j(5) keepsD(1,2) [OF K] unfolding w' by simp
          then show ?thesis using res by simp
        qed
      qed
    qed
  qed
qed

end
