(* ===== verification/Handshake.thy ===== *)
theory Handshake imports Connection_States begin

text \<open>
  How connections come about: the transitions of the connection state machine, which segments create
  and establish connections, and what the clients at both ends are told.
\<close>

section \<open>Properties\<close>

text \<open>
  C10. The connection state machine.  A segment for a socket of the table that does not listen moves
  the socket only along the transitions of \<open>packet_next\<close>: a reset closes it, a segment from another
  port changes nothing, and any other segment leads to a state the handlers allow; an
  acknowledgment has to cover the bytes it is meant for.  The identifiers, the table and all other sockets
  stay as they are, and the invariant of the manager holds afterwards.
\<close>

theorem segment_moves_state:
  assumes "mgr_inv w" and "registered w a" and "socks w a = Some s" and "sk_state s \<noteq> LISTEN"
    and "handle_packet P a p from_ip w = (r, w')"
  shows "\<exists>s'. socks w' a = Some s' \<and> sk_id s' = sk_id s
      \<and> sk_state s' \<in> (if has_flag p RST then {CLOSED}
           else if tcp_src_port p \<noteq> dst_port (id_at w (the (sk_id s))) then {sk_state s} else packet_next p s)
    \<and> (\<forall>b. b \<noteq> a \<longrightarrow> socks w' b = socks w b) \<and> ids w' = ids w \<and> mgr_map w' = mgr_map w \<and> mgr_inv w'"
proof -
  note O = handle_packet_step [OF assms]
  have "keeps w w'" by (rule only_socket_keeps [OF assms(1) O]) simp
  with O show ?thesis using assms(3) by (auto simp: only_socket_def kept_def dest: keepsD)
qed

lemma segment_moves_state_witness:
  "\<exists>r w' s'. handle_packet sim_posix 2 (example_packet (or FIN ACK) 101) [] (example_manager FIN_WAIT_1) = (r, w')
     \<and> socks w' 2 = Some s' \<and> sk_state s' = TIME_WAIT \<and> mgr_inv w'"
proof -
  obtain r w' where h: "handle_packet sim_posix 2 (example_packet (or FIN ACK) 101) [] (example_manager FIN_WAIT_1) = (r, w')"
    by fastforce
  note M = example_manager [of FIN_WAIT_1]
  have "packet_next (example_packet (or FIN ACK) 101) ((example_socket 0)\<lparr>sk_state := FIN_WAIT_1\<rparr>) = {TIME_WAIT}"
    "tcp_src_port (example_packet (or FIN ACK) 101) = 9" "\<not> has_flag (example_packet (or FIN ACK) 101) RST"
    "dst_port (id_at (example_manager FIN_WAIT_1) 0) = 9"
    using M(5) by (simp_all add: packet_next_def acks_fin_def has_flag_def example_packet_def ACK_def FIN_def RST_def
        example_socket_def id_at_def example_ids_def)
  then show ?thesis
    using segment_moves_state [OF M(1-3) _ h] h by (auto simp: example_socket_def)
qed

text \<open>
  C12. No connection without a handshake.  When a segment has been handled, an established socket of
  the table was established before, or is the socket the segment was for, and that socket had sent its
  SYN and the segment is a SYN with the acknowledgment of exactly that SYN, or it had received a SYN
  and the segment acknowledges exactly its answer; and the segment comes from the port of the peer and
  is no reset.
\<close>

theorem connection_needs_handshake:
  assumes "mgr_inv w" and "registered w a" and "socks w a = Some t" and "length (cstr from_ip) \<le> 16"
    and "handle_packet P a p from_ip w = (r, w')"
    and "registered w' b" and "socks w' b = Some s'" and "sk_state s' = ESTABLISED"
  shows "\<exists>s. socks w b = Some s \<and> (sk_state s = ESTABLISED
     \<or> (b = a \<and> has_flag p ACK \<and> tcp_ack_num p = seq_of_first_send_window s \<and> \<not> has_flag p RST
         \<and> tcp_src_port p = dst_port (id_at w (the (sk_id s)))
         \<and> (sk_state s = SYN_SENT \<and> has_flag p SYN \<or> sk_state s = SYN_RECEIVED)))"
proof (cases "sk_state t = LISTEN")
  case False
  note O = handle_packet_step [OF assms(1-3) False assms(5)]
  show ?thesis
  proof (cases "b = a")
    case True
    have "sk_state s' \<in> (if has_flag p RST then {CLOSED}
        else if tcp_src_port p \<noteq> dst_port (id_at w (the (sk_id t))) then {sk_state t} else packet_next p t)"
      using O assms(3,7) True by (auto simp: only_socket_def)
    then show ?thesis
      using assms(3,8) True
      by (cases "sk_state t") (auto simp: packet_next_def split: if_splits)
  next
    case False
    then show ?thesis using O assms(7,8) by (auto simp: only_socket_def)
  qed
next
  case True
  have h: "handle_packet_listen P a p from_ip w = (r, w')"
    using assms(3,5) True by (simp add: handle_packet_def sock_at_def Let_def)
  obtain k i where k: "sk_id t = Some k" "ids w k = Some i"
    using registered_socket [OF assms(1,2)] assms(3) by (metis option.inject)
  from handle_packet_listen_step [OF assms(1-4) h k]
  show ?thesis
  proof
    assume "quiet w w' \<and> \<not> (resourceful P \<and> has_flag p SYN \<and> max_connections t \<noteq> 0
        \<and> mgr_map w (cstr (src_ip i), src_port i, cstr from_ip, tcp_src_port p) = None
        \<and> card (dom (mgr_map w)) < 100)"
    then have q: "quiet w w'" by simp
    have rb: "registered w b" using quietD(4) [OF q] assms(6) by simp
    then show ?thesis using quietD(7) [OF q rb] assms(7,8) by (intro exI [of _ s']) simp
  next
    assume "r = None \<and> accepts_connection a p from_ip w w'"
    then obtain n s key where A: "mgr_inv w'" "mgr_map w' = (mgr_map w)(key \<mapsto> n)" "socks w' n = Some s"
        "sk_state s = SYN_RECEIVED" "\<forall>b. registered w b \<longrightarrow> b \<noteq> a \<longrightarrow> socks w' b = socks w b"
        "socks w' a = map_option (\<lambda>s. s\<lparr>max_connections := max_connections s - 1\<rparr>) (socks w a)"
      unfolding accepts_connection_def by blast
    have "registered w b \<or> b = n"
      using assms(6) registered_iff [OF A(1)] registered_iff [OF assms(1)] A(2) by (auto split: if_splits)
    then show ?thesis
      using A assms(3,7,8) True by (cases "b = a"; cases "b = n") auto
  qed
qed

lemma listening_socket_accepts:
  assumes "mgr_inv w" and "registered w a" and "socks w a = Some s" and "sk_state s = LISTEN"
    and "sk_id s = Some k" and "ids w k = Some i" and "length (cstr from_ip) \<le> 16"
    and "resourceful P" and "has_flag p SYN" and "max_connections s \<noteq> 0"
    and "mgr_map w (cstr (src_ip i), src_port i, cstr from_ip, tcp_src_port p) = None"
    and "card (dom (mgr_map w)) < 100" and h: "handle_packet P a p from_ip w = (r, w')"
  shows "r = None \<and> accepts_connection a p from_ip w w'"
proof -
  have l: "handle_packet_listen P a p from_ip w = (r, w')"
    using assms(3,4) h by (simp add: handle_packet_def sock_at_def Let_def)
  show ?thesis using handle_packet_listen_step [OF assms(1-3,7) l assms(5,6)] assms(8-12) by blast
qed

text \<open>
  C25. A listening socket opens connections.  A SYN for a listening socket that has connections left
  creates, when memory and the file system allow it, the caller's address and port are not yet connected
  to this socket and the table has room, a new socket in state \<open>SYN_RECEIVED\<close>, registered under the
  address and port of the listener and of the caller and waiting for the byte behind the SYN.  The
  listener has one connection less; nothing else in the table changes, and the invariant holds.
\<close>

theorem syn_opens_connection:
  assumes "mgr_inv w" and "registered w a" and "socks w a = Some s" and "sk_state s = LISTEN"
    and "sk_id s = Some k" and "ids w k = Some i" and "length (cstr from_ip) \<le> 16"
    and "resourceful P" and "has_flag p SYN" and "max_connections s \<noteq> 0"
    and "mgr_map w (cstr (src_ip i), src_port i, cstr from_ip, tcp_src_port p) = None"
    and "card (dom (mgr_map w)) < 100"
  shows "\<exists>w' n s' k' j. handle_packet P a p from_ip w = (None, w') \<and> mgr_inv w'
    \<and> mgr_map w' = (mgr_map w)((cstr (src_ip i), src_port i, cstr from_ip, tcp_src_port p) \<mapsto> n)
    \<and> socks w' n = Some s' \<and> sk_state s' = SYN_RECEIVED \<and> sk_id s' = Some k' \<and> ids w' k' = Some j
    \<and> sid_key j = (cstr (src_ip i), src_port i, cstr from_ip, tcp_src_port p)
    \<and> seq_of_first_recv_window s' = tcp_seq_num p + 1
    \<and> socks w' a = Some (s\<lparr>max_connections := max_connections s - 1\<rparr>)
    \<and> (\<forall>b. registered w b \<longrightarrow> b \<noteq> a \<longrightarrow> socks w' b = socks w b)"
proof -
  obtain r w' where h: "handle_packet P a p from_ip w = (r, w')" by fastforce
  have "r = None \<and> accepts_connection a p from_ip w w'" by (rule listening_socket_accepts [OF assms h])
  moreover have "id_at w k = i" "sock_at w a = s" using assms(3,6) by (simp_all add: id_at_def sock_at_def)
  ultimately obtain n s' k' j where A: "r = None" "mgr_inv w'"
      "sid_key j = (cstr (src_ip i), src_port i, cstr from_ip, tcp_src_port p)"
      "mgr_map w' = (mgr_map w)(sid_key j \<mapsto> n)" "socks w' n = Some s'" "sk_state s' = SYN_RECEIVED"
      "sk_id s' = Some k'" "ids w' k' = Some j" "seq_of_first_recv_window s' = tcp_seq_num p + 1"
      "socks w' a = Some (s\<lparr>max_connections := max_connections s - 1\<rparr>)"
      "\<forall>b. registered w b \<longrightarrow> b \<noteq> a \<longrightarrow> socks w' b = socks w b"
    unfolding accepts_connection_def using assms(3,5,6) by auto
  then show ?thesis using h by metis
qed

text \<open>
  C26. Both ends of a connection learn of it.  When memory does not run out and the FIFOs take every
  byte, a socket that answered a SYN becomes established by the acknowledgment of its answer, and the
  client that accepts connections on the listening socket is sent exactly the text of the caller's
  address and port; nothing is written to any other FIFO.
\<close>

theorem accepting_client_is_told:
  assumes "mgr_inv w" and "registered w a" and "socks w a = Some s" and "sk_state s = SYN_RECEIVED"
    and "sk_id s = Some k" and "ids w k = Some i"
    and "resourceful P" and "fifos_open P" and "fifo_laws P out tgt"
    and "has_flag p ACK" and "\<not> has_flag p RST" and "tcp_src_port p = dst_port i"
    and "tcp_ack_num p = seq_of_first_send_window s"
  shows "\<exists>w'. handle_packet P a p from_ip w = (None, w') \<and> socks w' a = Some (s\<lparr>sk_state := ESTABLISED\<rparr>)
    \<and> out (os w') = (let path = socket_fifo_path ACCEPT_SOCKET_READ_FIFO_PREFIX (unconnected i) in
        (out (os w))(path := out (os w) path @ cstr (dst_ip i) @ ''_'' @ fmt_d (sint (dst_port i)) @ [NUL]))"
proof -
  obtain r w1 where n: "notify_accept_client P a w = (r, w1)" by fastforce
  note N = notify_accept_client_succeeds [OF assms(1,3,5,6,7,8,9) n]
  note h = same_heapD [OF notify_accept_client_heap [OF assms(1,2) n]]
  have at: "sock_at w a = s" "id_at w k = i" using assms(3,6) by (simp_all add: sock_at_def id_at_def)
  have "handle_packet P a p from_ip w = (None, upd_sock a (\<lambda>s. s\<lparr>sk_state := ESTABLISED\<rparr>) w1)"
    using n N(1) at assms by (simp add: handle_packet_def handle_packet_syn_received_def Let_def)
  then show ?thesis using N(2) h(2) assms(3) by (simp add: Let_def)
qed

text \<open>
  C27. In the same way, a socket that sent a SYN becomes established by the SYN with the acknowledgment
  of its own, expects the byte behind the peer's SYN, and the client that waits for the connection is
  sent the byte that grants it, and nothing else is written.
\<close>

theorem connecting_client_is_told:
  assumes "mgr_inv w" and "registered w a" and "socks w a = Some s" and "sk_state s = SYN_SENT"
    and "sk_id s = Some k" and "ids w k = Some i"
    and "resourceful P" and "fifos_open P" and "fifo_laws P out tgt"
    and "\<And>n x. out (snd (px_mkfifo P n x)) = out x"
    and "has_flag p SYN" and "has_flag p ACK" and "\<not> has_flag p RST" and "tcp_src_port p = dst_port i"
    and "tcp_ack_num p = seq_of_first_send_window s"
  shows "\<exists>w'. handle_packet P a p from_ip w = (None, w')
    \<and> socks w' a = Some (s\<lparr>seq_of_first_recv_window := tcp_seq_num p + 1, sk_state := ESTABLISED\<rparr>)
    \<and> out (os w') = (let path = socket_fifo_path CONNECT_SOCKET_READ_FIFO_PREFIX (unconnected i) in
        (out (os w))(path := out (os w) path @ [REQUEST_GRANTED_FIFO]))"
proof -
  obtain r w1 where n: "notify_connect_client P a w = (r, w1)" by fastforce
  note N = notify_connect_client_succeeds [OF assms(1,3,5,6,7,8,9,10) n]
  note h = same_heapD [OF notify_connect_client_heap [OF assms(1,2) n]]
  have at: "sock_at w a = s" "id_at w k = i" using assms(3,6) by (simp_all add: sock_at_def id_at_def)
  have "handle_packet P a p from_ip w =
      (None, upd_sock a (\<lambda>s. s\<lparr>seq_of_first_recv_window := tcp_seq_num p + 1, sk_state := ESTABLISED\<rparr>) w1)"
    using n N(1) at assms by (simp add: handle_packet_def handle_packet_syn_sent_def Let_def)
  then show ?thesis using N(2) h(2) assms(3) by (simp add: Let_def)
qed

section \<open>Witnesses\<close>

lemma accepting_client_is_told_witness:
  "\<exists>w'. handle_packet kind_posix 2 (example_packet ACK 100) [] (example_manager SYN_RECEIVED) = (None, w')
    \<and> (\<exists>s. socks w' 2 = Some s \<and> sk_state s = ESTABLISED)
    \<and> sim_out (os w') = (let path = socket_fifo_path ACCEPT_SOCKET_READ_FIFO_PREFIX (unconnected (the (example_ids 0))) in
        (sim_out (os (example_manager SYN_RECEIVED)))(path := sim_out (os (example_manager SYN_RECEIVED)) path
          @ cstr (dst_ip (the (example_ids 0))) @ ''_'' @ fmt_d (sint (dst_port (the (example_ids 0)))) @ [NUL]))"
proof -
  note M = example_manager [of SYN_RECEIVED] and I = example_manager_id
  have "sk_state ((example_socket 0)\<lparr>sk_state := SYN_RECEIVED\<rparr>) = SYN_RECEIVED"
    "sk_id ((example_socket 0)\<lparr>sk_state := SYN_RECEIVED\<rparr>) = Some 0"
    "has_flag (example_packet ACK 100) ACK" "\<not> has_flag (example_packet ACK 100) RST"
    "tcp_src_port (example_packet ACK 100) = dst_port (the (example_ids 0))"
    "tcp_ack_num (example_packet ACK 100) = seq_of_first_send_window ((example_socket 0)\<lparr>sk_state := SYN_RECEIVED\<rparr>)"
    by (simp_all add: example_socket_def example_packet_def has_flag_def ACK_def RST_def example_ids_def)
  from accepting_client_is_told [OF M(1-3) this(1,2) I(1) kind_posix(1-3) this(3-6), of "[]"]
  show ?thesis by (auto simp: Let_def)
qed

lemma connecting_client_is_told_witness:
  "\<exists>w'. handle_packet kind_posix 2 (example_packet (or SYN ACK) 100) [] (example_manager SYN_SENT) = (None, w')
    \<and> (\<exists>s. socks w' 2 = Some s \<and> sk_state s = ESTABLISED \<and> seq_of_first_recv_window s = 501)
    \<and> sim_out (os w') = (let path = socket_fifo_path CONNECT_SOCKET_READ_FIFO_PREFIX (unconnected (the (example_ids 0))) in
        (sim_out (os (example_manager SYN_SENT)))(path := sim_out (os (example_manager SYN_SENT)) path
          @ [REQUEST_GRANTED_FIFO]))"
proof -
  note M = example_manager [of SYN_SENT] and I = example_manager_id
  let ?s = "(example_socket 0)\<lparr>sk_state := SYN_SENT\<rparr>" and ?p = "example_packet (or SYN ACK) 100"
  have A: "sk_state ?s = SYN_SENT" "sk_id ?s = Some 0" "has_flag ?p SYN" "has_flag ?p ACK" "\<not> has_flag ?p RST"
    "tcp_src_port ?p = dst_port (the (example_ids 0))" "tcp_ack_num ?p = seq_of_first_send_window ?s"
    "tcp_seq_num ?p + 1 = 501"
    by (simp_all add: example_socket_def example_packet_def has_flag_def ACK_def RST_def SYN_def example_ids_def)
  from connecting_client_is_told [OF M(1-3) A(1,2) I(1) kind_posix A(3-7), of "[]"]
  show ?thesis using A(8) by (auto simp: Let_def)
qed

lemma connection_needs_handshake_witness:
  "\<exists>r w' s' s. handle_packet kind_posix 2 (example_packet ACK 100) [] (example_manager SYN_RECEIVED) = (r, w')
     \<and> socks w' 2 = Some s' \<and> sk_state s' = ESTABLISED \<and> socks (example_manager SYN_RECEIVED) 2 = Some s
     \<and> (sk_state s = ESTABLISED \<or> has_flag (example_packet ACK 100) ACK \<and> sk_state s = SYN_RECEIVED)"
proof -
  note M = example_manager [of SYN_RECEIVED] and I = example_manager_id
  let ?s = "(example_socket 0)\<lparr>sk_state := SYN_RECEIVED\<rparr>" and ?p = "example_packet ACK 100"
  obtain r w1 where n: "notify_accept_client kind_posix 2 (example_manager SYN_RECEIVED) = (r, w1)" by fastforce
  have sk: "sk_id ?s = Some 0" by (simp add: example_socket_def)
  note N = notify_accept_client_succeeds(1) [OF M(1,3) sk I(1) kind_posix(1-3) n]
  note h = same_heapD [OF notify_accept_client_heap [OF M(1,2) n]]
  define w' where "w' = upd_sock 2 (\<lambda>s. s\<lparr>sk_state := ESTABLISED\<rparr>) w1"
  have at: "sock_at (example_manager SYN_RECEIVED) 2 = ?s" using M(3) by (simp add: sock_at_def)
  have hp: "handle_packet kind_posix 2 ?p [] (example_manager SYN_RECEIVED) = (None, w')"
    using n N at I(2,4) by (simp add: handle_packet_def handle_packet_syn_received_def Let_def w'_def sk
        has_flag_def example_packet_def ACK_def RST_def) (simp add: example_socket_def)
  have res: "registered w' 2" "socks w' 2 = Some (?s\<lparr>sk_state := ESTABLISED\<rparr>)"
    using M(2,3) h by (simp_all add: w'_def registered_def)
  have "length (cstr []) \<le> 16" by (simp add: cstr_def)
  from connection_needs_handshake [OF M(1-3) this hp res] show ?thesis
    using hp res(2) M(3) by auto
qed

lemma syn_opens_connection_witness:
  "\<exists>w' n s'. handle_packet kind_posix 2 (example_packet SYN 0) (ip_cells (CHR ''4'')) (example_manager LISTEN) = (None, w')
     \<and> mgr_inv w' \<and> socks w' n = Some s' \<and> sk_state s' = SYN_RECEIVED \<and> seq_of_first_recv_window s' = 501"
proof -
  note M = example_manager [of LISTEN] and I = example_manager_id
  let ?s = "(example_socket 0)\<lparr>sk_state := LISTEN\<rparr>" and ?p = "example_packet SYN 0"
  have c: "cstr (ip_cells (CHR ''4'')) = replicate 16 (CHR ''4'')" by (simp add: cstr_ip_cells)
  have A: "sk_state ?s = LISTEN" "sk_id ?s = Some 0" "length (cstr (ip_cells (CHR ''4''))) \<le> 16" "has_flag ?p SYN"
    "max_connections ?s \<noteq> 0" "card (dom (mgr_map (example_manager LISTEN))) < 100" "tcp_seq_num ?p + 1 = 501"
    using M(4) c by (simp_all add: example_socket_def example_packet_def has_flag_def SYN_def)
  have K: "mgr_map (example_manager LISTEN) (cstr (src_ip (the (example_ids 0))), src_port (the (example_ids 0)),
      cstr (ip_cells (CHR ''4'')), tcp_src_port ?p) = None"
    using M(4) I(3) c by (simp add: sid_key_def example_key_def)
  show ?thesis
    using syn_opens_connection [OF M(1-3) A(1,2) I(1) A(3) kind_posix(1) A(4,5) K A(6)] A(7) by auto
qed

end
