(* ===== verification/Client_Api.thy ===== *)
theory Client_Api imports Manager_Requests begin

text \<open>
  src/network.c and src/network.h: what a client process calls.  A client has the process state of
  \<open>'s world\<close> too, of which it uses the system and the heap of socket identifiers; the static
  counter \<open>socket_count\<close> is passed in and out of \<open>SocketBind\<close>.  The loops that wait for an answer
  are partial functions: \<open>None\<close> means that the call does not return, in such a loop or because an \<open>open\<close> or a
  \<open>read\<close> of a FIFO waits for ever for the other end.
\<close>

section \<open>Data\<close>

text \<open>\<open>SocketBind\<close> returns \<open>-1\<close> in one place, which is no value of the enumeration.\<close>

datatype Status = SUCCESS | INVALID_ARGUMENT | MEMORY_ERROR | REQUEST_DENIED | TIMED_OUT | NOT_A_STATUS int

record Address =
  addr :: "string option"
  port :: c_int

definition AddressCreate :: "'s posix \<Rightarrow> string \<Rightarrow> c_int \<Rightarrow> 's world \<Rightarrow> Address option \<times> 's world" where
  "AddressCreate P ip port_number w =
     (if length ip \<noteq> MAX_IP_LENGTH then (None, w)
      else let (allocated, w1) = sys_new P w in
        if \<not> allocated then (None, w1)
        else let (m, w2) = sys_malloc P (length ip + 1) w1
             in case m of None \<Rightarrow> (None, w2)
                | Some _ \<Rightarrow> (Some \<lparr>addr = Some ip, port = port_number\<rparr>, w2))"

definition SocketCreate :: "'s posix \<Rightarrow> 's world \<Rightarrow> addr option \<times> 's world" where
  "SocketCreate P w =
     (let (m, w1) = sys_malloc P 48 w in
      case m of
        None \<Rightarrow> (None, w1)
      | Some b \<Rightarrow> let (k, w2) = new_id (init_empty_socket_id (fresh_sockid b)) w1 in (Some k, w2))"

definition SocketDestroy :: "addr option \<Rightarrow> 's world \<Rightarrow> 's world" where
  "SocketDestroy sockid w = destroy_socket_id sockid w"

definition state_of :: "addr option \<Rightarrow> 's world \<Rightarrow> SocketState" where
  "state_of sockid w = get_socket_state (map_option (id_at w) sockid)"

definition unlink_name :: "'s posix \<Rightarrow> string \<Rightarrow> 's world \<Rightarrow> 's world" where
  "unlink_name P n w = snd (sys_unlink P (Some n) w)"

text \<open>\<open>mkfifo(a) != 0 || mkfifo(b) != 0\<close>: whether both were made.\<close>

definition mkfifo_both :: "'s posix \<Rightarrow> string \<Rightarrow> string \<Rightarrow> 's world \<Rightarrow> bool \<times> 's world" where
  "mkfifo_both P a b w =
     (let (r1, w1) = sys_mkfifo P a w in
      if r1 \<noteq> 0 then (False, w1) else let (r2, w2) = sys_mkfifo P b w1 in (r2 = 0, w2))"

text \<open>\<open>strcpy\<close> into the address of the peer, with the port.\<close>

definition set_peer :: "addr \<Rightarrow> string \<Rightarrow> c_int \<Rightarrow> 's world \<Rightarrow> 's world" where
  "set_peer k ip port_number w =
     (case strcpy_lib (dst_ip (id_at w k)) ip of
        Undefined \<Rightarrow> set_ub w
      | Returns s \<Rightarrow> upd_id k (\<lambda>i. i\<lparr>dst_ip := s, dst_port := port_number\<rparr>) w)"

definition clear_peer :: "addr \<Rightarrow> 's world \<Rightarrow> 's world" where
  "clear_peer k w = upd_id k (\<lambda>i. i\<lparr>dst_ip := ip_set_empty (dst_ip i), dst_port := EMPTY_PORT\<rparr>) w"

section \<open>Close\<close>

definition SocketClose :: "'s posix \<Rightarrow> addr option \<Rightarrow> 's world \<Rightarrow> (Status \<times> 's world) option" where
  "SocketClose P sockid w =
     (let (end_fifo_write_name, w1) = get_end_fifo_write_end_name P sockid w in
      case end_fifo_write_name of
        None \<Rightarrow> Some (MEMORY_ERROR, w1)
      | Some write_name \<Rightarrow>
        let (end_fifo_read_name, w2) = get_end_fifo_read_end_name P sockid w1 in
        case end_fifo_read_name of
          None \<Rightarrow> Some (MEMORY_ERROR, w2)
        | Some read_name \<Rightarrow>
          if open_waits P read_name O_RDONLY w2 then None
          else let (end_fifo_read_fd, w3) = sys_open P read_name O_RDONLY w2;
                   w4 = sys_close P end_fifo_read_fd w3 in
          if open_waits P write_name O_WRONLY w4 then None
          else let (end_fifo_write_fd, w5) = sys_open P write_name O_WRONLY w4 in
          if end_fifo_write_fd = - 1 then Some (MEMORY_ERROR, w5)
          else let (written, w6) = sys_write P end_fifo_write_fd ''E'' w5;
                   w7 = sys_close P end_fifo_write_fd w6
               in Some (if written < 1 then (MEMORY_ERROR, w7)
                        else (SUCCESS, unlink_name P read_name w7)))"

section \<open>Bind\<close>

definition bind_request_text :: "c_int \<Rightarrow> c_int \<Rightarrow> c_int \<Rightarrow> string" where
  "bind_request_text port_number pid socket_count =
     fmt_d (sint port_number) @ ''_'' @ fmt_d (sint pid) @ ''_'' @ fmt_d (sint socket_count)"

text \<open>A message longer than asked for would free the name and wait on.\<close>

partial_function (option) await_bind_answer ::
  "'s posix \<Rightarrow> string \<Rightarrow> int \<Rightarrow> 's world \<Rightarrow> (char option \<times> 's world) option" where
  "await_bind_answer P my_fifo_name my_fifo_fd w =
     (case read_entire_message P my_fifo_fd 1 w of
        None \<Rightarrow> None
      | Some (read_size, bs, w1) \<Rightarrow>
          if read_size = - 1 then Some (None, unlink_name P my_fifo_name (sys_close P my_fifo_fd w1))
          else if read_size = 1 then Some (Some (bs ! 0), unlink_name P my_fifo_name (sys_close P my_fifo_fd w1))
          else if 1 < read_size then
            await_bind_answer P my_fifo_name my_fifo_fd
              (set_ub (unlink_name P my_fifo_name (sys_close P my_fifo_fd w1)))
          else await_bind_answer P my_fifo_name my_fifo_fd w1)"

text \<open>The descriptor of the request FIFO stays open when the client's own FIFO cannot be made.\<close>

definition SocketBind ::
  "'s posix \<Rightarrow> addr option \<Rightarrow> Address option \<Rightarrow> c_int \<Rightarrow> 's world \<Rightarrow> (Status \<times> c_int \<times> 's world) option" where
  "SocketBind P sockid addrport socket_count w =
     (case (sockid, addrport) of
        (Some k, Some a) \<Rightarrow>
          (case addr a of
             None \<Rightarrow> Some (INVALID_ARGUMENT, socket_count, w)
           | Some ip \<Rightarrow>
             if state_of sockid w \<noteq> EMPTY_SOCKET then Some (INVALID_ARGUMENT, socket_count, w)
             else let (bind_request_fifo_name, w1) = get_bind_requests_fifo_name P ip w in
             case bind_request_fifo_name of
               None \<Rightarrow> Some (MEMORY_ERROR, socket_count, w1)
             | Some request_name \<Rightarrow>
               let count = socket_count + 1;
                   pid = px_getpid P (os w1);
                   (my_fifo_name, w2) = get_client_fifo_name P pid count w1 in
               case my_fifo_name of
                 None \<Rightarrow> Some (MEMORY_ERROR, count, w2)
               | Some my_name \<Rightarrow>
                 if open_waits P request_name O_WRONLY w2 then None
                 else let (bind_request_fifo_fd, w3) = sys_open P request_name O_WRONLY w2 in
                 if bind_request_fifo_fd = - 1 then Some (MEMORY_ERROR, count, w3)
                 else let (made, w4) = sys_mkfifo P my_name w3 in
                 if made \<noteq> 0 then Some (NOT_A_STATUS (- 1), count, w4)
                 else let (my_fifo_fd, w5) = sys_open P my_name O_RDONLY_NONBLOCK w4 in
                 if my_fifo_fd = - 1
                 then Some (MEMORY_ERROR, count, sys_close P bind_request_fifo_fd (unlink_name P my_name w5))
                 else let message = bind_request_text (port a) pid count;
                          (written, w6) = sys_write P bind_request_fifo_fd (message @ [NUL]) w5
                 in if written = - 1
                    then Some (MEMORY_ERROR, count, unlink_name P my_name
                           (sys_close P bind_request_fifo_fd (sys_close P my_fifo_fd w6)))
                    else (case await_bind_answer P my_name my_fifo_fd (sys_close P bind_request_fifo_fd w6) of
                            None \<Rightarrow> None
                          | Some (None, w7) \<Rightarrow> Some (MEMORY_ERROR, count, w7)
                          | Some (Some answer, w7) \<Rightarrow>
                              if answer = REQUEST_GRANTED_FIFO then
                                Some (SUCCESS, count,
                                  case strcpy_lib (src_ip (id_at w7 k)) ip of
                                    Undefined \<Rightarrow> set_ub w7
                                  | Returns s \<Rightarrow> upd_id k (\<lambda>i. i\<lparr>src_ip := s, src_port := port a\<rparr>) w7)
                              else Some (REQUEST_DENIED, count, w7)))
      | _ \<Rightarrow> Some (INVALID_ARGUMENT, socket_count, w))"

section \<open>Listen\<close>

text \<open>The loop of \<open>SocketListen\<close> and \<open>SocketConnect\<close>: \<open>finish\<close> closes and removes the FIFOs.\<close>

partial_function (option) await_answer ::
  "'s posix \<Rightarrow> int \<Rightarrow> int \<Rightarrow> ('s world \<Rightarrow> 's world) \<Rightarrow> 's world \<Rightarrow> ((Status + char) \<times> 's world) option" where
  "await_answer P fd start finish w =
     (if read_waits P fd w then None
      else case read_entire_message P fd 1 w of
        None \<Rightarrow> None
      | Some (read_size, bs, w1) \<Rightarrow>
          if read_size = - 1 then Some (Inl MEMORY_ERROR, finish w1)
          else if read_size = 1 then Some (Inr (bs ! 0), finish w1)
          else let (current, w2) = sys_clock P w1 in
            if DIFF2SEC_gt (current - start) SOCKET_TIMEOUT then Some (Inl TIMED_OUT, finish w2)
            else await_answer P fd start finish w2)"

definition SocketListen ::
  "'s posix \<Rightarrow> addr option \<Rightarrow> int \<Rightarrow> 's world \<Rightarrow> (Status \<times> 's world) option" where
  "SocketListen P sockid queueLimit w =
     (if queueLimit < 0 \<or> queueLimit > 100 then Some (INVALID_ARGUMENT, w)
      else if sockid = None then Some (INVALID_ARGUMENT, w)
      else if state_of sockid w \<noteq> BOUND_ONLY_SOCKET then Some (INVALID_ARGUMENT, w)
      else let (listen_fifo_write_end_name, w1) = get_listen_fifo_write_end_name P sockid w;
               (listen_fifo_read_end_name, w2) = get_listen_fifo_read_end_name P sockid w1 in
      case (listen_fifo_write_end_name, listen_fifo_read_end_name) of
        (Some write_name, Some read_name) \<Rightarrow>
          let (made, w3) = mkfifo_both P write_name read_name w2;
              unlink_both = (\<lambda>w. unlink_name P write_name (unlink_name P read_name w)) in
          if \<not> made then Some (MEMORY_ERROR, w3)
          else if open_waits P read_name O_RDONLY w3 then None
          else let (listen_fifo_read_fd, w4) = sys_open P read_name O_RDONLY w3 in
          if listen_fifo_read_fd = - 1 then Some (MEMORY_ERROR, unlink_both w4)
          else if open_waits P write_name O_WRONLY w4 then None
          else let (listen_fifo_write_fd, w5) = sys_open P write_name O_WRONLY w4 in
          if listen_fifo_write_fd = - 1 then Some (MEMORY_ERROR, unlink_both (sys_close P listen_fifo_read_fd w5))
          else let (written, w6) = sys_write P listen_fifo_write_fd [char_of (nat queueLimit)] w5 in
          if written \<noteq> 1
          then Some (MEMORY_ERROR, unlink_both (sys_close P listen_fifo_read_fd (sys_close P listen_fifo_write_fd w6)))
          else let (start, w7) = sys_clock P (sys_close P listen_fifo_write_fd w6) in
          (case await_answer P listen_fifo_read_fd start
                  (\<lambda>w. unlink_both (sys_close P listen_fifo_read_fd w)) w7 of
             None \<Rightarrow> None
           | Some (Inl status, w8) \<Rightarrow> Some (status, w8)
           | Some (Inr answer, w8) \<Rightarrow>
               Some (if answer = REQUEST_GRANTED_FIFO then SUCCESS else REQUEST_DENIED, w8))
      | _ \<Rightarrow> Some (MEMORY_ERROR, w2))"

section \<open>Connect\<close>

definition connect_request_text :: "string \<Rightarrow> c_int \<Rightarrow> string" where
  "connect_request_text ip port_number = ip @ ''_'' @ fmt_d (sint port_number)"

text \<open>The FIFOs of a new connection; without them the socket is only bound again.\<close>

definition connection_granted :: "'s posix \<Rightarrow> addr \<Rightarrow> string \<Rightarrow> c_int \<Rightarrow> 's world \<Rightarrow> Status \<times> 's world" where
  "connection_granted P k ip port_number w =
     (let (end_fifo_read_name, w1) = get_end_fifo_read_end_name P (Some k) w;
          (end_fifo_write_name, w2) = get_end_fifo_write_end_name P (Some k) w1;
          w3 = snd (sys_unlink P end_fifo_read_name w2);
          w4 = snd (sys_unlink P end_fifo_write_name w3);
          w5 = set_peer k ip port_number w4;
          (send_fifo_name, w6) = get_socket_send_fifo_name P (Some k) w5 in
      case send_fifo_name of
        None \<Rightarrow> (MEMORY_ERROR, w6)
      | Some send_name \<Rightarrow>
        let (recv_fifo_name, w7) = get_socket_recv_fifo_name P (Some k) w6 in
        case recv_fifo_name of
          None \<Rightarrow> (MEMORY_ERROR, w7)
        | Some recv_name \<Rightarrow>
          let (made, w8) = mkfifo_both P send_name recv_name w7 in
          if made then (SUCCESS, w8)
          else (MEMORY_ERROR, snd (create_socket_end_fifos P (Some k)
                  (clear_peer k (unlink_name P recv_name (unlink_name P send_name w8))))))"

definition SocketConnect ::
  "'s posix \<Rightarrow> addr option \<Rightarrow> Address option \<Rightarrow> 's world \<Rightarrow> (Status \<times> 's world) option" where
  "SocketConnect P sockid foreignAddr w =
     (case (sockid, foreignAddr) of
        (Some k, Some a) \<Rightarrow>
          (case addr a of
             None \<Rightarrow> Some (INVALID_ARGUMENT, w)
           | Some ip \<Rightarrow>
             if state_of sockid w \<noteq> BOUND_ONLY_SOCKET then Some (INVALID_ARGUMENT, w)
             else let (connect_fifo_write_name, w1) = get_connect_fifo_write_end_name P sockid w;
                      (connect_fifo_read_name, w2) = get_connect_fifo_read_end_name P sockid w1 in
             case (connect_fifo_write_name, connect_fifo_read_name) of
               (Some write_name, Some read_name) \<Rightarrow>
                 let (made, w3) = mkfifo_both P write_name read_name w2;
                     unlink_both = (\<lambda>w. unlink_name P write_name (unlink_name P read_name w)) in
                 if \<not> made then Some (MEMORY_ERROR, w3)
                 else if open_waits P read_name O_RDONLY w3 then None
                 else let (read_fd, w4) = sys_open P read_name O_RDONLY w3 in
                 if read_fd = - 1 then Some (MEMORY_ERROR, unlink_both w4)
                 else if open_waits P write_name O_WRONLY w4 then None
                 else let (write_fd, w5) = sys_open P write_name O_WRONLY w4 in
                 if write_fd = - 1 then Some (MEMORY_ERROR, unlink_both (sys_close P read_fd w5))
                 else let message = connect_request_text ip (port a);
                          close_both = (\<lambda>w. unlink_both (sys_close P write_fd (sys_close P read_fd w)));
                          w6 = (if length message + 2 \<le> MAX_SOCKET_STRING_REPR_SIZE then w5 else set_ub w5) in
                 if length message + 1 < 3 then Some (MEMORY_ERROR, close_both w6)
                 else let (written, w7) = sys_write P write_fd (message @ [NUL]) w6 in
                 if written = - 1 then Some (MEMORY_ERROR, close_both w7)
                 else let (start, w8) = sys_clock P w7 in
                 (case await_answer P read_fd start
                         (\<lambda>w. unlink_name P write_name (sys_close P write_fd
                                (unlink_name P read_name (sys_close P read_fd w)))) w8 of
                    None \<Rightarrow> None
                  | Some (Inl status, w9) \<Rightarrow> Some (status, w9)
                  | Some (Inr answer, w9) \<Rightarrow>
                      Some (if answer = REQUEST_GRANTED_FIFO then connection_granted P k ip (port a) w9
                            else (REQUEST_DENIED, w9)))
             | _ \<Rightarrow> Some (MEMORY_ERROR, w2))
      | _ \<Rightarrow> Some (INVALID_ARGUMENT, w))"

section \<open>Accept\<close>

partial_function (option) await_connection ::
  "'s posix \<Rightarrow> string \<Rightarrow> int \<Rightarrow> int \<Rightarrow> 's world \<Rightarrow> (string option \<times> 's world) option" where
  "await_connection P accept_fifo_name start accept_fifo_fd w =
     (let (current, w1) = sys_clock P w in
      if DIFF2SEC_gt (current - start) SOCKET_TIMEOUT
      then Some (None, if accept_fifo_fd \<noteq> - 1 then sys_close P accept_fifo_fd w1 else w1)
      else if accept_fifo_fd = - 1 then
        let (fd, w2) = sys_open P accept_fifo_name O_RDONLY_NONBLOCK w1
        in await_connection P accept_fifo_name start fd w2
      else (case read_message_until_char P accept_fifo_fd NUL w1 of
              None \<Rightarrow> None
            | Some (read_length, bs, w2) \<Rightarrow>
                if read_length = - 1 then Some (None, sys_close P accept_fifo_fd w2)
                else if read_length > 0
                  then Some (Some bs, sys_close P accept_fifo_fd
                         (if length bs \<le> MAX_SOCKET_STRING_REPR_SIZE then w2 else set_ub w2))
                else await_connection P accept_fifo_name start accept_fifo_fd w2))"

text \<open>The message is taken apart like a connect request; the identifier leaks when a FIFO fails.\<close>

definition accepted_connection :: "'s posix \<Rightarrow> addr \<Rightarrow> string \<Rightarrow> 's world \<Rightarrow> addr option \<times> 's world" where
  "accepted_connection P k message w =
     (case parse_connect_request message of
        None \<Rightarrow> (None, w)
      | Some (ip, port_number) \<Rightarrow>
        let (new_connection, w1) =
              copy_socket_id P k (if length ip \<le> MAX_IP_LENGTH then w else set_ub w) in
        case new_connection of
          None \<Rightarrow> (None, w1)
        | Some c \<Rightarrow>
          let (send_fifo_name, w3) = get_socket_send_fifo_name P (Some c) (set_peer c ip port_number w1) in
          case send_fifo_name of
            None \<Rightarrow> (None, w3)
          | Some send_name \<Rightarrow>
            let (recv_fifo_name, w4) = get_socket_recv_fifo_name P (Some c) w3 in
            case recv_fifo_name of
              None \<Rightarrow> (None, w4)
            | Some recv_name \<Rightarrow>
              let (made, w5) = mkfifo_both P send_name recv_name w4 in
              if made then (Some c, w5)
              else (None, clear_peer c (unlink_name P recv_name (unlink_name P send_name w5))))"

definition SocketAccept :: "'s posix \<Rightarrow> addr option \<Rightarrow> 's world \<Rightarrow> (addr option \<times> 's world) option" where
  "SocketAccept P sockid w =
     (case sockid of
        None \<Rightarrow> Some (None, w)
      | Some k \<Rightarrow>
        if state_of sockid w \<noteq> BOUND_ONLY_SOCKET then Some (None, w)
        else let (accept_fifo_name, w1) = get_accept_fifo_write_end_name P sockid w in
        case accept_fifo_name of
          None \<Rightarrow> Some (None, w1)
        | Some name \<Rightarrow>
          let (start, w2) = sys_clock P w1 in
          (case await_connection P name start (- 1) w2 of
             None \<Rightarrow> None
           | Some (None, w3) \<Rightarrow> Some (None, w3)
           | Some (Some bs, w3) \<Rightarrow> Some (accepted_connection P k (cstr bs) w3)))"

section \<open>Send and receive\<close>

text \<open>The descriptor is not closed.  A length beyond the message would read outside it.\<close>

definition SocketSend :: "'s posix \<Rightarrow> addr option \<Rightarrow> string option \<Rightarrow> c_int \<Rightarrow> 's world \<Rightarrow> int \<times> 's world" where
  "SocketSend P sockid message len w =
     (case message of
        None \<Rightarrow> (- 1, w)
      | Some bytes \<Rightarrow>
        if sockid = None then (- 1, w)
        else if state_of sockid w \<noteq> CONNECTED_SOCKET then (- 1, w)
        else let (send_fifo_name, w1) = get_socket_send_fifo_name P sockid w in
        case send_fifo_name of
          None \<Rightarrow> (- 1, w1)
        | Some name \<Rightarrow>
          let (send_fifo_fd, w2) = sys_open P name O_RDWR w1 in
          if send_fifo_fd = - 1 then (- 1, w2)
          else sys_write P send_fifo_fd (take (nat (sint len)) bytes)
                 (if 0 \<le> sint len \<and> sint len \<le> int (length bytes) then w2 else set_ub w2))"

text \<open>
  The result with the bytes put into the buffer.  After an empty read the code looks at the byte in
  front of the buffer; the model goes on as if it were not \<open>CONN_CLOSED\<close>.
\<close>

partial_function (option) recv_loop ::
  "'s posix \<Rightarrow> addr option \<Rightarrow> nat \<Rightarrow> 's world \<Rightarrow> (int \<times> string \<times> 's world) option" where
  "recv_loop P sockid bufferLen w =
     (let (recv_fifo_name, w1) = get_socket_recv_fifo_name P sockid w in
      case recv_fifo_name of
        None \<Rightarrow> Some (- 1, [], w1)
      | Some name \<Rightarrow>
        if open_waits P name O_RDONLY w1 then None
        else let (recv_fifo_fd, w2) = sys_open P name O_RDONLY w1 in
        if recv_fifo_fd = - 1 then Some (- 1, [], w2)
        else if read_waits P recv_fifo_fd w2 then None
        else (case sys_read P recv_fifo_fd bufferLen w2 of
                (Read_error, w3) \<Rightarrow> Some (- 1, [], sys_close P recv_fifo_fd w3)
              | (Read_again, w3) \<Rightarrow> recv_loop P sockid bufferLen (sys_close P recv_fifo_fd w3)
              | (Read bs, w3) \<Rightarrow>
                  if bs = [] then recv_loop P sockid bufferLen (set_ub (sys_close P recv_fifo_fd w3))
                  else if last bs = CONN_CLOSED then Some (- 1, bs, sys_close P recv_fifo_fd w3)
                  else Some (int (length bs), bs, sys_close P recv_fifo_fd w3)))"

definition SocketRecv ::
  "'s posix \<Rightarrow> addr option \<Rightarrow> bool \<Rightarrow> c_int \<Rightarrow> 's world \<Rightarrow> (int \<times> string \<times> 's world) option" where
  "SocketRecv P sockid has_buffer bufferLen w =
     (if sockid = None \<or> \<not> has_buffer \<or> sint bufferLen \<le> 0 then Some (- 1, [], w)
      else if state_of sockid w \<noteq> CONNECTED_SOCKET then Some (- 1, [], w)
      else recv_loop P sockid (nat (sint bufferLen)) w)"

end
