(* ===== verification/Read_Loops.thy ===== *)
theory Read_Loops imports Sim_Os Fifo_Utils begin

text \<open>
  The read loops of src/fifo_utils.c: they change nothing of the process but the system state, they
  return a message that is there in full, however the system cuts it up, and they go wrong on a
  message of which only a part is there.
\<close>

section \<open>What reading leaves alone\<close>

text \<open>
  The loops do nothing but \<open>read\<close>: a relation between states that every \<open>read\<close> respects holds between
  the begin and the end of a loop.
\<close>

locale read_relation =
  fixes P :: "'s posix"
    and R :: "'s world \<Rightarrow> 's world \<Rightarrow> bool"
  assumes refl: "R w w"
    and trans: "R w w1 \<Longrightarrow> R w1 w2 \<Longrightarrow> R w w2"
    and read: "sys_read P fd n w = (rd, w1) \<Longrightarrow> R w w1"
begin

lemma rest:
  assumes "read_rest P fd len acc n w = Some (r, bs, w')"
  shows "R w w'"
proof -
  have "(\<lambda>(((((Q, fd), len), acc), n), w) (r, bs, w'). Q = P \<longrightarrow> R w w')
      (((((P, fd), len), acc), n), w) (r, bs, w')"
  proof (rule read_rest.raw_induct [OF _ assms], goal_cases)
    case (1 f Q fd len acc n w y)
    have "R w (snd (snd y))" if Q: "Q = P"
    proof -
      obtain rd w1 where rd: "sys_read P fd n w = (rd, w1)" by fastforce
      note p1 = read [OF rd]
      consider "snd (snd y) = w" | "snd (snd y) = w1" | bs where "f Q fd len (acc @ bs) (n - length bs) w1 = Some y"
        using 1(2) rd Q by (auto split: if_splits read_outcome.splits)
      then show ?thesis
        using p1 refl trans [OF p1] 1(1) Q by cases (fastforce split: prod.splits)+
    qed
    then show ?case by (auto split: prod.splits)
  qed
  then show ?thesis by simp
qed

lemma entire: "read_entire_message P fd len w = Some (r, bs, w') \<Longrightarrow> R w w'"
  by (auto simp: read_entire_message_def intro: refl trans dest!: rest dest: read
      split: if_splits prod.splits read_outcome.splits)

lemma nonzero_entire:
  assumes "read_nonzero_entire_message P fd len w = Some (r, bs, w')"
  shows "R w w'"
proof -
  have "(\<lambda>(((Q, fd), len), w) (r, bs, w'). Q = P \<longrightarrow> R w w') (((P, fd), len), w) (r, bs, w')"
  proof (rule read_nonzero_entire_message.raw_induct [OF _ assms], goal_cases)
    case (1 f Q fd len w y)
    have "R w (snd (snd y))" if Q: "Q = P"
    proof -
      obtain r bs w1 where r: "read_entire_message P fd len w = Some (r, bs, w1)"
        using 1(2) Q by (auto split: option.splits)
      note p1 = entire [OF r]
      consider "snd (snd y) = w1" | "f Q fd len w1 = Some y" using 1(2) r Q by (auto split: if_splits)
      then show ?thesis using p1 trans [OF p1] 1(1) Q by cases (fastforce split: prod.splits)+
    qed
    then show ?case by (auto split: prod.splits)
  qed
  then show ?thesis by simp
qed

lemma until:
  assumes "read_until P fd stop acc w = Some (r, bs, w')"
  shows "R w w'"
proof -
  have "(\<lambda>((((Q, fd), stop), acc), w) (r, bs, w'). Q = P \<longrightarrow> R w w') ((((P, fd), stop), acc), w) (r, bs, w')"
  proof (rule read_until.raw_induct [OF _ assms], goal_cases)
    case (1 f Q fd stop acc w y)
    have "R w (snd (snd y))" if Q: "Q = P"
    proof -
      obtain rd w1 where rd: "sys_read P fd 1 w = (rd, w1)" by fastforce
      note p1 = read [OF rd]
      consider "snd (snd y) = w1" | c where "f Q fd stop (acc @ [c]) w1 = Some y"
        using 1(2) rd Q by (auto split: read_outcome.splits list.splits if_splits)
      then show ?thesis using p1 trans [OF p1] 1(1) Q by cases (fastforce split: prod.splits)+
    qed
    then show ?case by (auto split: prod.splits)
  qed
  then show ?thesis by simp
qed

lemma message_until: "read_message_until_char P fd stop w = Some (r, bs, w') \<Longrightarrow> R w w'"
  by (auto simp: read_message_until_char_def dest!: until split: option.splits if_splits)

lemma nonzero_message_until:
  assumes "read_nonzero_message_until_char P fd stop w = Some (r, bs, w')"
  shows "R w w'"
proof -
  have "(\<lambda>(((Q, fd), stop), w) (r, bs, w'). Q = P \<longrightarrow> R w w') (((P, fd), stop), w) (r, bs, w')"
  proof (rule read_nonzero_message_until_char.raw_induct [OF _ assms], goal_cases)
    case (1 f Q fd stop w y)
    have "R w (snd (snd y))" if Q: "Q = P"
    proof -
      obtain r bs w1 where r: "read_message_until_char P fd stop w = Some (r, bs, w1)"
        using 1(2) Q by (auto split: option.splits)
      note p1 = message_until [OF r]
      consider "snd (snd y) = w1" | "f Q fd stop w1 = Some y" using 1(2) r Q by (auto split: if_splits)
      then show ?thesis using p1 trans [OF p1] 1(1) Q by cases (fastforce split: prod.splits)+
    qed
    then show ?case by (auto split: prod.splits)
  qed
  then show ?thesis by simp
qed

end

text \<open>The process apart from the system state is such a relation, and so is what has been written.\<close>

interpretation same: read_relation P same_proc for P
  by unfold_locales (blast intro: same_proc_trans)+

definition reads_write_nothing :: "'s posix \<Rightarrow> ('s \<Rightarrow> string \<Rightarrow> string) \<Rightarrow> bool" where
  "reads_write_nothing P out \<longleftrightarrow> (\<forall>fd n s. out (snd (px_read P fd n s)) = out s)"

interpretation silent: read_relation P "\<lambda>w w'. reads_write_nothing P out \<longrightarrow> out (os w') = out (os w)" for P out
  by unfold_locales (auto simp: reads_write_nothing_def sys_read_def split: prod.splits, metis snd_conv)

lemmas read_rest_same_proc = same.rest
  and read_entire_message_same_proc [intro, dest] = same.entire
  and read_nonzero_entire_message_same_proc [intro, dest] = same.nonzero_entire
  and read_message_until_char_same_proc [intro, dest] = same.message_until
  and read_nonzero_message_until_char_same_proc [intro, dest] = same.nonzero_message_until

section \<open>What POSIX promises about reading\<close>

text \<open>
  \<open>pend s fd\<close> are the bytes that wait in the FIFO behind a descriptor.  A read takes some of them from
  the front, at least one and no more than asked for, and leaves the rest there.
\<close>

definition read_laws :: "'s posix \<Rightarrow> ('s \<Rightarrow> int \<Rightarrow> string) \<Rightarrow> bool" where
  "read_laws P pend \<longleftrightarrow>
     (\<forall>fd n s. n > 0 \<longrightarrow> pend s fd \<noteq> [] \<longrightarrow>
        (\<exists>k s'. px_read P fd n s = (Read (take k (pend s fd)), s') \<and> 1 \<le> k \<and> k \<le> n \<and> k \<le> length (pend s fd)
           \<and> pend s' fd = drop k (pend s fd)))"

lemma read_laws_read:
  assumes "read_laws P pend" and "n > 0" and "pend (os w) fd \<noteq> []"
  obtains k w1 where "sys_read P fd n w = (Read (take k (pend (os w) fd)), w1)" "1 \<le> k" "k \<le> n"
    "k \<le> length (pend (os w) fd)" "pend (os w1) fd = drop k (pend (os w) fd)"
proof -
  obtain k s' where "px_read P fd n (os w) = (Read (take k (pend (os w) fd)), s')" "1 \<le> k" "k \<le> n"
      "k \<le> length (pend (os w) fd)" "pend s' fd = drop k (pend (os w) fd)"
    using assms unfolding read_laws_def by blast
  then show thesis by (intro that [of k "w\<lparr>os := s'\<rparr>"]) (simp_all add: sys_read_def)
qed

lemma read_rest_complete:
  assumes "read_laws P pend" and "n \<le> length (pend (os w) fd)"
  shows "\<exists>w'. read_rest P fd len acc n w = Some (int len, acc @ take n (pend (os w) fd), w')
     \<and> pend (os w') fd = drop n (pend (os w) fd)"
  using assms(2)
proof (induction n arbitrary: acc w rule: less_induct)
  case (less n)
  show ?case
  proof (cases "n = 0")
    case True
    then show ?thesis by (subst read_rest.simps) simp
  next
    case False
    then have ne: "pend (os w) fd \<noteq> []" using less.prems by auto
    obtain k w1 where k: "sys_read P fd n w = (Read (take k (pend (os w) fd)), w1)" "1 \<le> k" "k \<le> n"
        "k \<le> length (pend (os w) fd)" "pend (os w1) fd = drop k (pend (os w) fd)"
      using read_laws_read [OF assms(1) _ ne, of n] False by auto
    have "n - k \<le> length (pend (os w1) fd)" using less.prems k by simp
    then obtain w' where w': "read_rest P fd len (acc @ take k (pend (os w) fd)) (n - k) w1
          = Some (int len, (acc @ take k (pend (os w) fd)) @ take (n - k) (pend (os w1) fd), w')"
        "pend (os w') fd = drop (n - k) (pend (os w1) fd)"
      using less.IH [of "n - k" w1 "acc @ take k (pend (os w) fd)"] k False by auto
    have "take k (pend (os w) fd) @ take (n - k) (pend (os w1) fd) = take n (pend (os w) fd)"
      using k by (metis take_add add_diff_inverse_nat not_less)
    moreover have "drop (n - k) (pend (os w1) fd) = drop n (pend (os w) fd)" using k by simp
    ultimately show ?thesis
      using w' k False by (subst read_rest.simps) (auto simp: min_def)
  qed
qed

lemma read_entire_message_complete:
  assumes "read_laws P pend" and "0 < len" and "len \<le> int (length (pend (os w) fd))"
  shows "\<exists>w'. read_entire_message P fd len w = Some (len, take (nat len) (pend (os w) fd), w')
     \<and> pend (os w') fd = drop (nat len) (pend (os w) fd)"
proof -
  have ne: "pend (os w) fd \<noteq> []" using assms by auto
  obtain k w1 where k: "sys_read P fd (nat len) w = (Read (take k (pend (os w) fd)), w1)" "1 \<le> k" "k \<le> nat len"
      "k \<le> length (pend (os w) fd)" "pend (os w1) fd = drop k (pend (os w) fd)"
    using read_laws_read [OF assms(1) _ ne, of "nat len"] assms(2) by auto
  have "nat len - k \<le> length (pend (os w1) fd)" using assms k by simp
  from read_rest_complete [OF assms(1) this, of "nat len" "take k (pend (os w) fd)"] obtain w' where
    w': "read_rest P fd (nat len) (take k (pend (os w) fd)) (nat len - k) w1
        = Some (int (nat len), take k (pend (os w) fd) @ take (nat len - k) (pend (os w1) fd), w')"
      "pend (os w') fd = drop (nat len - k) (pend (os w1) fd)" by blast
  have "take k (pend (os w) fd) @ take (nat len - k) (pend (os w1) fd) = take (nat len) (pend (os w) fd)"
    using k by (metis take_add add_diff_inverse_nat not_less)
  then show ?thesis
    using w' k assms(2) ne by (auto simp: read_entire_message_def min_def)
qed

lemma read_nonzero_entire_message_complete:
  assumes "read_laws P pend" and "0 < len" and "len \<le> int (length (pend (os w) fd))"
  shows "\<exists>w'. read_nonzero_entire_message P fd len w = Some (len, take (nat len) (pend (os w) fd), w')
     \<and> pend (os w') fd = drop (nat len) (pend (os w) fd)"
proof -
  obtain w' where "read_entire_message P fd len w = Some (len, take (nat len) (pend (os w) fd), w')"
      "pend (os w') fd = drop (nat len) (pend (os w) fd)"
    using read_entire_message_complete [OF assms] by blast
  then show ?thesis using assms(2) by (subst read_nonzero_entire_message.simps) simp
qed

lemma read_until_complete:
  assumes "read_laws P pend" and "pend (os w) fd = msg @ stop # rest" and "stop \<notin> set msg"
  shows "\<exists>w'. read_until P fd stop acc w = Some (Read [stop], acc @ msg @ [stop], w') \<and> pend (os w') fd = rest"
  using assms(2,3)
proof (induction msg arbitrary: acc w)
  case Nil
  obtain k w1 where "sys_read P fd 1 w = (Read (take k (pend (os w) fd)), w1)" "1 \<le> k" "k \<le> 1"
      "pend (os w1) fd = drop k (pend (os w) fd)"
    using read_laws_read [OF assms(1), of 1 w fd] Nil by auto
  then show ?case using Nil by (subst read_until.simps) simp
next
  case (Cons c msg)
  obtain k w1 where k: "sys_read P fd 1 w = (Read (take k (pend (os w) fd)), w1)" "1 \<le> k" "k \<le> 1"
      "pend (os w1) fd = drop k (pend (os w) fd)"
    using read_laws_read [OF assms(1), of 1 w fd] Cons by auto
  then have k1: "k = 1" by simp
  from Cons.IH [of w1 "acc @ [c]"] show ?case
    using k Cons.prems k1 by (subst read_until.simps) auto
qed

lemma read_message_until_char_complete:
  assumes "read_laws P pend" and "pend (os w) fd = msg @ stop # rest" and "stop \<notin> set msg"
  shows "\<exists>w'. read_message_until_char P fd stop w = Some (int (length msg) + 1, msg @ [stop], w')
     \<and> pend (os w') fd = rest"
  using read_until_complete [OF assms, of "[]"] by (auto simp: read_message_until_char_def)

text \<open>The operating system of \<open>sim_posix\<close> keeps this promise.\<close>

definition sim_pend :: "sim \<Rightarrow> int \<Rightarrow> string" where
  "sim_pend s fd = (case map_of (sim_files s) (sim_tgt s fd) of None \<Rightarrow> [] | Some c \<Rightarrow>
     (if map_of (sim_fds s) fd = None then [] else c))"

lemma sim_read_laws: "read_laws sim_posix sim_pend"
proof -
  have "\<exists>k s'. sim_read fd n s = (Read (take k (sim_pend s fd)), s') \<and> 1 \<le> k \<and> k \<le> n
      \<and> k \<le> length (sim_pend s fd) \<and> sim_pend s' fd = drop k (sim_pend s fd)"
    if "n > 0" "sim_pend s fd \<noteq> []" for fd n s
    using that
    by (intro exI [of _ "min n (length (sim_pend s fd))"])
      (auto simp: sim_pend_def sim_read_def sim_tgt_def Suc_le_eq min_def split: option.splits if_splits)
  then show ?thesis by (simp add: read_laws_def sim_posix_def)
qed

section \<open>Properties\<close>

text \<open>
  C36. A message that is there in full is read in full: when at least \<open>len\<close> bytes wait behind the
  descriptor, \<open>read_entire_message\<close> returns, with exactly the first \<open>len\<close> of them, however small the pieces
  are in which the system hands them out, and leaves the rest.
\<close>

theorem message_read_in_full:
  assumes "read_laws P pend" and "0 < len" and "len \<le> int (length (pend (os w) fd))"
  shows "\<exists>w'. read_entire_message P fd len w = Some (len, take (nat len) (pend (os w) fd), w')
     \<and> pend (os w') fd = drop (nat len) (pend (os w) fd) \<and> same_proc w w'"
  using read_entire_message_complete [OF assms] by blast

text \<open>A process with five bytes waiting at descriptor 3.\<close>

definition waiting_world :: "string \<Rightarrow> sim world" where
  "waiting_world bs = (sim_world [])\<lparr>os := sim_boot\<lparr>sim_files := [(''f'', bs)], sim_fds := [(3, ''f'')]\<rparr>\<rparr>"

lemma waiting_pend: "sim_pend (os (waiting_world bs)) 3 = bs"
  by (simp add: waiting_world_def sim_pend_def sim_tgt_def)

lemma message_read_in_full_witness:
  "\<exists>w'. read_entire_message sim_posix 3 4 (waiting_world ''hello'') = Some (4, ''hell'', w')
     \<and> sim_pend (os w') 3 = ''o'' \<and> same_proc (waiting_world ''hello'') w'"
  using message_read_in_full [OF sim_read_laws, of 4 "waiting_world ''hello''" 3] by (simp add: waiting_pend)

text \<open>
  Half a message is lost: when fewer bytes wait than asked for and the system then reports that
  nothing is there for now, \<open>read_entire_message\<close> returns 0, as if no message had begun, and the bytes
  are gone from the FIFO; the rest of the message will be taken for the begin of another.
\<close>

theorem half_message_is_lost:
  assumes "read_laws P pend"
    and "\<And>s n. pend s fd = [] \<Longrightarrow> \<exists>s'. px_read P fd n s = (Read_again, s') \<and> pend s' fd = []"
    and "pend (os w) fd \<noteq> []" and "int (length (pend (os w) fd)) < len"
  shows "\<exists>bs w'. read_entire_message P fd len w = Some (0, bs, w') \<and> pend (os w') fd = []"
proof -
  have rest: "\<exists>bs w'. read_rest P fd m acc n w = Some (0, bs, w') \<and> pend (os w') fd = []"
    if "length (pend (os w) fd) < n" for m acc n w
    using that
  proof (induction n arbitrary: acc w rule: less_induct)
    case (less n)
    then have n: "n \<noteq> 0" by auto
    show ?case
    proof (cases "pend (os w) fd = []")
      case True
      then obtain s' where "px_read P fd n (os w) = (Read_again, s')" "pend s' fd = []" using assms(2) by blast
      then show ?thesis using n by (subst read_rest.simps) (simp add: sys_read_def)
    next
      case False
      then obtain k w1 where k: "sys_read P fd n w = (Read (take k (pend (os w) fd)), w1)" "1 \<le> k" "k \<le> n"
          "k \<le> length (pend (os w) fd)" "pend (os w1) fd = drop k (pend (os w) fd)"
        using read_laws_read [OF assms(1) _ False, of n] n by auto
      then have "length (pend (os w1) fd) < n - k" using less.prems by simp
      then show ?thesis
        using less.IH [of "n - k" w1 "acc @ take k (pend (os w) fd)"] k n
        by (subst read_rest.simps) (auto simp: min_def)
    qed
  qed
  obtain k w1 where k: "sys_read P fd (nat len) w = (Read (take k (pend (os w) fd)), w1)" "1 \<le> k" "k \<le> nat len"
      "k \<le> length (pend (os w) fd)" "pend (os w1) fd = drop k (pend (os w) fd)"
    using read_laws_read [OF assms(1) _ assms(3), of "nat len"] assms(4) by auto
  then have "length (pend (os w1) fd) < nat len - k" using assms(4) by auto
  from rest [OF this, of "nat len" "take k (pend (os w) fd)"] show ?thesis
    using k assms(3,4) by (auto simp: read_entire_message_def min_def)
qed

text \<open>A system that answers a read of an empty FIFO in one way.\<close>

definition idle_posix :: "read_outcome \<Rightarrow> sim posix" where
  "idle_posix r = sim_posix\<lparr>px_read := \<lambda>fd n s. if sim_pend s fd = [] then (r, s) else sim_read fd n s\<rparr>"

lemma idle_read_laws: "read_laws (idle_posix r) sim_pend"
  using sim_read_laws by (auto simp: read_laws_def sim_posix_def idle_posix_def)

lemma half_message_is_lost_witness:
  "\<exists>bs w'. read_entire_message (idle_posix Read_again) 3 10 (waiting_world ''hello'') = Some (0, bs, w')
     \<and> sim_pend (os w') 3 = []"
  by (rule half_message_is_lost [OF idle_read_laws]) (simp_all add: waiting_pend idle_posix_def)

text \<open>
  Half a message at the end of the file blocks: when fewer bytes wait than asked for and the writer
  has closed its end, so that every further read returns nothing, \<open>read_entire_message\<close> never
  returns.
\<close>

lemma half_message_at_end_blocks:
  assumes "read_laws P pend"
    and "\<And>s n. pend s fd = [] \<Longrightarrow> \<exists>s'. px_read P fd n s = (Read [], s') \<and> pend s' fd = []"
    and "pend (os w) fd \<noteq> []" and "int (length (pend (os w) fd)) < len"
  shows "read_entire_message P fd len w = None"
proof -
  have rest: "read_rest P fd m acc n w = None" if "length (pend (os w) fd) < n" for m acc n w
  proof (rule ccontr)
    assume "read_rest P fd m acc n w \<noteq> None"
    then obtain y where y: "read_rest P fd m acc n w = Some y" by blast
    have "(\<lambda>(((((P', fd'), m), acc), n), w) y. P' = P \<longrightarrow> fd' = fd \<longrightarrow> n \<le> length (pend (os w) fd))
        (((((P, fd), m), acc), n), w) y"
    proof (rule read_rest.raw_induct [OF _ y], goal_cases)
      case (1 f P' fd' m acc n w y)
      have False if P': "P' = P" "fd' = fd" and n: "length (pend (os w) fd) < n"
      proof (cases "pend (os w) fd = []")
        case True
        then obtain s' where s': "px_read P fd n (os w) = (Read [], s')" "pend s' fd = []" using assms(2) by blast
        then have "f P fd m acc n (w\<lparr>os := s'\<rparr>) = Some y" using 1(2) n P' by (simp add: sys_read_def)
        from 1(1) [OF this] show False using s' n by simp
      next
        case False
        then obtain k w1 where k: "sys_read P fd n w = (Read (take k (pend (os w) fd)), w1)" "1 \<le> k" "k \<le> n"
            "k \<le> length (pend (os w) fd)" "pend (os w1) fd = drop k (pend (os w) fd)"
          using read_laws_read [OF assms(1) _ False, of n] n by auto
        then have "f P fd m (acc @ take k (pend (os w) fd)) (n - k) w1 = Some y"
          using 1(2) n P' by (simp add: min_absorb2)
        from 1(1) [OF this] show False using k n by auto
      qed
      then show ?case by (auto simp: not_less [symmetric])
    qed
    then show False using that by simp
  qed
  obtain k w1 where k: "sys_read P fd (nat len) w = (Read (take k (pend (os w) fd)), w1)" "1 \<le> k" "k \<le> nat len"
      "k \<le> length (pend (os w) fd)" "pend (os w1) fd = drop k (pend (os w) fd)"
    using read_laws_read [OF assms(1) _ assms(3), of "nat len"] assms(4) by auto
  then have "length (pend (os w1) fd) < nat len - k" using assms(4) by auto
  from rest [OF this, of "nat len" "take k (pend (os w) fd)"] show ?thesis
    using k assms(3,4) by (auto simp: read_entire_message_def min_def)
qed

lemma half_message_at_end_blocks_witness:
  "read_entire_message (idle_posix (Read [])) 3 10 (waiting_world ''hello'') = None"
  by (rule half_message_at_end_blocks [OF idle_read_laws]) (simp_all add: waiting_pend idle_posix_def)

end
