(* ===== verification/Client_Protocol.thy ===== *)
theory Client_Protocol imports Client_Api Cooperative_Os Read_Loops begin

text \<open>
  What client and manager promise each other: the requests a client writes are the ones the manager
  reads, both sides name their FIFOs alike, calls on a socket in the wrong state are refused, and
  which waits of the client end.
\<close>

section \<open>The texts of the requests\<close>

lemma scanned_int_sint [simp]: "scanned_int (sint (x :: c_int)) = x"
  using sint_bounds_32 [of x] by (simp add: scanned_int_def)

lemma scan_printed:
  assumes "rest = [] \<or> \<not> is_digit (hd rest)"
  shows "scan_d (fmt_d (sint (x :: c_int)) @ rest) = Some (sint x, rest)"
  using scan_fmt_d [OF assms] .

lemma underscore_not_digit [simp]: "\<not> is_digit (CHR ''_'')"
  by (simp add: is_digit_def)

lemma bind_request_scanned:
  "scan_bind_request (bind_request_text port_number pid socket_count) = Some (port_number, pid, socket_count)"
proof -
  have 1: "scan_d (fmt_d (sint port_number) @ ''_'' @ fmt_d (sint pid) @ ''_'' @ fmt_d (sint socket_count))
      = Some (sint port_number, ''_'' @ fmt_d (sint pid) @ ''_'' @ fmt_d (sint socket_count))"
    by (rule scan_printed) simp
  have 2: "scan_d (fmt_d (sint pid) @ ''_'' @ fmt_d (sint socket_count))
      = Some (sint pid, ''_'' @ fmt_d (sint socket_count))"
    by (rule scan_printed) simp
  have 3: "scan_d (fmt_d (sint socket_count)) = Some (sint socket_count, [])"
    using scan_printed [of "[]" socket_count] by simp
  show ?thesis
    using 1 2 3 by (simp add: scan_bind_request_def bind_request_text_def scan_lit_def)
qed

text \<open>
  The bind request that a client writes is the one the manager reads: for every port, process
  number and counter the manager scans exactly the three numbers out of the text.
\<close>

theorem bind_request_roundtrip:
  "scan_bind_request (bind_request_text port_number pid socket_count) = Some (port_number, pid, socket_count)"
  by (rule bind_request_scanned)

text \<open>A printed address: what \<open>%s\<close> reads as one word and no underscore cuts.\<close>

definition plain_text :: "string \<Rightarrow> bool" where
  "plain_text s \<longleftrightarrow> s \<noteq> [] \<and> (\<forall>c \<in> set s. \<not> is_space c \<and> c \<noteq> CHR ''_'' \<and> c \<noteq> NUL)"

lemma scan_word_plain:
  assumes s: "plain_text s"
  shows "scan_word s = Some (s, [])"
proof -
  have d: "dropWhile is_space s = s" using s by (cases s) (auto simp: plain_text_def)
  have k: "takeWhile (\<lambda>c. \<not> is_space c) s = s" using s by (auto simp: plain_text_def)
  show ?thesis unfolding scan_word_def d Let_def k using s by (simp add: plain_text_def)
qed

lemma connect_request_parsed:
  assumes "plain_text ip"
  shows "parse_connect_request (connect_request_text ip port_number) = Some (ip, port_number)"
proof -
  have t: "takeWhile (\<lambda>c. c \<noteq> CHR ''_'') (ip @ CHR ''_'' # u) = ip" for u
    using assms by (subst takeWhile_append2) (auto simp: plain_text_def)
  have "scan_d (fmt_d (sint port_number)) = Some (sint port_number, [])"
    using scan_printed [of "[]" port_number] by simp
  then show ?thesis
    using t scan_word_plain [OF assms] by (simp add: parse_connect_request_def connect_request_text_def Let_def)
qed

section \<open>Sockets in the wrong state\<close>

text \<open>
  C37. Calls in the wrong state are refused without any effect: binding needs an empty socket;
  listening, connecting and accepting a bound one; sending and receiving a connected one.  The
  process, its FIFOs included, is as before.
\<close>

theorem wrong_state_is_refused:
  "(state_of k w \<noteq> EMPTY_SOCKET \<longrightarrow> SocketBind P k a n w = Some (INVALID_ARGUMENT, n, w))
 \<and> (state_of k w \<noteq> BOUND_ONLY_SOCKET \<longrightarrow> SocketListen P k q w = Some (INVALID_ARGUMENT, w)
      \<and> SocketConnect P k a w = Some (INVALID_ARGUMENT, w) \<and> SocketAccept P k w = Some (None, w))
 \<and> (state_of k w \<noteq> CONNECTED_SOCKET \<longrightarrow> SocketSend P k m l w = (- 1, w)
      \<and> SocketRecv P k b l w = Some (- 1, [], w))"
  by (auto simp: SocketBind_def SocketListen_def SocketConnect_def SocketAccept_def SocketSend_def
      SocketRecv_def split: option.splits)

lemma wrong_state_is_refused_witness:
  "SocketListen sim_posix (Some 0) 5 example_world = Some (INVALID_ARGUMENT, example_world)
 \<and> SocketBind sim_posix (Some 0) None 0 example_world = Some (INVALID_ARGUMENT, 0, example_world)
 \<and> SocketRecv sim_posix None True 9 example_world = Some (- 1, [], example_world)"
proof -
  have "state_of (Some 0) example_world = CONNECTED_SOCKET"
    by (simp add: state_of_def example_world_def sim_world_def id_at_def example_ids_def get_socket_state_def
        is_socket_connected_def is_empty_ip_def ip_cells_def EMPTY_PORT_def nth_append)
  moreover have "state_of None example_world = INVALID_SOCKET" by (simp add: state_of_def get_socket_state_def)
  ultimately show ?thesis
    using wrong_state_is_refused [of "Some 0" example_world sim_posix None 0 5 None 0 True]
      wrong_state_is_refused [of None example_world sim_posix None 0 5 None 9 True] by simp
qed

section \<open>Waiting for an answer\<close>

text \<open>A clock that never stands still, and a manager that never answers.\<close>

definition clock_runs :: "'s posix \<Rightarrow> ('s \<Rightarrow> int) \<Rightarrow> bool" where
  "clock_runs P now \<longleftrightarrow> (\<forall>s. fst (px_clock P s) = now s \<and> now s < now (snd (px_clock P s)))
     \<and> (\<forall>fd n s. now s \<le> now (snd (px_read P fd n s))) \<and> (\<forall>n m s. now s \<le> now (snd (px_open P n m s)))"

definition silent :: "'s posix \<Rightarrow> bool" where
  "silent P \<longleftrightarrow> (\<forall>fd n s. \<not> px_read_waits P fd s \<and> fst (px_read P fd n s) \<in> {Read_again, Read []})"

text \<open>
  Whether opening one end of a FIFO waits for ever: it does when nobody opens the other end, and does not when
  somebody has it open.
\<close>

definition opens_wait :: "'s posix \<Rightarrow> bool \<Rightarrow> bool" where
  "opens_wait P b \<longleftrightarrow> (\<forall>n s. px_open_waits P n O_RDONLY s = b \<and> px_open_waits P n O_WRONLY s = b)"

lemma opens_wait_calls:
  "opens_wait P b \<Longrightarrow> open_waits P n O_RDONLY w = b" "opens_wait P b \<Longrightarrow> open_waits P n O_WRONLY w = b"
  by (simp_all add: opens_wait_def open_waits_def)

lemma silent_read_waits: "silent P \<Longrightarrow> \<not> read_waits P fd w"
  by (simp add: silent_def read_waits_def)

lemma clock_calls:
  assumes "clock_runs P now"
  shows "sys_clock P w = (t, w') \<Longrightarrow> t = now (os w) \<and> now (os w) < now (os w')"
    and "sys_read P fd n w = (r, w') \<Longrightarrow> now (os w) \<le> now (os w')"
    and "sys_open P nm m w = (x, w') \<Longrightarrow> now (os w) \<le> now (os w')"
  using assms by (auto simp: clock_runs_def sys_clock_def sys_read_def sys_open_def split: prod.splits)
    (metis fst_conv snd_conv)+

lemma silent_read:
  assumes "silent P"
  obtains r w1 where "sys_read P fd n w = (r, w1)" "r = Read_again \<or> r = Read []"
proof -
  obtain r w1 where r: "sys_read P fd n w = (r, w1)" by fastforce
  have "fst (px_read P fd n (os w)) \<in> {Read_again, Read []}" using assms unfolding silent_def by blast
  moreover have "r = fst (px_read P fd n (os w))" using r by (simp add: sys_read_def split: prod.splits)
  ultimately show thesis using that [OF r] by blast
qed

lemma silent_read_entire:
  assumes "silent P" and "0 \<le> len"
  obtains w1 r where "read_entire_message P fd len w = Some (0, [], w1)" "sys_read P fd (nat len) w = (r, w1)"
proof -
  obtain r w1 where "sys_read P fd (nat len) w = (r, w1)" "r = Read_again \<or> r = Read []"
    using silent_read [OF assms(1)] by blast
  then show thesis using assms(2) by (intro that) (auto simp: read_entire_message_def)
qed

lemma silent_read_message:
  assumes "silent P"
  obtains w1 r where "read_message_until_char P fd stop w = Some (0, [], w1)" "sys_read P fd 1 w = (r, w1)"
proof -
  obtain r w1 where r: "sys_read P fd 1 w = (r, w1)" "r = Read_again \<or> r = Read []"
    using silent_read [OF assms] by blast
  then have "read_until P fd stop [] w = Some (r, [], w1)" by (subst read_until.simps) auto
  then show thesis using r by (intro that) (auto simp: read_message_until_char_def)
qed

lemma DIFF2SEC_timeout: "\<not> DIFF2SEC_gt (t - start) SOCKET_TIMEOUT \<longleftrightarrow> t - start \<le> 10000000"
  by (auto simp: DIFF2SEC_gt_def SOCKET_TIMEOUT_def CLOCKS_PER_SEC_def)

lemma silent_wait_times_out:
  assumes C: "clock_runs P now" and S: "silent P"
  shows "\<exists>w'. await_answer P fd start finish w = Some (Inl TIMED_OUT, finish w')"
proof (induction "nat (start + 10000001 - now (os w))" arbitrary: w rule: less_induct)
  case less
  obtain w1 r where r: "read_entire_message P fd 1 w = Some (0, [], w1)" "sys_read P fd (nat 1) w = (r, w1)"
    using silent_read_entire [OF S, where len = 1 and fd = fd and w = w] by (metis zero_le_one)
  obtain t w2 where t: "sys_clock P w1 = (t, w2)" by fastforce
  note K = clock_calls(1) [OF C t] clock_calls(2) [OF C r(2)]
  show ?case
  proof (cases "DIFF2SEC_gt (t - start) SOCKET_TIMEOUT")
    case True
    then show ?thesis using r t silent_read_waits [OF S] by (subst await_answer.simps) auto
  next
    case False
    then have "t - start \<le> 10000000" by (simp only: DIFF2SEC_timeout)
    then have "nat (start + 10000001 - now (os w2)) < nat (start + 10000001 - now (os w))" using K by linarith
    from less [OF this] show ?thesis using r t False silent_read_waits [OF S] by (subst await_answer.simps) simp
  qed
qed

lemma silent_accept_times_out:
  assumes C: "clock_runs P now" and S: "silent P"
  shows "\<exists>w'. await_connection P nm start fd w = Some (None, w')"
proof (induction "nat (start + 10000001 - now (os w))" arbitrary: fd w rule: less_induct)
  case less
  obtain t w1 where t: "sys_clock P w = (t, w1)" by fastforce
  note K = clock_calls(1) [OF C t]
  show ?case
  proof (cases "DIFF2SEC_gt (t - start) SOCKET_TIMEOUT")
    case True
    then show ?thesis using t by (subst await_connection.simps) simp
  next
    case False
    then have le: "t - start \<le> 10000000" by (simp only: DIFF2SEC_timeout)
    show ?thesis
    proof (cases "fd = - 1")
      case True
      obtain fd' w2 where o: "sys_open P nm O_RDONLY_NONBLOCK w1 = (fd', w2)" by fastforce
      have "nat (start + 10000001 - now (os w2)) < nat (start + 10000001 - now (os w))"
        using K le clock_calls(3) [OF C o] by linarith
      from less [OF this] show ?thesis using t o True False by (subst await_connection.simps) simp
    next
      case fd: False
      obtain w2 r where r: "read_message_until_char P fd NUL w1 = Some (0, [], w2)" "sys_read P fd 1 w1 = (r, w2)"
        by (rule silent_read_message [OF S])
      have "nat (start + 10000001 - now (os w2)) < nat (start + 10000001 - now (os w))"
        using K le clock_calls(2) [OF C r(2)] by linarith
      from less [OF this] show ?thesis using t r fd False by (subst await_connection.simps) simp
    qed
  qed
qed

lemma silent_bind_waits:
  assumes S: "silent P"
  shows "await_bind_answer P nm fd w = None"
proof (rule ccontr)
  assume "await_bind_answer P nm fd w \<noteq> None"
  then obtain y where y: "await_bind_answer P nm fd w = Some y" by blast
  have "(\<lambda>(((P', nm), fd), w) y. P' \<noteq> P) (((P, nm), fd), w) y"
  proof (rule await_bind_answer.raw_induct [OF _ y], goal_cases)
    case (1 f P' nm fd w y)
    have False if "P' = P"
    proof -
      obtain w1 r where r: "read_entire_message P fd 1 w = Some (0, [], w1)" "sys_read P fd (nat 1) w = (r, w1)"
        using silent_read_entire [OF S, where len = 1 and fd = fd and w = w] by (metis zero_le_one)
      then have "f P nm fd w1 = Some y" using 1(2) that by simp
      from 1(1) [OF this] show False by simp
    qed
    then show ?case by auto
  qed
  then show False by simp
qed

lemma mkfifo_both_resourceful:
  assumes P: "resourceful P" and m: "mkfifo_both P a b w = (r, w')"
  shows r
proof -
  obtain r1 w1 where 1: "sys_mkfifo P a w = (r1, w1)" by fastforce
  obtain r2 w2 where 2: "sys_mkfifo P b w1 = (r2, w2)" by fastforce
  show ?thesis
    using m 1 2 resourceful_calls(3) [OF P 1] resourceful_calls(3) [OF P 2] by (simp add: mkfifo_both_def)
qed

lemma calls_time_out:
  assumes "resourceful P" and "fifos_open P" and "silent P" and "clock_runs P now" and "opens_wait P False"
    and "state_of (Some k) w = BOUND_ONLY_SOCKET" and "0 \<le> q" and "q \<le> 100" and "addr a = Some ip" and "ip \<noteq> []"
  shows "\<exists>w'. SocketListen P (Some k) q w = Some (TIMED_OUT, w')"
    and "\<exists>w'. SocketConnect P (Some k) (Some a) w = Some (TIMED_OUT, w')"
proof -
  note N = resourceful_socket_name [OF assms(1)] and O = fifos_open_calls [OF assms(2)]
    and wait = opens_wait_calls [OF assms(5)]
  show "\<exists>w'. SocketListen P (Some k) q w = Some (TIMED_OUT, w')"
  proof -
    obtain n1 w1 where 1: "get_listen_fifo_write_end_name P (Some k) w = (n1, w1)" by fastforce
    obtain n2 w2 where 2: "get_listen_fifo_read_end_name P (Some k) w1 = (n2, w2)" by fastforce
    obtain x y where xy: "n1 = Some x" "n2 = Some y"
      using N [OF 1 [unfolded socket_name_defs]] N [OF 2 [unfolded socket_name_defs]] by blast
    obtain m w3 where 3: "mkfifo_both P x y w2 = (m, w3)" by fastforce
    obtain f4 w4 where 4: "sys_open P y O_RDONLY w3 = (f4, w4)" by fastforce
    obtain f5 w5 where 5: "sys_open P x O_WRONLY w4 = (f5, w5)" by fastforce
    obtain r6 w6 where 6: "sys_write P f5 [char_of (nat q)] w5 = (r6, w6)" by fastforce
    obtain t w7 where 7: "sys_clock P (sys_close P f5 w6) = (t, w7)" by fastforce
    show ?thesis
      using silent_wait_times_out [OF assms(4,3), of f4 t
          "\<lambda>w. unlink_name P x (unlink_name P y (sys_close P f4 w))" w7]
        assms(6-8) wait 1 2 xy 3 4 5 6 7 mkfifo_both_resourceful [OF assms(1) 3] O(1) [OF 4] O(1) [OF 5] O(2) [OF 6]
      by (auto simp: SocketListen_def)
  qed
  show "\<exists>w'. SocketConnect P (Some k) (Some a) w = Some (TIMED_OUT, w')"
  proof -
    obtain n1 w1 where 1: "get_connect_fifo_write_end_name P (Some k) w = (n1, w1)" by fastforce
    obtain n2 w2 where 2: "get_connect_fifo_read_end_name P (Some k) w1 = (n2, w2)" by fastforce
    obtain x y where xy: "n1 = Some x" "n2 = Some y"
      using N [OF 1 [unfolded socket_name_defs]] N [OF 2 [unfolded socket_name_defs]] by blast
    obtain m w3 where 3: "mkfifo_both P x y w2 = (m, w3)" by fastforce
    obtain f4 w4 where 4: "sys_open P y O_RDONLY w3 = (f4, w4)" by fastforce
    obtain f5 w5 where 5: "sys_open P x O_WRONLY w4 = (f5, w5)" by fastforce
    let ?m = "connect_request_text ip (port a)"
    define w6 where "w6 = (if length ?m + 2 \<le> MAX_SOCKET_STRING_REPR_SIZE then w5 else set_ub w5)"
    obtain r7 w7 where 7: "sys_write P f5 (?m @ [NUL]) w6 = (r7, w7)" by fastforce
    obtain t w8 where 8: "sys_clock P w7 = (t, w8)" by fastforce
    have len: "\<not> length ?m + 1 < 3" using assms(10) by (cases ip) (simp_all add: connect_request_text_def)
    have r7: "r7 \<noteq> - 1" using O(2) [OF 7] by simp
    obtain w' where w': "await_answer P f4 t (\<lambda>w. unlink_name P x (sys_close P f5
        (unlink_name P y (sys_close P f4 w)))) w8 = Some (Inl TIMED_OUT, w')"
      using silent_wait_times_out [OF assms(4,3)] by blast
    have "SocketConnect P (Some k) (Some a) w = Some (TIMED_OUT, w')"
      using w' assms(6,9) wait 1 2 xy 3 4 5 7 8 len r7 mkfifo_both_resourceful [OF assms(1) 3] O(1) [OF 4] O(1) [OF 5]
      by (cases "length ?m + 2 \<le> MAX_SOCKET_STRING_REPR_SIZE") (simp_all add: SocketConnect_def Let_def w6_def)
    then show ?thesis ..
  qed
qed

lemma listen_and_connect_wait:
  assumes P: "resourceful P" and O: "opens_wait P True"
    and s: "state_of (Some k) w = BOUND_ONLY_SOCKET" and q: "0 \<le> q" "q \<le> 100" and a: "addr a = Some ip"
  shows "SocketListen P (Some k) q w = None" and "SocketConnect P (Some k) (Some a) w = None"
proof -
  note N = resourceful_socket_name [OF P]
  obtain n1 w1 where 1: "get_listen_fifo_write_end_name P (Some k) w = (n1, w1)" by fastforce
  obtain n2 w2 where 2: "get_listen_fifo_read_end_name P (Some k) w1 = (n2, w2)" by fastforce
  obtain x y where xy: "n1 = Some x" "n2 = Some y"
    using N [OF 1 [unfolded socket_name_defs]] N [OF 2 [unfolded socket_name_defs]] by blast
  obtain m w3 where 3: "mkfifo_both P x y w2 = (m, w3)" by fastforce
  show "SocketListen P (Some k) q w = None"
    using s q 1 2 xy 3 mkfifo_both_resourceful [OF P 3] opens_wait_calls(1) [OF O] by (simp add: SocketListen_def)
  obtain n1' v1 where 1: "get_connect_fifo_write_end_name P (Some k) w = (n1', v1)" by fastforce
  obtain n2' v2 where 2: "get_connect_fifo_read_end_name P (Some k) v1 = (n2', v2)" by fastforce
  obtain x y where xy: "n1' = Some x" "n2' = Some y"
    using N [OF 1 [unfolded socket_name_defs]] N [OF 2 [unfolded socket_name_defs]] by blast
  obtain m v3 where 3: "mkfifo_both P x y v2 = (m, v3)" by fastforce
  show "SocketConnect P (Some k) (Some a) w = None"
    using s a 1 2 xy 3 mkfifo_both_resourceful [OF P 3] opens_wait_calls(1) [OF O] by (simp add: SocketConnect_def)
qed

text \<open>
  C32. The client gives up, once it is heard.  Memory does not run out, FIFOs can be made and opened, every read
  comes back at once without a byte (the manager has opened the FIFOs of the request and closed them again without an
  answer), and the clock of the process goes on.  Then \<open>SocketListen\<close> and \<open>SocketConnect\<close> on a bound socket report that
  the request timed out when somebody opens the other ends of their FIFOs.  When nobody does they never return: they open
  the FIFOs before they look at the clock for the first time, so that without a manager the limit of time is worth
  nothing.  \<open>SocketAccept\<close>, which does not wait in \<open>open\<close>, reports that there is no connection in either case.
\<close>

theorem waiting_calls_time_out:
  assumes "resourceful P" and "fifos_open P" and "silent P" and "clock_runs P now" and "opens_wait P nobody"
    and "state_of (Some k) w = BOUND_ONLY_SOCKET" and "0 \<le> q" and "q \<le> 100" and "addr a = Some ip" and "ip \<noteq> []"
  shows "(if nobody then SocketListen P (Some k) q w = None \<and> SocketConnect P (Some k) (Some a) w = None
      else (\<exists>w'. SocketListen P (Some k) q w = Some (TIMED_OUT, w'))
        \<and> (\<exists>w'. SocketConnect P (Some k) (Some a) w = Some (TIMED_OUT, w')))
    \<and> (\<exists>w'. SocketAccept P (Some k) w = Some (None, w'))"
proof (intro conjI)
  have "\<exists>w'. SocketListen P (Some k) q w = Some (TIMED_OUT, w')"
    and "\<exists>w'. SocketConnect P (Some k) (Some a) w = Some (TIMED_OUT, w')" if "\<not> nobody"
    using calls_time_out [OF assms(1-4) _ assms(6-10)] assms(5) that by simp_all
  then show "if nobody then SocketListen P (Some k) q w = None \<and> SocketConnect P (Some k) (Some a) w = None
      else (\<exists>w'. SocketListen P (Some k) q w = Some (TIMED_OUT, w'))
        \<and> (\<exists>w'. SocketConnect P (Some k) (Some a) w = Some (TIMED_OUT, w'))"
    using listen_and_connect_wait [OF assms(1) _ assms(6-9)] assms(5) by (cases nobody) simp_all
  obtain n1 w1 where 1: "get_accept_fifo_write_end_name P (Some k) w = (n1, w1)" by fastforce
  obtain x where x: "n1 = Some x" using resourceful_socket_name [OF assms(1) 1 [unfolded socket_name_defs]] by blast
  obtain t w2 where 2: "sys_clock P w1 = (t, w2)" by fastforce
  show "\<exists>w'. SocketAccept P (Some k) w = Some (None, w')"
    using silent_accept_times_out [OF assms(4,3), of x t "- 1" w2] assms(6) 1 x 2 by (auto simp: SocketAccept_def)
qed

text \<open>
  \<open>SocketBind\<close> has no such limit: when the request can be sent and the manager never answers, the
  call never returns.
\<close>

theorem bind_waits_for_ever:
  assumes "resourceful P" and "fifos_open P" and "silent P"
    and "state_of (Some k) w = EMPTY_SOCKET" and "addr a = Some ip"
  shows "SocketBind P (Some k) (Some a) n w = None"
proof -
  note O = fifos_open_calls [OF assms(2)]
  obtain n1 w1 where 1: "get_bind_requests_fifo_name P ip w = (n1, w1)" by fastforce
  obtain n2 w2 where 2: "get_client_fifo_name P (px_getpid P (os w1)) (n + 1) w1 = (n2, w2)" by fastforce
  obtain x y where xy: "n1 = Some x" "n2 = Some y"
    using resourceful_name [OF assms(1) 1 [unfolded get_bind_requests_fifo_name_def]]
      resourceful_client_name [OF assms(1) 2] by blast
  obtain f3 w3 where 3: "sys_open P x O_WRONLY w2 = (f3, w3)" by fastforce
  obtain m w4 where 4: "sys_mkfifo P y w3 = (m, w4)" by fastforce
  obtain f5 w5 where 5: "sys_open P y O_RDONLY_NONBLOCK w4 = (f5, w5)" by fastforce
  obtain r6 w6 where 6: "sys_write P f3 (bind_request_text (port a) (px_getpid P (os w1)) (n + 1) @ [NUL]) w5 = (r6, w6)"
    by fastforce
  have r6: "r6 \<noteq> - 1" using O(2) [OF 6] by simp
  show ?thesis
    using assms(4,5) 1 2 xy 3 4 5 6 r6 resourceful_calls(3) [OF assms(1) 4] O(1) [OF 3] O(1) [OF 5]
      silent_bind_waits [OF assms(3)]
    by (simp add: SocketBind_def Let_def)
qed

text \<open>A system without an answering manager, and a client with one socket.\<close>

definition mute_posix :: "sim posix" where
  "mute_posix = kind_posix\<lparr>px_read := \<lambda>fd n s. (Read_again, s)\<rparr>"

definition client_world :: "sockid \<Rightarrow> sim world" where
  "client_world i = (sim_world [])\<lparr>ids := [0 \<mapsto> i], next_addr := 1\<rparr>"

definition bound_id :: sockid where
  "bound_id = \<lparr>src_port = 80, dst_port = 0, src_ip = ip_cells (CHR ''1''), dst_ip = ip_cells (CHR ''e'')\<rparr>"

definition empty_id :: sockid where
  "empty_id = \<lparr>src_port = 0, dst_port = 0, src_ip = ip_cells (CHR ''e''), dst_ip = ip_cells (CHR ''e'')\<rparr>"

lemma client_ids:
  "id_at (client_world i) 0 = i" "ids (client_world i) 0 = Some i"
  "state_of (Some 0) (client_world bound_id) = BOUND_ONLY_SOCKET"
  "state_of (Some 0) (client_world empty_id) = EMPTY_SOCKET"
  by (simp_all add: client_world_def id_at_def state_of_def get_socket_state_def bound_id_def empty_id_def
      is_socket_connected_def is_socket_bound_only_def is_socket_empty_def is_empty_ip_def ip_cells_def
      EMPTY_PORT_def nth_append)

lemma mute_posix: "resourceful mute_posix" "fifos_open mute_posix" "silent mute_posix" "clock_runs mute_posix sim_clock"
  using kind_posix(1,2)
  by (simp_all add: resourceful_def fifos_open_def silent_def clock_runs_def mute_posix_def)
    (simp_all add: kind_posix_def open_posix_def sim_posix_def CLOCKS_PER_SEC_def)

lemma mute_posix_opens: "opens_wait mute_posix False"
  by (simp add: opens_wait_def mute_posix_def kind_posix_def open_posix_def sim_posix_def)

text \<open>The same without a manager.\<close>

definition lonely_posix :: "sim posix" where
  "lonely_posix = mute_posix\<lparr>px_open_waits := \<lambda>name mode s. True\<rparr>"

lemma lonely_posix: "resourceful lonely_posix" "fifos_open lonely_posix" "silent lonely_posix" "clock_runs lonely_posix sim_clock"
    "opens_wait lonely_posix True"
  using mute_posix
  by (simp_all add: resourceful_def fifos_open_def silent_def clock_runs_def opens_wait_def lonely_posix_def)

lemma waiting_calls_time_out_witness:
  "(\<exists>w'. SocketListen mute_posix (Some 0) 5 (client_world bound_id) = Some (TIMED_OUT, w'))
 \<and> (\<exists>w'. SocketConnect mute_posix (Some 0) (Some \<lparr>addr = Some ''2'', port = 9\<rparr>) (client_world bound_id) = Some (TIMED_OUT, w'))
 \<and> SocketListen lonely_posix (Some 0) 5 (client_world bound_id) = None
 \<and> (\<exists>w'. SocketAccept lonely_posix (Some 0) (client_world bound_id) = Some (None, w'))"
  using waiting_calls_time_out [OF mute_posix mute_posix_opens client_ids(3), of 5 "\<lparr>addr = Some ''2'', port = 9\<rparr>" "''2''"]
    waiting_calls_time_out [OF lonely_posix client_ids(3), of 5 "\<lparr>addr = Some ''2'', port = 9\<rparr>" "''2''"] by simp_all

lemma bind_waits_for_ever_witness:
  "SocketBind mute_posix (Some 0) (Some \<lparr>addr = Some ''2'', port = 9\<rparr>) 0 (client_world empty_id) = None"
  by (rule bind_waits_for_ever [OF mute_posix(1-3) client_ids(4)]) simp

section \<open>The life of a socket\<close>

lemma await_bind_answer_same_proc:
  assumes "await_bind_answer P nm fd w = Some (r, w')"
  shows "same_heap w w'"
proof -
  have "(\<lambda>(((P, nm), fd), w) (r, w'). same_heap w w') (((P, nm), fd), w) (r, w')"
  proof (rule await_bind_answer.raw_induct [OF _ assms], goal_cases)
    case (1 f P nm fd w y)
    obtain r bs w1 where r: "read_entire_message P fd 1 w = Some (r, bs, w1)"
      using 1(2) by (auto split: option.splits)
    have p1: "same_heap w w1" using read_entire_message_same_proc [OF r] by (rule same_proc_heap)
    have p2: "same_heap w (unlink_name P nm (sys_close P fd w1))"
      using same_heap_trans [OF same_heap_trans [OF p1 same_heap_close] same_heap_unlink] by (simp add: unlink_name_def)
    have p3: "same_heap w (set_ub (unlink_name P nm (sys_close P fd w1)))"
      by (rule same_heap_trans [OF p2 same_heap_set_ub])
    consider "snd y = unlink_name P nm (sys_close P fd w1)" | "f P nm fd w1 = Some y"
      | "f P nm fd (set_ub (unlink_name P nm (sys_close P fd w1))) = Some y"
      using 1(2) r by (auto split: if_splits)
    then show ?case
      using p2 same_heap_trans [OF p1] same_heap_trans [OF p3] 1(1) by cases (fastforce split: prod.splits)+
  qed
  then show ?thesis by simp
qed

lemma same_heap_name:
  "get_bind_requests_fifo_name P ip w = (r, w') \<Longrightarrow> same_heap w w'"
  using construct_full_fifo_name_spec(1) by (fastforce simp: get_bind_requests_fifo_name_def)

lemma SocketBind_granted:
  assumes b: "SocketBind P (Some k) (Some a) n w = Some (SUCCESS, n', w')" and a: "addr a = Some ip"
  obtains w7 where "same_heap w w7" "state_of (Some k) w = EMPTY_SOCKET" "w' = (case strcpy_lib (src_ip (id_at w7 k)) ip of
      Undefined \<Rightarrow> set_ub w7 | Returns s \<Rightarrow> upd_id k (\<lambda>i. i\<lparr>src_ip := s, src_port := port a\<rparr>) w7)"
proof -
  obtain n1 w1 where 1: "get_bind_requests_fifo_name P ip w = (n1, w1)" by fastforce
  obtain n2 w2 where 2: "get_client_fifo_name P (px_getpid P (os w1)) (n + 1) w1 = (n2, w2)" by fastforce
  have st: "state_of (Some k) w = EMPTY_SOCKET"
    using b a by (auto simp: SocketBind_def split: if_splits)
  have n1: "n1 \<noteq> None" using b a st 1 by (cases n1) (auto simp: SocketBind_def)
  have n2: "n2 \<noteq> None" using b a st 1 n1 2 by (cases n2) (auto simp: SocketBind_def Let_def)
  obtain x y where xy: "n1 = Some x" "n2 = Some y" using n1 n2 by blast
  obtain f3 w3 where 3: "sys_open P x O_WRONLY w2 = (f3, w3)" by fastforce
  obtain m w4 where 4: "sys_mkfifo P y w3 = (m, w4)" by fastforce
  obtain f5 w5 where 5: "sys_open P y O_RDONLY_NONBLOCK w4 = (f5, w5)" by fastforce
  obtain r6 w6 where 6: "sys_write P f3 (bind_request_text (port a) (px_getpid P (os w1)) (n + 1) @ [NUL]) w5 = (r6, w6)"
    by fastforce
  have ok: "\<not> open_waits P x O_WRONLY w2" "f3 \<noteq> - 1" "m = 0" "f5 \<noteq> - 1" "r6 \<noteq> - 1"
    using b a st 1 2 xy 3 4 5 6 by (auto simp: SocketBind_def Let_def split: if_splits)
  obtain ans w7 where 7: "await_bind_answer P y f5 (sys_close P f3 w6) = Some (Some ans, w7)"
      and g: "ans = REQUEST_GRANTED_FIFO"
    using b a st 1 2 xy 3 4 5 6 ok by (auto simp: SocketBind_def Let_def split: if_splits option.splits)
  have "same_heap w w1" by (rule same_heap_name [OF 1])
  also have "same_heap w1 w2" by (rule get_client_fifo_name_heap [OF 2])
  also have "same_heap w2 w3" by (rule sys_same_heap(3) [OF 3])
  also have "same_heap w3 w4" by (rule sys_same_heap(6) [OF 4])
  also have "same_heap w4 w5" by (rule sys_same_heap(3) [OF 5])
  also have "same_heap w5 w6" by (rule sys_same_heap(5) [OF 6])
  also have "same_heap w6 (sys_close P f3 w6)" by simp
  also have "same_heap (sys_close P f3 w6) w7" by (rule await_bind_answer_same_proc [OF 7])
  finally have h: "same_heap w w7" .
  show thesis
    by (rule that [OF h st]) (use b a st 1 2 xy 3 4 5 6 ok 7 g in \<open>simp add: SocketBind_def Let_def\<close>)
qed

text \<open>
  C31. A granted bind makes the socket a bound one.  After \<open>SocketBind\<close> has returned \<open>SUCCESS\<close> for an address of
  the length every address has, the identifier holds exactly that address and port as its own and no
  peer, and the socket counts as bound, except for the two values the code reserves: an address that
  begins with \<open>e\<close> and port 0 are granted too, and leave a socket that is neither empty nor bound and
  cannot be used.
\<close>

theorem granted_bind_makes_bound:
  assumes "SocketBind P (Some k) (Some a) n w = Some (SUCCESS, n', w')" and "addr a = Some ip"
    and "ids w k = Some i" and "wf_sockid i" and "length ip = 16" and "NUL \<notin> set ip"
  shows "\<exists>j. ids w' k = Some j \<and> wf_sockid j \<and> cstr (src_ip j) = ip \<and> src_port j = port a
    \<and> dst_ip j = dst_ip i \<and> dst_port j = dst_port i
    \<and> state_of (Some k) w' = (if hd ip \<noteq> CHR ''e'' \<and> port a \<noteq> 0 then BOUND_ONLY_SOCKET
         else if hd ip = CHR ''e'' \<and> port a = 0 then EMPTY_SOCKET else INVALID_SOCKET)"
proof -
  obtain w7 where h: "same_heap w w7" and st: "state_of (Some k) w = EMPTY_SOCKET"
    and w': "w' = (case strcpy_lib (src_ip (id_at w7 k)) ip of
      Undefined \<Rightarrow> set_ub w7 | Returns s \<Rightarrow> upd_id k (\<lambda>i. i\<lparr>src_ip := s, src_port := port a\<rparr>) w7)"
    by (rule SocketBind_granted [OF assms(1,2)])
  have id: "id_at w7 k = i" "ids w7 k = Some i" using h assms(3) by (simp_all add: same_heap_def id_at_def)
  have wi: "wf_ip (src_ip i)" "wf_ip (dst_ip i)" using assms(4) by (auto simp: wf_sockid_def)
  note L = wf_ip_strcpy_lib [OF wi(1) _ assms(6)]
  let ?s = "ip @ NUL # drop (length ip + 1) (src_ip i)"
  let ?j = "i\<lparr>src_ip := ?s, src_port := port a\<rparr>"
  have j: "ids w' k = Some ?j" using L(1) assms(5) id by (simp add: w')
  have e: "is_empty_ip (dst_ip i)" "dst_port i = EMPTY_PORT"
    using st assms(3) by (auto simp: state_of_def get_socket_state_def is_socket_empty_def id_at_def split: if_splits)
  have hd: "?s ! 0 = hd ip" using assms(5) by (cases ip) auto
  have "state_of (Some k) w' = (if hd ip \<noteq> CHR ''e'' \<and> port a \<noteq> 0 then BOUND_ONLY_SOCKET
         else if hd ip = CHR ''e'' \<and> port a = 0 then EMPTY_SOCKET else INVALID_SOCKET)"
    using j e hd by (simp add: state_of_def get_socket_state_def id_at_def is_socket_connected_def
        is_socket_bound_only_def is_socket_empty_def is_empty_ip_def EMPTY_PORT_def)
  moreover have "wf_sockid ?j" "cstr ?s = ip" using L assms(5) wi by (simp_all add: wf_sockid_def)
  ultimately show ?thesis using j by (intro exI [of _ ?j]) simp
qed

text \<open>A system in which the manager grants every request.\<close>

definition granting_posix :: "sim posix" where
  "granting_posix = kind_posix\<lparr>px_read := \<lambda>fd n s. (Read ''K'', s)\<rparr>"

lemma granted_bind:
  "\<exists>n' w'. SocketBind granting_posix (Some 0) (Some \<lparr>addr = Some (replicate 16 (CHR ''2'')), port = 9\<rparr>) 0
     (client_world empty_id) = Some (SUCCESS, n', w')"
proof -
  have G: "resourceful granting_posix" "fifos_open granting_posix"
    using kind_posix(1,2) by (simp_all add: resourceful_def fifos_open_def granting_posix_def)
  note O = fifos_open_calls [OF G(2)]
  let ?P = granting_posix and ?w = "client_world empty_id" and ?ip = "replicate 16 (CHR ''2'')"
  have rd: "read_entire_message ?P fd 1 w = Some (1, ''K'', w)" for fd w
    by (simp add: read_entire_message_def sys_read_def granting_posix_def read_rest.simps)
  have nw: "\<not> open_waits ?P n md w" for n md w
    by (simp add: open_waits_def granting_posix_def kind_posix_def open_posix_def sim_posix_def)
  have aw: "\<exists>w'. await_bind_answer ?P nm fd w = Some (Some (CHR ''K''), w')" for nm fd w
    by (subst await_bind_answer.simps) (simp add: rd)
  obtain n1 w1 where 1: "get_bind_requests_fifo_name ?P ?ip ?w = (n1, w1)" by fastforce
  obtain n2 w2 where 2: "get_client_fifo_name ?P (px_getpid ?P (os w1)) (0 + 1) w1 = (n2, w2)" by fastforce
  obtain x y where xy: "n1 = Some x" "n2 = Some y"
    using resourceful_name [OF G(1) 1 [unfolded get_bind_requests_fifo_name_def]]
      resourceful_client_name [OF G(1) 2] by blast
  obtain f3 w3 where 3: "sys_open ?P x O_WRONLY w2 = (f3, w3)" by fastforce
  obtain m w4 where 4: "sys_mkfifo ?P y w3 = (m, w4)" by fastforce
  obtain f5 w5 where 5: "sys_open ?P y O_RDONLY_NONBLOCK w4 = (f5, w5)" by fastforce
  obtain r6 w6 where 6: "sys_write ?P f3 (bind_request_text 9 (px_getpid ?P (os w1)) (0 + 1) @ [NUL]) w5 = (r6, w6)"
    by fastforce
  have r6: "r6 \<noteq> - 1" using O(2) [OF 6] by simp
  obtain w7 where 7: "await_bind_answer ?P y f5 (sys_close ?P f3 w6) = Some (Some (CHR ''K''), w7)" using aw by blast
  show ?thesis
    using client_ids(4) nw 1 2 xy 3 4 5 6 7 r6 resourceful_calls(3) [OF G(1) 4] O(1) [OF 3] O(1) [OF 5]
    by (simp add: SocketBind_def Let_def REQUEST_GRANTED_FIFO_def)
qed

lemma granted_bind_makes_bound_witness:
  "\<exists>n' w' j. SocketBind granting_posix (Some 0) (Some \<lparr>addr = Some (replicate 16 (CHR ''2'')), port = 9\<rparr>) 0
     (client_world empty_id) = Some (SUCCESS, n', w') \<and> ids w' 0 = Some j \<and> src_port j = 9
     \<and> cstr (src_ip j) = replicate 16 (CHR ''2'') \<and> state_of (Some 0) w' = BOUND_ONLY_SOCKET"
proof -
  obtain n' w' where b: "SocketBind granting_posix (Some 0) (Some \<lparr>addr = Some (replicate 16 (CHR ''2'')), port = 9\<rparr>) 0
     (client_world empty_id) = Some (SUCCESS, n', w')" using granted_bind by blast
  have "wf_sockid empty_id" by (simp add: wf_sockid_def empty_id_def wf_ip_cells)
  from granted_bind_makes_bound [OF b _ client_ids(2) this] show ?thesis using b by auto
qed

section \<open>Both sides of a connection\<close>

lemma copy_socket_id_copies:
  assumes "ids w k = Some i" and "wf_sockid i" and "copy_socket_id P k w = (Some c, w')"
  shows "\<exists>j. ids w' c = Some j \<and> wf_sockid j \<and> sid_key j = sid_key i"
proof -
  obtain m w1 where m: "sys_malloc P 48 w = (m, w1)" by fastforce
  then obtain b where b: "m = Some b" using assms(3) by (auto simp: copy_socket_id_def split: option.splits)
  define j where "j = \<lparr>src_port = src_port i, dst_port = dst_port i,
    src_ip = strcpy_arr (ip_set_empty (block_cells b 17)) (src_ip i),
    dst_ip = strcpy_arr (ip_set_empty (block_cells b 17)) (dst_ip i)\<rparr>"
  have "wf_sockid j" "sid_key j = sid_key i"
    using assms(2) wf_ip_strcpy_arr length_ip_set_empty [of "block_cells b 17"]
    by (simp_all add: j_def wf_sockid_def sid_key_def)
  moreover have "ids w' c = Some j"
    using assms(1,3) m b same_procD(1) [OF sys_same_proc(1) [OF m]]
    by (auto simp: copy_socket_id_def fresh_sockid_def new_id_def id_at_def j_def Let_def)
  ultimately show ?thesis by blast
qed

lemma socket_fifo_path_key: "sid_key i = sid_key j \<Longrightarrow> socket_fifo_path prefix i = socket_fifo_path prefix j"
  by (simp add: socket_fifo_path_def socket_repr_def sid_key_def)

text \<open>
  C28. An accepted socket is the manager's connection.  When the client of a listening socket gets the text
  that \<open>notify_accept_client\<close> writes for a connection, and memory and the file system allow it, it ends
  with a new identifier that has the same four endpoints as the identifier of the manager, so that for
  data in either direction and for closing both sides use the same FIFOs.
\<close>

theorem accepted_socket_matches_connection:
  assumes "wf_sockid i" and "plain_text (cstr (dst_ip i))"
    and "ids w k = Some b" and "wf_sockid b" and "sid_key b = sid_key (unconnected i)" and "resourceful P"
  shows "\<exists>c w' j. accepted_connection P k (cstr (dst_ip i) @ ''_'' @ fmt_d (sint (dst_port i))) w = (Some c, w')
    \<and> ids w' c = Some j \<and> sid_key j = sid_key i \<and> (\<forall>prefix. socket_fifo_path prefix j = socket_fifo_path prefix i)"
proof -
  let ?ip = "cstr (dst_ip i)"
  have p: "parse_connect_request (?ip @ ''_'' @ fmt_d (sint (dst_port i))) = Some (?ip, dst_port i)"
    using connect_request_parsed [OF assms(2), of "dst_port i"] by (simp add: connect_request_text_def)
  have len: "length ?ip \<le> 16" using assms(1) length_cstr_wf_ip by (simp add: wf_sockid_def)
  obtain cc w1 where 1: "copy_socket_id P k w = (cc, w1)" by fastforce
  obtain c where c: "cc = Some c" using resourceful_create(2) [OF assms(6) 1] by blast
  obtain j where j: "ids w1 c = Some j" "wf_sockid j" "sid_key j = sid_key b"
    using copy_socket_id_copies [OF assms(3,4) 1 [unfolded c]] by blast
  have "wf_ip (dst_ip j)" using j(2) by (simp add: wf_sockid_def)
  note L = wf_ip_strcpy_lib [OF this len cstr_no_NUL]
  define j' where "j' = j\<lparr>dst_ip := ?ip @ NUL # drop (length ?ip + 1) (dst_ip j), dst_port := dst_port i\<rparr>"
  have sp: "set_peer c ?ip (dst_port i) w1 = upd_id c (\<lambda>_. j') w1"
    using L(1) j(1) by (simp add: set_peer_def id_at_def j'_def upd_id_def)
  have key: "sid_key j' = sid_key i"
    using j(3) assms(1,5) L(3) sid_key_unconnected [OF assms(1)] by (simp add: sid_key_def j'_def)
  obtain n3 w3 where 3: "get_socket_send_fifo_name P (Some c) (set_peer c ?ip (dst_port i) w1) = (n3, w3)" by fastforce
  obtain n4 w4 where 4: "get_socket_recv_fifo_name P (Some c) w3 = (n4, w4)" by fastforce
  obtain x y where xy: "n3 = Some x" "n4 = Some y"
    using resourceful_socket_name [OF assms(6) 3 [unfolded socket_name_defs]]
      resourceful_socket_name [OF assms(6) 4 [unfolded socket_name_defs]] by blast
  obtain m w5 where 5: "mkfifo_both P x y w4 = (m, w5)" by fastforce
  have r: "accepted_connection P k (?ip @ ''_'' @ fmt_d (sint (dst_port i))) w = (Some c, w5)"
    using p len 1 c 3 4 xy 5 mkfifo_both_resourceful [OF assms(6) 5]
    by (simp add: accepted_connection_def MAX_IP_LENGTH_def)
  have "same_heap w4 w5"
    using 5 by (auto simp: mkfifo_both_def intro: same_heap_trans split: prod.splits if_splits)
  then have "same_heap (set_peer c ?ip (dst_port i) w1) w5"
    using fifo_name_heap(9) [OF 3] fifo_name_heap(6) [OF 4] same_heap_trans by blast
  then have "ids w5 c = Some j'" using sp j(1) by (simp add: same_heap_def)
  then show ?thesis using r key socket_fifo_path_key [OF key] by blast
qed

lemma accepted_socket_matches_connection_witness:
  "\<exists>c w' j. accepted_connection kind_posix 0 (replicate 16 (CHR ''2'') @ ''_9'') (client_world bound_id) = (Some c, w')
    \<and> ids w' c = Some j \<and> sid_key j = example_key"
proof -
  let ?i = "the (example_ids 0)"
  have wf: "wf_sockid ?i" "wf_sockid bound_id" by (simp_all add: example_ids_def wf_sockid_def wf_ip_cells bound_id_def)
  have d: "cstr (dst_ip ?i) = replicate 16 (CHR ''2'')" "dst_port ?i = 9" by (simp_all add: example_ids_def cstr_ip_cells)
  have "plain_text (cstr (dst_ip ?i))" by (simp add: d plain_text_def is_space_def)
  moreover have "sid_key bound_id = sid_key (unconnected ?i)"
    using sid_key_unconnected [OF wf(1)]
    by (simp add: sid_key_def bound_id_def example_ids_def cstr_ip_cells empty_ip_text_def EMPTY_PORT_def)
  ultimately have "\<exists>c w' j. accepted_connection kind_posix 0 (cstr (dst_ip ?i) @ ''_'' @ fmt_d (sint (dst_port ?i)))
        (client_world bound_id) = (Some c, w') \<and> ids w' c = Some j \<and> sid_key j = sid_key ?i
      \<and> (\<forall>prefix. socket_fifo_path prefix j = socket_fifo_path prefix ?i)"
    by (rule accepted_socket_matches_connection [OF wf(1) _ client_ids(2) wf(2) _ kind_posix(1)])
  moreover have "fmt_d 9 = ''9''" by code_simp
  ultimately show ?thesis using d example_manager_id(3) by auto
qed

text \<open>What \<open>SocketSend\<close> writes.\<close>

lemma SocketSend_writes:
  assumes "fifo_laws P out tgt" and "ids w k = Some i" and "wf_sockid i"
    and "SocketSend P (Some k) (Some message) len w = (r, w')" and "0 \<le> sint len"
  shows "(r = - 1 \<and> out (os w') = out (os w))
    \<or> (0 \<le> r \<and> r \<le> sint len \<and> r \<le> int (length message)
        \<and> out (os w') = (let path = socket_fifo_path OUT_DATA_SOCKET_FIFO_PREFIX i in
             (out (os w))(path := out (os w) path @ take (nat r) message)))"
proof -
  have wf: "wf_sockid (id_at w k)" and id: "id_at w k = i" using assms(2,3) by (simp_all add: id_at_def)
  obtain nm w1 where 1: "get_socket_send_fifo_name P (Some k) w = (nm, w1)" by fastforce
  note N = construct_full_socket_fifo_name_spec [OF 1 [unfolded socket_name_defs] wf]
  show ?thesis
  proof (cases "nm = None \<or> state_of (Some k) w \<noteq> CONNECTED_SOCKET")
    case True
    then show ?thesis using assms(4) 1 N(3) [OF assms(1)] by (auto simp: SocketSend_def split: if_splits)
  next
    case False
    then have nm: "nm = Some (socket_fifo_path OUT_DATA_SOCKET_FIFO_PREFIX i)" using N(2) id by auto
    obtain fd w2 where 2: "sys_open P (socket_fifo_path OUT_DATA_SOCKET_FIFO_PREFIX i) O_RDWR w1 = (fd, w2)" by fastforce
    note O = fifo_laws_simps(4,5) [OF assms(1) 2]
    show ?thesis
    proof (cases "fd = - 1")
      case True
      then show ?thesis using assms(4) 1 nm False 2 O(1) N(3) [OF assms(1)] by (simp add: SocketSend_def)
    next
      case fd: False
      let ?w = "if 0 \<le> sint len \<and> sint len \<le> int (length message) then w2 else set_ub w2"
      have wr: "sys_write P fd (take (nat (sint len)) message) ?w = (r, w')"
        using assms(4) 1 nm False 2 fd by (simp add: SocketSend_def)
      have os: "os ?w = os w2" by simp
      from assms(1) wr show ?thesis
      proof (cases rule: fifo_laws_write)
        case 1
        then show ?thesis using os O(1) N(3) [OF assms(1)] by simp
      next
        case (2 n)
        then have "n \<le> nat (sint len)" "n \<le> length message" by (auto simp: min_def split: if_splits)
        then have n: "take n (take (nat (sint len)) message) = take n message" "int n \<le> sint len"
          "n \<le> length message"
          using assms(5) by auto
        show ?thesis using 2 os O fd N(3) [OF assms(1)] n by (simp add: Let_def)
      qed
    qed
  qed
qed

text \<open>
  C29. What a client sends goes to its manager.  \<open>SocketSend\<close> returns -1 and writes nothing, or returns a
  number of bytes and has appended exactly that many from the front of the message to the FIFO from which
  the manager of a connection with these endpoints takes the bytes of its user; no other FIFO is written
  to.
\<close>

theorem sent_bytes_reach_the_manager:
  assumes "fifo_laws P out tgt" and "ids w k = Some i" and "wf_sockid i"
    and "SocketSend P (Some k) (Some message) len w = (r, w')" and "0 \<le> sint len"
  shows "(r = - 1 \<and> out (os w') = out (os w))
    \<or> (0 \<le> r \<and> r \<le> sint len \<and> r \<le> int (length message)
        \<and> out (os w') = (let path = socket_fifo_path OUT_DATA_SOCKET_FIFO_PREFIX i in
             (out (os w))(path := out (os w) path @ take (nat r) message)))"
  by (rule SocketSend_writes [OF assms])

lemma sent_bytes_reach_the_manager_witness:
  "\<exists>r w'. SocketSend kind_posix (Some 0) (Some ''hi'') 2 (client_world (the (example_ids 0))) = (r, w')
    \<and> ((r = - 1 \<and> sim_out (os w') = sim_out (os (client_world (the (example_ids 0)))))
       \<or> 0 \<le> r \<and> r \<le> 2 \<and> sim_out (os w') (socket_fifo_path OUT_DATA_SOCKET_FIFO_PREFIX (the (example_ids 0)))
           = take (nat r) ''hi'')"
proof -
  let ?i = "the (example_ids 0)"
  obtain r w' where s: "SocketSend kind_posix (Some 0) (Some ''hi'') 2 (client_world ?i) = (r, w')" by fastforce
  have "wf_sockid ?i" by (simp add: example_ids_def wf_sockid_def wf_ip_cells)
  moreover have "sim_out (os (client_world ?i)) n = []" for n
    by (simp add: client_world_def sim_world_def sim_boot_def sim_out_def)
  ultimately show ?thesis
    using sent_bytes_reach_the_manager [OF kind_posix(3) client_ids(2) _ s] s by (auto simp: Let_def)
qed

text \<open>
  The closing mark is not told from data.  When the next read of a connected socket's FIFO hands over
  some bytes, \<open>SocketRecv\<close> returns their number, unless the last of them is the byte 1: then it reports a
  failure, whether the byte was written by the manager to say that the connection is closed or sent by the peer,
  and the bytes read in front of it are lost to the caller.
\<close>

theorem trailing_one_is_taken_for_close:
  assumes "resourceful P" and "fifos_open P" and "state_of (Some k) w = CONNECTED_SOCKET"
    and "opens_wait P False" and "\<And>fd s. \<not> px_read_waits P fd s" and "0 < sint len" and "\<And>fd s. fst (px_read P fd (nat (sint len)) s) = Read bs" and "bs \<noteq> []"
  shows "\<exists>w'. SocketRecv P (Some k) True len w
    = Some (if last bs = CONN_CLOSED then - 1 else int (length bs), bs, w')"
proof -
  obtain nm w1 where 1: "get_socket_recv_fifo_name P (Some k) w = (nm, w1)" by fastforce
  obtain x where x: "nm = Some x"
    using resourceful_socket_name [OF assms(1) 1 [unfolded socket_name_defs]] by blast
  obtain fd w2 where 2: "sys_open P x O_RDONLY w1 = (fd, w2)" by fastforce
  obtain rd w3 where 3: "sys_read P fd (nat (sint len)) w2 = (rd, w3)" by fastforce
  have "rd = Read bs" using 3 assms(7) [of fd "os w2"] by (auto simp: sys_read_def split: prod.splits)
  then show ?thesis
    using assms(3,5,6,8) opens_wait_calls [OF assms(4)] 1 x 2 3 fifos_open_calls(1) [OF assms(2) 2]
    by (simp add: SocketRecv_def recv_loop.simps read_waits_def)
qed

lemma trailing_one_is_taken_for_close_witness:
  "\<exists>w'. SocketRecv (kind_posix\<lparr>px_read := \<lambda>fd n s. (Read (''hi'' @ [CHR 0x01]), s)\<rparr>) (Some 0) True 100
      (client_world (the (example_ids 0))) = Some (- 1, ''hi'' @ [CHR 0x01], w')"
proof -
  let ?P = "kind_posix\<lparr>px_read := \<lambda>fd n s. (Read (''hi'' @ [CHR 0x01]), s)\<rparr>"
  have "state_of (Some 0) (client_world (the (example_ids 0))) = CONNECTED_SOCKET"
    by (simp add: state_of_def client_ids(1) example_ids_def get_socket_state_def is_socket_connected_def
        is_empty_ip_def ip_cells_def EMPTY_PORT_def nth_append)
  moreover have "resourceful ?P" "fifos_open ?P" using kind_posix(1,2) by (simp_all add: resourceful_def fifos_open_def)
  moreover have "opens_wait ?P False" "\<not> px_read_waits ?P fd s" for fd s
    by (simp_all add: opens_wait_def kind_posix_def open_posix_def sim_posix_def)
  ultimately show ?thesis
    using trailing_one_is_taken_for_close [of ?P 0 "client_world (the (example_ids 0))" 100 "''hi'' @ [CHR 0x01]"]
    by (simp add: CONN_CLOSED_def)
qed

end
