(* ===== verification/Timer_Steps.thy ===== *)
theory Timer_Steps imports Manager_Timers Cooperative_Os begin

text \<open>
  The periodic work of the manager for one socket: what a round may do to the socket, which segments
  it sends, and that it touches nothing else of the process.
\<close>

section \<open>Sending\<close>

lemma same_heap_if: "same_heap w w1 \<Longrightarrow> same_heap w w2 \<Longrightarrow> same_heap w (if b then w1 else w2)"
  by simp

lemma tcp_to_str_heap [intro, dest]: "tcp_to_str P p w = (r, w') \<Longrightarrow> same_heap w w'"
proof -
  assume t: "tcp_to_str P p w = (r, w')"
  obtain m w1 where m: "sys_malloc P (41 + length (the (tcp_data p)) + 1) w = (m, w1)" by fastforce
  note h1 = sys_same_heap(1) [OF m]
  have "w' = set_ub w \<or> w' = w1 \<or> w' = set_ub w1"
    using t m by (auto simp: tcp_to_str_def split: option.splits if_splits)
  then show ?thesis using h1 same_heap_trans [OF h1 same_heap_set_ub] by auto
qed

lemma ip_calls_heap [intro, dest]:
  "sys_create_ip_packet P src dst data w = (r, w') \<Longrightarrow> same_heap w w'"
  "sys_ip_to_str P packet w = (s, w') \<Longrightarrow> same_heap w w'"
  by (auto simp: sys_create_ip_packet_def sys_ip_to_str_def intro: same_heap_trans
      split: prod.splits c_result.splits if_splits)

lemma send_TCP_packet_heap [intro, dest]:
  assumes "send_TCP_packet P packet to_ip w = (r, w')"
  shows "same_heap w w'"
proof (cases packet)
  case None
  then show ?thesis using assms by (simp add: send_TCP_packet_def)
next
  case (Some p)
  obtain ts w1 where 1: "tcp_to_str P p w = (ts, w1)" by fastforce
  obtain ipp w2 where 2: "sys_create_ip_packet P (mgr_ip w1) (cstr to_ip) (the ts) w1 = (ipp, w2)" by fastforce
  obtain str w3 where 3: "sys_ip_to_str P (the ipp) w2 = (str, w3)" by fastforce
  obtain nm w4 where 4: "get_in_packet_fifo_name P (cstr to_ip) w3 = (nm, w4)" by fastforce
  obtain fd w5 where 5: "sys_open P (the nm) O_RDWR w4 = (fd, w5)" by fastforce
  obtain wr w6 where 6: "sys_write P fd (the str) w5 = (wr, w6)" by fastforce
  have h1: "same_heap w w1" using 1 by blast
  have h2: "same_heap w w2" using same_heap_trans [OF h1] 2 by blast
  have h3: "same_heap w w3" using same_heap_trans [OF h2] 3 by blast
  have h4: "same_heap w w4" using same_heap_trans [OF h3] 4 fifo_name_heap by blast
  have h5: "same_heap w w5" using same_heap_trans [OF h4] 5 by blast
  have h6: "same_heap w (sys_close P fd w6)"
    using same_heap_trans [OF h5 same_heap_trans [OF sys_same_heap(5) [OF 6] same_heap_close]] .
  consider "w' = w1" | "w' = w2" | "w' = w3" | "w' = w4" | "w' = w5" | "w' = sys_close P fd w6"
    using assms Some 1 2 3 4 5 6
    by (cases ts; cases ipp; cases str; cases nm; cases "fd = - 1") (auto simp: send_TCP_packet_def)
  then show ?thesis using h1 h2 h3 h4 h5 h6 by cases simp_all
qed

lemma older_than_heap [intro, dest]: "older_than P t n w = (b, w') \<Longrightarrow> same_heap w w'"
  by (auto simp: older_than_def split: prod.splits)

section \<open>Steps of one socket\<close>

text \<open>A step that leaves the state of the connection, the receive side and the identifier alone.\<close>

definition steady :: "socket \<Rightarrow> socket \<Rightarrow> bool" where
  "steady s s' \<longleftrightarrow> kept s s' \<and> sk_state s' = sk_state s
     \<and> seq_of_first_send_window s' = seq_of_first_send_window s
     \<and> seq_of_first_recv_window s' = seq_of_first_recv_window s \<and> max_connections s' = max_connections s"

lemma steady_refl [simp, intro]: "steady s s"
  by (simp add: steady_def)

lemma steady_trans: "steady s s1 \<Longrightarrow> steady s1 s2 \<Longrightarrow> steady s s2"
  by (auto simp: steady_def intro: kept_trans)

lemma only_steady_trans:
  "only_socket a steady w w1 \<Longrightarrow> only_socket a steady w1 w2 \<Longrightarrow> only_socket a steady w w2"
  using only_socket_then [of a steady w w1 steady w2 steady] steady_trans by blast

lemma only_socket_Some: "only_socket a Q w w' \<Longrightarrow> \<exists>s'. socks w' a = Some s'"
  by (auto simp: only_socket_def)

lemma stamp_last_send_only:
  assumes "socks w a = Some s"
  shows "only_socket a steady w (stamp_last_send P a w)"
proof -
  obtain t w1 where t: "sys_clock P w = (t, w1)" by fastforce
  have s1: "socks w1 a = Some s" using assms same_heapD(2) [OF sys_same_heap(10) [OF t]] by simp
  have "only_socket a steady w1 (upd_sock a (\<lambda>s. s\<lparr>last_send_clock := t\<rparr>) w1)"
    using s1 by (intro only_socket_upd [of _ _ s]) (simp_all add: steady_def kept_def socket_wf_def wf_windows_def)
  from only_socket_heap(2) [OF sys_same_heap(10) [OF t] this] show ?thesis
    using t by (simp add: stamp_last_send_def)
qed

lemma send_status_only:
  assumes "socks w a = Some s"
  shows "only_socket a steady w (send_status P k a fl adjust d w)"
proof -
  let ?w1 = "upd_sock a (\<lambda>s. s\<lparr>seq_of_first_send_window := seq_of_first_send_window s - d\<rparr>) w"
  obtain p w2 where p: "construct_packet P a [] fl (dst_port (id_at ?w1 k)) ?w1 = (p, w2)" by fastforce
  let ?w3 = "upd_sock a (\<lambda>s. s\<lparr>seq_of_first_send_window := seq_of_first_send_window s + d\<rparr>) w2"
  note h2 = same_heapD [OF construct_packet_heap [OF p]]
  have o3: "only_socket a steady w ?w3"
    using assms h2(1-5) by (auto simp: only_socket_def steady_def kept_def socket_wf_def wf_windows_def)
  then obtain s3 where s3: "socks ?w3 a = Some s3" using only_socket_Some by blast
  show ?thesis
  proof (cases p)
    case None
    then show ?thesis using o3 p by (simp add: send_status_def)
  next
    case (Some q)
    obtain r w4 where 4: "send_TCP_packet P (Some (adjust q)) (dst_ip (id_at ?w3 k)) ?w3 = (r, w4)" by fastforce
    note h4 = send_TCP_packet_heap [OF 4]
    have o4: "only_socket a steady w w4" by (rule only_socket_heap(1) [OF o3 h4])
    have "send_status P k a fl adjust d w = (if r = 0 then stamp_last_send P a w4 else w4)"
      using p Some 4 by (simp add: send_status_def Let_def)
    then show ?thesis
      using o4 only_steady_trans [OF o4] stamp_last_send_only only_socket_Some [OF o4] by fastforce
  qed
qed

text \<open>Taking bytes from the user: the send window grows by what was read.\<close>

definition window_grows :: "socket \<Rightarrow> socket \<Rightarrow> bool" where
  "window_grows s s' \<longleftrightarrow> steady s s'
     \<and> (socket_wf s \<longrightarrow> (\<exists>bs. queue_list (the (send_window s')) = queue_list (the (send_window s)) @ bs))"

lemma window_grows_refl [simp, intro]: "window_grows s s"
  by (auto simp: window_grows_def)

lemma window_grows_trans: "window_grows s s1 \<Longrightarrow> window_grows s1 s2 \<Longrightarrow> window_grows s s2"
  by (force simp: window_grows_def steady_def kept_def)

lemma enqueue_grows: "window_grows s (s\<lparr>send_window := snd (enqueue (send_window s) c)\<rparr>)"
proof -
  have "socket_wf (s\<lparr>send_window := snd (enqueue (send_window s) c)\<rparr>)
      \<and> (\<exists>bs. queue_list (the (snd (enqueue (send_window s) c))) = queue_list (the (send_window s)) @ bs)"
    if wf: "socket_wf s"
  proof -
    obtain q where q: "send_window s = Some q" "queue_inv q" using wf by (auto simp: socket_wf_def)
    have le: "length (queue_list q) \<le> DEFAULT_QUEUE_CAPACITY" using queue_invD [OF q(2)] by simp
    show ?thesis
    proof (cases "length (queue_list q) = DEFAULT_QUEUE_CAPACITY")
      case True
      then show ?thesis using enqueue_full [OF q(2) True, of c] q wf by (simp add: socket_wf_def wf_windows_def)
    next
      case False
      then obtain q' where "enqueue (Some q) c = (True, Some q')" "queue_inv q'" "queue_list q' = queue_list q @ [c]"
        using enqueue_room [OF q(2), of c] le by auto
      then show ?thesis using q wf by (simp add: socket_wf_def wf_windows_def)
    qed
  qed
  then show ?thesis by (auto simp: window_grows_def steady_def kept_def)
qed

lemma take_user_bytes_only:
  assumes "socks w a = Some s"
  shows "only_socket a window_grows w (take_user_bytes n P a fd w)"
  using assms
proof (induction n arbitrary: w s)
  case 0
  then show ?case by (auto intro: only_socket_same)
next
  case (Suc n)
  have same: "only_socket a window_grows w w'" if "same_heap w w'" for w'
    using that Suc.prems by (auto intro: only_socket_same)
  obtain r w1 where r: "sys_read P fd 1 w = (r, w1)" by fastforce
  note h1 = sys_same_heap(4) [OF r]
  show ?case
  proof (cases "QueueSize (send_window (sock_at w a)) \<ge> QueueCapacity (send_window (sock_at w a))
      \<or> (\<forall>c. r \<noteq> Read [c])")
    case True
    then have "take_user_bytes (Suc n) P a fd w = w \<or> take_user_bytes (Suc n) P a fd w = w1"
      using r by (auto split: read_outcome.splits list.splits)
    then show ?thesis using same h1 by auto
  next
    case False
    then obtain c where c: "r = Read [c]" by blast
    let ?w2 = "upd_sock a (\<lambda>s. s\<lparr>send_window := snd (enqueue (send_window s) c)\<rparr>) w1"
    have s1: "socks w1 a = Some s" using Suc.prems same_heapD(2) [OF h1] by simp
    have "only_socket a window_grows w1 ?w2" using s1 enqueue_grows by (rule only_socket_upd)
    then have o2: "only_socket a window_grows w (sys_close P fd ?w2)"
      by (rule only_socket_heap(1) [OF only_socket_heap(2) [OF h1] same_heap_close])
    then obtain s2 where "socks (sys_close P fd ?w2) a = Some s2" using only_socket_Some by blast
    from Suc.IH [OF this] have "only_socket a window_grows w (take_user_bytes n P a fd (sys_close P fd ?w2))"
      by (rule only_socket_then [OF o2]) (auto intro: window_grows_trans)
    then show ?thesis using False r c by simp
  qed
qed

section \<open>The periodic messages\<close>

text \<open>The states a round may leave a socket in.\<close>

definition timer_next :: "TCPState \<Rightarrow> TCPState set" where
  "timer_next st =
     (case st of
        FIN_WAIT_1 \<Rightarrow> {FIN_WAIT_1, TIME_WAIT}
      | CLOSE_WAIT \<Rightarrow> {LAST_ACK}
      | CLOSING \<Rightarrow> {CLOSING, TIME_WAIT}
      | TIME_WAIT \<Rightarrow> {TIME_WAIT, CLOSED}
      | st \<Rightarrow> {st})"

definition timer_step :: "socket \<Rightarrow> socket \<Rightarrow> bool" where
  "timer_step s s' \<longleftrightarrow> kept s s' \<and> sk_state s' \<in> timer_next (sk_state s)"

lemma timer_next_refl: "st \<noteq> CLOSE_WAIT \<Longrightarrow> st \<in> timer_next st"
  by (cases st) (simp_all add: timer_next_def)

lemma steady_timer: "sk_state s \<noteq> CLOSE_WAIT \<Longrightarrow> steady s s' \<Longrightarrow> timer_step s s'"
  using timer_next_refl [of "sk_state s"] by (auto simp: steady_def timer_step_def)

lemma only_steady_timer:
  "socks w a = Some s \<Longrightarrow> sk_state s \<noteq> CLOSE_WAIT \<Longrightarrow> only_socket a steady w w' \<Longrightarrow> only_socket a timer_step w w'"
  by (erule only_socket_weaken) (auto intro: steady_timer)

lemma send_rst_only:
  assumes "socks w a = Some s" and "send_rst P k a acc w = (b, w')"
  shows "if b then only_socket a (\<lambda>s s'. kept s s' \<and> sk_state s' = TIME_WAIT) w w' else same_heap w w'"
proof -
  obtain p w1 where 1: "construct_packet P a [] RST (dst_port (id_at w k)) w = (p, w1)" by fastforce
  note h1 = construct_packet_heap [OF 1]
  show ?thesis
  proof (cases p)
    case None
    then show ?thesis using assms(2) 1 h1 by (simp add: send_rst_def)
  next
    case (Some q)
    obtain r w2 where 2: "send_TCP_packet P (Some q) (dst_ip (id_at w1 k)) w1 = (r, w2)" by fastforce
    have h2: "same_heap w w2" using same_heap_trans [OF h1] 2 by blast
    let ?w3 = "upd_sock a (\<lambda>s. s\<lparr>sk_state := TIME_WAIT\<rparr>) w2"
    have "only_socket a (\<lambda>s s'. kept s s' \<and> sk_state s' = TIME_WAIT) w2 ?w3"
      using assms(1) same_heapD(2) [OF h2]
      by (intro only_socket_upd [of _ _ s]) (simp_all add: kept_def socket_wf_def wf_windows_def)
    then show ?thesis
      using assms(2) 1 Some 2 only_socket_heap(2) [OF h2] h2 by (auto simp: send_rst_def split: if_splits)
  qed
qed

lemma status_only:
  assumes s: "socks w a = Some s"
  shows "sk_state s = SYN_SENT \<Longrightarrow> only_socket a steady w (status_syn_sent P k a w)"
    and "sk_state s = SYN_RECEIVED \<Longrightarrow> only_socket a steady w (status_syn_received P k a w)"
    and "sk_state s = LAST_ACK \<Longrightarrow> only_socket a steady w (status_last_ack P k a w)"
    and "only_socket a window_grows w (status_established P k a w)"
proof -
  obtain b w1 where o: "older_than P (last_send_clock (sock_at w a)) SOCKET_SEND_AGAIN_TIME w = (b, w1)" by fastforce
  note h1 = older_than_heap [OF o]
  have s1: "socks w1 a = Some s" using s same_heapD(2) [OF h1] by simp
  have same: "only_socket a steady w w1" by (rule only_socket_same [OF h1 s]) simp
  have send: "only_socket a steady w (send_status P k a fl adj d w1)" for fl adj d
    by (rule only_socket_heap(2) [OF h1 send_status_only [OF s1]])
  show "sk_state s = SYN_SENT \<Longrightarrow> only_socket a steady w (status_syn_sent P k a w)"
    and "sk_state s = SYN_RECEIVED \<Longrightarrow> only_socket a steady w (status_syn_received P k a w)"
    and "sk_state s = LAST_ACK \<Longrightarrow> only_socket a steady w (status_last_ack P k a w)"
    using o same send by (simp_all add: status_syn_sent_def status_syn_received_def status_last_ack_def Let_def)
  obtain nm w2 where n: "get_socket_send_fifo_name P (sk_id (sock_at w a)) w = (nm, w2)" by fastforce
  note h2 = fifo_name_heap(9) [OF n]
  show "only_socket a window_grows w (status_established P k a w)"
  proof (cases "send_window (sock_at w a) = None \<or> nm = None")
    case True
    then show ?thesis
      using n h2 s by (auto simp: status_established_def intro: only_socket_same)
  next
    case False
    then obtain x where x: "nm = Some x" by blast
    obtain fd w3 where f: "sys_open P x O_RDONLY_NONBLOCK w2 = (fd, w3)" by fastforce
    note h3 = same_heap_trans [OF h2 sys_same_heap(3) [OF f]]
    have s3: "socks w3 a = Some s" using s same_heapD(2) [OF h3] by simp
    have "only_socket a window_grows w (sys_close P fd (take_user_bytes MAX_DATA_PER_PACKET P a fd w3))"
      by (rule only_socket_heap(1) [OF only_socket_heap(2) [OF h3 take_user_bytes_only [OF s3]] same_heap_close])
    then show ?thesis
      using False n x f h3 s by (auto simp: status_established_def intro: only_socket_same)
  qed
qed

lemma status_fin_only:
  assumes s: "socks w a = Some s"
  shows "sk_state s = FIN_WAIT_1 \<Longrightarrow> only_socket a timer_step w (status_fin_wait_1 P k a w)"
    and "sk_state s = CLOSING \<Longrightarrow> only_socket a timer_step w (status_closing P k a w)"
proof -
  obtain late w1 where 1: "older_than P (time_since_fin_sent (sock_at w a)) SOCKET_FIN_RST_TIME w = (late, w1)"
    by fastforce
  note h1 = older_than_heap [OF 1]
  have s1: "socks w1 a = Some s" using s same_heapD(2) [OF h1] by simp
  have rst: "only_socket a timer_step w w2"
    if "sk_state s = FIN_WAIT_1 \<or> sk_state s = CLOSING"
      "if b then only_socket a (\<lambda>s s'. kept s s' \<and> sk_state s' = TIME_WAIT) w1 w2 else same_heap w1 w2" for b w2
  proof (cases b)
    case True
    then have "only_socket a (\<lambda>s s'. kept s s' \<and> sk_state s' = TIME_WAIT) w w2"
      using that only_socket_heap(2) [OF h1] by simp
    then show ?thesis
      by (rule only_socket_weaken) (use s that(1) in \<open>auto simp: timer_step_def timer_next_def\<close>)
  next
    case False
    then have "same_heap w w2" using that same_heap_trans [OF h1] by simp
    then show ?thesis
      using s that(1) by (intro only_socket_same) (auto simp: timer_step_def timer_next_def)
  qed
  show "sk_state s = CLOSING \<Longrightarrow> only_socket a timer_step w (status_closing P k a w)"
  proof -
    assume st: "sk_state s = CLOSING"
    obtain b w2 where 2: "send_rst P k a (\<lambda>r. r = 0) w1 = (b, w2)" by fastforce
    have same: "only_socket a timer_step w w1"
      using s st h1 by (intro only_socket_same) (auto simp: timer_step_def timer_next_def)
    show ?thesis
      using rst [OF _ send_rst_only [OF s1 2]] st 1 2 same by (simp add: status_closing_def)
  qed
  show "sk_state s = FIN_WAIT_1 \<Longrightarrow> only_socket a timer_step w (status_fin_wait_1 P k a w)"
  proof -
    assume st: "sk_state s = FIN_WAIT_1"
    obtain b w2 where 2: "(if late then send_rst P k a (\<lambda>r. r \<noteq> - 1) w1 else (False, w1)) = (b, w2)" by fastforce
    have r: "if b then only_socket a (\<lambda>s s'. kept s s' \<and> sk_state s' = TIME_WAIT) w1 w2 else same_heap w1 w2"
      using 2 send_rst_only [OF s1, of P k "\<lambda>r. r \<noteq> - 1" b w2] by (auto split: if_splits)
    show ?thesis
    proof (cases b)
      case True
      then show ?thesis using rst [OF _ r] st 1 2 by (simp add: status_fin_wait_1_def)
    next
      case False
      obtain due w3 where 3: "older_than P (last_send_clock (sock_at w2 a)) SOCKET_SEND_AGAIN_TIME w2 = (due, w3)"
        by fastforce
      have h3: "same_heap w w3" using same_heap_trans [OF h1] same_heap_trans older_than_heap [OF 3] r False by (metis (full_types))
      have s3: "socks w3 a = Some s" using s same_heapD(2) [OF h3] by simp
      have "only_socket a steady w (if due then send_status P k a FIN (\<lambda>p. p) 0 w3 else w3)"
        using only_socket_heap(2) [OF h3 send_status_only [OF s3]] h3 s by (auto intro: only_socket_same)
      then show ?thesis
        using only_steady_timer [OF s] st 1 2 3 False by (simp add: status_fin_wait_1_def)
    qed
  qed
qed

lemma status_messages_only:
  assumes s: "socks w a = Some s" and g: "mgr_getSocket (Some k) w = Some a"
    and c: "check_and_handle_outgoing_status_messages P k w = (r, w')"
  shows "r = 0" and "only_socket a timer_step w w'"
proof -
  have sa: "sock_at w a = s" using s by (simp add: sock_at_def)
  show "r = 0" using c g by (simp add: check_and_handle_outgoing_status_messages_def)
  have same: "only_socket a timer_step w w" if "sk_state s \<noteq> CLOSE_WAIT"
    using s that by (intro only_socket_same) (auto intro: steady_timer)
  show "only_socket a timer_step w w'"
  proof (cases "sk_state s")
    case SYN_SENT
    then show ?thesis
      using c g sa only_steady_timer [OF s] status_only(1) [OF s]
      by (auto simp: check_and_handle_outgoing_status_messages_def)
  next
    case SYN_RECEIVED
    then show ?thesis
      using c g sa only_steady_timer [OF s] status_only(2) [OF s]
      by (auto simp: check_and_handle_outgoing_status_messages_def)
  next
    case LAST_ACK
    then show ?thesis
      using c g sa only_steady_timer [OF s] status_only(3) [OF s]
      by (auto simp: check_and_handle_outgoing_status_messages_def)
  next
    case ESTABLISED
    have "only_socket a timer_step w (status_established P k a w)"
      by (rule only_socket_weaken [OF status_only(4) [OF s]])
        (use s ESTABLISED in \<open>auto simp: window_grows_def intro: steady_timer\<close>)
    then show ?thesis using c g sa ESTABLISED by (auto simp: check_and_handle_outgoing_status_messages_def)
  next
    case CLOSE_WAIT
    then show ?thesis
      using c g sa s by (auto simp: check_and_handle_outgoing_status_messages_def status_close_wait_def
          timer_step_def timer_next_def kept_def socket_wf_def wf_windows_def intro!: only_socket_upd)
  next
    case TIME_WAIT
    obtain b w1 where 1: "older_than P (last_send_clock s) SOCKET_TIME_WAIT_TIMEOUT w = (b, w1)" by fastforce
    note h1 = older_than_heap [OF 1]
    have "only_socket a timer_step w (if b then upd_sock a (\<lambda>s. s\<lparr>sk_state := CLOSED\<rparr>) w1 else w1)"
      using s TIME_WAIT same_heapD(1-5) [OF h1]
      by (auto simp: only_socket_def timer_step_def timer_next_def kept_def socket_wf_def wf_windows_def)
    then show ?thesis
      using c g sa TIME_WAIT 1 by (auto simp: check_and_handle_outgoing_status_messages_def status_time_wait_def)
  qed (use c g sa same status_fin_only [OF s] in \<open>auto simp: check_and_handle_outgoing_status_messages_def\<close>)
qed

section \<open>Resending\<close>

lemma next_data_only:
  assumes s: "socks w a = Some s" and g: "get_next_socket_packet_data P a w = (d, w')"
  shows "only_socket a window_grows w w'"
proof (cases "send_window s")
  case None
  then show ?thesis
    using g s by (auto simp: get_next_socket_packet_data_def sock_at_Some [OF s] intro: only_socket_same)
next
  case (Some q)
  obtain m w1 where m: "sys_malloc P (MAX_DATA_PER_PACKET + 1) w = (m, w1)" by fastforce
  note h1 = sys_same_heap(1) [OF m]
  have s1: "socks w1 a = Some s" using s same_heapD(2) [OF h1] by simp
  show ?thesis
  proof (cases m)
    case None
    then show ?thesis
      using g s m Some h1 by (auto simp: get_next_socket_packet_data_def sock_at_Some [OF s] intro: only_socket_same)
  next
    case (Some b)
    let ?body = "\<lambda>data item. (data @ [item], length data + 1 = MAX_DATA_PER_PACKET)"
    obtain data q' where f: "QUEUE_FOR_EACH ?body [] (Some q) = (data, q')" by fastforce
    have w': "w' = upd_sock a (\<lambda>s. s\<lparr>send_window := q'\<rparr>) w1"
      using g m Some \<open>send_window s = Some q\<close> f
      by (simp add: get_next_socket_packet_data_def sock_at_Some [OF s] sock_at_Some [OF s1])
    have "window_grows s (s\<lparr>send_window := q'\<rparr>)"
    proof -
      have "socket_wf (s\<lparr>send_window := q'\<rparr>) \<and> queue_list (the q') = queue_list q" if wf: "socket_wf s"
      proof -
        have "queue_inv q" using wf \<open>send_window s = Some q\<close> by (auto simp: socket_wf_def)
        from QUEUE_FOR_EACH_eq [OF this, of ?body "[]"] obtain j where "q' = Some (q\<lparr>q_iterator := j\<rparr>)"
          using f by auto
        then show ?thesis using wf \<open>queue_inv q\<close> by (simp add: socket_wf_def wf_windows_def)
      qed
      then show ?thesis using \<open>send_window s = Some q\<close> by (auto simp: window_grows_def steady_def kept_def)
    qed
    then show ?thesis
      unfolding w' using only_socket_heap(2) [OF h1] s1 by (auto intro: only_socket_upd)
  qed
qed

lemma send_window_only:
  assumes s: "socks w a = Some s" and g: "mgr_getSocket (Some k) w = Some a"
    and c: "check_and_handle_send_window P k w = (r, w')"
  shows "r = 0" and "only_socket a steady w w'"
proof -
  have sa: "sock_at w a = s" using s by (simp add: sock_at_def)
  have weak: "only_socket a steady w v" if "only_socket a window_grows w v" for v
    by (rule only_socket_weaken [OF that]) (simp add: window_grows_def)
  obtain due w1 where 1: "older_than P (last_send_clock s) SOCKET_SEND_AGAIN_TIME w = (due, w1)" by fastforce
  note h1 = older_than_heap [OF 1]
  have same: "only_socket a steady w w" "only_socket a steady w w1" using s h1 by (auto intro: only_socket_same)
  have "r = 0 \<and> only_socket a steady w w'"
  proof (cases "sk_state s = ESTABLISED \<and> due")
    case False
    then show ?thesis using c g sa 1 same by (auto simp: check_and_handle_send_window_def split: if_splits)
  next
    case True
    have s1: "socks w1 a = Some s" using s same_heapD(2) [OF h1] by simp
    obtain d w2 where 2: "get_next_socket_packet_data P a w1 = (d, w2)" by fastforce
    have o2: "only_socket a steady w w2" by (rule weak [OF only_socket_heap(2) [OF h1 next_data_only [OF s1 2]]])
    obtain p w3 where 3: "construct_packet P a (case d of None \<Rightarrow> [] | Some d \<Rightarrow> d) ACK (dst_port (id_at w2 k)) w2 = (p, w3)"
      by fastforce
    define w4 where "w4 = (if d = None then set_ub w3 else w3)"
    have h4: "same_heap w2 w4"
      using construct_packet_heap [OF 3] same_heap_trans [OF construct_packet_heap [OF 3] same_heap_set_ub]
      by (simp add: w4_def)
    note o4 = only_socket_heap(1) [OF o2 h4]
    show ?thesis
    proof (cases p)
      case None
      then show ?thesis using c g sa 1 True 2 3 o4 by (simp add: check_and_handle_send_window_def Let_def w4_def)
    next
      case (Some q)
      obtain x w5 where 5: "send_TCP_packet P (Some (q\<lparr>tcp_seq_num := seq_of_first_send_window (sock_at w4 a),
          tcp_ack_num := seq_of_first_recv_window (sock_at w4 a)\<rparr>)) (dst_ip (id_at w4 k)) w4 = (x, w5)" by fastforce
      note o5 = only_socket_heap(1) [OF o4 send_TCP_packet_heap [OF 5]]
      have "r = 0 \<and> w' = (if x = 0 then stamp_last_send P a w5 else w5)"
        using c g sa 1 True 2 3 Some 5 by (simp add: check_and_handle_send_window_def Let_def w4_def [symmetric])
      then show ?thesis
        using o5 only_steady_trans [OF o5] stamp_last_send_only only_socket_Some [OF o5] by fastforce
    qed
  qed
  then show "r = 0" and "only_socket a steady w w'" by simp_all
qed

section \<open>Properties\<close>

text \<open>
  C24. The timers move a connection only forwards.  What a round does for a registered socket leaves its
  state as it is, except that a socket whose peer has closed goes on in the very next round to wait for the last
  acknowledgment, without waiting for its application to close as the comment on \<open>CLOSE_WAIT\<close> in
  src/util_types.h demands, a socket that has waited too long for the end of the connection gives it up after a
  reset, and the final wait ends in \<open>CLOSED\<close>.  The round reports success; the identifiers, the table
  and all other sockets stay as they are, and the invariant holds afterwards.
\<close>

theorem timers_move_state:
  assumes "mgr_inv w" and "ids w k = Some i" and "mgr_map w (sid_key i) = Some a" and "socks w a = Some s"
    and "check_and_handle_outgoing_status_messages P k w = (r, w')"
  shows "r = 0 \<and> (\<exists>s'. socks w' a = Some s' \<and> sk_id s' = sk_id s \<and> sk_state s' \<in> timer_next (sk_state s))
    \<and> (\<forall>b. b \<noteq> a \<longrightarrow> socks w' b = socks w b) \<and> ids w' = ids w \<and> mgr_map w' = mgr_map w \<and> mgr_inv w'"
proof -
  have g: "mgr_getSocket (Some k) w = Some a" using mgr_getSocket_map [OF assms(1,2)] assms(3) by simp
  note O = status_messages_only [OF assms(4) g assms(5)]
  have "keeps w w'" by (rule only_socket_keeps [OF assms(1) O(2)]) (simp add: timer_step_def)
  with O show ?thesis using assms(4) by (auto simp: only_socket_def timer_step_def kept_def dest: keepsD)
qed

lemma timers_move_state_witness:
  "\<exists>w' s'. check_and_handle_outgoing_status_messages sim_posix 0 (example_manager CLOSE_WAIT) = (0, w')
     \<and> socks w' 2 = Some s' \<and> sk_state s' = LAST_ACK \<and> mgr_inv w'"
proof -
  obtain r w' where c: "check_and_handle_outgoing_status_messages sim_posix 0 (example_manager CLOSE_WAIT) = (r, w')"
    by fastforce
  note M = example_manager [of CLOSE_WAIT]
  have "mgr_map (example_manager CLOSE_WAIT) (sid_key (the (example_ids 0))) = Some 2"
    using M(4) example_manager_id(3) by simp
  from timers_move_state [OF M(1) example_manager_id(1) this M(3) c] show ?thesis
    using c by (auto simp: timer_next_def)
qed

text \<open>
  The passive side counts its unsent bytes twice.  When the peer closes an established connection while
  bytes wait in the send window, the handler of the FIN moves the sequence number behind all of them, and
  the next round, which prepares the own FIN, moves it by their number once more: the FIN carries a number
  that skips as many bytes as were waiting.
\<close>

theorem passive_close_counts_window_twice:
  assumes "mgr_inv w" and "ids w k = Some i" and "mgr_map w (sid_key i) = Some a" and "socks w a = Some s"
    and "sk_state s = ESTABLISED" and "has_flag p FIN" and "\<not> has_flag p SYN" and "\<not> has_flag p RST"
    and "tcp_src_port p = dst_port (id_at w (the (sk_id s)))"
    and "handle_packet P a p from_ip w = (reply, w1)"
    and "check_and_handle_outgoing_status_messages P k w1 = (r, w2)"
  shows "\<exists>s2. socks w2 a = Some s2 \<and> sk_state s2 = LAST_ACK \<and> send_window s2 = send_window s
     \<and> seq_of_first_send_window s2
        = seq_of_first_send_window s + 2 * word_of_int (QueueSize (send_window s))"
proof -
  let ?f = "\<lambda>s. s\<lparr>sk_state := CLOSE_WAIT, seq_of_first_recv_window := tcp_seq_num p + 1,
      seq_of_first_send_window := seq_of_first_send_window s + word_of_int (QueueSize (send_window s))\<rparr>"
  have w1: "w1 = upd_sock a ?f w"
    using assms(4-10) by (auto simp: handle_packet_def handle_packet_established_def sock_at_def Let_def)
  have K: "keeps w w1" unfolding w1 by (rule keeps_upd_sock [OF assms(1)]) (simp_all add: socket_wf_def wf_windows_def)
  have s1: "socks w1 a = Some (?f s)" using assms(4) w1 by simp
  have "mgr_getSocket (Some k) w1 = Some a"
    using mgr_getSocket_map [OF keepsD(1) [OF K], of k i] assms(2,3) keepsD(2) [OF K] w1 by simp
  then have "w2 = status_close_wait a w1"
    using assms(11) s1 by (simp add: check_and_handle_outgoing_status_messages_def sock_at_def)
  then show ?thesis using s1 by (simp add: status_close_wait_def)
qed

lemma passive_close_counts_window_twice_witness:
  "\<exists>w1 w2 r s2. handle_packet sim_posix 2 (example_packet FIN 0) [] (example_manager ESTABLISED) = (None, w1)
     \<and> check_and_handle_outgoing_status_messages sim_posix 0 w1 = (r, w2) \<and> socks w2 2 = Some s2
     \<and> sk_state s2 = LAST_ACK"
proof -
  let ?w = "example_manager ESTABLISED"
  note M = example_manager [of ESTABLISED]
  have m: "mgr_map ?w (sid_key (the (example_ids 0))) = Some 2" using M(4) example_manager_id(3) by simp
  have P: "has_flag (example_packet FIN 0) FIN" "\<not> has_flag (example_packet FIN 0) SYN"
      "\<not> has_flag (example_packet FIN 0) RST"
      "tcp_src_port (example_packet FIN 0) = dst_port (id_at ?w (the (sk_id ((example_socket 0)\<lparr>sk_state := ESTABLISED\<rparr>))))"
    using example_manager_id(2) [of ESTABLISED]
    by (simp_all add: has_flag_def example_packet_def FIN_def SYN_def RST_def example_socket_def example_ids_def)
  obtain reply w1 where h: "handle_packet sim_posix 2 (example_packet FIN 0) [] ?w = (reply, w1)" by fastforce
  have "reply = None"
    using h M(3) P by (auto simp: handle_packet_def handle_packet_established_def sock_at_def Let_def)
  moreover obtain r w2 where c: "check_and_handle_outgoing_status_messages sim_posix 0 w1 = (r, w2)" by fastforce
  ultimately show ?thesis
    using passive_close_counts_window_twice [OF M(1) example_manager_id(1) m M(3) _ P h c] h by auto
qed

text \<open>
  The end of a connection is never acknowledged on these paths.  A socket that is closing, whichever
  side it is on, answers no segment, the FIN of the peer included: only a socket in \<open>FIN_WAIT_2\<close> sends
  an acknowledgment.  In particular a socket in \<open>FIN_WAIT_1\<close> that gets the peer's FIN together with the
  acknowledgment of its own goes to \<open>TIME_WAIT\<close> without a word.
\<close>

theorem closing_sockets_answer_nothing:
  assumes "socks w a = Some s" and "sk_state s \<in> {FIN_WAIT_1, CLOSING, TIME_WAIT, CLOSE_WAIT, LAST_ACK, CLOSED}"
  shows "fst (handle_packet P a p from_ip w) = None
    \<and> (sk_state s = FIN_WAIT_1 \<longrightarrow> has_flag p FIN \<longrightarrow> \<not> has_flag p RST
        \<longrightarrow> tcp_src_port p = dst_port (id_at w (the (sk_id s)))
        \<longrightarrow> has_flag p ACK \<and> sint (tcp_ack_num p) > sint (seq_of_first_send_window s)
        \<longrightarrow> (\<exists>s'. socks (snd (handle_packet P a p from_ip w)) a = Some s' \<and> sk_state s' = TIME_WAIT))"
proof -
  have sa: "sock_at w a = s" using assms(1) by (simp add: sock_at_def)
  have keep: "socks v' a = socks v a" if "sys_clock P v = (t, v')" for v v' t
    using same_heapD(2) [OF sys_same_heap(10) [OF that]] by simp
  show ?thesis
    using assms sa keep
    by (auto simp: handle_packet_def handle_packet_fin_wait_1_def handle_packet_closing_def
        handle_packet_time_wait_def handle_packet_close_wait_def handle_packet_last_ack_def
        handle_packet_closed_def Let_def split: prod.splits)
qed

lemma closing_sockets_answer_nothing_witness:
  "fst (handle_packet sim_posix 2 (example_packet (or FIN ACK) 101) [] (example_manager FIN_WAIT_1)) = None"
  using closing_sockets_answer_nothing [OF example_manager(3) [of FIN_WAIT_1], of sim_posix "example_packet (or FIN ACK) 101" "[]"]
  by simp

end
