(* ===== verification/Request_Steps.thy ===== *)
theory Request_Steps imports Timer_Steps Connection_States Read_Loops begin

text \<open>
  What the requests of clients do to the manager: binding, connecting, closing and removing sockets
  change the table by one entry and keep the invariant; everything else of the table stays as it is.
\<close>

section \<open>Removing a socket\<close>

lemma registered_unique:
  assumes inv: "mgr_inv w" and a: "registered w a" "socks w a = Some s" "sk_id s = Some k"
    and b: "registered w b" "socks w b = Some t" "sk_id t = Some k"
  shows "a = b"
proof -
  obtain i where i: "ids w k = Some i" "mgr_map w (sid_key i) = Some a"
    using registered_socket [OF inv a(1)] a by (metis option.inject)
  obtain j where j: "ids w k = Some j" "mgr_map w (sid_key j) = Some b"
    using registered_socket [OF inv b(1)] b by (metis option.inject)
  show ?thesis using i j by simp
qed

lemma registered_one_key:
  assumes "mgr_inv w" and "mgr_map w key = Some a" and "mgr_map w key' = Some a"
  shows "key = key'"
  using registered_key [OF assms(1,2)] registered_key [OF assms(1,3)] by (metis option.inject)

lemma write_close_heap:
  "sys_open P n m w = (fd, w1) \<Longrightarrow> sys_write P fd bs w1 = (r, w2) \<Longrightarrow> same_heap w (sys_close P fd w2)"
  using same_heap_trans [OF same_heap_trans [OF sys_same_heap(3) sys_same_heap(5)] same_heap_close] .

lemma disconnect_partner_heap:
  assumes inv: "mgr_inv w" and s: "socks w a = Some s" "sk_id s = Some k" "ids w k = Some i"
  shows "same_heap w (disconnect_partner P a w)"
proof -
  have sid: "the (sk_id (sock_at w a)) = k" using s by (simp add: sock_at_def)
  obtain c w1 where 1: "copy_socket_id P k w = (c, w1)" by fastforce
  show ?thesis
  proof (cases c)
    case None
    then show ?thesis
      using sid 1 copy_socket_id_keeps(3) [OF inv s(3) 1] by (auto simp: disconnect_partner_def)
  next
    case (Some c)
    let ?i = "id_at w1 k" and ?r = "id_at w1 c"
    define w2 where "w2 = (case (strcpy_lib (src_ip ?r) (cstr (dst_ip ?i)), strcpy_lib (dst_ip ?r) (cstr (src_ip ?i))) of
        (Returns s, Returns d) \<Rightarrow> upd_id c (\<lambda>r. r\<lparr>src_ip := s, src_port := dst_port ?i, dst_ip := d,
          dst_port := src_port ?i\<rparr>) w1
      | _ \<Rightarrow> set_ub w1)"
    have id: "upd_id c (\<lambda>i. i) w1 = w1" by (simp add: upd_id_def option.map_ident)
    obtain f where f: "same_heap (upd_id c f w1) w2"
    proof (cases "\<exists>s d. strcpy_lib (src_ip ?r) (cstr (dst_ip ?i)) = Returns s
        \<and> strcpy_lib (dst_ip ?r) (cstr (src_ip ?i)) = Returns d")
      case True
      then obtain s d where "strcpy_lib (src_ip ?r) (cstr (dst_ip ?i)) = Returns s"
          "strcpy_lib (dst_ip ?r) (cstr (src_ip ?i)) = Returns d" by blast
      then have "w2 = upd_id c (\<lambda>r. r\<lparr>src_ip := s, src_port := dst_port ?i, dst_ip := d,
          dst_port := src_port ?i\<rparr>) w1" by (simp add: w2_def)
      then show thesis using that same_heap_refl by blast
    next
      case False
      then have "w2 = set_ub w1" by (auto simp: w2_def split: c_result.splits)
      then show thesis using that [of "\<lambda>i. i"] id by simp
    qed
    obtain nm w3 where 3: "get_socket_recv_fifo_name P (Some c) w2 = (nm, w3)" by fastforce
    define w5 where "w5 = (case nm of None \<Rightarrow> w3 | Some n \<Rightarrow>
        let (fd, w4) = sys_open P n O_RDWR w3 in
        if fd = - 1 then w4 else sys_close P fd (snd (sys_write P fd [CONN_CLOSED] w4)))"
    have h5: "same_heap w3 w5"
    proof (cases nm)
      case (Some n)
      obtain fd w4 where 4: "sys_open P n O_RDWR w3 = (fd, w4)" by fastforce
      obtain x w6 where 6: "sys_write P fd [CONN_CLOSED] w4 = (x, w6)" by fastforce
      show ?thesis using Some 4 6 write_close_heap [OF 4 6] sys_same_heap(3) [OF 4] by (simp add: w5_def)
    qed (simp add: w5_def)
    have "disconnect_partner P a w = free_id c w5"
      using sid 1 Some 3 unfolding w2_def w5_def
      by (simp add: disconnect_partner_def Let_def destroy_socket_id_def)
    then show ?thesis
      using copy_and_free [OF inv s(3) 1 [unfolded Some]
          same_heap_trans [OF f same_heap_trans [OF fifo_name_heap(6) [OF 3] h5]]] by simp
  qed
qed

lemma unlink_named_heap: "same_heap w w1 \<Longrightarrow> same_heap w (unlink_named P (n, w1))"
  using same_heap_trans [OF _ same_heap_unlink] by (cases n) (auto simp: unlink_named_def)

lemma unlink_server_side_heap:
  assumes inv: "mgr_inv w" and s: "socks w a = Some s" "sk_id s = Some k" "ids w k = Some i"
  shows "same_heap w (unlink_socket_fifos_server_side P a w)"
proof -
  let ?k = "sk_id (sock_at w a)"
  obtain n1 w1 where 1: "get_end_fifo_write_end_name P ?k w = (n1, w1)" by fastforce
  obtain n2 w2 where 2: "get_accept_fifo_write_end_name P ?k (unlink_named P (n1, w1)) = (n2, w2)" by fastforce
  obtain n3 w3 where 3: "get_socket_send_fifo_name P ?k (unlink_named P (n2, w2)) = (n3, w3)" by fastforce
  obtain n4 w4 where 4: "get_socket_recv_fifo_name P ?k (unlink_named P (n3, w3)) = (n4, w4)" by fastforce
  let ?w5 = "unlink_named P (n4, w4)"
  have "same_heap w (unlink_named P (n1, w1))" by (rule unlink_named_heap [OF fifo_name_heap(8) [OF 1]])
  then have "same_heap w (unlink_named P (n2, w2))"
    using unlink_named_heap same_heap_trans fifo_name_heap(3) [OF 2] by blast
  then have "same_heap w (unlink_named P (n3, w3))"
    using unlink_named_heap same_heap_trans fifo_name_heap(9) [OF 3] by blast
  then have h5: "same_heap w ?w5"
    using unlink_named_heap same_heap_trans fifo_name_heap(6) [OF 4] by blast
  have "same_heap ?w5 (disconnect_partner P a ?w5)"
    using s same_heapD(1,2) [OF h5]
    by (intro disconnect_partner_heap [OF keepsD(1) [OF same_heap_keeps [OF inv h5]]]) simp_all
  then have "same_heap w (disconnect_partner P a ?w5)" by (rule same_heap_trans [OF h5])
  then show ?thesis
    using 1 2 3 4 h5 by (simp add: unlink_socket_fifos_server_side_def Let_def)
qed

text \<open>A removal takes the one socket out of the table and frees it with its identifier.\<close>

lemma remove_and_destroy_socket_spec:
  assumes inv: "mgr_inv w" and k: "ids w k = Some i"
    and w'_def: "w' = remove_and_destroy_socket P k w"
  shows "mgr_inv w'" and "mgr_map w' = (mgr_map w)(sid_key i := None)"
    and "\<And>b. registered w b \<Longrightarrow> mgr_map w (sid_key i) \<noteq> Some b \<Longrightarrow> socks w' b = socks w b"
    and "\<And>j. reg_id w j \<Longrightarrow> (\<forall>a s. mgr_map w (sid_key i) = Some a \<longrightarrow> socks w a = Some s \<longrightarrow> sk_id s \<noteq> Some j) \<Longrightarrow>
         ids w' j = ids w j"
    and "mgr_ip w' = mgr_ip w"
proof -
  note G = mgr_getSocket_map [OF inv k]
  have "mgr_inv w' \<and> mgr_map w' = (mgr_map w)(sid_key i := None) \<and> mgr_ip w' = mgr_ip w
    \<and> (\<forall>b. registered w b \<longrightarrow> mgr_map w (sid_key i) \<noteq> Some b \<longrightarrow> socks w' b = socks w b)
    \<and> (\<forall>j. reg_id w j \<longrightarrow> (\<forall>a s. mgr_map w (sid_key i) = Some a \<longrightarrow> socks w a = Some s \<longrightarrow> sk_id s \<noteq> Some j)
         \<longrightarrow> ids w' j = ids w j)"
  proof (cases "mgr_map w (sid_key i)")
    case None
    then have "w' = w" using G by (simp add: w'_def remove_and_destroy_socket_def)
    then show ?thesis using inv None by (simp add: fun_upd_idem)
  next
    case (Some a)
    obtain s k' i' where s: "socks w a = Some s" "sk_id s = Some k'" "ids w k' = Some i'" "sid_key i' = sid_key i"
      using registered_key [OF inv Some] by metis
    obtain r w1 where 1: "mgr_hashmapRemove (Some k) w = (r, w1)" by fastforce
    note R = mgr_hashmapRemove_spec [OF inv k 1]
    have t: "ids w1 = ids w" "socks w1 = socks w" "mgr_ip w1 = mgr_ip w"
      using keeps_only_table [OF R(4)] mgr_inv_def R(4) by (auto, metis world.select_convs(5) world.surjective world.update_convs(6))
    have na: "\<not> registered w1 a"
    proof
      assume "registered w1 a"
      then obtain key where "mgr_map w1 key = Some a" using registered_iff [OF R(2)] by blast
      then have "mgr_map w key = Some a" "key \<noteq> sid_key i" using R(3) by (auto split: if_splits)
      then show False using registered_one_key [OF inv _ Some] by blast
    qed
    have nk: "\<not> reg_id w1 k'"
    proof
      assume "reg_id w1 k'"
      then obtain b u where b: "registered w1 b" "socks w1 b = Some u" "sk_id u = Some k'" by (auto simp: reg_id_def)
      then have "registered w b" using registered_iff [OF R(2)] registered_iff [OF inv] R(3) by (auto split: if_splits)
      then have "b = a"
        using registered_unique [OF inv _ _ _ mgr_map_registered [OF inv Some] s(1,2)] b t by auto
      then show False using b na by simp
    qed
    have sub: "registered w1 b \<longleftrightarrow> registered w b \<and> b \<noteq> a" for b
      using registered_iff [OF R(2)] registered_iff [OF inv] R(3) Some na registered_one_key [OF inv Some]
      by (metis fun_upd_apply option.distinct(1) option.inject)
    have h2: "same_heap w1 (unlink_socket_fifos_server_side P a w1)"
      by (rule unlink_server_side_heap [OF R(2)]) (use s t in simp_all)
    let ?w2 = "unlink_socket_fifos_server_side P a w1"
    note q2 = quiet_same_heap [OF R(2) h2]
    have "quiet ?w2 (destroy_socket a ?w2)"
      using na nk quietD(4,5) [OF q2] s t same_heapD(7) [OF h2, of a]
      by (intro quiet_destroy_socket [OF quietD(2) [OF q2]]) (simp_all add: sock_at_def)
    note q = quiet_trans [OF q2 this]
    have w': "w' = destroy_socket a ?w2"
      using G Some 1 by (simp add: w'_def remove_and_destroy_socket_def)
    have "reg_id w1 j" if "reg_id w j" "\<forall>a s. mgr_map w (sid_key i) = Some a \<longrightarrow> socks w a = Some s \<longrightarrow> sk_id s \<noteq> Some j" for j
      using that sub t Some s unfolding reg_id_def by (metis option.inject)
    then have "ids w' j = ids w j"
      if "reg_id w j" "\<forall>a s. mgr_map w (sid_key i) = Some a \<longrightarrow> socks w a = Some s \<longrightarrow> sk_id s \<noteq> Some j" for j
      using that quietD(8) [OF q, of j] t unfolding w' by simp
    moreover have "socks w' b = socks w b" if "registered w b" "mgr_map w (sid_key i) \<noteq> Some b" for b
      using that Some sub quietD(7) [OF q, of b] t unfolding w' by auto
    ultimately show ?thesis
      using quietD(2,3,6) [OF q] R(3) t unfolding w' by simp
  qed
  then show "mgr_inv w'" and "mgr_map w' = (mgr_map w)(sid_key i := None)" and "mgr_ip w' = mgr_ip w"
    and "\<And>b. registered w b \<Longrightarrow> mgr_map w (sid_key i) \<noteq> Some b \<Longrightarrow> socks w' b = socks w b"
    and "\<And>j. reg_id w j \<Longrightarrow> (\<forall>a s. mgr_map w (sid_key i) = Some a \<longrightarrow> socks w a = Some s \<longrightarrow> sk_id s \<noteq> Some j) \<Longrightarrow>
         ids w' j = ids w j"
    by simp_all
qed

end
