(* ===== verification/Bind_Steps.thy ===== *)
theory Bind_Steps imports Request_Steps begin

text \<open>
  A bind request makes one new socket, closed and without a peer, or none: which of the two, what is
  left of the rest of the manager, and what the client is told.
\<close>

section \<open>New objects\<close>

lemma quiet_new_id:
  assumes "mgr_inv w" and "wf_sockid i" and "new_id i w = (k, w')"
  shows "quiet w w'"
  using keeps_new_id [OF assms] registered_heap(2) [OF assms(1)]
  unfolding quiet_def by (metis option.distinct(1))

lemma quietI:
  assumes inv: "mgr_inv w" "mgr_inv w'" and m: "mgr_map w' = mgr_map w" and ip: "mgr_ip w' = mgr_ip w"
    and s: "\<And>b. registered w b \<Longrightarrow> socks w' b = socks w b" and k: "\<And>k. reg_id w k \<Longrightarrow> ids w' k = ids w k"
  shows "quiet w w'"
proof -
  have "registered w' = registered w" using registered_iff [OF inv(1)] registered_iff [OF inv(2)] m by auto
  moreover from this have "reg_id w' = reg_id w" using s unfolding reg_id_def fun_eq_iff by metis
  ultimately show ?thesis using assms by (simp add: quiet_def keeps_def)
qed

lemma create_bound_socket_spec:
  assumes inv: "mgr_inv w" and k: "ids w k = Some i" and c: "create_bound_socket P k w = (r, w')"
  shows "quiet w w'" and "resourceful P \<Longrightarrow> r \<noteq> None"
    and "r = Some a \<Longrightarrow> \<exists>t. socks w' a = Some t \<and> socket_wf t \<and> sk_id t = Some k \<and> sk_state t = CLOSED
           \<and> \<not> registered w' a \<and> ids w' k = Some i"
proof -
  obtain n w1 where 1: "create_new_socket P w = (n, w1)" by fastforce
  note q1 = quiet_create_new_socket [OF inv 1]
  note C = create_new_socket_keeps [OF inv 1]
  have "quiet w w' \<and> (resourceful P \<longrightarrow> r \<noteq> None) \<and> (\<forall>a. r = Some a \<longrightarrow> (\<exists>t. socks w' a = Some t \<and> socket_wf t
      \<and> sk_id t = Some k \<and> sk_state t = CLOSED \<and> \<not> registered w' a \<and> ids w' k = Some i))"
  proof (cases n)
    case None
    then show ?thesis using c 1 q1 resourceful_create(3) [OF _ 1] by (auto simp: create_bound_socket_def)
  next
    case (Some b)
    obtain t where t: "socks w1 b = Some t" "socket_wf t" "sk_id t = None" "\<not> registered w1 b"
      using C(3) [OF Some] by metis
    define w2 where "w2 = upd_sock b (\<lambda>s. s\<lparr>sk_state := CLOSED\<rparr>) w1"
    have q2: "quiet w w2"
      unfolding w2_def by (rule quiet_trans [OF q1 quiet_upd_sock [OF quietD(2) [OF q1] t(4)]])
        (simp add: socket_wf_def wf_windows_def)
    obtain x w3 where 3: "create_socket_end_fifos P (Some k) w2 = (x, w3)" by fastforce
    note h3 = create_socket_end_fifos_heap [OF 3]
    note q3 = quiet_trans [OF q2 quiet_same_heap [OF quietD(2) [OF q2] h3]]
    have s3: "socks w3 b = Some (t\<lparr>sk_state := CLOSED\<rparr>)" "\<not> registered w3 b" "ids w3 k = Some i"
      using t(1,4) same_heapD(1,2) [OF h3] quietD(4) [OF q3] quietD(4) [OF q1] C(2) k by (simp_all add: w2_def)
    show ?thesis
    proof (cases "x = 0")
      case False
      have "quiet w3 (destroy_socket b w3)"
        using s3(1) t(3) by (intro quiet_destroy_socket [OF quietD(2) [OF q3] s3(2)]) (simp add: sock_at_def)
      then show ?thesis
        using False c 1 Some 3 quiet_trans [OF q3] resourceful_create(1) [OF _ 3]
        by (auto simp: create_bound_socket_def w2_def)
    next
      case True
      let ?w' = "upd_sock b (\<lambda>s. s\<lparr>sk_id := Some k\<rparr>) w3"
      have q: "quiet w ?w'"
        by (rule quiet_trans [OF q3 quiet_upd_sock [OF quietD(2) [OF q3] s3(2)]])
          (simp add: socket_wf_def wf_windows_def)
      have "r = Some b" "w' = ?w'" using True c 1 Some 3 by (auto simp: create_bound_socket_def w2_def)
      moreover have "\<not> registered ?w' b" using s3(2) quietD(4) [OF q] quietD(4) [OF q3] by simp
      ultimately show ?thesis
        using q s3 t(2) by (simp add: socket_wf_def wf_windows_def)
    qed
  qed
  then show "quiet w w'" and "resourceful P \<Longrightarrow> r \<noteq> None"
    and "r = Some a \<Longrightarrow> \<exists>t. socks w' a = Some t \<and> socket_wf t \<and> sk_id t = Some k \<and> sk_state t = CLOSED
           \<and> \<not> registered w' a \<and> ids w' k = Some i" by blast+
qed

text \<open>One socket more, under a key that was free; everything registered before stays.\<close>

definition adds_socket :: "sock_key \<Rightarrow> (socket \<Rightarrow> bool) \<Rightarrow> 's world \<Rightarrow> 's world \<Rightarrow> bool" where
  "adds_socket key Q w w' \<longleftrightarrow> mgr_inv w' \<and> mgr_map w key = None \<and> card (dom (mgr_map w)) < 100
     \<and> mgr_ip w' = mgr_ip w
     \<and> (\<exists>a s. \<not> registered w a \<and> mgr_map w' = (mgr_map w)(key \<mapsto> a) \<and> socks w' a = Some s \<and> Q s)
     \<and> (\<forall>b. registered w b \<longrightarrow> socks w' b = socks w b) \<and> (\<forall>k. reg_id w k \<longrightarrow> ids w' k = ids w k)"

lemma bind_new_socket_spec:
  assumes inv: "mgr_inv w" and k: "ids w k = Some i" "\<not> reg_id w k" and c: "bind_new_socket P k w = (r, w')"
  shows "r \<noteq> 0 \<Longrightarrow> quiet w w'"
    and "r = 0 \<Longrightarrow> adds_socket (sid_key i) (\<lambda>s. sk_state s = CLOSED \<and> sk_id s = Some k) w w' \<and> ids w' k = Some i"
    and "resourceful P \<Longrightarrow> mgr_map w (sid_key i) = None \<Longrightarrow> card (dom (mgr_map w)) < 100 \<Longrightarrow> r = 0"
    and "r = 0 \<or> r = - 1"
proof -
  obtain n w1 where 1: "create_bound_socket P k w = (n, w1)" by fastforce
  note C = create_bound_socket_spec [OF inv k(1) 1]
  have "(r \<noteq> 0 \<longrightarrow> quiet w w') \<and> (r = 0 \<longrightarrow> adds_socket (sid_key i) (\<lambda>s. sk_state s = CLOSED \<and> sk_id s = Some k) w w'
      \<and> ids w' k = Some i)
    \<and> (resourceful P \<longrightarrow> mgr_map w (sid_key i) = None \<longrightarrow> card (dom (mgr_map w)) < 100 \<longrightarrow> r = 0) \<and> (r = 0 \<or> r = - 1)"
  proof (cases n)
    case None
    then show ?thesis using c 1 C by (auto simp: bind_new_socket_def)
  next
    case (Some a)
    obtain t where t: "socks w1 a = Some t" "socket_wf t" "sk_id t = Some k" "sk_state t = CLOSED"
        "\<not> registered w1 a" "ids w1 k = Some i" using C(3) [OF Some] by metis
    obtain b w2 where 2: "mgr_insertSocket (Some a) w1 = (b, w2)" by fastforce
    note q1 = C(1)
    note I = mgr_insertSocket_spec [OF quietD(2) [OF q1] t(1,3,6) 2]
    have res: "r = (if b then 0 else - 1)" "w' = w2"
      using c 1 Some 2 by (auto simp: bind_new_socket_def split: if_splits)
    have na: "\<not> registered w a" using t(5) quietD(4) [OF q1] by simp
    show ?thesis
    proof (cases b)
      case False
      then show ?thesis using res I(1,3) q1 quietD(3) [OF q1] by auto
    next
      case True
      have free: "mgr_map w (sid_key i) = None" "card (dom (mgr_map w)) < 100"
        using I(1) True quietD(3) [OF q1] by simp_all
      have w2: "mgr_inv w2" "mgr_map w2 = (mgr_map w)(sid_key i \<mapsto> a)" "ids w2 = ids w1" "socks w2 = socks w1"
        "mgr_ip w2 = mgr_ip w1"
        using I(2) [OF True] quietD(3) [OF q1] keeps_only_table [OF I(4)] I(4)
        by (simp_all, metis world.select_convs(5) world.surjective world.update_convs(6))
      have "adds_socket (sid_key i) (\<lambda>s. sk_state s = CLOSED \<and> sk_id s = Some k) w w2"
        unfolding adds_socket_def using free w2 na t quietD(6-8) [OF q1] by (intro conjI exI [of _ a] exI [of _ t]) auto
      then show ?thesis using res True w2(3) t(6) by simp
    qed
  qed
  then show "r \<noteq> 0 \<Longrightarrow> quiet w w'"
    and "r = 0 \<Longrightarrow> adds_socket (sid_key i) (\<lambda>s. sk_state s = CLOSED \<and> sk_id s = Some k) w w' \<and> ids w' k = Some i"
    and "resourceful P \<Longrightarrow> mgr_map w (sid_key i) = None \<Longrightarrow> card (dom (mgr_map w)) < 100 \<Longrightarrow> r = 0"
    and "r = 0 \<or> r = - 1" by blast+
qed

section \<open>What is sent\<close>

text \<open>System calls that send nothing.\<close>

definition only_writes_send :: "'s posix \<Rightarrow> ('s \<Rightarrow> string \<Rightarrow> string) \<Rightarrow> bool" where
  "only_writes_send P out \<longleftrightarrow> (\<forall>n s. out (snd (px_mkfifo P n s)) = out s) \<and> (\<forall>s. out (snd (px_clock P s)) = out s)"

lemma only_writes_send_calls:
  assumes "only_writes_send P out"
  shows "sys_mkfifo P n w = (r, w') \<Longrightarrow> out (os w') = out (os w)" "sys_clock P w = (t, w') \<Longrightarrow> out (os w') = out (os w)"
  using assms by (auto simp: only_writes_send_def sys_mkfifo_def sys_clock_def split: prod.splits) (metis snd_conv)+

lemma create_new_socket_out:
  assumes L: "fifo_laws P out tgt" "only_writes_send P out" and c: "create_new_socket P w = (r, w')"
  shows "out (os w') = out (os w)"
proof -
  obtain m w1 where 1: "sys_malloc P 112 w = (m, w1)" by fastforce
  obtain al w2 where 2: "sys_new P w1 = (al, w2)" by fastforce
  obtain rv w3 where 3: "sys_malloc P MAX_WINDOW_SIZE w2 = (rv, w3)" by fastforce
  obtain iv w4 where 4: "sys_malloc P MAX_WINDOW_SIZE w3 = (iv, w4)" by fastforce
  obtain t1 w5 where 5: "sys_clock P w4 = (t1, w5)" by fastforce
  obtain t2 w6 where 6: "sys_clock P w5 = (t2, w6)" by fastforce
  note F = fifo_laws_simps(1) [OF L(1) 1] fifo_laws_simps(2) [OF L(1) 2] fifo_laws_simps(1) [OF L(1) 3]
    fifo_laws_simps(1) [OF L(1) 4] only_writes_send_calls(2) [OF L(2) 5] only_writes_send_calls(2) [OF L(2) 6]
  show ?thesis
    using c 1 2 3 4 5 6 F
    by (cases m; cases iv; cases rv; cases "QueueCreate al")
      (auto simp: create_new_socket_def Let_def new_sock_def split: prod.splits if_splits)
qed

lemma bind_new_socket_out:
  assumes L: "fifo_laws P out tgt" "only_writes_send P out" and P: "resourceful P" and wf: "wf_sockid (id_at w k)"
    and c: "bind_new_socket P k w = (r, w')"
  shows "out (os w') = out (os w)"
proof -
  obtain n w1 where 1: "create_new_socket P w = (n, w1)" by fastforce
  obtain a where a: "n = Some a" using resourceful_create(3) [OF P 1] by blast
  obtain x w3 where 3: "create_socket_end_fifos P (Some k) (upd_sock a (\<lambda>s. s\<lparr>sk_state := CLOSED\<rparr>) w1) = (x, w3)"
    by fastforce
  have i1: "ids w1 = ids w"
    using 1 by (auto simp: create_new_socket_def new_sock_def Let_def sys_malloc_def sys_new_def sys_clock_def
        set_ub_def split: prod.splits option.splits if_splits)
  have o3: "out (os w3) = out (os w)"
    using create_socket_end_fifos_out [OF L(1) _ P 3] L(2) wf i1 create_new_socket_out [OF L 1]
    by (simp add: only_writes_send_def id_at_def)
  obtain b w4 where 4: "mgr_insertSocket (Some a) (upd_sock a (\<lambda>s. s\<lparr>sk_id := Some k\<rparr>) w3) = (b, w4)" by fastforce
  have "os w4 = os w3" using 4 by (auto simp: mgr_insertSocket_def split: prod.splits)
  then show ?thesis
    using c 1 a 3 4 o3 resourceful_create(1) [OF P 3]
    by (auto simp: bind_new_socket_def create_bound_socket_def split: if_splits)
qed

lemma get_client_fifo_name_out:
  assumes L: "fifo_laws P out tgt" and c: "get_client_fifo_name P pid n w = (r, w')"
  shows "out (os w') = out (os w)"
proof -
  obtain m w1 where 1: "sys_malloc P MAX_SOCKET_STRING_REPR_SIZE w = (m, w1)" by fastforce
  show ?thesis
    using c 1 fifo_laws_simps(1) [OF L 1] construct_full_fifo_name_spec [of P CLIENT_FIFO_PREFIX _ w1 r w'] L
    by (auto simp: get_client_fifo_name_eq split: option.splits)
qed

section \<open>The request\<close>

text \<open>The identifier of a bound socket: the manager's own address and the port, no peer.\<close>

definition bound_key :: "'s world \<Rightarrow> c_int \<Rightarrow> sock_key" where
  "bound_key w port = (mgr_ip w, port, empty_ip_text, EMPTY_PORT)"

lemma bound_id:
  assumes ip: "length (mgr_ip w) = 16" "NUL \<notin> set (mgr_ip w)"
    and i_def: "i = init_empty_socket_id (fresh_sockid b)"
  shows "strcpy_lib (src_ip i) (mgr_ip w) = Returns (mgr_ip w @ [NUL])"
    and "wf_sockid (i\<lparr>src_ip := mgr_ip w @ [NUL], src_port := port\<rparr>)"
    and "sid_key (i\<lparr>src_ip := mgr_ip w @ [NUL], src_port := port\<rparr>) = bound_key w port"
proof -
  have l: "length (src_ip (fresh_sockid b)) = 17" "length (dst_ip (fresh_sockid b)) = 17"
    by (simp_all add: fresh_sockid_def block_cells_def MAX_IP_LENGTH_def)
  have e: "src_ip i = replicate 16 (CHR ''e'') @ [NUL]" "dst_ip i = replicate 16 (CHR ''e'') @ [NUL]"
      "dst_port i = EMPTY_PORT"
    using l by (simp_all add: i_def init_empty_socket_id_def ip_set_empty_eq)
  have c: "cstr (mgr_ip w @ [NUL]) = mgr_ip w" using ip(2) by simp
  show "strcpy_lib (src_ip i) (mgr_ip w) = Returns (mgr_ip w @ [NUL])"
    using wf_ip_strcpy_lib(1) [of "src_ip i" "mgr_ip w"] wf_ip_set_empty l ip e
    by (simp add: i_def init_empty_socket_id_def)
  show "wf_sockid (i\<lparr>src_ip := mgr_ip w @ [NUL], src_port := port\<rparr>)"
    using ip e by (simp add: wf_sockid_def wf_ip_def MAX_IP_LENGTH_def terminated_def)
  show "sid_key (i\<lparr>src_ip := mgr_ip w @ [NUL], src_port := port\<rparr>) = bound_key w port"
    using c e by (simp add: sid_key_def bound_key_def empty_ip_text_def wf_sockidD)
qed

text \<open>
  The parts of a request up to the answer: the identifier, the socket, and which answer is due.
\<close>

lemma bind_request_parts:
  assumes inv: "mgr_inv w" and sc: "scan_bind_request req = Some (port, pid, n)"
    and h: "handle_bind_request P req w = (r, w')"
  obtains (starved) "r = - 1" "quiet w w'" "\<not> resourceful P"
  | (answered) k i w4 result reply nm w5 x w6 where
      "reply = REQUEST_GRANTED_FIFO \<Longrightarrow> result = 0
         \<and> adds_socket (bound_key w port) (\<lambda>s. sk_state s = CLOSED \<and> sk_id s = Some k) w w4
         \<and> \<not> reg_id w k \<and> ids w4 k = Some i \<and> sid_key i = bound_key w port"
      "reply \<noteq> REQUEST_GRANTED_FIFO \<Longrightarrow> reply = REQUEST_DENIED_FIFO \<and> quiet w w4
         \<and> (resourceful P \<longrightarrow> \<not> (mgr_map w (bound_key w port) = None \<and> card (dom (mgr_map w)) < 100))
         \<and> result = (if mgr_map w (bound_key w port) = None then - 1 else 0)"
      "fifo_laws P out tgt \<Longrightarrow> only_writes_send P out \<Longrightarrow> resourceful P \<Longrightarrow> out (os w4) = out (os w)"
      "get_client_fifo_name P pid n w4 = (nm, w5)" "write_char_to_fifo_name P nm reply w5 = (x, w6)"
      "(r, w') = (if x \<noteq> 0
         then if reply = REQUEST_GRANTED_FIFO then (BREAK_ITERATION, remove_and_destroy_socket P k w6) else (- 1, w6)
         else (result, w6))"
proof -
  obtain m w1 where 1: "sys_malloc P 48 w = (m, w1)" by fastforce
  note q1 = quiet_same_heap [OF inv sys_same_heap(1) [OF 1]]
  show thesis
  proof (cases m)
    case None
    then show thesis using h sc 1 q1 resourceful_calls(1) [OF _ 1] by (intro starved) (auto simp: handle_bind_request_def)
  next
    case (Some b)
    let ?i = "init_empty_socket_id (fresh_sockid b)"
    let ?j = "?i\<lparr>src_ip := mgr_ip w @ [NUL], src_port := port\<rparr>"
    have ip: "mgr_ip w1 = mgr_ip w" using quietD(6) [OF q1] .
    note B = bound_id(1) [OF mgr_invD(4,5) [OF inv] refl, of b] bound_id(2,3) [OF mgr_invD(4,5) [OF inv] refl, of port b]
    obtain k w3 where 3: "new_id ?j w1 = (k, w3)" by fastforce
    note q3 = quiet_trans [OF q1 quiet_new_id [OF quietD(2) [OF q1] B(2) 3]]
    have k3: "ids w3 k = Some ?j" "\<not> reg_id w3 k" and nk: "\<not> reg_id w k"
      using keeps_new_id(2,3) [OF quietD(2) [OF q1] B(2) 3] quietD(5) [OF q3] by simp_all
    obtain result :: int and reply w4 where 4: "(if can_bind_new_socket k w3 then
                       let (bind_result, w3') = bind_new_socket P k w3 in
                       if bind_result \<noteq> 0
                       then (- 1, REQUEST_DENIED_FIFO, destroy_socket_id (Some k) w3')
                       else (0, REQUEST_GRANTED_FIFO, w3')
                     else (0, REQUEST_DENIED_FIFO, w3)) = (result, reply, w4)"
      using prod_cases3 by blast
    obtain nm w5 where 5: "get_client_fifo_name P pid n w4 = (nm, w5)" by fastforce
    obtain x w6 where 6: "write_char_to_fifo_name P nm reply w5 = (x, w6)" by fastforce
    have free: "can_bind_new_socket k w3 \<longleftrightarrow> mgr_map w (bound_key w port) = None"
      using mgr_getSocket_map [OF quietD(2) [OF q3] k3(1)] B(3) quietD(3) [OF q3] by (simp add: can_bind_new_socket_def)
    have "handle_bind_request P req w = (if x \<noteq> 0
             then if reply = REQUEST_GRANTED_FIFO then (BREAK_ITERATION, remove_and_destroy_socket P k w6) else (- 1, w6)
             else (result, w6))"
      using sc 1 Some B(1) 3 4 5 6 ip by (simp add: handle_bind_request_def Let_def split del: if_split)
    note res = this [unfolded h]
    have o3: "out (os w3) = out (os w)" if "fifo_laws P out tgt"
      using fifo_laws_simps(1) [OF that 1] 3 by (auto simp: new_id_def)
    have ne: "REQUEST_DENIED_FIFO \<noteq> REQUEST_GRANTED_FIFO"
      by (simp add: REQUEST_DENIED_FIFO_def REQUEST_GRANTED_FIFO_def)
    show thesis
    proof (cases "can_bind_new_socket k w3")
      case False
      then have "reply = REQUEST_DENIED_FIFO" "w4 = w3" "result = 0" using 4 by auto
      then show thesis
        using False free ne q3 k3(1) B(2,3) o3 by (intro answered [OF _ _ _ 5 6 res, of ?j]) simp_all
    next
      case True
      obtain br v where br: "bind_new_socket P k w3 = (br, v)" by fastforce
      note S = bind_new_socket_spec [OF quietD(2) [OF q3] k3 br]
      have o4: "out (os v) = out (os w)" if "fifo_laws P out tgt" "only_writes_send P out" "resourceful P"
        using bind_new_socket_out [OF that(1,2,3) _ br] o3 [OF that(1)] k3(1) B(2) by (simp add: id_at_def)
      show thesis
      proof (cases "br = 0")
        case False
        have "\<not> reg_id v k" using k3(2) quietD(5) [OF S(1) [OF False]] by simp
        then have q: "quiet w (destroy_socket_id (Some k) v)"
          using quiet_trans [OF q3 quiet_trans [OF S(1) [OF False] quiet_free_id [OF quietD(2) [OF S(1) [OF False]]]]]
          by (simp add: destroy_socket_id_def)
        have c: "result = - 1" "reply = REQUEST_DENIED_FIFO" "w4 = destroy_socket_id (Some k) v"
          using 4 True br False by auto
        have "resourceful P \<longrightarrow> \<not> card (dom (mgr_map w)) < 100"
          using S(3) False free True B(3) quietD(3) [OF q3] by auto
        then show thesis
          using c ne q free \<open>can_bind_new_socket k w3\<close> o4 by (intro answered [OF _ _ _ 5 6 res, of ?j]) (simp_all add: destroy_socket_id_def free_id_def)
      next
        case True
        have c: "result = 0" "reply = REQUEST_GRANTED_FIFO" "w4 = v"
          using 4 \<open>can_bind_new_socket k w3\<close> br True by auto
        have "adds_socket (bound_key w port) (\<lambda>s. sk_state s = CLOSED \<and> sk_id s = Some k) w v"
          using S(2) [OF True] B(3) quietD(3,4,5,6) [OF q3] quietD(7,8) [OF q3] unfolding adds_socket_def by auto
        then show thesis
          using c S(2) [OF True] nk B(3) o4 by (intro answered [OF _ _ _ 5 6 res, of ?j]) simp_all
      qed
    qed
  qed
qed

lemma adds_socket_heap:
  assumes "adds_socket key Q w w1" and "same_heap w1 w2"
  shows "adds_socket key Q w w2"
proof -
  have "mgr_inv w1" using assms(1) by (simp add: adds_socket_def)
  from same_heap_keeps [OF this assms(2)] show ?thesis
    using assms by (simp add: adds_socket_def keepsD same_heapD(1,2))
qed

lemma registered_ran: "mgr_inv w \<Longrightarrow> registered w b \<longleftrightarrow> b \<in> ran (mgr_map w)"
  by (simp add: registered_iff ran_def)

lemma adds_socket_registered:
  assumes "mgr_inv w" and "adds_socket key Q w w1" and "mgr_map w1 = (mgr_map w)(key \<mapsto> a)"
  shows "registered w1 b \<longleftrightarrow> registered w b \<or> b = a"
  using assms registered_ran [of w b] registered_ran [of w1 b] ran_map_upd [of "mgr_map w" key a]
  by (auto simp: adds_socket_def)

text \<open>A bind request adds at most the one socket, also when the client cannot be told.\<close>

lemma handle_bind_request_step:
  assumes inv: "mgr_inv w" and sc: "scan_bind_request req = Some (port, pid, n)"
    and h: "handle_bind_request P req w = (r, w')"
  shows "quiet w w' \<or> r = 0 \<and> adds_socket (bound_key w port) (\<lambda>s. sk_state s = CLOSED) w w'"
proof -
  from assms show ?thesis
  proof (cases rule: bind_request_parts [where out = undefined and tgt = undefined])
  case (answered k i w4 result reply nm w5 x w6)
  note reply = answered(1,2) and 5 = answered(4) and 6 = answered(5) and res = answered(6)
  have h6: "same_heap w4 w6"
    by (rule same_heap_trans [OF get_client_fifo_name_heap [OF 5] fifo_name_heap(15) [OF 6]])
  show ?thesis
  proof (cases "reply = REQUEST_GRANTED_FIFO")
    case False
    then have "quiet w w4" "w' = w6" using reply res by (auto split: if_splits)
    then show ?thesis using quiet_trans quiet_same_heap [OF quietD(2) h6] by blast
  next
    case True
    then have R: "result = 0" "adds_socket (bound_key w port) (\<lambda>s. sk_state s = CLOSED \<and> sk_id s = Some k) w w4"
      "\<not> reg_id w k" "ids w4 k = Some i" "sid_key i = bound_key w port" using reply by simp_all
    note A = adds_socket_heap [OF R(2) h6]
    show ?thesis
    proof (cases "x = 0")
      case x: True
      then show ?thesis using res R(1) A by (auto simp: adds_socket_def)
    next
      case False
      have w': "w' = remove_and_destroy_socket P k w6" using res True False by simp
      obtain a s where a: "\<not> registered w a" "mgr_map w6 = (mgr_map w)(bound_key w port \<mapsto> a)" "socks w6 a = Some s"
          "sk_id s = Some k" and inv6: "mgr_inv w6"
        using A by (auto simp: adds_socket_def)
      have i6: "ids w6 k = Some i" using R(4) same_heapD(1) [OF h6] by simp
      note S = remove_and_destroy_socket_spec [OF inv6 i6 w']
      have free: "mgr_map w (bound_key w port) = None" using A by (simp add: adds_socket_def)
      have reg6: "registered w6 b \<longleftrightarrow> registered w b \<or> b = a" for b
        by (rule adds_socket_registered [OF inv A a(2)])
      have "quiet w w'"
      proof (rule quietI [OF inv S(1)])
        show "mgr_map w' = mgr_map w" using S(2) a(2) R(5) free by (simp add: fun_upd_idem)
        show "mgr_ip w' = mgr_ip w" using S(5) A by (simp add: adds_socket_def)
        show "socks w' b = socks w b" if "registered w b" for b
          using that S(3) [of b] reg6 a(1,2) R(5) A by (auto simp: adds_socket_def)
        show "ids w' j = ids w j" if j: "reg_id w j" for j
        proof -
          obtain b t where b: "registered w b" "socks w b = Some t" "sk_id t = Some j" using j by (auto simp: reg_id_def)
          have "socks w6 b = Some t" using b A by (simp add: adds_socket_def)
          then have "reg_id w6 j" using b reg6 by (auto simp: reg_id_def)
          moreover have "j \<noteq> k" using j R(3) by blast
          ultimately show ?thesis using S(4) [of j] a(2-4) R(5) j A by (auto simp: adds_socket_def)
        qed
      qed
      then show ?thesis by simp
    qed
  qed
  qed simp
qed

section \<open>Properties\<close>



lemma bind_answer:
  assumes "mgr_inv w" and "scan_bind_request req = Some (port, pid, n)"
    and "resourceful P" and "fifos_open P" and "fifo_laws P out tgt" and "only_writes_send P out"
    and "handle_bind_request P req w = (r, w')"
  defines "granted \<equiv> mgr_map w (bound_key w port) = None \<and> card (dom (mgr_map w)) < 100"
    and "client \<equiv> fifo_path CLIENT_FIFO_PREFIX (fmt_d (sint pid) @ ''_'' @ fmt_d (sint n))"
  shows "out (os w') = (out (os w))(client := out (os w) client
      @ [if granted then REQUEST_GRANTED_FIFO else REQUEST_DENIED_FIFO])"
    and "mgr_map w' (bound_key w port) \<noteq> mgr_map w (bound_key w port) \<longleftrightarrow> granted"
    and "r = (if mgr_map w (bound_key w port) = None \<and> \<not> granted then - 1 else 0)"
proof -
  have "out (os w') = (out (os w))(client := out (os w) client
      @ [if granted then REQUEST_GRANTED_FIFO else REQUEST_DENIED_FIFO])
    \<and> (mgr_map w' (bound_key w port) \<noteq> mgr_map w (bound_key w port) \<longleftrightarrow> granted)
    \<and> r = (if mgr_map w (bound_key w port) = None \<and> \<not> granted then - 1 else 0)"
    using assms(1,2,7)
  proof (cases rule: bind_request_parts [where out = out and tgt = tgt])
    case starved
    then show ?thesis using assms(3) by simp
  next
    case (answered k i w4 result reply nm w5 x w6)
    let ?key = "bound_key w port"
    let ?granted = "mgr_map w ?key = None \<and> card (dom (mgr_map w)) < 100"
    let ?client = "fifo_path CLIENT_FIFO_PREFIX (fmt_d (sint pid) @ ''_'' @ fmt_d (sint n))"
    have o5: "out (os w5) = out (os w)"
      using answered(3) [OF assms(5,6,3)] get_client_fifo_name_out [OF assms(5) answered(4)] by simp
    obtain fd v1 where 1: "sys_open P ?client O_RDWR w5 = (fd, v1)" by fastforce
    obtain y v2 where 2: "sys_write P fd [reply] v1 = (y, v2)" by fastforce
    note F = full_write [OF assms(5,4) 1 2]
    have "x = 0 \<and> w6 = sys_close P fd v2"
      using answered(5) resourceful_client_name [OF assms(3) answered(4)] 1 2 F(1,2)
      by (simp add: write_char_to_fifo_name_def)
    then have w6: "r = result" "w' = w6" "out (os w') = (out (os w))(?client := out (os w) ?client @ [reply])"
      using answered(6) F(3) o5 by simp_all
    have h6: "same_heap w4 w6"
      by (rule same_heap_trans [OF get_client_fifo_name_heap [OF answered(4)] fifo_name_heap(15) [OF answered(5)]])
    have "reply = (if ?granted then REQUEST_GRANTED_FIFO else REQUEST_DENIED_FIFO)
        \<and> (mgr_map w' ?key \<noteq> mgr_map w ?key \<longleftrightarrow> ?granted) \<and> r = (if mgr_map w ?key = None \<and> \<not> ?granted then - 1 else 0)"
    proof (cases "reply = REQUEST_GRANTED_FIFO")
      case True
      then show ?thesis
        using answered(1) [OF True] w6 adds_socket_heap [OF conjunct1 [OF conjunct2 [OF answered(1) [OF True]]] h6]
        by (auto simp: adds_socket_def)
    next
      case False
      have q: "quiet w w'"
        using answered(2) [OF False] quiet_trans quiet_same_heap [OF quietD(2) h6] w6(2) by blast
      show ?thesis using answered(2) [OF False] assms(3) w6(1,3) quietD(3) [OF q] by (auto split: if_splits)
    qed
    then show ?thesis using w6(3) by (simp add: granted_def client_def)
  qed
  then show "out (os w') = (out (os w))(client := out (os w) client
      @ [if granted then REQUEST_GRANTED_FIFO else REQUEST_DENIED_FIFO])"
    and "mgr_map w' (bound_key w port) \<noteq> mgr_map w (bound_key w port) \<longleftrightarrow> granted"
    and "r = (if mgr_map w (bound_key w port) = None \<and> \<not> granted then - 1 else 0)" by blast+
qed

text \<open>
  C15. The answer to a bind request tells the truth.  On a system that refuses nothing, the client named in the
  request is sent exactly one byte through its own FIFO, and nothing else is written anywhere: the byte
  grants the port exactly when no socket without a peer is bound to it and the table has room.  The socket
  is registered exactly when the byte says so, and the result distinguishes a taken port from a full table.
\<close>

theorem bind_answer_is_true:
  assumes "mgr_inv w" and "scan_bind_request req = Some (port, pid, n)"
    and "resourceful P" and "fifos_open P" and "fifo_laws P out tgt" and "only_writes_send P out"
    and "handle_bind_request P req w = (r, w')"
  shows "let key = (mgr_ip w, port, empty_ip_text, EMPTY_PORT);
             granted = (mgr_map w key = None \<and> card (dom (mgr_map w)) < 100);
             client = fifo_path CLIENT_FIFO_PREFIX (fmt_d (sint pid) @ ''_'' @ fmt_d (sint n))
         in out (os w') = (out (os w))(client := out (os w) client
                @ [if granted then REQUEST_GRANTED_FIFO else REQUEST_DENIED_FIFO])
            \<and> (mgr_map w' key \<noteq> mgr_map w key \<longleftrightarrow> granted)
            \<and> r = (if mgr_map w key = None \<and> \<not> granted then - 1 else 0)"
  using bind_answer [OF assms] by (simp add: Let_def bound_key_def)

lemma bind_answer_is_true_witness:
  "\<exists>w'. handle_bind_request kind_posix ''80_42_1'' (example_manager LISTEN) = (0, w')
     \<and> sim_out (os w') ''/tmp/vnetwork_fifos/vnetwork_nonbound_client_42_1'' = ''K''"
proof -
  obtain r w' where h: "handle_bind_request kind_posix ''80_42_1'' (example_manager LISTEN) = (r, w')" by fastforce
  have s: "scan_bind_request ''80_42_1'' = Some (80, 42, 1)" by code_simp
  have L: "only_writes_send kind_posix sim_out"
    using kind_posix(4)
    by (simp add: only_writes_send_def kind_posix_def open_posix_def sim_posix_def sim_out_def fun_eq_iff)
  have path: "fifo_path CLIENT_FIFO_PREFIX (fmt_d (sint (42::c_int)) @ ''_'' @ fmt_d (sint (1::c_int)))
      = ''/tmp/vnetwork_fifos/vnetwork_nonbound_client_42_1''" by code_simp
  have "sim_out (os (example_manager LISTEN)) n = []" for n
    by (simp add: example_manager_def example_world_def mgr_insertSocket_def sim_world_def sim_boot_def sim_out_def
        split: prod.splits)
  with bind_answer_is_true [OF example_manager(1) s kind_posix(1,2,3) L h, unfolded Let_def path]
  show ?thesis
    using h example_manager(4) [of LISTEN]
    by (simp add: example_key_def empty_ip_text_def REQUEST_GRANTED_FIFO_def)
qed

end
