(* ===== verification/Connect_Steps.thy ===== *)
theory Connect_Steps imports Bind_Steps begin

text \<open>
  A connect request moves a closed socket from its bound endpoint to the endpoint with its peer: the
  entry leaves the table under the old key and enters it under the new one, and this cannot fail.
\<close>

section \<open>Moving a socket to another key\<close>

lemma mgr_ip_table: "w' = w\<lparr>mgr_sockets := mgr_sockets w'\<rparr> \<Longrightarrow> mgr_ip w' = mgr_ip w"
  by (metis world.select_convs(5) world.surjective world.update_convs(6))

lemma mgr_map_finite_dom:
  assumes "mgr_inv w"
  shows "finite (dom (mgr_map w))"
proof -
  obtain h where h: "hm_inv (ids w) (socks w) h" "mgr_map w = hm_abs (ids w) h"
    using assms by (rule mgr_inv_table)
  have "dom (mgr_map w) \<subseteq> slot_key (ids w) h ` {..< HASH_MAP_DEFAULT_SIZE}"
  proof
    fix key
    assume "key \<in> dom (mgr_map w)"
    then obtain a where "hm_abs (ids w) h key = Some a" using h(2) by auto
    then obtain i where "i < HASH_MAP_DEFAULT_SIZE" "slot_key (ids w) h i = key" using hm_abs_eq_Some [OF h(1)] by blast
    then show "key \<in> slot_key (ids w) h ` {..< HASH_MAP_DEFAULT_SIZE}" by blast
  qed
  then show ?thesis by (rule finite_subset) simp
qed

text \<open>The socket registered under an identifier's key, with the identifier as its own.\<close>

definition own_socket :: "'s world \<Rightarrow> addr \<Rightarrow> sockid \<Rightarrow> addr \<Rightarrow> socket \<Rightarrow> bool" where
  "own_socket w k i a s \<longleftrightarrow> ids w k = Some i \<and> mgr_map w (sid_key i) = Some a \<and> socks w a = Some s \<and> sk_id s = Some k"

lemma own_socket_of_reg_id:
  assumes "mgr_inv w" and "reg_id w k"
  obtains i a s where "own_socket w k i a s"
  using assms registered_socket [OF assms(1)] unfolding reg_id_def own_socket_def by (metis option.inject)

text \<open>A removed socket and its identifier are private, and the rest of the table is still there.\<close>

lemma removed_is_private:
  assumes inv: "mgr_inv w" and o: "own_socket w k i a s" and r: "mgr_hashmapRemove (Some k) w = (b, w1)"
  shows "b" and "mgr_inv w1" and "mgr_map w1 = (mgr_map w)(sid_key i := None)"
    and "ids w1 = ids w" and "socks w1 = socks w" and "mgr_ip w1 = mgr_ip w"
    and "\<not> registered w1 a" and "\<not> reg_id w1 k" and "registered w1 c \<longleftrightarrow> registered w c \<and> c \<noteq> a"
    and "reg_id w j \<Longrightarrow> j \<noteq> k \<Longrightarrow> reg_id w1 j"
proof -
  have O: "ids w k = Some i" "mgr_map w (sid_key i) = Some a" "socks w a = Some s" "sk_id s = Some k"
    using o by (simp_all add: own_socket_def)
  note R = mgr_hashmapRemove_spec [OF inv O(1) r]
  show b using R(1) O(2) by simp
  show inv1: "mgr_inv w1" and map1: "mgr_map w1 = (mgr_map w)(sid_key i := None)" using R(2,3) .
  show t: "ids w1 = ids w" "socks w1 = socks w" "mgr_ip w1 = mgr_ip w"
    using keeps_only_table [OF R(4)] mgr_ip_table [OF R(4)] by simp_all
  have reg: "registered w1 c \<longleftrightarrow> registered w c \<and> c \<noteq> a" for c
  proof -
    have "registered w1 c \<longleftrightarrow> (\<exists>key. mgr_map w key = Some c \<and> key \<noteq> sid_key i)"
      using registered_iff [OF inv1, of c] map1 by auto
    also have "\<dots> \<longleftrightarrow> (\<exists>key. mgr_map w key = Some c) \<and> c \<noteq> a"
      using O(2) registered_one_key [OF inv O(2)] by (metis option.inject)
    finally show ?thesis using registered_iff [OF inv, of c] by simp
  qed
  then show "registered w1 c \<longleftrightarrow> registered w c \<and> c \<noteq> a" .
  show "\<not> registered w1 a" using reg by simp
  show "\<not> reg_id w1 k"
  proof
    assume "reg_id w1 k"
    then obtain c u where c: "registered w c" "c \<noteq> a" "socks w c = Some u" "sk_id u = Some k"
      using reg t(2) by (auto simp: reg_id_def)
    then show False using registered_unique [OF inv c(1,3,4) mgr_map_registered [OF inv O(2)] O(3,4)] by simp
  qed
  show "reg_id w1 j" if "reg_id w j" "j \<noteq> k"
  proof -
    obtain c u where c: "registered w c" "socks w c = Some u" "sk_id u = Some j" using \<open>reg_id w j\<close> by (auto simp: reg_id_def)
    moreover have "c \<noteq> a" using c O(3,4) \<open>j \<noteq> k\<close> by auto
    ultimately show ?thesis using reg t(2) by (auto simp: reg_id_def)
  qed
qed

text \<open>Out of the table, changed, and back under a key that is free.\<close>

definition rekeys :: "addr \<Rightarrow> sock_key \<Rightarrow> sock_key \<Rightarrow> addr \<Rightarrow> socket \<Rightarrow> 's world \<Rightarrow> 's world \<Rightarrow> bool" where
  "rekeys k old new a s' w w' \<longleftrightarrow> mgr_inv w' \<and> mgr_ip w' = mgr_ip w
     \<and> mgr_map w' = ((mgr_map w)(old := None))(new \<mapsto> a) \<and> socks w' a = Some s'
     \<and> (\<forall>b. registered w b \<longrightarrow> b \<noteq> a \<longrightarrow> socks w' b = socks w b)
     \<and> (\<forall>j. reg_id w j \<longrightarrow> j \<noteq> k \<longrightarrow> ids w' j = ids w j)"

lemma reinserted:
  assumes inv: "mgr_inv w" and o: "own_socket w k i a s" and r: "mgr_hashmapRemove (Some k) w = (b, w1)"
    and q: "quiet w1 w5" and s': "socks w5 a = Some s'" "sk_id s' = Some k" "ids w5 k = Some i'"
    and free: "mgr_map w (sid_key i') = None \<or> sid_key i' = sid_key i"
    and ins: "mgr_insertSocket (Some a) w5 = (b', w6)"
  shows "b' \<and> rekeys k (sid_key i) (sid_key i') a s' w w6"
proof -
  note R = removed_is_private [OF inv o r]
  note I = mgr_insertSocket_spec [OF quietD(2) [OF q] s' ins]
  have "card (dom (mgr_map w1)) < card (dom (mgr_map w))"
    using o unfolding R(3) by (intro psubset_card_mono [OF mgr_map_finite_dom [OF inv]]) (auto simp: own_socket_def)
  then have room: "card (dom (mgr_map w1)) < 100" using mgr_map_finite [OF inv] by simp
  have b': b' using I(1) room quietD(3) [OF q] free R(3) by auto
  have t6: "ids w6 = ids w5" "socks w6 = socks w5" "mgr_ip w6 = mgr_ip w5"
    using keeps_only_table [OF I(4)] mgr_ip_table [OF I(4)] by simp_all
  have "socks w6 c = socks w c" if "registered w c" "c \<noteq> a" for c
    using that R(9) [of c] quietD(7) [OF q, of c] R(5) t6(2) by simp
  moreover have "ids w6 j = ids w j" if "reg_id w j" "j \<noteq> k" for j
    using R(10) [OF that] quietD(8) [OF q, of j] R(4) t6(1) by simp
  ultimately show ?thesis
    using b' I(2) [OF b'] R(3,6) quietD(3,6) [OF q] s'(1) t6(2,3) by (simp add: rekeys_def)
qed

section \<open>The request\<close>

text \<open>Writing the peer into an identifier.\<close>

definition with_peer :: "string \<Rightarrow> c_int \<Rightarrow> sockid \<Rightarrow> sockid" where
  "with_peer ip p i = i\<lparr>dst_ip := ip @ NUL # drop (length ip + 1) (dst_ip i), dst_port := p\<rparr>"

definition peer_key :: "sockid \<Rightarrow> string \<Rightarrow> c_int \<Rightarrow> sock_key" where
  "peer_key i ip p = (cstr (src_ip i), src_port i, ip, p)"

lemma with_peer:
  assumes "wf_sockid i" and "length ip \<le> 16" and "NUL \<notin> set ip"
  shows "strcpy_lib (dst_ip i) ip = Returns (dst_ip (with_peer ip p i))" "wf_sockid (with_peer ip p i)"
    "sid_key (with_peer ip p i) = peer_key i ip p" "i\<lparr>dst_ip := dst_ip (with_peer ip p i), dst_port := p\<rparr> = with_peer ip p i"
proof -
  have "wf_ip (dst_ip i)" using assms(1) by (simp add: wf_sockid_def)
  note L = wf_ip_strcpy_lib [OF this assms(2,3)]
  show "strcpy_lib (dst_ip i) ip = Returns (dst_ip (with_peer ip p i))" "wf_sockid (with_peer ip p i)"
    "sid_key (with_peer ip p i) = peer_key i ip p" "i\<lparr>dst_ip := dst_ip (with_peer ip p i), dst_port := p\<rparr> = with_peer ip p i"
    using L assms(1) by (simp_all add: with_peer_def wf_sockid_def sid_key_def peer_key_def)
qed

lemma smod_range: "(x::int) smod 2000 \<in> {- 1999..1999}"
proof -
  have m: "0 \<le> y mod 2000" "y mod 2000 < 2000" for y :: int by simp_all
  show ?thesis using m [of x] m [of "- x"] by (auto simp: smod_int_alt_def sgn_if)
qed

lemma start_connection_spec:
  assumes inv: "mgr_inv w" and o: "own_socket w k i a s" and st: "sk_state s \<noteq> LISTEN"
    and ip: "length ip \<le> 16" "NUL \<notin> set ip" and free: "mgr_map w (peer_key i ip p) = None"
    and c: "start_connection P k ip p w = (r, w')"
  shows "r = BREAK_ITERATION" and "\<exists>s' i'. rekeys k (sid_key i) (peer_key i ip p) a s' w w'
    \<and> sk_state s' = SYN_SENT \<and> seq_of_first_recv_window s' = 0 \<and> sk_id s' = Some k \<and> ids w' k = Some i' \<and> sid_key i' = peer_key i ip p
    \<and> sint (seq_of_first_send_window s') \<in> {- 1998..2000}"
proof -
  have O: "ids w k = Some i" "mgr_map w (sid_key i) = Some a" "socks w a = Some s" "sk_id s = Some k"
    using o by (simp_all add: own_socket_def)
  have wf: "wf_sockid i" using mgr_invD(2) [OF inv O(1)] .
  have g: "mgr_getSocket (Some k) w = Some a" using mgr_getSocket_map [OF inv O(1)] O(2) by simp
  obtain b w1 where 1: "mgr_hashmapRemove (Some k) w = (b, w1)" by fastforce
  note R = removed_is_private [OF inv o 1]
  obtain x w2 where 2: "sys_rand P w1 = (x, w2)" by fastforce
  note q2 = quiet_same_heap [OF R(2) sys_same_heap(11) [OF 2]] and h2 = same_heapD(1,2) [OF sys_same_heap(11) [OF 2]]
  define seq where "seq = (word_of_int (sint x smod 2000 + 1) :: c_int)"
  let ?f = "\<lambda>s. s\<lparr>sk_state := SYN_SENT, seq_of_first_send_window := seq, seq_of_first_recv_window := 0\<rparr>"
  let ?j = "with_peer ip p"
  define w3 where "w3 = upd_sock a ?f w2"
  have q3: "quiet w1 w3"
    unfolding w3_def using R(7) quietD(4) [OF q2]
    by (intro quiet_trans [OF q2 quiet_upd_sock [OF quietD(2) [OF q2]]]) (simp_all add: socket_wf_def wf_windows_def)
  have q3i: "ids w3 k = Some i" "socks w3 a = Some (?f s)" using O R(4,5) h2 by (simp_all add: w3_def)
  have wj: "wf_sockid (?j i)" using with_peer(2) wf ip by blast
  define w4 where "w4 = upd_id k ?j w3"
  have q4: "quiet w1 w4"
    unfolding w4_def
    by (rule quiet_trans [OF q3 quiet_upd_id [OF quietD(2) [OF q3] _ with_peer(2) [OF _ ip]]])
      (use R(8) quietD(5) [OF q3] in simp)
  define w5 where "w5 = upd_id k ?j w4"
  have q5: "quiet w1 w5"
    unfolding w5_def
    by (rule quiet_trans [OF q4 quiet_upd_id [OF quietD(2) [OF q4] _ with_peer(2) [OF _ ip]]])
      (use R(8) quietD(5) [OF q4] in simp)
  have e4: "strcpy_lib (dst_ip (id_at w3 k)) ip = Returns (dst_ip (?j i))"
      "upd_id k (\<lambda>i'. i'\<lparr>dst_ip := dst_ip (?j i), dst_port := p\<rparr>) w3 = w4"
    using with_peer(1,4) [OF wf ip, of p] q3i(1) by (simp_all add: id_at_def upd_id_def w4_def)
  have e5: "strcpy_lib (dst_ip (id_at w4 k)) ip = Returns (dst_ip (?j (?j i)))"
      "upd_id k (\<lambda>i'. i'\<lparr>dst_ip := dst_ip (?j (?j i)), dst_port := p\<rparr>) w4 = w5"
    using with_peer(1,4) [OF wj ip, of p] q3i(1) by (simp_all add: id_at_def upd_id_def w4_def w5_def)
  obtain b' w6 where 6: "mgr_insertSocket (Some a) w5 = (b', w6)" by fastforce
  have key: "sid_key (?j (?j i)) = peer_key i ip p"
    using with_peer(3) [OF wj ip, of p] by (simp add: peer_key_def with_peer_def)
  have s5: "socks w5 a = Some (?f s)" "sk_id (?f s) = Some k" "ids w5 k = Some (?j (?j i))"
    using q3i O(4) by (simp_all add: w5_def w4_def)
  have sa: "sock_at w a = s" "sk_id (sock_at w3 a) = Some k" using O(3,4) q3i(2) by (simp_all add: sock_at_def)
  have w3: "upd_sock a (\<lambda>s. s\<lparr>sk_state := SYN_SENT, seq_of_first_send_window := word_of_int (sint x smod 2000) + 1,
      seq_of_first_recv_window := 0\<rparr>) w2 = w3" by (simp add: w3_def seq_def)
  have I: "b' \<and> rekeys k (sid_key i) (peer_key i ip p) a (?f s) w w6"
    using reinserted [OF inv o 1 q5 s5 _ 6] free key by simp
  have "start_connection P k ip p w = (BREAK_ITERATION, w6)"
    using I by (simp add: start_connection_def Let_def g st sa 1 R(1) 2 w3 e4 e4(1) [unfolded w3_def upd_sock_simps] e5 6)
  then have "r = BREAK_ITERATION \<and> w' = w6" using c by simp
  moreover have "ids w6 k = Some (?j (?j i))"
    using s5(3) keeps_only_table [OF mgr_insertSocket_spec(4) [OF quietD(2) [OF q5] s5 6]] by simp
  moreover have "sint seq \<in> {- 1998..2000}"
  proof -
    have b: "sint x smod 2000 \<in> {- 1999..1999}" by (rule smod_range)
    then have "sint seq = sint x smod 2000 + 1" unfolding seq_def by (intro sint_word_of_int_32) auto
    then show ?thesis using b by simp
  qed
  ultimately show "r = BREAK_ITERATION" and "\<exists>s' i'. rekeys k (sid_key i) (peer_key i ip p) a s' w w'
    \<and> sk_state s' = SYN_SENT \<and> seq_of_first_recv_window s' = 0 \<and> sk_id s' = Some k \<and> ids w' k = Some i' \<and> sid_key i' = peer_key i ip p
    \<and> sint (seq_of_first_send_window s') \<in> {- 1998..2000}"
    using I key O(4) by (auto intro!: exI [of _ "?f s"])
qed

lemma own_socket_quiet:
  assumes "mgr_inv w" and "own_socket w k i a s" and "quiet w w'"
  shows "own_socket w' k i a s"
proof -
  have "registered w a" using assms(2) mgr_map_registered [OF assms(1), of "sid_key i" a] by (simp add: own_socket_def)
  moreover from this have "reg_id w k" using assms(2) by (auto simp: own_socket_def reg_id_def)
  ultimately show ?thesis using assms(2) quietD [OF assms(3)] by (simp add: own_socket_def)
qed

lemma quiet_rekeys: "quiet w w1 \<Longrightarrow> rekeys k old new a s' w1 w' \<Longrightarrow> rekeys k old new a s' w w'"
  using quietD [of w w1] by (simp add: rekeys_def)

lemma check_and_handle_connect_request_step:
  assumes inv: "mgr_inv w" and o: "own_socket w k i a s"
    and c: "check_and_handle_connect_request P k w = Some (r, w')"
  shows "r = 0 \<and> quiet w w' \<or> r = BREAK_ITERATION \<and> sk_state s = CLOSED
    \<and> (\<exists>ip p s' i'. mgr_map w (peer_key i ip p) = None \<and> rekeys k (sid_key i) (peer_key i ip p) a s' w w'
        \<and> sk_state s' = SYN_SENT \<and> sk_id s' = Some k \<and> ids w' k = Some i' \<and> sid_key i' = peer_key i ip p)"
proof -
  have O: "ids w k = Some i" "mgr_map w (sid_key i) = Some a" "socks w a = Some s" "sk_id s = Some k"
    using o by (simp_all add: own_socket_def)
  have g: "mgr_getSocket (Some k) w = Some a" using mgr_getSocket_map [OF inv O(1)] O(2) by simp
  have sa: "sock_at w a = s" using O(3) by (simp add: sock_at_def)
  note Q = quiet_same_heap [OF inv]
  obtain rn w1 where 1: "get_connect_fifo_read_end_name P (Some k) w = (rn, w1)" by fastforce
  have h1: "same_heap w w1" by (rule fifo_name_heap(4) [OF 1])
  obtain fd1 w2 where 2: "sys_open P (the rn) O_WRONLY_NONBLOCK w1 = (fd1, w2)" by fastforce
  have h2: "same_heap w w2" by (rule same_heap_trans [OF h1 sys_same_heap(3) [OF 2]])
  obtain wn w4 where 4: "get_connect_fifo_write_end_name P (Some k) (sys_close P fd1 w2) = (wn, w4)" by fastforce
  have h4: "same_heap w w4"
    by (rule same_heap_trans [OF same_heap_trans [OF h2 same_heap_close] fifo_name_heap(5) [OF 4]])
  obtain fd2 w5 where 5: "sys_open P (the wn) O_RDONLY w4 = (fd2, w5)" by fastforce
  have h5: "same_heap w w5" by (rule same_heap_trans [OF h4 sys_same_heap(3) [OF 5]])
  show ?thesis
  proof (cases "sk_state s = CLOSED \<and> rn \<noteq> None \<and> fd1 \<noteq> - 1 \<and> wn \<noteq> None \<and> fd2 \<noteq> - 1")
    case False
    then have "r = 0 \<and> (w' = w \<or> w' = w1 \<or> w' = w2 \<or> w' = w4 \<or> w' = w5)"
      using c g sa 1 2 4 5 by (cases rn; cases wn) (auto simp: check_and_handle_connect_request_def Let_def split: if_splits)
    then show ?thesis using Q h1 h2 h4 h5 by auto
  next
    case True
    obtain x bs w6 where 6: "read_nonzero_message_until_char P fd2 NUL w5 = Some (x, bs, w6)"
      using c g sa 1 2 4 5 True by (auto simp: check_and_handle_connect_request_def Let_def split: option.splits)
    define w7 where "w7 = sys_close P fd2 (if length bs \<le> MAX_SOCKET_STRING_REPR_SIZE then w6 else set_ub w6)"
    have h6: "same_heap w w6" using same_heap_trans [OF h5] read_nonzero_message_until_char_same_proc [OF 6] by blast
    have h7: "same_heap w w7"
      using same_heap_trans [OF h6 same_heap_close] same_heap_trans [OF same_heap_trans [OF h6 same_heap_set_ub] same_heap_close]
      by (simp add: w7_def)
    show ?thesis
    proof (cases "x = - 1 \<or> x = 0 \<or> parse_connect_request (cstr bs) = None")
      case bad: True
      then have "r = 0 \<and> w' = w7"
        using c g sa 1 2 4 5 6 True
        by (auto simp: check_and_handle_connect_request_def Let_def w7_def split: if_splits option.splits)
      then show ?thesis using Q h7 by auto
    next
      case False
      then obtain ip p where ip: "parse_connect_request (cstr bs) = Some (ip, p)" by auto
      note nn = parse_connect_request_no_NUL [OF ip]
      define w8 where "w8 = (if length ip \<le> MAX_IP_LENGTH then w7 else set_ub w7)"
      have h8: "same_heap w w8" using h7 same_heap_trans [OF h7 same_heap_set_ub] by (simp add: w8_def)
      have i8: "ids w8 k = Some i" using O(1) same_heapD(1) [OF h8] by simp
      obtain c0 w9 where 9: "copy_socket_id P k w8 = (c0, w9)" by fastforce
      note q9 = quiet_trans [OF Q [OF h8] quiet_copy_socket_id [OF quietD(2) [OF Q [OF h8]] i8 9]]
      show ?thesis
      proof (cases c0)
        case None
        then have "r = 0 \<and> w' = w9"
          using c g sa 1 2 4 5 6 True False ip 9 [unfolded w8_def w7_def]
          by (auto simp: check_and_handle_connect_request_def Let_def)
        then show ?thesis using q9 by simp
      next
        case (Some c')
        obtain j where j: "ids w9 c' = Some j" "wf_sockid j" "sid_key j = sid_key i" "\<not> reg_id w9 c'"
          using copy_socket_id_keeps(4) [OF quietD(2) [OF Q [OF h8]] i8 9 Some] by metis
        define w10 where "w10 = (case strcpy_lib (dst_ip (id_at w9 c')) ip of Undefined \<Rightarrow> set_ub w9
          | Returns s \<Rightarrow> upd_id c' (\<lambda>i. i\<lparr>dst_ip := s, dst_port := p\<rparr>) w9)"
        let ?w11 = "destroy_socket_id (Some c') w10"
        have res: "Some (r, w') = (if mgr_getSocket (Some c') w10 \<noteq> None then Some (0, ?w11)
            else Some (start_connection P k ip p ?w11))"
          unfolding c [symmetric] w10_def using g sa 1 2 4 5 6 True False ip 9 [unfolded w8_def w7_def] Some
          by (auto simp: check_and_handle_connect_request_def Let_def split del: if_split)
        have idj: "id_at w9 c' = j" using j(1) by (simp add: id_at_def)
        have q10: "quiet w w10 \<and> (\<exists>j'. ids w10 c' = Some j' \<and> (length ip \<le> 16 \<longrightarrow> sid_key j' = peer_key i ip p)
            \<and> (\<not> length ip \<le> 16 \<longrightarrow> sid_key j' = sid_key i))"
        proof (cases "length ip \<le> 16")
          case True
          note W = with_peer [OF j(2) True nn, of p]
          have "w10 = upd_id c' (\<lambda>i. i\<lparr>dst_ip := dst_ip (with_peer ip p j), dst_port := p\<rparr>) w9"
            using W(1) idj by (simp add: w10_def)
          also have "\<dots> = upd_id c' (with_peer ip p) w9" using W(4) j(1) by (simp add: upd_id_def)
          finally have w10: "w10 = upd_id c' (with_peer ip p) w9" .
          have "quiet w w10"
            unfolding w10
            by (rule quiet_trans [OF q9 quiet_upd_id [OF quietD(2) [OF q9] j(4) with_peer(2) [OF _ True nn]]])
          moreover have "peer_key j ip p = peer_key i ip p" using j(3) by (simp add: sid_key_def peer_key_def)
          ultimately show ?thesis using True W(3) j(1) w10 by simp
        next
          case False
          have "length (dst_ip j) = 17" using j(2) by (simp add: wf_sockid_def wf_ip_def MAX_IP_LENGTH_def)
          then have "w10 = set_ub w9" using False idj by (simp add: w10_def strcpy_lib_def)
          then show ?thesis
            using False j quiet_trans [OF q9 quiet_same_heap [OF quietD(2) [OF q9] same_heap_set_ub]] by auto
        qed
        then obtain j' where j': "quiet w w10" "ids w10 c' = Some j'" "length ip \<le> 16 \<Longrightarrow> sid_key j' = peer_key i ip p"
          "\<not> length ip \<le> 16 \<Longrightarrow> sid_key j' = sid_key i" by blast
        have look: "mgr_getSocket (Some c') w10 = mgr_map w (sid_key j')"
          using mgr_getSocket_map [OF quietD(2) [OF j'(1)] j'(2)] quietD(3) [OF j'(1)] by simp
        have "\<not> reg_id w10 c'" using j(4) quietD(5) [OF q9] quietD(5) [OF j'(1)] by simp
        then have q11: "quiet w ?w11"
          using quiet_trans [OF j'(1) quiet_free_id [OF quietD(2) [OF j'(1)]]] by (simp add: destroy_socket_id_def)
        show ?thesis
        proof (cases "mgr_map w (sid_key j') = None")
          case False
          then show ?thesis using res look q11 by simp
        next
          case free: True
          then have le: "length ip \<le> 16" using j'(4) O(2) by (metis option.distinct(1))
          have f11: "mgr_map ?w11 (peer_key i ip p) = None" using free j'(3) [OF le] quietD(3) [OF q11] by simp
          have e: "start_connection P k ip p ?w11 = (r, w')" using res look free by simp
          have "sk_state s \<noteq> LISTEN" using True by simp
          note S = start_connection_spec [OF quietD(2) [OF q11] own_socket_quiet [OF inv o q11] this le nn f11 e]
          then show ?thesis using True free j'(3) [OF le] quiet_rekeys [OF q11] by (metis (no_types, lifting))
        qed
      qed
    qed
  qed
qed

section \<open>Properties\<close>



end
