(* ===== verification/Close_Steps.thy ===== *)
theory Close_Steps imports Connect_Steps begin

text \<open>
  Closing: a request at the end FIFO of a socket makes it send its FIN, and a socket that is closed for
  long enough is removed.  The request for a socket that is still connecting changes the identifier of
  the registered socket in place, which keeps the table in order only while the bound endpoint is free.
\<close>

section \<open>Renaming in place\<close>

lemma hm_slot_of_id:
  assumes inv: "hm_inv ih sh h" and j: "j < HASH_MAP_DEFAULT_SIZE" "hm_socket_id h ! j = Some k"
    and j': "j' < HASH_MAP_DEFAULT_SIZE" "hm_socket_id h ! j' = Some k"
  shows "j = j'"
proof -
  have "used h j" "used h j'"
    using hm_invD(5) [OF inv j(1)] hm_invD(5) [OF inv j'(1)] j(2) j'(2) by (auto simp: used_def split: option.splits)
  moreover have "slot_key ih h j = slot_key ih h j'" using j(2) j'(2) by (simp add: slot_key_def)
  ultimately show ?thesis using hm_invD(7) [OF inv j(1) j'(1)] by simp
qed

lemma hm_rename:
  assumes inv: "hm_inv ih sh h" and k: "ih k = Some i" and i': "wf_sockid i'"
    and a: "sh a = Some s" "sk_id s = Some k" "hm_abs ih h (sid_key i) = Some a"
    and free: "hm_abs ih h (sid_key i') = None \<or> sid_key i' = sid_key i"
  shows "hm_inv (ih(k \<mapsto> i')) sh h"
    and "hm_abs (ih(k \<mapsto> i')) h = ((hm_abs ih h)(sid_key i := None))(sid_key i' \<mapsto> a)"
proof -
  let ?ih = "ih(k \<mapsto> i')"
  obtain n where n: "n < HASH_MAP_DEFAULT_SIZE" "hm_table h ! n = Some a" "slot_key ih h n = sid_key i"
    using a(3) hm_abs_eq_Some [OF inv] by blast
  have nk: "hm_socket_id h ! n = Some k" using hm_invD(6) [OF inv n(1,2)] a by simp
  have used_id: "\<exists>x y. hm_socket_id h ! j = Some x \<and> ih x = Some y \<and> wf_sockid y" if jj: "j < HASH_MAP_DEFAULT_SIZE" "used h j" for j
  proof -
    obtain b where "hm_table h ! j = Some b" using jj(2) by (auto simp: used_def)
    from slot_facts [OF inv jj(1) this] show ?thesis unfolding id_ok_def by metis
  qed
  have key: "slot_key ?ih h j = (if j = n then sid_key i' else slot_key ih h j)" if jj: "j < HASH_MAP_DEFAULT_SIZE" "used h j" for j
  proof (cases "j = n")
    case True
    then show ?thesis using nk by (simp add: slot_key_def)
  next
    case False
    obtain x y where x: "hm_socket_id h ! j = Some x" "ih x = Some y" using used_id [OF jj] by blast
    have "x \<noteq> k" using hm_slot_of_id [OF inv jj(1) _ n(1) nk] x False by auto
    then show ?thesis using x False by (simp add: slot_key_def)
  qed
  have other: "slot_key ih h j \<noteq> sid_key i'" if jj: "j < HASH_MAP_DEFAULT_SIZE" "used h j" "j \<noteq> n" for j
  proof
    assume e: "slot_key ih h j = sid_key i'"
    obtain b where b: "hm_table h ! j = Some b" using jj(2) by (auto simp: used_def)
    then have "hm_abs ih h (sid_key i') = Some b" using e jj(1) hm_abs_eq_Some [OF inv] by blast
    then have "sid_key i' = sid_key i" using free by simp
    then have "slot_key ih h j = slot_key ih h n" using e n(3) by simp
    then show False using hm_invD(7) [OF inv jj(1) n(1) jj(2)] n(2) jj(3) by (simp add: used_def)
  qed
  show inv': "hm_inv ?ih sh h"
    unfolding hm_inv_def
  proof (intro conjI allI impI)
    show "case hm_table h ! j of None \<Rightarrow> hm_socket_id h ! j = None
       | Some b \<Rightarrow> sock_ok ?ih sh b \<and> hm_socket_id h ! j = sk_id (the (sh b))" if "j < HASH_MAP_DEFAULT_SIZE" for j
    proof (cases "hm_table h ! j")
      case None
      then show ?thesis using hm_invD(5) [OF inv that] by simp
    next
      case (Some b)
      then obtain s ka y where x: "sh b = Some s" "sk_id s = Some ka" "ih ka = Some y" "wf_sockid y"
          "hm_socket_id h ! j = Some ka"
        using hm_invD(6) [OF inv \<open>j < HASH_MAP_DEFAULT_SIZE\<close> Some] by (auto simp: sock_ok_def)
      have "sock_ok ?ih sh b"
        unfolding sock_ok_def
        by (intro exI [of _ s] exI [of _ ka] exI [of _ "if ka = k then i' else y"]) (simp add: x i')
      then show ?thesis using Some x by simp
    qed
    fix j j'
    assume j: "j < HASH_MAP_DEFAULT_SIZE" "j' < HASH_MAP_DEFAULT_SIZE"
      "used h j \<and> used h j' \<and> slot_key ?ih h j = slot_key ?ih h j'"
    then have e: "(if j = n then sid_key i' else slot_key ih h j) = (if j' = n then sid_key i' else slot_key ih h j')"
      using key [OF j(1)] key [OF j(2)] by argo
    consider "j = n" "j' = n" | "j = n" "j' \<noteq> n" | "j \<noteq> n" "j' = n" | "j \<noteq> n" "j' \<noteq> n" by blast
    then show "j = j'"
    proof cases
      case 2
      then show ?thesis using other [OF j(2)] j(3) e by force
    next
      case 3
      then show ?thesis using other [OF j(1)] j(3) e by force
    next
      case 4
      then show ?thesis using hm_invD(7) [OF inv j(1,2)] j(3) e by force
    qed simp
  qed (use hm_invD(1-4) [OF inv] in simp_all)
  show "hm_abs ?ih h = ((hm_abs ih h)(sid_key i := None))(sid_key i' \<mapsto> a)"
  proof (rule hm_abs_ext [OF inv'])
    fix x b
    have "(\<exists>j < HASH_MAP_DEFAULT_SIZE. hm_table h ! j = Some b \<and> slot_key ?ih h j = x)
        \<longleftrightarrow> (\<exists>j < HASH_MAP_DEFAULT_SIZE. j \<noteq> n \<and> hm_table h ! j = Some b \<and> slot_key ih h j = x) \<or> (b = a \<and> x = sid_key i')"
    proof
      assume "\<exists>j < HASH_MAP_DEFAULT_SIZE. hm_table h ! j = Some b \<and> slot_key ?ih h j = x"
      then obtain j where j: "j < HASH_MAP_DEFAULT_SIZE" "hm_table h ! j = Some b" "slot_key ?ih h j = x" by blast
      then show "(\<exists>j < HASH_MAP_DEFAULT_SIZE. j \<noteq> n \<and> hm_table h ! j = Some b \<and> slot_key ih h j = x) \<or> (b = a \<and> x = sid_key i')"
        using key [of j] n(2) by (cases "j = n") (auto simp: used_def)
    next
      assume "(\<exists>j < HASH_MAP_DEFAULT_SIZE. j \<noteq> n \<and> hm_table h ! j = Some b \<and> slot_key ih h j = x) \<or> (b = a \<and> x = sid_key i')"
      then show "\<exists>j < HASH_MAP_DEFAULT_SIZE. hm_table h ! j = Some b \<and> slot_key ?ih h j = x"
      proof
        assume "\<exists>j < HASH_MAP_DEFAULT_SIZE. j \<noteq> n \<and> hm_table h ! j = Some b \<and> slot_key ih h j = x"
        then obtain j where j: "j < HASH_MAP_DEFAULT_SIZE" "j \<noteq> n" "hm_table h ! j = Some b" "slot_key ih h j = x" by blast
        then show ?thesis using key [of j] by (intro exI [of _ j]) (simp add: used_def)
      next
        assume "b = a \<and> x = sid_key i'"
        then show ?thesis using key [of n] n by (intro exI [of _ n]) (simp add: used_def)
      qed
    qed
    also have "\<dots> \<longleftrightarrow> (((hm_abs ih h)(sid_key i := None))(sid_key i' \<mapsto> a)) x = Some b"
    proof (cases "x = sid_key i'")
      case True
      have "\<not> (\<exists>j < HASH_MAP_DEFAULT_SIZE. j \<noteq> n \<and> hm_table h ! j = Some b \<and> slot_key ih h j = x)"
        using other True by (force simp: used_def)
      then show ?thesis using True by auto
    next
      case False
      have "(\<exists>j < HASH_MAP_DEFAULT_SIZE. j \<noteq> n \<and> hm_table h ! j = Some b \<and> slot_key ih h j = x)
          \<longleftrightarrow> hm_abs ih h x = Some b \<and> x \<noteq> sid_key i"
      proof
        assume "\<exists>j < HASH_MAP_DEFAULT_SIZE. j \<noteq> n \<and> hm_table h ! j = Some b \<and> slot_key ih h j = x"
        then obtain j where j: "j < HASH_MAP_DEFAULT_SIZE" "j \<noteq> n" "hm_table h ! j = Some b" "slot_key ih h j = x" by blast
        then have "slot_key ih h j \<noteq> slot_key ih h n"
          using hm_invD(7) [OF inv j(1) n(1)] n(2) by (auto simp: used_def)
        then show "hm_abs ih h x = Some b \<and> x \<noteq> sid_key i" using hm_abs_eq_Some [OF inv, of x b] j n(3) by auto
      next
        assume "hm_abs ih h x = Some b \<and> x \<noteq> sid_key i"
        then show "\<exists>j < HASH_MAP_DEFAULT_SIZE. j \<noteq> n \<and> hm_table h ! j = Some b \<and> slot_key ih h j = x"
          using hm_abs_eq_Some [OF inv, of x b] n(3) by auto
      qed
      then show ?thesis using False by simp
    qed
    finally show "(\<exists>j < HASH_MAP_DEFAULT_SIZE. hm_table h ! j = Some b \<and> slot_key ?ih h j = x)
        \<longleftrightarrow> (((hm_abs ih h)(sid_key i := None))(sid_key i' \<mapsto> a)) x = Some b" .
  qed
qed

lemma rename_registered:
  assumes inv: "mgr_inv w" and o: "own_socket w k i a s"
    and free: "mgr_map w (sid_key (unconnected i)) = None \<or> sid_key (unconnected i) = sid_key i"
  shows "rekeys k (sid_key i) (sid_key (unconnected i)) a s w (upd_id k unconnected w)"
proof -
  let ?w = "upd_id k unconnected w"
  have O: "ids w k = Some i" "mgr_map w (sid_key i) = Some a" "socks w a = Some s" "sk_id s = Some k"
    using o by (simp_all add: own_socket_def)
  have wf: "wf_sockid (unconnected i)" using wf_unconnected mgr_invD(2) [OF inv O(1)] .
  obtain h where h: "mgr_sockets w = Some h" "hm_inv (ids w) (socks w) h" "mgr_map w = hm_abs (ids w) h"
    using inv by (rule mgr_inv_table)
  have ids: "ids ?w = (ids w)(k \<mapsto> unconnected i)" using O(1) by (auto simp: upd_id_def)
  note R = hm_rename [OF h(2) O(1) wf O(3,4) O(2) [unfolded h(3)] free [unfolded h(3)]]
  have "heap_ok ?w" using mgr_invD(1) [OF inv] O(1) by (auto simp: heap_ok_def split: if_splits)
  moreover have "wf_sockid j" if "ids ?w x = Some j" for x j
    using that wf mgr_invD(2) [OF inv] unfolding ids by (auto split: if_splits)
  ultimately have "mgr_inv ?w"
    using inv R(1) h unfolding mgr_inv_def ids by simp
  moreover have "mgr_map ?w = ((mgr_map w)(sid_key i := None))(sid_key (unconnected i) \<mapsto> a)"
    using R(2) h ids by (simp add: mgr_map_def)
  ultimately show ?thesis using O by (simp add: rekeys_def)
qed

section \<open>The end FIFO\<close>

text \<open>What a close command does to the socket: its FIN is due, behind the bytes that wait to be sent.\<close>

definition closes :: "socket \<Rightarrow> socket \<Rightarrow> bool" where
  "closes s s' \<longleftrightarrow> s' = s \<or> kept s s' \<and> sk_state s' = FIN_WAIT_1
     \<and> seq_of_first_send_window s' = seq_of_first_send_window s + word_of_int (QueueSize (send_window s))
     \<and> send_window s' = send_window s"

lemma close_command_step:
  assumes s: "socks w a = Some s" and c: "check_and_handle_close_command P k a w = (r, w')"
  shows "r = 0" and "only_socket a closes w w'
    \<or> sk_state s = SYN_SENT \<and> (\<exists>w1 w2. same_heap w w1 \<and> only_socket a closes (upd_id (the (sk_id s)) unconnected w1) w2 \<and> w' = w2)"
proof -
  obtain wn w1 where 1: "get_end_fifo_write_end_name P (Some k) w = (wn, w1)" by fastforce
  have h1: "same_heap w w1" by (rule fifo_name_heap(8) [OF 1])
  obtain rn w2 where 2: "get_end_fifo_read_end_name P (Some k) w1 = (rn, w2)" by fastforce
  have h2: "same_heap w w2" by (rule same_heap_trans [OF h1 fifo_name_heap(7) [OF 2]])
  obtain fd1 w3 where 3: "sys_open P (the rn) O_WRONLY_NONBLOCK w2 = (fd1, w3)" by fastforce
  have h3: "same_heap w w3" by (rule same_heap_trans [OF h2 sys_same_heap(3) [OF 3]])
  obtain fd2 w5 where 5: "sys_open P (the wn) O_RDONLY (sys_close P fd1 w3) = (fd2, w5)" by fastforce
  have h5: "same_heap w w5"
    by (rule same_heap_trans [OF same_heap_trans [OF h3 same_heap_close] sys_same_heap(3) [OF 5]])
  obtain m w6 where 6: "sys_read P fd2 1 w5 = (m, w6)" by fastforce
  have h6: "same_heap w w6" by (rule same_heap_trans [OF h5 sys_same_heap(4) [OF 6]])
  have same: "only_socket a closes w v" if "same_heap w v" for v
    using that s by (intro only_socket_same) (auto simp: closes_def)
  have "r = 0 \<and> (only_socket a closes w w'
    \<or> sk_state s = SYN_SENT \<and> (\<exists>w1 w2. same_heap w w1 \<and> only_socket a closes (upd_id (the (sk_id s)) unconnected w1) w2 \<and> w' = w2))"
  proof (cases "wn \<noteq> None \<and> rn \<noteq> None \<and> fd1 \<noteq> - 1 \<and> fd2 \<noteq> - 1")
    case False
    then have "r = 0 \<and> (w' = w1 \<or> w' = w2 \<or> w' = w3 \<or> w' = w5)"
      using c 1 2 3 5 by (cases wn; cases rn) (auto simp: check_and_handle_close_command_def Let_def split: if_splits)
    then show ?thesis using same h1 h2 h3 h5 by auto
  next
    case True
    then obtain wn' rn' where n: "wn = Some wn'" "rn = Some rn'" by auto
    show ?thesis
    proof (cases "\<exists>x. m = Read [x]")
      case False
      then have "r = 0 \<and> w' = sys_close P fd2 w6"
        using c True n 1 2 3 5 6
        by (auto simp: check_and_handle_close_command_def Let_def split: read_outcome.splits list.splits)
      then show ?thesis using same same_heap_trans [OF h6 same_heap_close] by simp
    next
      case x: True
      have s6: "socks w6 a = Some s" "sock_at w6 a = s" using s same_heapD(2) [OF h6] by (simp_all add: sock_at_def)
      define w7 where "w7 = (if sk_state s = SYN_SENT then upd_id (the (sk_id s)) unconnected w6 else w6)"
      obtain now w8 where 8: "sys_clock P w7 = (now, w8)" by fastforce
      note h8 = sys_same_heap(10) [OF 8]
      let ?f = "\<lambda>s. s\<lparr>seq_of_first_send_window := seq_of_first_send_window s + word_of_int (QueueSize (send_window s)),
                            sk_state := FIN_WAIT_1, time_since_fin_sent := now\<rparr>"
      have w': "r = 0 \<and> w' = sys_close P fd2 (upd_sock a ?f w8)"
        using c True n 1 2 3 5 6 x s6(2) 8 by (auto simp: check_and_handle_close_command_def Let_def w7_def)
      have s8: "socks w8 a = Some s" using s6(1) same_heapD(2) [OF h8] by (simp add: w7_def)
      have "only_socket a closes w8 (upd_sock a ?f w8)"
        using s8 by (intro only_socket_upd) (auto simp: closes_def kept_def socket_wf_def wf_windows_def)
      then have o: "only_socket a closes w7 w'"
        using only_socket_heap(2) [OF h8] only_socket_heap(1) same_heap_close w' by blast
      show ?thesis
      proof (cases "sk_state s = SYN_SENT")
        case True
        then show ?thesis using w' o h6 by (auto simp: w7_def)
      next
        case False
        then show ?thesis using w' only_socket_heap(2) [OF h6] o by (simp add: w7_def)
      qed
    qed
  qed
  then show "r = 0" and "only_socket a closes w w'
    \<or> sk_state s = SYN_SENT \<and> (\<exists>w1 w2. same_heap w w1 \<and> only_socket a closes (upd_id (the (sk_id s)) unconnected w1) w2 \<and> w' = w2)"
    by simp_all
qed

text \<open>A socket leaves the table and is freed; everything else registered stays.\<close>

definition removes :: "addr \<Rightarrow> sock_key \<Rightarrow> addr \<Rightarrow> 's world \<Rightarrow> 's world \<Rightarrow> bool" where
  "removes k key a w w' \<longleftrightarrow> mgr_inv w' \<and> mgr_ip w' = mgr_ip w \<and> mgr_map w key = Some a
     \<and> mgr_map w' = (mgr_map w)(key := None)
     \<and> (\<forall>b. registered w b \<longrightarrow> b \<noteq> a \<longrightarrow> socks w' b = socks w b) \<and> (\<forall>j. reg_id w j \<longrightarrow> j \<noteq> k \<longrightarrow> ids w' j = ids w j)"

lemma quiet_removes: "quiet w w1 \<Longrightarrow> removes k key a w1 w' \<Longrightarrow> removes k key a w w'"
  using quietD [of w w1] by (simp add: removes_def)

lemma remove_own_socket:
  assumes inv: "mgr_inv w" and o: "own_socket w k i a s"
  shows "removes k (sid_key i) a w (remove_and_destroy_socket P k w)"
proof -
  have O: "ids w k = Some i" "mgr_map w (sid_key i) = Some a" "socks w a = Some s" "sk_id s = Some k"
    using o by (simp_all add: own_socket_def)
  note R = remove_and_destroy_socket_spec [OF inv O(1) refl, where P = P]
  show ?thesis using R O unfolding removes_def by auto
qed

lemma check_and_handle_closed_socket_step:
  assumes inv: "mgr_inv w" and o: "own_socket w k i a s"
    and c: "check_and_handle_closed_socket P kf a w = (r, w')"
  shows "r = 0 \<and> same_heap w w' \<or> r = BREAK_ITERATION \<and> sk_state s = CLOSED \<and> removes k (sid_key i) a w w'"
proof -
  have O: "socks w a = Some s" "sk_id s = Some k" using o by (simp_all add: own_socket_def)
  have sa: "sock_at w a = s" using O by (simp add: sock_at_def)
  obtain now w1 where 1: "(if sk_state s = CLOSED then sys_clock P w else (0, w)) = (now, w1)" by fastforce
  have h1: "same_heap w w1" using 1 by (auto split: if_splits)
  obtain n w2 where 2: "get_end_fifo_read_end_name P (Some kf) w1 = (n, w2)" by fastforce
  have h2: "same_heap w w2" by (rule same_heap_trans [OF h1 fifo_name_heap(7) [OF 2]])
  obtain fd w3 where 3: "sys_open P (the n) O_RDWR w2 = (fd, w3)" by fastforce
  have h3: "same_heap w w3" by (rule same_heap_trans [OF h2 sys_same_heap(3) [OF 3]])
  define w4 where "w4 = (if fd = - 1 then w3 else sys_close P fd (snd (sys_write P fd ''E'' w3)))"
  have h4: "same_heap w w4"
  proof (cases "fd = - 1")
    case False
    obtain x v where "sys_write P fd ''E'' w3 = (x, v)" by fastforce
    then show ?thesis
      using False same_heap_trans [OF h3 same_heap_trans [OF sys_same_heap(5) same_heap_close]] by (simp add: w4_def)
  qed (use h3 in \<open>simp add: w4_def\<close>)
  have o4: "own_socket w4 k i a s" by (rule own_socket_quiet [OF inv o quiet_same_heap [OF inv h4]])
  have "sk_id (sock_at w4 a) = Some k" using O same_heapD(7) [OF h4] sa by simp
  then have "(r = 0 \<and> (w' = w1 \<or> w' = w2))
      \<or> (sk_state s = CLOSED \<and> r = BREAK_ITERATION \<and> w' = remove_and_destroy_socket P k w4)"
    using c sa 1 2 3 by (cases n) (auto simp: check_and_handle_closed_socket_def Let_def w4_def split: if_splits)
  moreover have "removes k (sid_key i) a w (remove_and_destroy_socket P k w4)"
    by (rule quiet_removes [OF quiet_same_heap [OF inv h4] remove_own_socket [OF quietD(2) [OF quiet_same_heap [OF inv h4]] o4]])
  ultimately show ?thesis using h1 h2 by auto
qed

text \<open>One registered socket changes; the rest of what is registered stays.\<close>

definition touches :: "addr \<Rightarrow> (socket \<Rightarrow> socket \<Rightarrow> bool) \<Rightarrow> 's world \<Rightarrow> 's world \<Rightarrow> bool" where
  "touches a Q w w' \<longleftrightarrow> keeps w w' \<and> (\<forall>b. registered w b \<longrightarrow> b \<noteq> a \<longrightarrow> socks w' b = socks w b)
     \<and> (\<forall>k. reg_id w k \<longrightarrow> ids w' k = ids w k) \<and> (\<exists>s s'. socks w a = Some s \<and> socks w' a = Some s' \<and> Q s s')"

lemma touches_only_socket:
  assumes "mgr_inv w" and "only_socket a Q w w'" and "\<And>s s'. Q s s' \<Longrightarrow> kept s s'"
  shows "touches a Q w w'"
  using only_socket_keeps [OF assms(1,2)] assms(2,3) by (auto simp: touches_def only_socket_def)

lemma touches_quiet:
  assumes "quiet w w1" and "registered w a" and "socks w a = Some s" and "Q s s"
  shows "touches a Q w w1"
  using assms quietD(7) [OF assms(1)] by (auto simp: touches_def quiet_def)

lemma quiet_touches:
  assumes "quiet w w1" and "registered w a" and "touches a Q w1 w'"
  shows "touches a Q w w'"
  using assms(3) quietD [OF assms(1)] assms(2) keeps_trans [of w w1 w'] assms(1) by (simp add: touches_def quiet_def)

lemma touches_then_quiet:
  assumes "touches a Q w w1" and "registered w a" and "quiet w1 w'"
  shows "touches a Q w w'"
proof -
  have K: "keeps w w1" and s: "\<exists>s s'. socks w a = Some s \<and> socks w1 a = Some s' \<and> Q s s'"
    using assms(1) by (auto simp: touches_def)
  have "keeps w w'" using keeps_trans [OF K] assms(3) by (simp add: quiet_def)
  then show ?thesis
    using assms(1,2) s quietD(7,8) [OF assms(3)] keepsD(3,4) [OF K] by (simp add: touches_def)
qed

lemma own_socketD:
  assumes "mgr_inv w" and "own_socket w k i a s"
  shows "registered w a" "reg_id w k" "ids w k = Some i" "mgr_map w (sid_key i) = Some a" "socks w a = Some s"
    "sk_id s = Some k" "wf_sockid i" "sock_at w a = s" "mgr_getSocket (Some k) w = Some a"
proof -
  show O: "ids w k = Some i" "mgr_map w (sid_key i) = Some a" "socks w a = Some s" "sk_id s = Some k"
    using assms(2) by (simp_all add: own_socket_def)
  show "registered w a" by (rule mgr_map_registered [OF assms(1) O(2)])
  then show "reg_id w k" using O by (auto simp: reg_id_def)
  show "wf_sockid i" by (rule mgr_invD(2) [OF assms(1) O(1)])
  show "sock_at w a = s" using O(3) by (simp add: sock_at_def)
  show "mgr_getSocket (Some k) w = Some a" using mgr_getSocket_map [OF assms(1) O(1)] O(2) by simp
qed

lemma touches_own:
  assumes "mgr_inv w" and "own_socket w k i a s" and "touches a Q w w'" and "\<And>s s'. Q s s' \<Longrightarrow> kept s s'"
  obtains s' where "own_socket w' k i a s'" "Q s s'"
proof -
  note O = own_socketD [OF assms(1,2)]
  obtain s' where s': "socks w' a = Some s'" "Q s s'" using assms(3) O(5) by (auto simp: touches_def)
  have "own_socket w' k i a s'"
    using assms(3,4) O s' keepsD(2) [of w w'] by (auto simp: touches_def own_socket_def kept_def)
  then show thesis using that s'(2) by blast
qed

lemma closes_kept: "closes s s' \<Longrightarrow> kept s s'"
  by (auto simp: closes_def)

lemma rekeys_registered:
  assumes inv: "mgr_inv w" and r: "rekeys k old new a s' w w'" and old: "mgr_map w old = Some a"
    and new: "mgr_map w new = None \<or> new = old"
  shows "registered w' b \<longleftrightarrow> registered w b"
proof -
  have inv': "mgr_inv w'" and m: "mgr_map w' = ((mgr_map w)(old := None))(new \<mapsto> a)" using r by (simp_all add: rekeys_def)
  have "(\<exists>key. mgr_map w' key = Some b) \<longleftrightarrow> (\<exists>key. mgr_map w key = Some b)"
  proof (cases "new = old")
    case True
    then have "mgr_map w' = mgr_map w" using m old by (simp add: fun_upd_idem)
    then show ?thesis by simp
  next
    case False
    then have free: "mgr_map w new = None" using new by simp
    show ?thesis
    proof
      assume "\<exists>key. mgr_map w' key = Some b"
      then obtain key where "mgr_map w' key = Some b" by blast
      then have "mgr_map w key = Some b \<or> mgr_map w old = Some b" using m old by (auto split: if_splits)
      then show "\<exists>key. mgr_map w key = Some b" by blast
    next
      assume "\<exists>key. mgr_map w key = Some b"
      then obtain key where key: "mgr_map w key = Some b" by blast
      show "\<exists>key. mgr_map w' key = Some b"
      proof (cases "key = old")
        case True
        then show ?thesis using key old m by (intro exI [of _ new]) simp
      next
        case False
        then show ?thesis using key m free by (intro exI [of _ key]) auto
      qed
    qed
  qed
  then show ?thesis using registered_iff [OF inv] registered_iff [OF inv'] by simp
qed

lemma rekeys_quiet:
  assumes inv: "mgr_inv w" and o: "own_socket w k i a s" and r: "rekeys k (sid_key i) new a s' w w1"
    and new: "mgr_map w new = None \<or> new = sid_key i" and q: "quiet w1 w'"
  shows "rekeys k (sid_key i) new a s' w w'"
proof -
  note O = own_socketD [OF inv o]
  note reg = rekeys_registered [OF inv r O(4) new]
  have "ids w' j = ids w j" if j: "reg_id w j" "j \<noteq> k" for j
  proof -
    obtain b t where b: "registered w b" "socks w b = Some t" "sk_id t = Some j" using j(1) by (auto simp: reg_id_def)
    then have "b \<noteq> a" using O(5,6) j(2) by auto
    then have "reg_id w1 j" using b reg r by (auto simp: reg_id_def rekeys_def)
    then show ?thesis using quietD(8) [OF q] r j by (simp add: rekeys_def)
  qed
  then show ?thesis
    using r quietD(2,3,6) [OF q] quietD(7) [OF q] reg O(1) by (simp add: rekeys_def)
qed

lemma rekeys_touches:
  assumes inv: "mgr_inv w" and o: "own_socket w k i a s" and r: "rekeys k (sid_key i) new a s w w1"
    and new: "mgr_map w new = None \<or> new = sid_key i" and t: "only_socket a Q w1 w'" and Q: "\<And>s s'. Q s s' \<Longrightarrow> kept s s'"
  shows "\<exists>s'. Q s s' \<and> rekeys k (sid_key i) new a s' w w'"
proof -
  have inv1: "mgr_inv w1" and s1: "socks w1 a = Some s" using r by (simp_all add: rekeys_def)
  obtain s' where "socks w' a = Some s'" "Q s s'" using t s1 by (auto simp: only_socket_def)
  moreover have "keeps w1 w'" by (rule only_socket_keeps [OF inv1 t Q])
  ultimately show ?thesis using r t by (auto simp: rekeys_def only_socket_def dest: keepsD)
qed

text \<open>A close request for a connecting socket frees the bound endpoint again, if nobody took it meanwhile.\<close>

definition bound_endpoint_free :: "sockid \<Rightarrow> 's world \<Rightarrow> bool" where
  "bound_endpoint_free i w \<longleftrightarrow> mgr_map w (sid_key (unconnected i)) = None \<or> sid_key (unconnected i) = sid_key i"

text \<open>When somebody took it, the two sockets end up under one endpoint, and the table is no map any more.\<close>

definition duplicates :: "sockid \<Rightarrow> addr \<Rightarrow> 's world \<Rightarrow> 's world \<Rightarrow> bool" where
  "duplicates i a w w' \<longleftrightarrow> \<not> mgr_inv w' \<and> registered w' = registered w
     \<and> (\<forall>b. registered w b \<longrightarrow> b \<noteq> a \<longrightarrow> socks w' b = socks w b)
     \<and> (\<exists>s s'. socks w a = Some s \<and> socks w' a = Some s' \<and> closes s s')
     \<and> (\<exists>b sa sb ka kb ia ib. mgr_map w (sid_key (unconnected i)) = Some b \<and> b \<noteq> a
          \<and> socks w' a = Some sa \<and> sk_id sa = Some ka \<and> ids w' ka = Some ia
          \<and> socks w' b = Some sb \<and> sk_id sb = Some kb \<and> ids w' kb = Some ib \<and> sid_key ia = sid_key ib)"

lemma closing_taken_endpoint:
  assumes inv: "mgr_inv w" and o: "own_socket w k i a s" and taken: "\<not> bound_endpoint_free i w"
    and q: "quiet w v" and x: "only_socket a closes (upd_id k unconnected v) x" and c: "\<not> reg_id w c"
  shows "duplicates i a w (free_id c x)"
proof -
  note O = own_socketD [OF inv o]
  obtain b where b: "mgr_map w (sid_key (unconnected i)) = Some b" "sid_key (unconnected i) \<noteq> sid_key i"
    using taken by (auto simp: bound_endpoint_free_def)
  have rb: "registered w b" by (rule mgr_map_registered [OF inv b(1)])
  have ba: "b \<noteq> a" using registered_one_key [OF inv b(1), of "sid_key i"] O(4) b(2) by metis
  obtain t l j where t: "socks w b = Some t" "sk_id t = Some l" "ids w l = Some j" "sid_key j = sid_key (unconnected i)"
    using registered_key [OF inv b(1)] by metis
  have lk: "l \<noteq> k" using registered_unique [OF inv rb t(1) _ O(1,5,6)] t(2) ba by auto
  have rl: "reg_id w l" using rb t(1,2) by (auto simp: reg_id_def)
  then have lc: "l \<noteq> c" and kc: "k \<noteq> c" using c O(2) by auto
  let ?y = "free_id c x"
  obtain s' where s': "socks x a = Some s'" "closes s s'"
    using x quietD(7) [OF q O(1)] O(5) by (auto simp: only_socket_def)
  have sb: "socks ?y b' = socks w b'" if "registered w b'" "b' \<noteq> a" for b'
    using that x quietD(7) [OF q] by (simp add: only_socket_def free_id_def)
  have sa: "socks ?y a = Some s'" "sk_id s' = Some k"
    using s' O(6) closes_kept [OF s'(2)] by (simp_all add: free_id_def kept_def)
  have ik: "ids ?y k = Some (unconnected i)" "ids ?y l = Some j"
    using x kc lc lk quietD(8) [OF q O(2)] quietD(8) [OF q rl] O(3) t(3) by (simp_all add: only_socket_def free_id_def)
  have tb: "socks ?y b = Some t" using sb [OF rb ba] t(1) by simp
  have "mgr_sockets ?y = mgr_sockets v" using x by (simp add: only_socket_def free_id_def)
  then have reg: "registered ?y = registered w" using quietD(4) [OF q] by (simp add: registered_def fun_eq_iff)
  have "\<not> mgr_inv ?y"
  proof
    assume inv': "mgr_inv ?y"
    have "mgr_map ?y (sid_key (unconnected i)) = Some a"
      using registered_socket [OF inv', of a] reg O(1) sa ik(1) by (metis option.inject)
    moreover have "mgr_map ?y (sid_key j) = Some b"
      using registered_socket [OF inv', of b] reg rb tb t(2) ik(2) by (metis option.inject)
    ultimately show False using t(4) ba by simp
  qed
  moreover have "\<exists>b sa sb ka kb ia ib. mgr_map w (sid_key (unconnected i)) = Some b \<and> b \<noteq> a
      \<and> socks ?y a = Some sa \<and> sk_id sa = Some ka \<and> ids ?y ka = Some ia
      \<and> socks ?y b = Some sb \<and> sk_id sb = Some kb \<and> ids ?y kb = Some ib \<and> sid_key ia = sid_key ib"
    using b(1) ba sa ik tb t(2,4) by (intro exI conjI) (rule | assumption | simp)+
  ultimately show ?thesis using reg sb sa(1) O(5) s'(2) unfolding duplicates_def by blast
qed

lemma closed_socket_waits:
  "sk_state (sock_at w a) \<noteq> CLOSED \<Longrightarrow> check_and_handle_closed_socket P kf a w = (0, w)"
  by (simp add: check_and_handle_closed_socket_def)

lemma check_and_handle_socket_end_fifo_step:
  assumes inv: "mgr_inv w" and o: "own_socket w k i a s"
    and c: "check_and_handle_socket_end_fifo P k w = (r, w')"
  shows "r = 0 \<and> touches a closes w w'
    \<or> r = BREAK_ITERATION \<and> sk_state s = CLOSED \<and> removes k (sid_key i) a w w'
    \<or> r = 0 \<and> sk_state s = SYN_SENT \<and> bound_endpoint_free i w
      \<and> (\<exists>s'. closes s s' \<and> rekeys k (sid_key i) (sid_key (unconnected i)) a s' w w')
    \<or> r = 0 \<and> sk_state s = SYN_SENT \<and> \<not> bound_endpoint_free i w \<and> duplicates i a w w'"
proof (cases "sk_state s = SYN_SENT")
  case False
  note O = own_socketD [OF inv o]
  obtain r1 w1 where 1: "check_and_handle_close_command P k a w = (r1, w1)" by fastforce
  note C = close_command_step [OF O(5) 1]
  have o1: "only_socket a closes w w1" using C(2) False by simp
  note t1 = touches_only_socket [OF inv o1 closes_kept]
  have inv1: "mgr_inv w1" using t1 by (simp add: touches_def keeps_def)
  obtain s1 where s1: "own_socket w1 k i a s1" "closes s s1" by (rule touches_own [OF inv o t1 closes_kept])
  have e: "check_and_handle_closed_socket P k a w1 = (r, w')"
    using c O(8,9) False 1 C(1) by (auto simp: check_and_handle_socket_end_fifo_def split: prod.splits)
  from check_and_handle_closed_socket_step [OF inv1 s1(1) e] show ?thesis
  proof
    assume "r = 0 \<and> same_heap w1 w'"
    then show ?thesis using touches_then_quiet [OF t1 O(1) quiet_same_heap [OF inv1]] by simp
  next
    assume r: "r = BREAK_ITERATION \<and> sk_state s1 = CLOSED \<and> removes k (sid_key i) a w1 w'"
    then have "s1 = s" using s1(2) by (auto simp: closes_def)
    then have "quiet w w1"
      using t1 O(5) own_socketD(5) [OF inv1 s1(1)] unfolding touches_def quiet_def by metis
    then show ?thesis using r quiet_removes \<open>s1 = s\<close> by blast
  qed
next
  case True
  note O = own_socketD [OF inv o]
  obtain c0 w1 where 1: "copy_socket_id P k w = (c0, w1)" by fastforce
  note q1 = quiet_copy_socket_id [OF inv O(3) 1]
  show ?thesis
  proof (cases c0)
    case None
    then have "r = 0 \<and> w' = w1" using c O(8,9) True 1 by (auto simp: check_and_handle_socket_end_fifo_def)
    then show ?thesis using touches_quiet [OF q1 O(1,5), of closes] by (simp add: closes_def)
  next
    case (Some c')
    obtain j where j: "ids w1 c' = Some j" "\<not> reg_id w1 c'" "ids w c' = None"
      using copy_socket_id_keeps(4) [OF inv O(3) 1 Some] by metis
    have ne: "c' \<noteq> k" using j(3) O(3) by auto
    let ?w2 = "upd_id c' unconnected w1"
    have q2: "quiet w ?w2"
      by (rule quiet_trans [OF q1 quiet_upd_id [OF quietD(2) [OF q1] j(2) wf_unconnected]])
    note inv2 = quietD(2) [OF q2]
    note o2 = own_socket_quiet [OF inv o q2]
    have nc: "\<not> reg_id w c'" using j(2) quietD(5) [OF q1] by simp
    obtain r3 w3 where 3: "check_and_handle_close_command P c' a ?w2 = (r3, w3)" by fastforce
    note C = close_command_step [OF own_socketD(5) [OF inv2 o2] 3]
    have fin: "(r, w') = (0, free_id c' w3)" if "sk_state (sock_at w3 a) \<noteq> CLOSED"
      using c O(8,9) True 1 Some ne 3 C(1) closed_socket_waits [OF that, of P c']
      by (simp add: check_and_handle_socket_end_fifo_def Let_def destroy_socket_id_def)
    from C(2) show ?thesis
    proof
      assume o3: "only_socket a closes ?w2 w3"
      note t3 = quiet_touches [OF q2 O(1) touches_only_socket [OF inv2 o3 closes_kept]]
      obtain s3 where s3: "own_socket w3 k i a s3" "closes s s3" by (rule touches_own [OF inv o t3 closes_kept])
      have inv3: "mgr_inv w3" using t3 by (simp add: touches_def keeps_def)
      have "sk_state (sock_at w3 a) \<noteq> CLOSED"
        using own_socketD(8) [OF inv3 s3(1)] s3(2) True by (auto simp: closes_def)
      moreover have "\<not> reg_id w3 c'" using t3 nc by (simp add: touches_def keeps_def)
      ultimately show ?thesis
        using fin touches_then_quiet [OF t3 O(1) quiet_free_id [OF inv3]] by simp
    next
      assume "sk_state s = SYN_SENT \<and> (\<exists>v1 v2. same_heap ?w2 v1
        \<and> only_socket a closes (upd_id (the (sk_id s)) unconnected v1) v2 \<and> w3 = v2)"
      then obtain v where v: "same_heap ?w2 v" "only_socket a closes (upd_id k unconnected v) w3" using O(6) by auto
      note qv = quiet_trans [OF q2 quiet_same_heap [OF inv2 v(1)]]
      obtain s3 where s3: "socks w3 a = Some s3" "closes s s3"
        using v(2) own_socketD(5) [OF quietD(2) [OF qv] own_socket_quiet [OF inv o qv]] by (auto simp: only_socket_def)
      have run: "(r, w') = (0, free_id c' w3)" using fin s3 True by (auto simp: closes_def sock_at_def)
      show ?thesis
      proof (cases "bound_endpoint_free i w")
        case False
        then show ?thesis using run closing_taken_endpoint [OF inv o False qv v(2) nc] True by simp
      next
        case free: True
        note invv = quietD(2) [OF qv] and ov = own_socket_quiet [OF inv o qv]
        let ?new = "sid_key (unconnected i)"
        have new: "mgr_map w ?new = None \<or> ?new = sid_key i" using free by (simp add: bound_endpoint_free_def)
        then have newv: "mgr_map v ?new = None \<or> ?new = sid_key i" using quietD(3) [OF qv] by simp
        obtain s' where s': "closes s s'" "rekeys k (sid_key i) ?new a s' v w3"
          using rekeys_touches [OF invv ov rename_registered [OF invv ov newv] newv v(2) closes_kept] by blast
        note r3 = quiet_rekeys [OF qv s'(2)]
        have inv3: "mgr_inv w3" using r3 by (simp add: rekeys_def)
        have "reg_id w3 = reg_id v"
          using only_socket_keeps [OF _ v(2) closes_kept] rename_registered [OF invv ov newv]
          by (auto simp: rekeys_def keeps_def reg_id_def registered_def)
        then have "quiet w3 (free_id c' w3)" using quiet_free_id [OF inv3] nc quietD(5) [OF qv] by simp
        note R = rekeys_quiet [OF inv o r3 new this]
        show ?thesis using run R s'(1) True free by auto
      qed
    qed
  qed
qed

section \<open>Properties\<close>

text \<open>
  C38. Closing a socket that is still connecting can put two sockets under one endpoint.  When another client
  has bound the port of a connecting socket, which is possible since the connecting socket no longer
  occupies the bound endpoint, and the connecting socket is then closed, the handler overwrites the peer
  in the identifier of the registered socket: both sockets then have the same endpoint, and the table
  no longer is a map from endpoints to sockets.
\<close>

theorem closing_while_connecting_duplicates_endpoint:
  assumes "mgr_inv w" and "ids w k = Some i" and "mgr_map w (sid_key i) = Some a" and "socks w a = Some s"
    and "sk_id s = Some k" and "sk_state s = SYN_SENT"
    and "mgr_map w (sid_key (unconnected i)) = Some b" and "b \<noteq> a"
    and "resourceful P" and "fifos_open P" and "\<And>fd s. \<exists>c s'. px_read P fd 1 s = (Read [c], s')"
    and "check_and_handle_socket_end_fifo P k w = (r, w')"
  shows "r = 0 \<and> registered w' a \<and> registered w' b \<and> \<not> mgr_inv w'
    \<and> (\<exists>sa sb ka kb ia ib. socks w' a = Some sa \<and> sk_id sa = Some ka \<and> ids w' ka = Some ia
        \<and> socks w' b = Some sb \<and> sk_id sb = Some kb \<and> ids w' kb = Some ib \<and> sid_key ia = sid_key ib)"
proof -
  have o: "own_socket w k i a s" using assms(2-5) by (simp add: own_socket_def)
  note O = own_socketD [OF assms(1) o]
  obtain c0 w1 where 1: "copy_socket_id P k w = (c0, w1)" by fastforce
  obtain c' where c: "c0 = Some c'" using resourceful_create(2) [OF assms(9) 1] by blast
  note q1 = quiet_copy_socket_id [OF assms(1) O(3) 1]
  obtain j where j: "ids w1 c' = Some j" "\<not> reg_id w1 c'" "ids w c' = None"
    using copy_socket_id_keeps(4) [OF assms(1) O(3) 1 c] by metis
  have ne: "c' \<noteq> k" using j(3) O(3) by auto
  let ?w2 = "upd_id c' unconnected w1"
  have q2: "quiet w ?w2"
    by (rule quiet_trans [OF q1 quiet_upd_id [OF quietD(2) [OF q1] j(2) wf_unconnected]])
  note O2 = own_socketD [OF quietD(2) [OF q2] own_socket_quiet [OF assms(1) o q2]]
  obtain wn v1 where v1: "get_end_fifo_write_end_name P (Some c') ?w2 = (wn, v1)" by fastforce
  obtain rn v2 where v2: "get_end_fifo_read_end_name P (Some c') v1 = (rn, v2)" by fastforce
  obtain wn' rn' where n: "wn = Some wn'" "rn = Some rn'"
    using resourceful_socket_name [OF assms(9) v1 [unfolded socket_name_defs]]
      resourceful_socket_name [OF assms(9) v2 [unfolded socket_name_defs]] by blast
  obtain fd1 v3 where v3: "sys_open P rn' O_WRONLY_NONBLOCK v2 = (fd1, v3)" by fastforce
  obtain fd2 v5 where v5: "sys_open P wn' O_RDONLY (sys_close P fd1 v3) = (fd2, v5)" by fastforce
  obtain x v6 where v6: "sys_read P fd2 1 v5 = (Read [x], v6)"
    using assms(11) [of fd2 "os v5"] by (auto simp: sys_read_def)
  have h6: "same_heap ?w2 v6"
    using same_heap_trans [OF same_heap_trans [OF same_heap_trans [OF same_heap_trans [OF same_heap_trans
      [OF fifo_name_heap(8) [OF v1] fifo_name_heap(7) [OF v2]] sys_same_heap(3) [OF v3]] same_heap_close]
      sys_same_heap(3) [OF v5]] sys_same_heap(4) [OF v6]] .
  obtain now v8 where v8: "sys_clock P (upd_id k unconnected v6) = (now, v8)" by fastforce
  note h8 = sys_same_heap(10) [OF v8]
  let ?f = "\<lambda>s. s\<lparr>seq_of_first_send_window := seq_of_first_send_window s + word_of_int (QueueSize (send_window s)),
                       sk_state := FIN_WAIT_1, time_since_fin_sent := now\<rparr>"
  let ?w3 = "sys_close P fd2 (upd_sock a ?f v8)"
  have a6: "sock_at v6 a = s" using O2(8) same_heapD(7) [OF h6] by simp
  have "check_and_handle_close_command P c' a ?w2 = (0, ?w3)"
    using v1 v2 n v3 v5 v6 v8 a6 assms(5,6) fifos_open_calls(1) [OF assms(10) v3] fifos_open_calls(1) [OF assms(10) v5]
    by (simp add: check_and_handle_close_command_def Let_def)
  moreover have s3: "socks ?w3 a = Some (?f s)"
    using O2(5) same_heapD(2) [OF h6] same_heapD(2) [OF h8] same_heapD(2) [OF same_heap_close [of "upd_sock a ?f v8" P fd2]]
    by simp
  moreover have "check_and_handle_closed_socket P c' a ?w3 = (0, ?w3)"
    using s3 by (intro closed_socket_waits) (simp add: sock_at_def)
  ultimately have w': "r = 0" "w' = free_id c' ?w3"
    using assms(12) O(8,9) assms(6) 1 c ne
    by (simp_all add: check_and_handle_socket_end_fifo_def Let_def destroy_socket_id_def)
  have taken: "\<not> bound_endpoint_free i w"
    using assms(3,7,8) by (auto simp: bound_endpoint_free_def)
  have x: "only_socket a closes (upd_id k unconnected v6) ?w3"
  proof (rule only_socket_heap(1) [OF only_socket_heap(2) [OF h8 only_socket_upd] same_heap_close])
    show "socks v8 a = Some s" using O2(5) same_heapD(2) [OF h6] same_heapD(2) [OF h8] by simp
  qed (auto simp: closes_def kept_def socket_wf_def wf_windows_def)
  have "\<not> reg_id w c'" using j(2) quietD(5) [OF q1] by simp
  from closing_taken_endpoint [OF assms(1) o taken quiet_trans [OF q2 quiet_same_heap [OF quietD(2) [OF q2] h6]] x this]
  have D: "duplicates i a w w'" using w'(2) by simp
  then show ?thesis using w'(1) O(1) mgr_map_registered [OF assms(1,7)] assms(7) by (auto simp: duplicates_def)
qed

text \<open>A system where every FIFO answers a read with one byte.\<close>

definition chatty_posix :: "sim posix" where
  "chatty_posix = kind_posix\<lparr>px_read := \<lambda>fd n s. (Read ''C'', s)\<rparr>"

lemma closing_while_connecting_duplicates_endpoint_witness:
  "\<exists>w. mgr_inv w \<and> \<not> mgr_inv (snd (check_and_handle_socket_end_fifo chatty_posix 0 w))"
proof -
  let ?w0 = "example_manager SYN_SENT" and ?i = "the (example_ids 0)"
  note M = example_manager [of SYN_SENT]
  obtain r0 w where h: "handle_bind_request kind_posix ''80_42_1'' ?w0 = (r0, w)" by fastforce
  have sc: "scan_bind_request ''80_42_1'' = Some (80, 42, 1)" by code_simp
  have L: "only_writes_send kind_posix sim_out"
    using kind_posix(4)
    by (simp add: only_writes_send_def kind_posix_def open_posix_def sim_posix_def sim_out_def fun_eq_iff)
  have wf: "wf_sockid ?i" using mgr_invD(2) [OF M(1) example_manager_id(1)] .
  have ip: "mgr_ip ?w0 = replicate 16 (CHR ''1'')"
    by (simp add: example_manager_def example_world_def mgr_insertSocket_def sim_world_def split: prod.splits)
  have u: "sid_key (unconnected ?i) = bound_key ?w0 80"
    using sid_key_unconnected [OF wf] ip by (simp add: bound_key_def example_ids_def cstr_ip_cells)
  have ne: "bound_key ?w0 80 \<noteq> example_key" by (simp add: bound_key_def example_key_def empty_ip_text_def)
  have free: "mgr_map ?w0 (bound_key ?w0 80) = None" using M(4) ne by simp
  have "mgr_map w (bound_key ?w0 80) \<noteq> None"
    using bind_answer(2) [OF M(1) sc kind_posix(1,2,3) L h] M(4) free by simp
  moreover have "\<not> quiet ?w0 w" using calculation free quietD(3) by metis
  ultimately have A: "adds_socket (bound_key ?w0 80) (\<lambda>s. sk_state s = CLOSED) ?w0 w"
    using handle_bind_request_step [OF M(1) sc h] by blast
  obtain b where b: "\<not> registered ?w0 b" "mgr_map w = [example_key \<mapsto> 2, bound_key ?w0 80 \<mapsto> b]"
    using A M(4) by (auto simp: adds_socket_def)
  have inv: "mgr_inv w" and s: "socks w 2 = Some ((example_socket 0)\<lparr>sk_state := SYN_SENT\<rparr>)"
    using A M(2,3) by (simp_all add: adds_socket_def)
  have "reg_id ?w0 0" using M(2,3) by (auto simp: reg_id_def example_socket_def)
  then have k: "ids w 0 = Some ?i" using A example_manager_id(1) by (simp add: adds_socket_def)
  obtain r w' where c: "check_and_handle_socket_end_fifo chatty_posix 0 w = (r, w')" by fastforce
  have P: "resourceful chatty_posix" "fifos_open chatty_posix"
    using kind_posix(1,2) by (simp_all add: chatty_posix_def resourceful_def fifos_open_def)
  have b2: "b \<noteq> 2" using b(1) M(2) by auto
  have m: "mgr_map w (sid_key ?i) = Some 2" using b(2) ne example_manager_id(3) by simp
  have mb: "mgr_map w (sid_key (unconnected ?i)) = Some b" using b(2) u by simp
  have sk: "sk_id ((example_socket 0)\<lparr>sk_state := SYN_SENT\<rparr>) = Some 0"
    "sk_state ((example_socket 0)\<lparr>sk_state := SYN_SENT\<rparr>) = SYN_SENT" by (simp_all add: example_socket_def)
  have rd: "\<exists>c s'. px_read chatty_posix fd 1 s = (Read [c], s')" for fd s by (simp add: chatty_posix_def)
  have "\<not> mgr_inv w'"
    using closing_while_connecting_duplicates_endpoint [OF inv k m s sk mb b2 P rd c] by blast
  then show ?thesis using inv c by (intro exI [of _ w]) simp
qed

end
