(* ===== verification/Packet_Steps.thy ===== *)
theory Packet_Steps imports Close_Steps Handshake begin

text \<open>
  What an incoming IP packet does to the manager: nothing, a change of one socket along the state graph of
  the connection, or a new connection of a listening socket.
\<close>

section \<open>The state graph\<close>

text \<open>
  All moves of a registered socket, by a segment, a request of its client or a timer.  A reset closes from
  everywhere, a close request sends a FIN from everywhere, and a listen request is honoured in every state.
\<close>

inductive tcp_edge :: "TCPState \<Rightarrow> TCPState \<Rightarrow> bool" where
  stay: "tcp_edge st st"
| reset: "tcp_edge st CLOSED"
| listen: "tcp_edge st LISTEN"
| close: "tcp_edge st FIN_WAIT_1"
| connect: "tcp_edge CLOSED SYN_SENT"
| connected: "tcp_edge SYN_SENT ESTABLISED"
| accepted: "tcp_edge SYN_RECEIVED ESTABLISED"
| peer_closed: "tcp_edge ESTABLISED CLOSE_WAIT"
| last_ack: "tcp_edge CLOSE_WAIT LAST_ACK"
| fin_acked: "tcp_edge FIN_WAIT_1 FIN_WAIT_2"
| both_closed: "tcp_edge FIN_WAIT_1 CLOSING"
| fin_and_ack: "tcp_edge FIN_WAIT_1 TIME_WAIT"
| peer_fin: "tcp_edge FIN_WAIT_2 TIME_WAIT"
| closing_acked: "tcp_edge CLOSING TIME_WAIT"

code_pred tcp_edge .

inductive_simps tcp_edge_to_established: "tcp_edge st ESTABLISED"
inductive_simps tcp_edge_to_syn_sent: "tcp_edge st SYN_SENT"

declare tcp_edge.intros [intro]

lemma packet_next_edge: "st \<in> packet_next p s \<Longrightarrow> tcp_edge (sk_state s) st"
  by (cases "sk_state s") (auto simp: packet_next_def split: if_splits)

lemma timer_next_edge: "st' \<in> timer_next st \<Longrightarrow> tcp_edge st st'"
  by (cases st) (auto simp: timer_next_def)

text \<open>A change of one socket along an edge.\<close>

definition edge_step :: "socket \<Rightarrow> socket \<Rightarrow> bool" where
  "edge_step s s' \<longleftrightarrow> kept s s' \<and> tcp_edge (sk_state s) (sk_state s')"

lemma edge_step_refl [simp, intro]: "edge_step s s"
  by (auto simp: edge_step_def)

lemma edge_step_kept: "edge_step s s' \<Longrightarrow> kept s s'"
  by (simp add: edge_step_def)

lemma closes_edge: "closes s s' \<Longrightarrow> edge_step s s'"
  by (auto simp: closes_def edge_step_def)

lemma touches_weaken: "touches a Q w w' \<Longrightarrow> (\<And>s s'. Q s s' \<Longrightarrow> R s s') \<Longrightarrow> touches a R w w'"
  by (auto simp: touches_def)

section \<open>Handling a segment\<close>

lemma handle_packet_effect:
  assumes inv: "mgr_inv w" and reg: "registered w a" and ip: "length (cstr from_ip) \<le> 16"
    and h: "handle_packet P a p from_ip w = (r, w')"
  shows "touches a edge_step w w' \<or> r = None \<and> accepts_connection a p from_ip w w'"
proof -
  obtain s k i where s: "socks w a = Some s" "sk_id s = Some k" "ids w k = Some i"
    using registered_socket [OF inv reg] by metis
  show ?thesis
  proof (cases "sk_state s = LISTEN")
    case True
    then have l: "handle_packet_listen P a p from_ip w = (r, w')"
      using h s(1) by (simp add: handle_packet_def sock_at_def Let_def)
    from handle_packet_listen_step [OF inv reg s(1) ip l s(2,3)] show ?thesis
      using touches_quiet [OF _ reg s(1), of w' edge_step] by auto
  next
    case False
    have "only_socket a edge_step w w'"
      by (rule only_socket_weaken [OF handle_packet_step [OF inv reg s(1) False h]])
        (use s(1) packet_next_edge in \<open>auto simp: edge_step_def split: if_splits\<close>)
    then show ?thesis using touches_only_socket [OF inv _ edge_step_kept] by blast
  qed
qed

lemma quiet_accepts:
  assumes q: "quiet w v" and inv: "mgr_inv w" and reg: "registered w a" and acc: "accepts_connection a p ip v w'"
    and none: "\<And>x. ids v x = None \<Longrightarrow> ids w x = None"
  shows "accepts_connection a p ip w w'"
proof -
  obtain s k i where s: "socks w a = Some s" "sk_id s = Some k" "ids w k = Some i"
    using registered_socket [OF inv reg] by metis
  then have "reg_id w k" using reg by (auto simp: reg_id_def)
  then have "ids v k = ids w k" "socks v a = socks w a" "sock_at v a = s" "sock_at w a = s"
    using quietD(7,8) [OF q] reg s(1) by (simp_all add: sock_at_def)
  then show ?thesis
    using acc s none quietD(2-5) [OF q] quietD(7,8) [OF q]
    by (simp add: accepts_connection_def) (elim conjE exE, (rule exI)+, auto)
qed

lemma accepts_connection_not_reg:
  assumes inv: "mgr_inv w" and reg: "registered w a" and acc: "accepts_connection a p ip w w'"
    and k: "\<not> reg_id w k" "ids w k = Some i"
  shows "\<not> reg_id w' k"
proof
  assume "reg_id w' k"
  then obtain b t where b: "registered w' b" "socks w' b = Some t" "sk_id t = Some k" by (auto simp: reg_id_def)
  obtain n s k' j where A: "mgr_inv w'" "mgr_map w' = (mgr_map w)(sid_key j \<mapsto> n)" "socks w' n = Some s" "sk_id s = Some k'"
      "ids w k' = None" "mgr_map w (sid_key j) = None"
      "socks w' a = map_option (\<lambda>s. s\<lparr>max_connections := max_connections s - 1\<rparr>) (socks w a)"
      "\<forall>b. registered w b \<longrightarrow> b \<noteq> a \<longrightarrow> socks w' b = socks w b"
    using acc by (auto simp: accepts_connection_def)
  have "registered w b \<or> b = n"
    using b(1) A(2,6) registered_ran [OF inv, of b] registered_ran [OF A(1), of b] ran_map_upd [of "mgr_map w" "sid_key j" n]
    by auto
  then show False
  proof
    assume "b = n"
    then show False using b A(3-5) k(2) by simp
  next
    assume rb: "registered w b"
    show False
    proof (cases "b = a")
      case True
      then obtain u where "socks w a = Some u" "sk_id u = Some k" using b A(7) by auto
      then show False using reg k(1) by (auto simp: reg_id_def)
    next
      case False
      then show False using rb b A(8) k(1) by (auto simp: reg_id_def)
    qed
  qed
qed

section \<open>Handing a segment to its socket\<close>

lemma steady_edge: "steady s s' \<Longrightarrow> edge_step s s'"
  by (auto simp: steady_def edge_step_def)

lemma touches_then_steady:
  assumes t: "touches a edge_step w w1" and reg: "registered w a" and o: "only_socket a steady w1 w'"
  shows "touches a edge_step w w'"
proof -
  have K: "keeps w w1" using t by (simp add: touches_def)
  have o': "touches a steady w1 w'"
    by (rule touches_only_socket [OF keepsD(1) [OF K] o]) (simp add: steady_def)
  have "edge_step s u" if "edge_step s s1" "steady s1 u" for s s1 u
    using that kept_trans [of s s1 u] by (simp add: edge_step_def steady_def)
  then show ?thesis
    using t o' reg keepsD(3,4) [OF K] keeps_trans [OF K] unfolding touches_def by (metis option.inject)
qed

lemma stamp_reply:
  assumes "socks w a = Some s"
  shows "only_socket a steady w (let (r, w1) = send_TCP_packet P reply ip w in
    if r = 0 then let (now, w2) = sys_clock P w1 in upd_sock a (\<lambda>s. s\<lparr>last_send_clock := now\<rparr>) w2 else w1)"
proof -
  obtain r w1 where 1: "send_TCP_packet P reply ip w = (r, w1)" by fastforce
  note h1 = send_TCP_packet_heap [OF 1]
  have s1: "socks w1 a = Some s" using assms same_heapD(2) [OF h1] by simp
  have o1: "only_socket a steady w w1" using h1 assms by (auto intro: only_socket_same)
  have "only_socket a steady w (stamp_last_send P a w1)"
    by (rule only_steady_trans [OF o1 stamp_last_send_only [OF s1]])
  then show ?thesis using 1 o1 by (simp add: stamp_last_send_def)
qed

text \<open>
  The effect of a segment on the registered sockets; \<open>ip\<close> is the address the manager takes for the peer's.
\<close>

definition segment_effect :: "TCPPacket \<Rightarrow> char list \<Rightarrow> 's world \<Rightarrow> 's world \<Rightarrow> bool" where
  "segment_effect p ip w w' \<longleftrightarrow> quiet w w' \<or> (\<exists>a. registered w a \<and> touches a edge_step w w')
     \<or> (\<exists>a w1. registered w a \<and> accepts_connection a p ip w w1 \<and> quiet w1 w')"

definition answer_sent :: "'s posix \<Rightarrow> addr \<Rightarrow> addr \<Rightarrow> TCPPacket option \<Rightarrow> 's world \<Rightarrow> 's world" where
  "answer_sent P k a reply w =
     (if reply = None then w
      else let (r, w1) = send_TCP_packet P reply (dst_ip (id_at w k)) w in
           if r = 0 then let (now, w2) = sys_clock P w1 in upd_sock a (\<lambda>s. s\<lparr>last_send_clock := now\<rparr>) w2 else w1)"

lemma dispatch_segment_to:
  assumes "mgr_getSocket (Some k) w = Some a" and "handle_packet P a t (src_ip (id_at w k)) w = (reply, w1)"
  shows "dispatch_segment P k t w = free_id k (answer_sent P k a reply w1)"
  using assms by (auto simp: dispatch_segment_def answer_sent_def Let_def split: prod.splits)

lemma dispatch_segment_to_bound:
  assumes "mgr_getSocket (Some k) w = None" and "mgr_getSocket (Some k) (upd_id k unconnected w) = Some a"
    and "handle_packet P a t (src_ip (id_at (upd_id k unconnected w) k)) (upd_id k unconnected w) = (reply, w1)"
  shows "dispatch_segment P k t w = free_id k (answer_sent P k a reply w1)"
  using assms by (auto simp: dispatch_segment_def answer_sent_def Let_def split: prod.splits)

lemma delivered_effect:
  assumes inv: "mgr_inv w" and k: "\<not> reg_id w k" "ids w k = Some i" and reg: "registered w a"
    and ip: "length (cstr ip) \<le> 16"
    and h: "handle_packet P a p ip w = (reply, w1)"
    and w2: "w2 = answer_sent P k a reply w1"
  shows "(touches a edge_step w (free_id k w2)) \<or> (accepts_connection a p ip w w1 \<and> quiet w1 (free_id k w2))"
  using handle_packet_effect [OF inv reg ip h]
proof
  assume t: "touches a edge_step w w1"
  then obtain s1 where s1: "socks w1 a = Some s1" by (auto simp: touches_def)
  have t2: "touches a edge_step w w2"
  proof (cases "reply = None")
    case False
    then show ?thesis
      unfolding w2 answer_sent_def using touches_then_steady [OF t reg stamp_reply [OF s1, of P reply "dst_ip (id_at w1 k)"]]
      by (simp only: if_False)
  qed (use t w2 in \<open>simp add: answer_sent_def\<close>)
  then have "mgr_inv w2" "\<not> reg_id w2 k" using k(1) by (auto simp: touches_def keeps_def)
  then show ?thesis using touches_then_quiet [OF t2 reg quiet_free_id] by simp
next
  assume acc: "reply = None \<and> accepts_connection a p ip w w1"
  then have "mgr_inv w1" by (auto simp: accepts_connection_def)
  then show ?thesis
    using acc w2 quiet_free_id [of w1 k] accepts_connection_not_reg [OF inv reg conjunct2 [OF acc] k]
    by (simp add: answer_sent_def)
qed

lemma dispatch_segment_effect:
  assumes inv: "mgr_inv w" and k: "\<not> reg_id w k" "ids w k = Some i"
  shows "segment_effect t (src_ip i) w (dispatch_segment P k t w)"
proof -
  have wf: "wf_sockid i" by (rule mgr_invD(2) [OF inv k(2)])
  then have ip: "length (cstr (src_ip i)) \<le> 16" by (auto simp: wf_sockid_def dest: length_cstr_wf_ip)
  have ia: "id_at w k = i" using k(2) by (simp add: id_at_def)
  show ?thesis
  proof (cases "mgr_getSocket (Some k) w")
    case (Some a)
    then have reg: "registered w a" using mgr_getSocket_map [OF inv k(2)] mgr_map_registered [OF inv] by metis
    obtain reply w1 where h: "handle_packet P a t (src_ip i) w = (reply, w1)" by fastforce
    from delivered_effect [OF inv k reg ip h refl]
    show ?thesis using dispatch_segment_to [OF Some] h ia reg by (auto simp: segment_effect_def)
  next
    case None
    define v where "v = upd_id k unconnected w"
    have qv: "quiet w v" unfolding v_def by (rule quiet_upd_id [OF inv k(1) wf_unconnected])
    note invv = quietD(2) [OF qv]
    have kv: "\<not> reg_id v k" "ids v k = Some (unconnected i)" using k quietD(5) [OF qv] by (simp_all add: v_def)
    have iv: "src_ip (id_at v k) = src_ip i" using kv(2) by (simp add: id_at_def unconnected_def)
    show ?thesis
    proof (cases "mgr_getSocket (Some k) v")
      case n: None
      then have "dispatch_segment P k t w = free_id k v" using None by (simp add: dispatch_segment_def v_def)
      then show ?thesis using quiet_trans [OF qv quiet_free_id [OF invv kv(1)]] by (simp add: segment_effect_def)
    next
      case (Some a)
      then have reg: "registered v a" using mgr_getSocket_map [OF invv kv(2)] mgr_map_registered [OF invv] by metis
      obtain reply w1 where h: "handle_packet P a t (src_ip i) v = (reply, w1)" by fastforce
      have regw: "registered w a" using reg quietD(4) [OF qv] by simp
      have none: "ids v x = None \<Longrightarrow> ids w x = None" for x by (simp add: v_def split: if_splits)
      have d: "dispatch_segment P k t w = free_id k (answer_sent P k a reply w1)"
        using dispatch_segment_to_bound [OF None Some [unfolded v_def]] h iv by (simp add: v_def)
      from delivered_effect [OF invv kv reg ip h refl]
      show ?thesis
      proof
        assume "touches a edge_step v (free_id k (answer_sent P k a reply w1))"
        then show ?thesis unfolding segment_effect_def d using quiet_touches [OF qv regw] regw by blast
      next
        assume "accepts_connection a t (src_ip i) v w1 \<and> quiet w1 (free_id k (answer_sent P k a reply w1))"
        moreover from this have "accepts_connection a t (src_ip i) w w1" using quiet_accepts [OF qv inv regw _ none] by blast
        ultimately show ?thesis unfolding segment_effect_def d using regw by blast
      qed
    qed
  qed
qed

section \<open>An incoming packet\<close>

lemma fresh_incoming_id:
  assumes "fresh_incoming_id b packet t = Returns i"
  shows "wf_sockid i" and "sid_key i = (cstr (ip_dst_ip packet), tcp_dst_port t, cstr (ip_src_ip packet), tcp_src_port t)"
    and "cstr (src_ip i) = cstr (ip_dst_ip packet)"
proof -
  let ?i = "init_empty_socket_id (fresh_sockid b)"
  have "length (src_ip (fresh_sockid b)) = 17" "length (dst_ip (fresh_sockid b)) = 17"
    by (simp_all add: fresh_sockid_def block_cells_def MAX_IP_LENGTH_def)
  then have W: "wf_ip (src_ip ?i)" "wf_ip (dst_ip ?i)" using wf_ip_set_empty by (simp_all add: init_empty_socket_id_def)
  let ?s = "cstr (ip_dst_ip packet)" and ?d = "cstr (ip_src_ip packet)"
  have le: "length ?s \<le> 16" "length ?d \<le> 16"
    using assms W by (auto simp: fresh_incoming_id_def strcpy_lib_def wf_ip_def MAX_IP_LENGTH_def Let_def split: if_splits)
  note L = wf_ip_strcpy_lib [OF W(1) le(1) cstr_no_NUL] and M = wf_ip_strcpy_lib [OF W(2) le(2) cstr_no_NUL]
  have i: "i = ?i\<lparr>src_ip := ?s @ NUL # drop (length ?s + 1) (src_ip ?i), dst_ip := ?d @ NUL # drop (length ?d + 1) (dst_ip ?i),
      src_port := tcp_dst_port t, dst_port := tcp_src_port t\<rparr>"
    using assms L(1) M(1) by (simp add: fresh_incoming_id_def Let_def)
  show "wf_sockid i" "sid_key i = (cstr (ip_dst_ip packet), tcp_dst_port t, cstr (ip_src_ip packet), tcp_src_port t)"
    and "cstr (src_ip i) = cstr (ip_dst_ip packet)"
    using L M unfolding i by (simp_all add: wf_sockid_def sid_key_def)
qed

lemma str_to_tcp_heap [intro, dest]: "str_to_tcp P s w = (r, w') \<Longrightarrow> same_heap w w'"
  by (auto simp: str_to_tcp_def Let_def intro: same_heap_trans
      split: prod.splits option.splits c_result.splits if_splits)

lemma handle_incoming_ip_packet_effect:
  assumes inv: "mgr_inv w" and h: "handle_incoming_ip_packet P packet w = (r, w')"
  shows "quiet w w' \<or> (\<exists>p t w1 ip. packet = Some p \<and> calc_ip_checksum p = header_checksum p \<and> cstr (ip_dst_ip p) = mgr_ip w
    \<and> str_to_tcp P (ip_data p) w = (Some t, w1) \<and> calc_checksum t = tcp_checksum t
    \<and> cstr ip = mgr_ip w \<and> segment_effect t ip w w')"
proof (cases "\<exists>p. packet = Some p \<and> calc_ip_checksum p = header_checksum p \<and> cstr (ip_dst_ip p) = mgr_ip w")
  case False
  then have "w' = w" using h by (auto simp: handle_incoming_ip_packet_def split: option.splits if_splits)
  then show ?thesis using quiet_same_heap [OF inv same_heap_refl] by simp
next
  case True
  then obtain p where p: "packet = Some p" "calc_ip_checksum p = header_checksum p" "cstr (ip_dst_ip p) = mgr_ip w" by blast
  obtain tp w1 where 1: "str_to_tcp P (ip_data p) w = (tp, w1)" by fastforce
  have h1: "same_heap w w1" using 1 by blast
  obtain m w2 where 2: "sys_malloc P 48 w1 = (m, w2)" by fastforce
  have h2: "same_heap w w2" by (rule same_heap_trans [OF h1 sys_same_heap(1) [OF 2]])
  show ?thesis
  proof (cases "\<exists>t b i. tp = Some t \<and> calc_checksum t = tcp_checksum t \<and> m = Some b \<and> fresh_incoming_id b p t = Returns i")
    case False
    then have "w' = w1 \<or> w' = set_ub w2"
      using h p 1 2 by (cases tp; cases m) (auto simp: handle_incoming_ip_packet_def split: if_splits c_result.splits)
    then show ?thesis using quiet_same_heap [OF inv] h1 same_heap_trans [OF h2 same_heap_set_ub] by auto
  next
    case True
    then obtain t b i where t: "tp = Some t" "calc_checksum t = tcp_checksum t" "m = Some b"
        "fresh_incoming_id b p t = Returns i" by blast
    obtain k w3 where 3: "new_id i w2 = (k, w3)" by fastforce
    note F = fresh_incoming_id [OF t(4)]
    note q2 = quiet_same_heap [OF inv h2]
    note q3 = quiet_trans [OF q2 quiet_new_id [OF quietD(2) [OF q2] F(1) 3]]
    have w': "w' = dispatch_segment P k t w3"
      using h p 1 2 3 t by (auto simp: handle_incoming_ip_packet_def)
    have k3: "\<not> reg_id w3 k" "ids w3 k = Some i" using keeps_new_id(2,3) [OF quietD(2) [OF q2] F(1) 3] by simp_all
    have "segment_effect t (src_ip i) w3 w'" unfolding w' by (rule dispatch_segment_effect [OF quietD(2) [OF q3] k3])
    then have "segment_effect t (src_ip i) w w'"
    proof -
      have none: "ids w3 x = None \<Longrightarrow> ids w x = None" for x
        using keeps_new_id(2,6) [OF quietD(2) [OF q2] F(1) 3] same_heapD(1) [OF h2] by (metis option.distinct(1))
      assume e: "segment_effect t (src_ip i) w3 w'"
      consider "quiet w3 w'" | a where "registered w3 a" "touches a edge_step w3 w'"
        | a v where "registered w3 a" "accepts_connection a t (src_ip i) w3 v" "quiet v w'"
        using e by (auto simp: segment_effect_def)
      then show ?thesis
      proof cases
        case 1
        then show ?thesis using quiet_trans [OF q3] by (simp add: segment_effect_def)
      next
        case (2 a)
        then show ?thesis using quiet_touches [OF q3] quietD(4) [OF q3] by (auto simp: segment_effect_def)
      next
        case (3 a v)
        then show ?thesis
          using quiet_accepts [OF q3 inv _ _ none] quietD(4) [OF q3] unfolding segment_effect_def by metis
      qed
    qed
    then show ?thesis using p 1 t F(3) by metis
  qed
qed

text \<open>The two outcomes, spelt out.\<close>

definition table_kept :: "'s world \<Rightarrow> 's world \<Rightarrow> bool" where
  "table_kept w w' \<longleftrightarrow> mgr_map w' = mgr_map w \<and> (\<exists>a. \<forall>b s. registered w b \<longrightarrow> socks w b = Some s \<longrightarrow>
     (if b = a then \<exists>s'. socks w' b = Some s' \<and> tcp_edge (sk_state s) (sk_state s') else socks w' b = Some s))"

definition connection_added :: "'s world \<Rightarrow> 's world \<Rightarrow> bool" where
  "connection_added w w' \<longleftrightarrow> (\<exists>a key n s s'. registered w a \<and> socks w a = Some s \<and> \<not> registered w n \<and> mgr_map w key = None
     \<and> mgr_map w' = (mgr_map w)(key \<mapsto> n) \<and> socks w' n = Some s' \<and> sk_state s' = SYN_RECEIVED
     \<and> socks w' a = Some (s\<lparr>max_connections := max_connections s - 1\<rparr>) \<and> max_connections s \<noteq> 0
     \<and> (\<forall>b. registered w b \<longrightarrow> b \<noteq> a \<longrightarrow> socks w' b = socks w b))"

lemma quiet_table_kept: "quiet w w' \<Longrightarrow> table_kept w w'"
  using quietD(3,7) [of w w'] by (auto simp: table_kept_def)

lemma touches_table_kept: "touches a edge_step w w' \<Longrightarrow> table_kept w w'"
  unfolding table_kept_def touches_def edge_step_def
  by (intro conjI exI [of _ a]) (auto dest: keepsD)

lemma accepts_connection_added:
  assumes inv: "mgr_inv w" and reg: "registered w a" and acc: "accepts_connection a p ip w w1" and q: "quiet w1 w'"
  shows "mgr_inv w' \<and> connection_added w w'"
proof -
  obtain s k i where s: "socks w a = Some s" "sk_id s = Some k" "ids w k = Some i"
    using registered_socket [OF inv reg] by metis
  have sa: "sock_at w a = s" using s(1) by (simp add: sock_at_def)
  obtain n s' k' j where A: "mgr_map w (sid_key j) = None" "mgr_map w1 = (mgr_map w)(sid_key j \<mapsto> n)" "\<not> registered w n"
      "socks w1 n = Some s'" "sk_state s' = SYN_RECEIVED"
      "socks w1 a = Some (s\<lparr>max_connections := max_connections s - 1\<rparr>)" "max_connections s \<noteq> 0"
      "\<forall>b. registered w b \<longrightarrow> b \<noteq> a \<longrightarrow> socks w1 b = socks w b" and inv1: "mgr_inv w1"
    using acc s(1) sa unfolding accepts_connection_def by auto
  have reg1: "registered w1 n" "registered w b \<Longrightarrow> registered w1 b" for b
    using A(1,2) registered_ran [OF inv, of b] registered_ran [OF inv1] ran_map_upd [of "mgr_map w" "sid_key j" n] by auto
  have "mgr_map w' = (mgr_map w)(sid_key j \<mapsto> n)" using A(2) quietD(3) [OF q] by simp
  moreover have "socks w' n = Some s'" "socks w' a = Some (s\<lparr>max_connections := max_connections s - 1\<rparr>)"
    using A(4,6) reg1 reg quietD(7) [OF q] by simp_all
  moreover have "\<forall>b. registered w b \<longrightarrow> b \<noteq> a \<longrightarrow> socks w' b = socks w b"
    using A(8) reg1(2) quietD(7) [OF q] by simp
  ultimately show ?thesis
    unfolding connection_added_def using A(1,3,5,7) reg s(1) quietD(2) [OF q] by metis
qed

lemma segment_effect_cases:
  assumes inv: "mgr_inv w" and e: "segment_effect t ip w w'"
  shows "mgr_inv w' \<and> (table_kept w w' \<or> connection_added w w')"
  using e unfolding segment_effect_def
proof (elim disjE exE conjE)
  assume "quiet w w'"
  then show ?thesis using quiet_table_kept quietD(2) by blast
next
  fix a
  assume t: "touches a edge_step w w'"
  then show ?thesis using touches_table_kept [OF t] by (simp add: touches_def keeps_def)
next
  fix a w1
  assume "registered w a" "accepts_connection a t ip w w1" "quiet w1 w'"
  then show ?thesis using accepts_connection_added [OF inv] by blast
qed

section \<open>Properties\<close>

text \<open>
  C11. An incoming packet has one effect at most.  A packet for another address, with a wrong checksum or
  with a segment that cannot be read is dropped.  Any other packet changes nothing registered, or changes
  one registered socket along an edge of the state graph, or adds one connection in state
  \<open>SYN_RECEIVED\<close> to the table, for a listening socket, under an endpoint that was free.  The invariant
  holds in every case.
\<close>

theorem incoming_packet_has_one_effect:
  assumes "mgr_inv w" and "handle_incoming_ip_packet P packet w = (r, w')"
  shows "mgr_inv w'
    \<and> (mgr_map w' = mgr_map w \<and> (\<exists>a. \<forall>b s. registered w b \<longrightarrow> socks w b = Some s \<longrightarrow>
          (if b = a then \<exists>s'. socks w' b = Some s' \<and> tcp_edge (sk_state s) (sk_state s') else socks w' b = Some s))
       \<or> (\<exists>a key n s s'. registered w a \<and> socks w a = Some s \<and> \<not> registered w n \<and> mgr_map w key = None
            \<and> mgr_map w' = (mgr_map w)(key \<mapsto> n) \<and> socks w' n = Some s' \<and> sk_state s' = SYN_RECEIVED
            \<and> socks w' a = Some (s\<lparr>max_connections := max_connections s - 1\<rparr>) \<and> max_connections s \<noteq> 0
            \<and> (\<forall>b. registered w b \<longrightarrow> b \<noteq> a \<longrightarrow> socks w' b = socks w b)))
    \<and> ((\<forall>p. packet = Some p \<longrightarrow> calc_ip_checksum p = header_checksum p \<longrightarrow> cstr (ip_dst_ip p) \<noteq> mgr_ip w)
       \<longrightarrow> w' = w)"
proof -
  have drop: "w' = w" if "\<forall>p. packet = Some p \<longrightarrow> calc_ip_checksum p = header_checksum p \<longrightarrow> cstr (ip_dst_ip p) \<noteq> mgr_ip w"
    using assms(2) that by (auto simp: handle_incoming_ip_packet_def split: option.splits if_splits)
  from handle_incoming_ip_packet_effect [OF assms] consider "quiet w w'" | t ip where "segment_effect t ip w w'"
    by blast
  then have "mgr_inv w' \<and> (table_kept w w' \<or> connection_added w w')"
    using segment_effect_cases [OF assms(1)] quiet_table_kept by cases (auto dest: quietD(2))
  then show ?thesis using drop unfolding table_kept_def connection_added_def by blast
qed

text \<open>A packet with a SYN from port 9 of another address to port 80 of the example manager.\<close>

definition example_syn_text :: string where
  "example_syn_text = ''00009'' @ ''00080'' @ ''0000000500'' @ ''0000000000'' @ [char_of (8::nat)] @ ''       597''"

definition example_syn_packet :: ip_packet where
  "example_syn_packet = \<lparr>total_length = 91, ip_src_ip = replicate 16 (CHR ''2'') @ [NUL],
     ip_dst_ip = replicate 16 (CHR ''1'') @ [NUL], header_checksum = 5, ip_data = Some example_syn_text\<rparr>"

lemma example_syn:
  "str_to_tcp kind_posix (ip_data example_syn_packet) w = (Some (example_packet SYN 0\<lparr>tcp_checksum := 597\<rparr>), w)"
  "calc_checksum (example_packet SYN 0\<lparr>tcp_checksum := 597\<rparr>) = 597"
proof -
  have "sscanf_tcp example_syn_text = Some (example_packet SYN 0\<lparr>tcp_checksum := 597\<rparr>)" by code_simp
  moreover have "length example_syn_text = 41" by (simp add: example_syn_text_def)
  moreover have "sys_new kind_posix w = (True, w)" by (simp add: sys_new_def kind_posix_def open_posix_def sim_posix_def)
  ultimately show "str_to_tcp kind_posix (ip_data example_syn_packet) w = (Some (example_packet SYN 0\<lparr>tcp_checksum := 597\<rparr>), w)"
    by (simp add: str_to_tcp_def example_syn_packet_def)
  show "calc_checksum (example_packet SYN 0\<lparr>tcp_checksum := 597\<rparr>) = 597" by code_simp
qed

lemma example_syn_accepted:
  assumes h: "handle_incoming_ip_packet kind_posix (Some example_syn_packet) (example_manager LISTEN) = (r, w')"
  shows "mgr_map w' = [example_key \<mapsto> 2, (replicate 16 (CHR ''1''), 80, replicate 16 (CHR ''1''), 9) \<mapsto> the (mgr_map w'
    (replicate 16 (CHR ''1''), 80, replicate 16 (CHR ''1''), 9))]"
proof -
  let ?w = "example_manager LISTEN" and ?t = "example_packet SYN 0\<lparr>tcp_checksum := 597\<rparr>" and ?p = example_syn_packet
  note M = example_manager [of LISTEN]
  let ?s = "(example_socket 0)\<lparr>sk_state := LISTEN\<rparr>"
  obtain b where m: "sys_malloc kind_posix 48 ?w = (Some b, ?w)"
    by (simp add: sys_malloc_def kind_posix_def open_posix_def sim_posix_def)
  have ip: "mgr_ip ?w = replicate 16 (CHR ''1'')"
    by (simp add: example_manager_def example_world_def mgr_insertSocket_def sim_world_def split: prod.splits)
  have c: "cstr (ip_dst_ip ?p) = replicate 16 (CHR ''1'')" "cstr (ip_src_ip ?p) = replicate 16 (CHR ''2'')"
    by (simp_all add: example_syn_packet_def)
  obtain i where i: "fresh_incoming_id b ?p ?t = Returns i"
  proof -
    have "length (src_ip (fresh_sockid b)) = 17" "length (dst_ip (fresh_sockid b)) = 17"
      by (simp_all add: fresh_sockid_def block_cells_def MAX_IP_LENGTH_def)
    then show thesis using that c
      by (simp add: fresh_incoming_id_def Let_def strcpy_lib_def init_empty_socket_id_def ip_set_empty_eq)
  qed
  note F = fresh_incoming_id [OF i]
  obtain k w3 where 3: "new_id i ?w = (k, w3)" by fastforce
  note q3 = quiet_new_id [OF M(1) F(1) 3]
  note inv3 = quietD(2) [OF q3]
  have k3: "\<not> reg_id w3 k" "ids w3 k = Some i" using keeps_new_id(2,3) [OF M(1) F(1) 3] by simp_all
  have w': "w' = dispatch_segment kind_posix k ?t w3"
    using h example_syn m i 3 ip c by (simp add: handle_incoming_ip_packet_def example_syn_packet_def calc_ip_checksum_def)
  have "sid_key i = example_key"
    using F(2) c by (simp add: example_key_def example_packet_def)
  then have g: "mgr_getSocket (Some k) w3 = Some 2"
    using mgr_getSocket_map [OF inv3 k3(2)] quietD(3) [OF q3] M(4) by simp
  have reg: "registered w3 2" and s3: "socks w3 2 = Some ?s" using M(2,3) quietD(4,7) [OF q3] by simp_all
  have "reg_id ?w 0" using M(2,3) by (auto simp: reg_id_def example_socket_def)
  then have i0: "ids w3 0 = Some (the (example_ids 0))" using quietD(8) [OF q3] example_manager_id(1) by simp
  have fip: "cstr (src_ip (id_at w3 k)) = replicate 16 (CHR ''1'')" using F(3) c k3(2) by (simp add: id_at_def)
  let ?key = "(replicate 16 (CHR ''1''), 80 :: c_int, replicate 16 (CHR ''1''), 9 :: c_int)"
  have key: "(cstr (src_ip (the (example_ids 0))), src_port (the (example_ids 0)), cstr (src_ip (id_at w3 k)), tcp_src_port ?t) = ?key"
    using fip by (simp add: example_ids_def cstr_ip_cells example_packet_def)
  have map3: "mgr_map w3 = [example_key \<mapsto> 2]" using quietD(3) [OF q3] M(4) by simp
  have le: "length (cstr (src_ip (id_at w3 k))) \<le> 16" using fip by simp
  obtain reply w4 where h4: "handle_packet kind_posix 2 ?t (src_ip (id_at w3 k)) w3 = (reply, w4)" by fastforce
  have acc: "reply = None" "accepts_connection 2 ?t (src_ip (id_at w3 k)) w3 w4"
    using listening_socket_accepts [OF inv3 reg s3 _ _ i0 le kind_posix(1) _ _ _ _ h4, unfolded key] map3
    by (auto simp: example_socket_def has_flag_def example_packet_def SYN_def example_key_def)
  obtain n i' j where m4: "ids w3 (the (sk_id (sock_at w3 2))) = Some i'" "mgr_map w4 = (mgr_map w3)(sid_key j \<mapsto> n)"
      "sid_key j = (cstr (src_ip i'), src_port i', cstr (src_ip (id_at w3 k)), tcp_src_port ?t)"
    using acc(2) unfolding accepts_connection_def by blast
  have "the (sk_id (sock_at w3 2)) = 0" using s3 by (simp add: sock_at_def example_socket_def)
  then have "i' = the (example_ids 0)" using m4(1) i0 by simp
  then have "sid_key j = ?key" using m4(3) key by (simp only:)
  then have m4: "mgr_map w4 = (mgr_map w3)(?key \<mapsto> n)" using m4(2) by (simp only:)
  have "mgr_inv w4" using acc(2) by (auto simp: accepts_connection_def)
  then have q: "quiet w4 (free_id k w4)" using quiet_free_id accepts_connection_not_reg [OF inv3 reg acc(2) k3] by blast
  have "w' = free_id k w4" using w' dispatch_segment_to [OF g h4] acc(1) by (simp add: answer_sent_def)
  then have "mgr_map w' = (mgr_map w3)(?key \<mapsto> n)" using quietD(3) [OF q] m4 by simp
  then show ?thesis using map3 by simp
qed

lemma incoming_packet_has_one_effect_witness:
  "\<exists>r w'. handle_incoming_ip_packet kind_posix (Some example_syn_packet) (example_manager LISTEN) = (r, w')
     \<and> mgr_inv w' \<and> card (dom (mgr_map w')) = 2"
proof -
  obtain r w' where h: "handle_incoming_ip_packet kind_posix (Some example_syn_packet) (example_manager LISTEN) = (r, w')"
    by fastforce
  obtain n where "mgr_map w' = [example_key \<mapsto> 2, (replicate 16 (CHR ''1''), 80, replicate 16 (CHR ''1''), 9) \<mapsto> n]"
    using example_syn_accepted [OF h] by blast
  then have "dom (mgr_map w') = {example_key, (replicate 16 (CHR ''1''), 80, replicate 16 (CHR ''1''), 9)}" by auto
  then have "card (dom (mgr_map w')) = 2" by (simp add: example_key_def)
  then show ?thesis using incoming_packet_has_one_effect [OF example_manager(1) h] h by blast
qed

text \<open>
  C39. A new connection is registered under the manager's own address.  Whenever an incoming packet adds a
  connection to the table, the peer of its endpoint is the address of the manager itself, with the port of
  the sender, whoever sent the packet: the handler is given the wrong one of the two addresses.  The
  sender's endpoint is as little in the table afterwards as it was before, unless it has the manager's
  address, so its next segments do not find the connection.
\<close>

theorem connection_gets_own_address:
  assumes "mgr_inv w" and "handle_incoming_ip_packet P packet w = (r, w')" and "mgr_map w' \<noteq> mgr_map w"
  shows "\<exists>p t w1 lip lport n. packet = Some p \<and> str_to_tcp P (ip_data p) w = (Some t, w1) \<and> has_flag t SYN
    \<and> mgr_map w' = (mgr_map w)((lip, lport, mgr_ip w, tcp_src_port t) \<mapsto> n)
    \<and> (cstr (ip_src_ip p) \<noteq> mgr_ip w \<longrightarrow>
        mgr_map w' (lip, lport, cstr (ip_src_ip p), tcp_src_port t) = mgr_map w (lip, lport, cstr (ip_src_ip p), tcp_src_port t))"
proof -
  have "\<not> quiet w w'" using assms(3) quietD(3) by blast
  then obtain p t w1 ip where p: "packet = Some p" "str_to_tcp P (ip_data p) w = (Some t, w1)" "cstr ip = mgr_ip w"
      "segment_effect t ip w w'"
    using handle_incoming_ip_packet_effect [OF assms(1,2)] by blast
  have "\<not> touches a edge_step w w'" for a using assms(3) by (auto simp: touches_def keeps_def)
  then obtain a v where a: "accepts_connection a t ip w v" "quiet v w'"
    using p(4) \<open>\<not> quiet w w'\<close> by (auto simp: segment_effect_def)
  then obtain n j and i :: sockid where m: "has_flag t SYN" "sid_key j = (cstr (src_ip i), src_port i, cstr ip, tcp_src_port t)"
      "mgr_map v = (mgr_map w)(sid_key j \<mapsto> n)"
    unfolding accepts_connection_def by blast
  let ?k = "\<lambda>ip. (cstr (src_ip i), src_port i, ip, tcp_src_port t)"
  have "mgr_map w' = (mgr_map w)(?k (mgr_ip w) \<mapsto> n)" using m(2,3) p(3) quietD(3) [OF a(2)] by simp
  moreover from this have "cstr (ip_src_ip p) \<noteq> mgr_ip w \<longrightarrow> mgr_map w' (?k (cstr (ip_src_ip p))) = mgr_map w (?k (cstr (ip_src_ip p)))"
    by simp
  ultimately show ?thesis using p(1,2) m(1) by blast
qed

lemma connection_gets_own_address_witness:
  "\<exists>r w' n lport. handle_incoming_ip_packet kind_posix (Some example_syn_packet) (example_manager LISTEN) = (r, w')
     \<and> mgr_map w' = (mgr_map (example_manager LISTEN))((replicate 16 (CHR ''1''), lport, mgr_ip (example_manager LISTEN), 9) \<mapsto> n)"
proof -
  obtain r w' where h: "handle_incoming_ip_packet kind_posix (Some example_syn_packet) (example_manager LISTEN) = (r, w')"
    by fastforce
  let ?key = "(replicate 16 (CHR ''1''), 80 :: c_int, replicate 16 (CHR ''1''), 9 :: c_int)"
  have e: "mgr_map w' = [example_key \<mapsto> 2, ?key \<mapsto> the (mgr_map w' ?key)]" by (rule example_syn_accepted [OF h])
  have M: "mgr_map (example_manager LISTEN) = [example_key \<mapsto> 2]" by (rule example_manager(4))
  have ne: "mgr_map w' \<noteq> mgr_map (example_manager LISTEN)"
  proof
    assume "mgr_map w' = mgr_map (example_manager LISTEN)"
    then have "mgr_map w' ?key = None" using M by (simp add: example_key_def)
    then show False using fun_cong [OF e, of ?key] by simp
  qed
  obtain p t w1 lip lport n where c: "Some example_syn_packet = Some p" "str_to_tcp kind_posix (ip_data p) (example_manager LISTEN) = (Some t, w1)"
      "mgr_map w' = (mgr_map (example_manager LISTEN))((lip, lport, mgr_ip (example_manager LISTEN), tcp_src_port t) \<mapsto> n)"
    using connection_gets_own_address [OF example_manager(1) h ne] by blast
  have t: "tcp_src_port t = 9" using c(1,2) example_syn(1) by (auto simp: example_packet_def)
  have "lip = replicate 16 (CHR ''1'')"
  proof (rule ccontr)
    assume l: "lip \<noteq> replicate 16 (CHR ''1'')"
    have "mgr_map w' ?key = None" using c(3) M l by (simp add: example_key_def)
    then show False using fun_cong [OF e, of ?key] by simp
  qed
  then show ?thesis using h c(3) t by metis
qed

end
