(* ===== verification/Manager_Steps.thy ===== *)
theory Manager_Steps imports Packet_Steps Network_Manager begin

text \<open>
  The manager as a transition system.  A step is one operation of src/network_manager/network_manager.c on
  one client request, one packet or one socket, or anything that leaves the objects of the process alone;
  every step keeps the invariant and moves sockets along the state graph only, and the loops of the
  program are sequences of steps.
\<close>

section \<open>Listening\<close>

lemma check_and_handle_listen_request_only:
  assumes s: "socks w a = Some s" and g: "mgr_getSocket (Some k) w = Some a"
    and c: "check_and_handle_listen_request P k w = Some (r, w')"
  shows "r = 0" and "only_socket a edge_step w w'"
proof -
  have sa: "sock_at w a = s" using s by (simp add: sock_at_def)
  obtain wn w1 where 1: "get_listen_fifo_write_end_name P (Some k) w = (wn, w1)" by fastforce
  obtain an w2 where 2: "get_accept_fifo_write_end_name P (Some k) w1 = (an, w2)" by fastforce
  obtain rn w3 where 3: "get_listen_fifo_read_end_name P (Some k) w2 = (rn, w3)" by fastforce
  obtain fd1 w4 where 4: "sys_open P (the rn) O_WRONLY_NONBLOCK w3 = (fd1, w4)" by fastforce
  obtain fd2 w5 where 5: "sys_open P (the wn) O_RDONLY w4 = (fd2, w5)" by fastforce
  have h1: "same_heap w w1" using 1 by (rule fifo_name_heap)
  have h2: "same_heap w w2" using same_heap_trans [OF h1] fifo_name_heap(3) [OF 2] by blast
  have h3: "same_heap w w3" using same_heap_trans [OF h2] 3 fifo_name_heap by blast
  have h4: "same_heap w w4" by (rule same_heap_trans [OF h3 sys_same_heap(3) [OF 4]])
  have h5: "same_heap w w5" by (rule same_heap_trans [OF h4 sys_same_heap(3) [OF 5]])
  have same: "only_socket a edge_step w v" if "same_heap w v" for v
    using that s by (intro only_socket_same) auto
  have "r = 0 \<and> only_socket a edge_step w w'"
  proof (cases "sk_state s \<noteq> LISTEN \<and> wn \<noteq> None \<and> an \<noteq> None \<and> rn \<noteq> None \<and> fd1 \<noteq> - 1 \<and> fd2 \<noteq> - 1")
    case False
    then have "r = 0 \<and> (w' = w \<or> w' = w1 \<or> w' = w2 \<or> w' = w3 \<or> w' = w4 \<or> w' = w5)"
      using c g sa 1 2 3 4 5
      by (cases wn; cases an; cases rn) (auto simp: check_and_handle_listen_request_def Let_def split: if_splits)
    then show ?thesis using same h1 h2 h3 h4 h5 by auto
  next
    case True
    then obtain wn' an' rn' where n: "wn = Some wn'" "an = Some an'" "rn = Some rn'" by auto
    obtain x req w6 where 6: "read_entire_message P fd2 1 w5 = Some (x, req, w6)"
      using c g sa 1 2 3 4 5 True n by (auto simp: check_and_handle_listen_request_def Let_def split: option.splits)
    have h6: "same_heap w w6" using same_heap_trans [OF h5] read_entire_message_same_proc [OF 6] by blast
    let ?shut = "\<lambda>v. sys_close P fd1 (sys_close P fd2 v)"
    have hend: "same_heap v (?shut v)" for v by (rule same_heap_trans [OF same_heap_close same_heap_close])
    show ?thesis
    proof (cases "x = - 1 \<or> x = 0")
      case True
      then have "r = 0 \<and> w' = ?shut w6"
        using c g sa 1 2 3 4 5 6 \<open>sk_state s \<noteq> LISTEN \<and> _\<close> n by (auto simp: check_and_handle_listen_request_def Let_def)
      then show ?thesis using same same_heap_trans [OF h6 hend] by blast
    next
      case False
      let ?f = "\<lambda>s. s\<lparr>sk_state := LISTEN, max_connections := word_of_int (schar (req ! 0))\<rparr>"
      let ?closed = "\<lambda>s. s\<lparr>sk_state := CLOSED\<rparr>"
      obtain made w8 where 8: "sys_mkfifo P an' (upd_sock a ?f w6) = (made, w8)" by fastforce
      define w9 where "w9 = (if made \<noteq> 0 then set_ub (upd_sock a ?closed (?shut w8)) else w8)"
      define reply where "reply = (if made \<noteq> 0 then REQUEST_DENIED_FIFO else REQUEST_GRANTED_FIFO)"
      obtain n w10 where 10: "sys_write P fd1 [reply] w9 = (n, w10)" by fastforce
      define w11 where "w11 = (if n \<noteq> 1 \<and> reply = REQUEST_GRANTED_FIFO then upd_sock a ?closed w10 else w10)"
      have res: "r = 0 \<and> w' = ?shut w11"
        using c g sa 1 2 3 4 5 6 8 10 True False n
        by (auto simp: check_and_handle_listen_request_def Let_def w9_def reply_def w11_def)
      have wf: "kept s (?f s)" "kept s (?closed (?f s))" by (simp_all add: kept_def socket_wf_def wf_windows_def)
      let ?R = "\<lambda>s t. t = ?f s \<or> t = ?closed (?f s)"
      have s6: "socks w6 a = Some s" using s same_heapD(2) [OF h6] by simp
      have h8: "same_heap (upd_sock a ?f w6) w8" using 8 by blast
      have o8: "only_socket a (\<lambda>s t. t = ?f s) w w8"
        by (rule only_socket_heap(1) [OF only_socket_heap(2) [OF h6 only_socket_upd [OF s6]] h8]) simp
      have o9: "only_socket a ?R w w9"
      proof (cases "made = 0")
        case True
        then show ?thesis using only_socket_weaken [OF o8, of ?R] by (simp add: w9_def)
      next
        case False
        obtain s8 where "socks (?shut w8) a = Some s8" using only_socket_Some [OF only_socket_heap(1) [OF o8 hend]] by blast
        then have "only_socket a (\<lambda>s t. t = ?closed s) (?shut w8) w9"
          using False by (auto simp: w9_def intro: only_socket_heap(1) [OF only_socket_upd same_heap_set_ub])
        then show ?thesis by (rule only_socket_then [OF only_socket_heap(1) [OF o8 hend]]) simp
      qed
      have o10: "only_socket a ?R w w10" by (rule only_socket_heap(1) [OF o9 sys_same_heap(5) [OF 10]])
      have o11: "only_socket a ?R w w11"
      proof (cases "n \<noteq> 1 \<and> reply = REQUEST_GRANTED_FIFO")
        case True
        obtain s10 where "socks w10 a = Some s10" using only_socket_Some [OF o10] by blast
        then have "only_socket a (\<lambda>s t. t = ?closed s) w10 w11" using True by (auto simp: w11_def intro: only_socket_upd)
        then show ?thesis by (rule only_socket_then [OF o10]) auto
      next
        case False
        then have "w11 = w10" by (auto simp: w11_def)
        then show ?thesis using o10 by simp
      qed
      have "only_socket a edge_step w (?shut w11)"
        by (rule only_socket_weaken [OF only_socket_heap(1) [OF o11 hend]])
          (auto simp: edge_step_def kept_def socket_wf_def wf_windows_def)
      then show ?thesis using res by simp
    qed
  qed
  then show "r = 0" and "only_socket a edge_step w w'" by simp_all
qed

section \<open>The iteration over the table\<close>

lemma find_in_set: "find Q xs = Some i \<Longrightarrow> i \<in> set xs \<and> Q i"
  by (auto simp: find_Some_iff)

lemma hashMap_iteration:
  assumes "hm_inv ih sh h" and "(item, hm') = hashMapGetFirst (Some h) \<or> (item, hm') = hashMapGetNext (Some h)"
  shows "\<exists>n. hm' = Some (h\<lparr>hm_iterator_index := n\<rparr>)"
    and "item = Some k \<Longrightarrow> \<exists>i < HASH_MAP_DEFAULT_SIZE. hm_socket_id h ! i = Some k"
proof -
  have size: "nat (getHashMapSize h) = HASH_MAP_DEFAULT_SIZE" "getHashMapSize h = int HASH_MAP_DEFAULT_SIZE"
    using hm_invD(1) [OF assms(1)] by (simp_all add: getHashMapSize_def)
  have id: "\<exists>n. h = h\<lparr>hm_iterator_index := n\<rparr>" by (rule exI [of _ "hm_iterator_index h"]) simp
  show "\<exists>n. hm' = Some (h\<lparr>hm_iterator_index := n\<rparr>)"
    using assms(2) id by (auto simp: hashMapGetFirst_def hashMapGetNext_def Let_def split: option.splits if_splits)
  show "\<exists>i < HASH_MAP_DEFAULT_SIZE. hm_socket_id h ! i = Some k" if "item = Some k"
    using assms(2)
  proof
    assume "(item, hm') = hashMapGetFirst (Some h)"
    then show ?thesis
      using that size by (auto simp: hashMapGetFirst_def split: option.splits dest!: find_in_set)
  next
    assume "(item, hm') = hashMapGetNext (Some h)"
    then show ?thesis
      using that hm_invD(1) [OF assms(1)]
      by (auto simp: hashMapGetNext_def getHashMapSize_def Let_def split: option.splits if_splits dest!: find_in_set)
  qed
qed

lemma iteration_quiet:
  assumes inv: "mgr_inv w" and f: "(item, hm') = hashMapGetFirst (mgr_sockets w) \<or> (item, hm') = hashMapGetNext (mgr_sockets w)"
  shows "quiet w (w\<lparr>mgr_sockets := hm'\<rparr>)" and "item = Some k \<Longrightarrow> reg_id w k"
proof -
  obtain h where h: "mgr_sockets w = Some h" "hm_inv (ids w) (socks w) h" "mgr_map w = hm_abs (ids w) h"
    using inv by (rule mgr_inv_table)
  note I = hashMap_iteration [OF h(2) f [unfolded h(1)]]
  obtain n where n: "hm' = Some (h\<lparr>hm_iterator_index := n\<rparr>)" using I(1) by blast
  let ?h = "h\<lparr>hm_iterator_index := n\<rparr>"
  have inv': "hm_inv (ids w) (socks w) ?h" using h(2) by (simp add: hm_inv_def used_def slot_key_def cong: option.case_cong)
  have abs: "hm_abs (ids w) ?h = hm_abs (ids w) h" by (rule ext) (simp add: hm_abs_def used_def slot_key_def cong: option.case_cong)
  note N = mgr_inv_new_table [OF inv inv']
  show "quiet w (w\<lparr>mgr_sockets := hm'\<rparr>)"
    by (rule quietI [OF inv]) (use N abs h(3) n in simp_all)
  show "reg_id w k" if "item = Some k"
  proof -
    obtain i where i: "i < HASH_MAP_DEFAULT_SIZE" "hm_socket_id h ! i = Some k" using I(2) [OF \<open>item = Some k\<close>] by blast
    then obtain a where a: "hm_table h ! i = Some a" using hm_invD(5) [OF h(2) i(1)] by (cases "hm_table h ! i") auto
    from slot_facts [OF h(2) i(1) a] obtain s where "socks w a = Some s" "sk_id s = Some k"
      using i(2) hm_invD(6) [OF h(2) i(1) a] unfolding sock_ok_def by (metis option.sel)
    moreover have "registered w a" using h(1) a i(1) table_index [OF h(2), of a] unfolding registered_def by blast
    ultimately show ?thesis by (auto simp: reg_id_def)
  qed
qed

section \<open>Steps\<close>

text \<open>
  The operations of the manager, those on one socket for the identifiers that \<open>g\<close> admits.  \<open>same_heap\<close> steps are those
  of the operating system, of other processes, and of the many operations that allocate, read and write but
  leave sockets, identifiers and table alone.
\<close>

inductive mgr_op :: "('s world \<Rightarrow> addr \<Rightarrow> bool) \<Rightarrow> 's posix \<Rightarrow> 's world \<Rightarrow> 's world \<Rightarrow> bool"
  for g :: "'s world \<Rightarrow> addr \<Rightarrow> bool" and P :: "'s posix" where
  system: "same_heap w w' \<Longrightarrow> mgr_op g P w w'"
| bind: "handle_bind_request P req w = (r, w') \<Longrightarrow> mgr_op g P w w'"
| packet: "handle_incoming_ip_packet P p w = (r, w') \<Longrightarrow> mgr_op g P w w'"
| listen: "g w k \<Longrightarrow> check_and_handle_listen_request P k w = Some (r, w') \<Longrightarrow> mgr_op g P w w'"
| connect: "g w k \<Longrightarrow> check_and_handle_connect_request P k w = Some (r, w') \<Longrightarrow> mgr_op g P w w'"
| end_fifo: "g w k \<Longrightarrow> check_and_handle_socket_end_fifo P k w = (r, w') \<Longrightarrow> mgr_op g P w w'"
| send: "g w k \<Longrightarrow> check_and_handle_send_window P k w = (r, w') \<Longrightarrow> mgr_op g P w w'"
| status: "g w k \<Longrightarrow> check_and_handle_outgoing_status_messages P k w = (r, w') \<Longrightarrow> mgr_op g P w w'"
| terminate: "g w k \<Longrightarrow> terminate_socket P k w = Some (r, w') \<Longrightarrow> mgr_op g P w w'"
| first_item: "(item, hm') = hashMapGetFirst (mgr_sockets w) \<Longrightarrow> mgr_op g P w (w\<lparr>mgr_sockets := hm'\<rparr>)"
| next_item: "(item, hm') = hashMapGetNext (mgr_sockets w) \<Longrightarrow> mgr_op g P w (w\<lparr>mgr_sockets := hm'\<rparr>)"

inductive_cases mgr_opE: "mgr_op g P w w'"

lemma mgr_op_mono: "mgr_op g P w w' \<Longrightarrow> (\<And>w k. g w k \<Longrightarrow> g' w k) \<Longrightarrow> mgr_op g' P w w'"
  by (induction rule: mgr_op.induct) (auto intro: mgr_op.intros)

text \<open>A step is an operation on a registered socket; \<open>any_op\<close> asks for nothing.\<close>

abbreviation mgr_step :: "'s posix \<Rightarrow> 's world \<Rightarrow> 's world \<Rightarrow> bool" where
  "mgr_step \<equiv> mgr_op reg_id"

abbreviation any_op :: "'s posix \<Rightarrow> 's world \<Rightarrow> 's world \<Rightarrow> bool" where
  "any_op \<equiv> mgr_op (\<lambda>_ _. True)"

text \<open>
  The one step that breaks the order: a connecting socket is closed although another socket has bound its port
  meanwhile, so that both are under one endpoint.
\<close>

definition breaks_order :: "'s posix \<Rightarrow> 's world \<Rightarrow> 's world \<Rightarrow> bool" where
  "breaks_order P w w' \<longleftrightarrow> (\<exists>k i a s r. own_socket w k i a s \<and> sk_state s = SYN_SENT
     \<and> check_and_handle_socket_end_fifo P k w = (r, w') \<and> duplicates i a w w')"

text \<open>Along a step, sockets follow the state graph, and new ones start in one of two states.\<close>

definition graph_step :: "'s world \<Rightarrow> 's world \<Rightarrow> bool" where
  "graph_step w w' \<longleftrightarrow>
     (\<forall>b s. registered w b \<longrightarrow> socks w b = Some s \<longrightarrow> registered w' b \<longrightarrow>
        (\<exists>s'. socks w' b = Some s' \<and> tcp_edge (sk_state s) (sk_state s')))
     \<and> (\<forall>b. registered w' b \<longrightarrow> \<not> registered w b \<longrightarrow>
        (\<exists>s'. socks w' b = Some s' \<and> sk_state s' \<in> {CLOSED, SYN_RECEIVED}))"

lemma quiet_graph: "quiet w w' \<Longrightarrow> graph_step w w'"
  using quietD(4,7) [of w w'] by (auto simp: graph_step_def)

lemma touches_graph: "touches a edge_step w w' \<Longrightarrow> mgr_inv w' \<and> graph_step w w'"
  unfolding graph_step_def touches_def edge_step_def keeps_def by (metis (full_types) option.inject tcp_edge.stay)

lemma adds_socket_graph:
  assumes inv: "mgr_inv w" and a: "adds_socket key (\<lambda>s. sk_state s = CLOSED) w w'"
  shows "graph_step w w'"
proof -
  obtain b s where b: "\<not> registered w b" "mgr_map w' = (mgr_map w)(key \<mapsto> b)" "socks w' b = Some s" "sk_state s = CLOSED"
    using a by (auto simp: adds_socket_def)
  show ?thesis
    using adds_socket_registered [OF inv a b(2)] b a by (auto simp: graph_step_def adds_socket_def)
qed

lemma added_graph:
  assumes inv: "mgr_inv w" "mgr_inv w'" and c: "connection_added w w'"
  shows "graph_step w w'"
proof -
  obtain a key n s s' where c: "registered w a" "socks w a = Some s" "\<not> registered w n" "mgr_map w key = None"
      "mgr_map w' = (mgr_map w)(key \<mapsto> n)" "socks w' n = Some s'" "sk_state s' = SYN_RECEIVED"
      "socks w' a = Some (s\<lparr>max_connections := max_connections s - 1\<rparr>)"
      "\<forall>b. registered w b \<longrightarrow> b \<noteq> a \<longrightarrow> socks w' b = socks w b"
    using c unfolding connection_added_def by blast
  have reg: "registered w' b \<longleftrightarrow> registered w b \<or> b = n" for b
    using c(4,5) registered_ran [OF inv(1), of b] registered_ran [OF inv(2), of b] ran_map_upd [of "mgr_map w" key n] by auto
  have "\<exists>s'. socks w' b = Some s' \<and> tcp_edge (sk_state t) (sk_state s')" if "registered w b" "socks w b = Some t" for b t
    using that c(2,8,9) by (cases "b = a") auto
  then show ?thesis unfolding graph_step_def using reg c(6,7) by auto
qed

lemma kept_table_graph:
  assumes "mgr_inv w" "mgr_inv w'" and "table_kept w w'"
  shows "graph_step w w'"
proof -
  have reg: "registered w' b \<longleftrightarrow> registered w b" for b
    using assms registered_iff [OF assms(1)] registered_iff [OF assms(2)] by (simp add: table_kept_def)
  show ?thesis using assms(3) reg unfolding graph_step_def table_kept_def by (metis tcp_edge.stay)
qed

lemma rekeys_graph:
  assumes inv: "mgr_inv w" and o: "own_socket w k i a s" and r: "rekeys k (sid_key i) new a s' w w'"
    and new: "mgr_map w new = None \<or> new = sid_key i" and e: "tcp_edge (sk_state s) (sk_state s')"
  shows "graph_step w w'"
proof -
  note O = own_socketD [OF inv o]
  note reg = rekeys_registered [OF inv r O(4) new]
  show ?thesis using r O(5) e reg unfolding graph_step_def rekeys_def by (metis option.inject tcp_edge.stay)
qed

lemma removes_graph:
  assumes inv: "mgr_inv w" and r: "removes k key a w w'"
  shows "graph_step w w'"
proof -
  have inv': "mgr_inv w'" and m: "mgr_map w' = (mgr_map w)(key := None)" "mgr_map w key = Some a" using r by (simp_all add: removes_def)
  have sub: "registered w b \<and> b \<noteq> a" if b: "registered w' b" for b
  proof -
    obtain x where "mgr_map w' x = Some b" using b registered_iff [OF inv'] by blast
    then have x: "mgr_map w x = Some b" "x \<noteq> key" using m by (auto split: if_splits)
    then have "b \<noteq> a" using registered_one_key [OF inv _ m(2)] by blast
    then show ?thesis using x mgr_map_registered [OF inv] by blast
  qed
  show ?thesis using r sub unfolding graph_step_def removes_def by (metis tcp_edge.stay)
qed

lemma duplicates_graph: "duplicates i a w w' \<Longrightarrow> graph_step w w'"
  using closes_edge unfolding graph_step_def duplicates_def edge_step_def by (metis option.inject tcp_edge.stay)

section \<open>Every step keeps the invariant and the graph\<close>

lemma terminate_socket_heap:
  assumes inv: "mgr_inv w" and k: "reg_id w k" and t: "terminate_socket P k w = Some (r, w')"
  shows "same_heap w w'"
proof -
  obtain n w1 where 1: "get_end_fifo_read_end_name P (Some k) w = (n, w1)" by fastforce
  have h1: "same_heap w w1" by (rule fifo_name_heap(7) [OF 1])
  define w4 where "w4 = (case n of None \<Rightarrow> w1 | Some n \<Rightarrow> let (fd, w2) = sys_open P n O_RDWR w1
      in if fd = - 1 then w2 else sys_close P fd (snd (sys_write P fd ''E'' w2)))"
  have h4: "same_heap w w4"
  proof (cases n)
    case (Some x)
    obtain fd w2 where 2: "sys_open P x O_RDWR w1 = (fd, w2)" by fastforce
    obtain y w3 where 3: "sys_write P fd ''E'' w2 = (y, w3)" by fastforce
    have "w4 = (if fd = - 1 then w2 else sys_close P fd w3)" using Some 2 3 by (simp add: w4_def)
    then show ?thesis
      using same_heap_trans [OF h1 sys_same_heap(3) [OF 2]] same_heap_trans [OF h1 write_close_heap [OF 2 3]] by simp
  qed (use h1 in \<open>simp add: w4_def\<close>)
  obtain i a s where o: "own_socket w k i a s" by (rule own_socket_of_reg_id [OF inv k])
  note q = quiet_same_heap [OF inv h4]
  note O = own_socketD [OF quietD(2) [OF q] own_socket_quiet [OF inv o q]]
  have "w' = unlink_socket_fifos_server_side P a w4"
    using t 1 O(9) by (simp add: terminate_socket_def w4_def)
  then show ?thesis
    using same_heap_trans [OF h4 unlink_server_side_heap [OF quietD(2) [OF q] O(5,6,3)]] by simp
qed

lemma timer_step_edge: "timer_step s s' \<Longrightarrow> edge_step s s'"
  by (auto simp: timer_step_def edge_step_def dest: timer_next_edge)

lemma only_edge_graph:
  assumes "mgr_inv w" and "only_socket a Q w w'" and "\<And>s s'. Q s s' \<Longrightarrow> edge_step s s'"
  shows "mgr_inv w' \<and> graph_step w w'"
  using touches_graph [OF touches_only_socket [OF assms(1) only_socket_weaken [OF assms(2), of edge_step] edge_step_kept]]
    assms(3) by blast

lemma mgr_step_cases:
  assumes inv: "mgr_inv w" and st: "mgr_step P w w'"
  shows "mgr_inv w' \<and> graph_step w w' \<or> breaks_order P w w' \<and> graph_step w w'"
  using st
proof (cases rule: mgr_op.cases [of reg_id P w w'])
  case system
  then show ?thesis using quiet_same_heap [OF inv] quiet_graph quietD(2) by blast
next
  case (bind req r)
  show ?thesis
  proof (cases "scan_bind_request req")
    case None
    then have "w' = w" using bind by (simp add: handle_bind_request_def)
    then show ?thesis using quiet_graph [OF quiet_same_heap [OF inv same_heap_refl]] inv by simp
  next
    case (Some v)
    obtain x y z where "v = (x, y, z)" by (cases v)
    from handle_bind_request_step [OF inv Some [unfolded this] bind] show ?thesis
    proof
      assume q: "quiet w w'"
      show ?thesis using quiet_graph [OF q] quietD(2) [OF q] by simp
    next
      assume "r = 0 \<and> adds_socket (bound_key w x) (\<lambda>s. sk_state s = CLOSED) w w'"
      then have a: "adds_socket (bound_key w x) (\<lambda>s. sk_state s = CLOSED) w w'" ..
      show ?thesis using adds_socket_graph [OF inv a] a by (simp add: adds_socket_def)
    qed
  qed
next
  case (packet p r)
  from handle_incoming_ip_packet_effect [OF inv packet] consider "quiet w w'" | t ip where "segment_effect t ip w w'" by blast
  then have "mgr_inv w' \<and> (table_kept w w' \<or> connection_added w w')"
    using segment_effect_cases [OF inv] quiet_table_kept by cases (auto dest: quietD(2))
  then show ?thesis using kept_table_graph [OF inv] added_graph [OF inv] by blast
next
  case (listen k r)
  obtain i a s where o: "own_socket w k i a s" by (rule own_socket_of_reg_id [OF inv listen(1)])
  note O = own_socketD [OF inv o]
  show ?thesis by (rule disjI1 [OF only_edge_graph [OF inv check_and_handle_listen_request_only(2) [OF O(5,9) listen(2)]]])
next
  case (connect k r)
  obtain i a s where o: "own_socket w k i a s" by (rule own_socket_of_reg_id [OF inv connect(1)])
  from check_and_handle_connect_request_step [OF inv o connect(2)] show ?thesis
  proof
    assume "r = 0 \<and> quiet w w'"
    then show ?thesis using quiet_graph quietD(2) by blast
  next
    assume "r = BREAK_ITERATION \<and> sk_state s = CLOSED
      \<and> (\<exists>ip p s' i'. mgr_map w (peer_key i ip p) = None \<and> rekeys k (sid_key i) (peer_key i ip p) a s' w w'
        \<and> sk_state s' = SYN_SENT \<and> sk_id s' = Some k \<and> ids w' k = Some i' \<and> sid_key i' = peer_key i ip p)"
    then obtain ip p s' where r: "sk_state s = CLOSED" "mgr_map w (peer_key i ip p) = None"
        "rekeys k (sid_key i) (peer_key i ip p) a s' w w'" "sk_state s' = SYN_SENT" by blast
    have "graph_step w w'" by (rule rekeys_graph [OF inv o r(3)]) (use r in \<open>auto intro: tcp_edge.connect\<close>)
    then show ?thesis using r(3) by (simp add: rekeys_def)
  qed
next
  case (end_fifo k r)
  obtain i a s where o: "own_socket w k i a s" by (rule own_socket_of_reg_id [OF inv end_fifo(1)])
  consider "touches a closes w w'" | "removes k (sid_key i) a w w'"
    | s' where "bound_endpoint_free i w" "closes s s'" "rekeys k (sid_key i) (sid_key (unconnected i)) a s' w w'"
    | "sk_state s = SYN_SENT" "duplicates i a w w'"
    using check_and_handle_socket_end_fifo_step [OF inv o end_fifo(2)] by blast
  then show ?thesis
  proof cases
    case 1
    then show ?thesis using touches_graph [OF touches_weaken [OF _ closes_edge]] by blast
  next
    case 2
    then show ?thesis using removes_graph [OF inv 2] by (simp add: removes_def)
  next
    case (3 s')
    have "graph_step w w'"
      by (rule rekeys_graph [OF inv o 3(3)])
        (use 3(1) closes_edge [OF 3(2)] in \<open>auto simp: bound_endpoint_free_def edge_step_def\<close>)
    then show ?thesis using 3(3) by (simp add: rekeys_def)
  next
    case 4
    then show ?thesis using duplicates_graph o end_fifo(2) unfolding breaks_order_def by blast
  qed
next
  case (send k r)
  obtain i a s where o: "own_socket w k i a s" by (rule own_socket_of_reg_id [OF inv send(1)])
  note O = own_socketD [OF inv o]
  show ?thesis by (rule disjI1 [OF only_edge_graph [OF inv send_window_only(2) [OF O(5,9) send(2)] steady_edge]])
next
  case (status k r)
  obtain i a s where o: "own_socket w k i a s" by (rule own_socket_of_reg_id [OF inv status(1)])
  note O = own_socketD [OF inv o]
  show ?thesis by (rule disjI1 [OF only_edge_graph [OF inv status_messages_only(2) [OF O(5,9) status(2)] timer_step_edge]])
next
  case (terminate k r)
  then show ?thesis
    using quiet_same_heap [OF inv terminate_socket_heap [OF inv terminate]] quiet_graph quietD(2) by blast
next
  case (first_item item hm')
  then have "quiet w w'" using iteration_quiet(1) [OF inv] by blast
  then show ?thesis using quiet_graph quietD(2) by blast
next
  case (next_item item hm')
  then have "quiet w w'" using iteration_quiet(1) [OF inv] by blast
  then show ?thesis using quiet_graph quietD(2) by blast
qed

lemma mgr_step_graph:
  assumes "mgr_inv w" and "mgr_step P w w'"
  shows "mgr_inv w' \<or> breaks_order P w w'" and "graph_step w w'"
  using mgr_step_cases [OF assms] by blast+

section \<open>The program runs in steps\<close>

text \<open>
  The manager is a transition system that moves along the state graph and keeps the invariant \<open>mgr_inv\<close> up to a step
  that breaks it; the program runs in its operations throughout, and in its steps up to that one.
\<close>

interpretation mg: program_system "mgr_step P" mgr_inv graph_step "breaks_order P" "any_op P" for P
  by unfold_locales (auto dest: mgr_step_graph intro: mgr_op_mono)

abbreviation runs :: "'s posix \<Rightarrow> 's world \<Rightarrow> 's world \<Rightarrow> bool" where
  "runs P \<equiv> leads_to (mgr_step P) mgr_inv (breaks_order P) (any_op P)"

abbreviation ops :: "'s posix \<Rightarrow> 's world \<Rightarrow> 's world \<Rightarrow> bool" where
  "ops P \<equiv> (any_op P)\<^sup>*\<^sup>*"

lemmas runs_then = mg.leads_then

lemma runs_step: "mgr_step P w w' \<Longrightarrow> runs P w w'"
  by (blast intro: mg.leads_steps)

lemma steps_then: "mgr_step P w v \<Longrightarrow> (mgr_step P)\<^sup>*\<^sup>* v w' \<Longrightarrow> (mgr_step P)\<^sup>*\<^sup>* w w'"
  by (rule converse_rtranclp_into_rtranclp)

lemma ops_then: "any_op P w v \<Longrightarrow> ops P v w' \<Longrightarrow> ops P w w'"
  by (rule converse_rtranclp_into_rtranclp)

lemma heap_steps: "same_heap w w' \<Longrightarrow> (mgr_step P)\<^sup>*\<^sup>* w w'"
  by (blast intro: mgr_op.system)

lemma handle_bind_fifo_steps:
  assumes "handle_bind_fifo P w = Some (r, w')"
  shows "(mgr_step P)\<^sup>*\<^sup>* w w'"
proof -
  obtain n bs w1 where 1: "read_message_until_char P (bind_request_fifo_fd w) NUL w = Some (n, bs, w1)"
    using assms by (auto simp: handle_bind_fifo_def split: option.splits)
  define w2 where "w2 = (if length bs \<le> MAX_BIND_REQUEST_SIZE then w1 else set_ub w1)"
  have h1: "same_heap w w1" using read_message_until_char_same_proc [OF 1] by blast
  then have h2: "same_heap w w2" using same_heap_trans [OF h1 same_heap_set_ub] by (simp add: w2_def)
  consider "w' = w2" | "handle_bind_request P (cstr bs) w2 = (r, w')"
    using assms 1 by (auto simp: handle_bind_fifo_def Let_def w2_def split: if_splits)
  then show ?thesis
  proof cases
    case 2
    then have "mgr_step P w2 w'" by (rule mgr_op.bind)
    then show ?thesis by (rule rtranclp.rtrancl_into_rtrancl [OF heap_steps [OF h2]])
  qed (use h2 heap_steps in blast)
qed

lemma sys_str_to_ip_heap [intro, dest]:
  assumes "sys_str_to_ip P s w = (r, w')"
  shows "same_heap w w'"
proof -
  obtain m w1 where 1: "sys_malloc P 56 w = (m, w1)" by fastforce
  note h1 = sys_same_heap(1) [OF 1]
  obtain d w2 where 2: "(if length s \<ge> 50 \<and> m \<noteq> None \<and> ip_data_size s > 0
      then sys_malloc P (nat (ip_data_size s) + 1) w1 else (None, w1)) = (d, w2)" by fastforce
  have h2: "same_heap w w2" using 2 h1 same_heap_trans [OF h1 sys_same_heap(1)] by (auto split: if_splits)
  have "w' = w2 \<or> w' = set_ub w2"
    using assms 1 2 by (auto simp: sys_str_to_ip_def Let_def split: c_result.splits)
  then show ?thesis using h2 same_heap_trans [OF h2 same_heap_set_ub] by auto
qed

lemma read_ip_packet_from_file_heap [intro, dest]:
  assumes "read_ip_packet_from_file P fd w = Some (r, w')"
  shows "same_heap w w'"
proof -
  obtain n bs w1 where 1: "read_entire_message P fd 10 w = Some (n, bs, w1)"
    using assms by (auto simp: read_ip_packet_from_file_def split: option.splits)
  have h1: "same_heap w w1" using read_entire_message_same_proc [OF 1] by blast
  show ?thesis
  proof (cases "n = 10 \<and> scan_d (cstr bs) \<noteq> None")
    case False
    then have "w' = w1" using assms 1 by (auto simp: read_ip_packet_from_file_def split: if_splits option.splits)
    then show ?thesis using h1 by simp
  next
    case True
    then obtain v rest where v: "scan_d (cstr bs) = Some (v, rest)" by auto
    let ?len = "scanned_int v"
    obtain m w2 where 2: "sys_malloc P (nat (sint (?len + 1) mod 2 ^ 64)) w1 = (m, w2)" by fastforce
    have h2: "same_heap w w2" by (rule same_heap_trans [OF h1 sys_same_heap(1) [OF 2]])
    define w3 where "w3 = (if sint (?len + 1) < 10 then set_ub w2 else w2)"
    have h3: "same_heap w w3" using h2 same_heap_trans [OF h2 same_heap_set_ub] by (simp add: w3_def)
    show ?thesis
    proof (cases m)
      case None
      then have "w' = w2" using assms 1 True v 2 by (simp add: read_ip_packet_from_file_def Let_def)
      then show ?thesis using h2 by simp
    next
      case (Some b)
      obtain x rest' w4 where 4: "read_nonzero_entire_message P fd (sint (?len - 10)) w3 = Some (x, rest', w4)"
        using assms 1 True v 2 Some by (auto simp: read_ip_packet_from_file_def Let_def w3_def split: option.splits)
      have h4: "same_heap w w4" using same_heap_trans [OF h3] read_nonzero_entire_message_same_proc [OF 4] by blast
      have "w' = w4 \<or> sys_str_to_ip P (cstr (take (nat (sint ?len)) (bs @ rest'))) w4 = (r, w')"
        using assms 1 True v 2 Some 4 [unfolded w3_def]
        by (auto simp: read_ip_packet_from_file_def Let_def split: if_splits)
      then show ?thesis using h4 same_heap_trans [OF h4] sys_str_to_ip_heap by blast
    qed
  qed
qed

lemma in_packets_loop_steps:
  "in_packets_loop n P w = Some (r, w') \<Longrightarrow> (mgr_step P)\<^sup>*\<^sup>* w w'"
proof (induction n arbitrary: w)
  case (Suc n)
  obtain p w1 where 1: "read_ip_packet_from_file P (in_packet_fifo_fd w) w = Some (p, w1)"
    using Suc.prems by (auto split: option.splits)
  have s1: "mgr_step P w w1" by (rule mgr_op.system [OF read_ip_packet_from_file_heap [OF 1]])
  show ?case
  proof (cases p)
    case None
    then show ?thesis using Suc.prems 1 s1 by auto
  next
    case (Some x)
    obtain r2 w2 where 2: "handle_incoming_ip_packet P (Some x) w1 = (r2, w2)" by fastforce
    have s2: "mgr_step P w1 w2" by (rule mgr_op.packet [OF 2])
    have "(mgr_step P)\<^sup>*\<^sup>* w2 w'"
    proof (cases "r2 = 0")
      case True
      then show ?thesis using Suc 1 2 Some by simp
    qed (use Suc.prems 1 2 Some in simp)
    then show ?thesis by (rule steps_then [OF s1 steps_then [OF s2]])
  qed
qed simp

text \<open>What a round does for one socket.\<close>

lemma socket_tail_runs:
  assumes 1: "check_and_handle_socket_end_fifo P k w = (r1, w1)"
    and 2: "check_and_handle_send_window P k w1 = (r2, w2)"
    and 3: "check_and_handle_outgoing_status_messages P k w2 = (r3, w3)"
    and w': "w' = (if r1 \<noteq> 0 then w1 else if r2 \<noteq> 0 then w2 else w3)"
  shows "ops P w w'" and "mgr_inv w \<Longrightarrow> reg_id w k \<Longrightarrow> runs P w w'"
proof -
  have o1: "any_op P w w1" and o2: "any_op P w1 w2" and o3: "any_op P w2 w3"
    using 1 2 3 by (blast intro: mgr_op.end_fifo mgr_op.send mgr_op.status)+
  have ops1: "ops P w1 w'" using w' o2 o3 by (auto intro: ops_then)
  then show "ops P w w'" by (rule ops_then [OF o1])
  show "runs P w w'" if inv: "mgr_inv w" and k: "reg_id w k"
  proof -
    have s1: "mgr_step P w w1" by (rule mgr_op.end_fifo [where g = reg_id, OF k 1])
    obtain i a s where o: "own_socket w k i a s" by (rule own_socket_of_reg_id [OF inv k])
    have "runs P w1 w'" if inv1: "mgr_inv w1"
    proof (cases "r1 = 0")
      case r1: True
      consider "touches a closes w w1"
        | s' where "closes s s'" "rekeys k (sid_key i) (sid_key (unconnected i)) a s' w w1" "bound_endpoint_free i w"
        using check_and_handle_socket_end_fifo_step [OF inv o 1] r1 inv1 by (auto simp: BREAK_ITERATION_def duplicates_def)
      then have own1: "reg_id w1 k"
      proof cases
        case 1
        then show ?thesis using k by (simp add: touches_def keeps_def)
      next
        case (2 s')
        have "registered w1 a"
          using rekeys_registered [OF inv 2(2) own_socketD(4) [OF inv o]] 2(3) own_socketD(1) [OF inv o]
          by (simp add: bound_endpoint_free_def)
        then show ?thesis
          using 2(1,2) own_socketD(6) [OF inv o] unfolding reg_id_def rekeys_def closes_def kept_def by metis
      qed
      have s2: "mgr_step P w1 w2" by (rule mgr_op.send [where g = reg_id, OF own1 2])
      obtain i1 a1 t1 where o1: "own_socket w1 k i1 a1 t1" by (rule own_socket_of_reg_id [OF inv1 own1])
      note O1 = own_socketD [OF inv1 o1]
      have "keeps w1 w2"
        by (rule only_socket_keeps [OF inv1 send_window_only(2) [OF O1(5,9) 2]]) (simp add: steady_def)
      then have "reg_id w2 k" using own1 by (simp add: keeps_def)
      then have s3: "mgr_step P w2 w3" by (rule mgr_op.status [where g = reg_id, OF _ 3])
      have "(mgr_step P)\<^sup>*\<^sup>* w1 w'" using w' r1 s2 s3 by (auto intro: steps_then)
      then show ?thesis by (rule mg.leads_steps)
    qed (use w' mg.leads_steps in auto)
    then show ?thesis by (rule runs_then [OF inv runs_step [OF s1] _ ops1])
  qed
qed

lemma handle_socket_in_network_runs:
  assumes h: "handle_socket_in_network P k w = Some (r, w')"
  shows "ops P w w'" and "mgr_inv w \<Longrightarrow> reg_id w k \<Longrightarrow> runs P w w'"
proof -
  let ?tail = "\<lambda>w. let (r1, w1) = check_and_handle_socket_end_fifo P k w in
        if r1 \<noteq> 0 then (r1, w1)
        else let (r2, w2) = check_and_handle_send_window P k w1 in
        if r2 \<noteq> 0 then (r2, w2)
        else check_and_handle_outgoing_status_messages P k w2"
  have tail: "ops P v w' \<and> (mgr_inv v \<longrightarrow> reg_id v k \<longrightarrow> runs P v w')" if t: "?tail v = (r, w')" for v
  proof -
    obtain r1 v1 where 1: "check_and_handle_socket_end_fifo P k v = (r1, v1)" by fastforce
    obtain r2 v2 where 2: "check_and_handle_send_window P k v1 = (r2, v2)" by fastforce
    obtain r3 v3 where 3: "check_and_handle_outgoing_status_messages P k v2 = (r3, v3)" by fastforce
    have "w' = (if r1 \<noteq> 0 then v1 else if r2 \<noteq> 0 then v2 else v3)" using t 1 2 3 by (auto split: if_splits)
    from socket_tail_runs [OF 1 2 3 this] show ?thesis by blast
  qed
  have "ops P w w' \<and> (mgr_inv w \<longrightarrow> reg_id w k \<longrightarrow> runs P w w')"
  proof (cases "get_socket_state (Some (id_at w k)) = BOUND_ONLY_SOCKET")
    case False
    then have "?tail w = (r, w')"
      using h by (cases "get_socket_state (Some (id_at w k))")
        (simp_all add: handle_socket_in_network_def check_and_handle_out_fifo_def)
    then show ?thesis by (rule tail)
  next
    case True
    obtain r1 w1 where 1: "check_and_handle_listen_request P k w = Some (r1, w1)"
      using h True by (auto simp: handle_socket_in_network_def split: option.splits)
    have o1: "any_op P w w1" by (rule mgr_op.listen [where g = "\<lambda>_ _. True", OF TrueI 1])
    show ?thesis
    proof (cases "r1 = 0")
      case False
      have "r1 = 0" if inv: "mgr_inv w" and k: "reg_id w k"
      proof -
        obtain i a s where o: "own_socket w k i a s" by (rule own_socket_of_reg_id [OF inv k])
        note O = own_socketD [OF inv o]
        show ?thesis by (rule check_and_handle_listen_request_only(1) [OF O(5,9) 1])
      qed
      moreover have "w' = w1" using h True 1 False by (simp add: handle_socket_in_network_def)
      ultimately show ?thesis using o1 False by auto
    next
      case r1: True
      obtain r2 w2 where 2: "check_and_handle_connect_request P k w1 = Some (r2, w2)"
        using h True 1 r1 by (auto simp: handle_socket_in_network_def split: option.splits)
      have o2: "any_op P w1 w2" by (rule mgr_op.connect [where g = "\<lambda>_ _. True", OF TrueI 2])
      have rest: "(if r2 = 0 then (r, w') = ?tail w2 else w' = w2)"
        using h True 1 r1 2 by (auto simp: handle_socket_in_network_def)
      have opsw2: "ops P w2 w'" using rest tail [of w2] by (cases "r2 = 0") auto
      then have ops: "ops P w w'" by (rule ops_then [OF o1 ops_then [OF o2]])
      have "runs P w w'" if inv: "mgr_inv w" and k: "reg_id w k"
      proof -
        obtain i a s where o: "own_socket w k i a s" by (rule own_socket_of_reg_id [OF inv k])
        note O = own_socketD [OF inv o]
        have s1: "mgr_step P w w1" by (rule mgr_op.listen [where g = reg_id, OF k 1])
        have K1: "keeps w w1"
          by (rule only_socket_keeps [OF inv check_and_handle_listen_request_only(2) [OF O(5,9) 1] edge_step_kept])
        have inv1: "mgr_inv w1" and k1: "reg_id w1 k" using K1 k by (simp_all add: keeps_def)
        have s2: "mgr_step P w1 w2" by (rule mgr_op.connect [where g = reg_id, OF k1 2])
        obtain i1 a1 t1 where o1: "own_socket w1 k i1 a1 t1" by (rule own_socket_of_reg_id [OF inv1 k1])
        have "runs P w2 w'"
        proof (cases "r2 = 0")
          case True
          then have "quiet w1 w2"
            using check_and_handle_connect_request_step [OF inv1 o1 2] by (auto simp: BREAK_ITERATION_def)
          then show ?thesis using tail [of w2] rest True k1 quietD(2,5) by (metis (full_types))
        qed (use rest mg.leads_steps in auto)
        then have "runs P w1 w'" by (intro runs_then [OF inv1 runs_step [OF s2] _ opsw2])
        then show ?thesis by (intro runs_then [OF inv runs_step [OF s1] _ ops_then [OF o2 opsw2]])
      qed
      then show ?thesis using ops by blast
    qed
  qed
  then show "ops P w w'" and "mgr_inv w \<Longrightarrow> reg_id w k \<Longrightarrow> runs P w w'" by blast+
qed

section \<open>The loops\<close>

text \<open>A body that runs in operations, and in steps on a registered socket.\<close>

definition body_runs :: "'s posix \<Rightarrow> (addr \<Rightarrow> 's world \<Rightarrow> (int \<times> 's world) option) \<Rightarrow> bool" where
  "body_runs P body \<longleftrightarrow> (\<forall>k v r v'. body k v = Some (r, v') \<longrightarrow>
     ops P v v' \<and> (mgr_inv v \<longrightarrow> reg_id v k \<longrightarrow> runs P v v'))"

lemma socket_loop_runs:
  assumes body: "body_runs P body" and l: "socket_loop body item w = Some (r, w')"
  shows "ops P w w'" and "mgr_inv w \<Longrightarrow> (\<And>k. item = Some k \<Longrightarrow> reg_id w k) \<Longrightarrow> runs P w w'"
proof -
  let ?G = "\<lambda>item w w'. ops P w w' \<and> (mgr_inv w \<longrightarrow> (\<forall>k. item = Some k \<longrightarrow> reg_id w k) \<longrightarrow> runs P w w')"
  obtain c where c: "c = body" by simp
  have "(\<lambda>((b, item), w) (r, w'). b = c \<longrightarrow> ?G item w w') ((body, item), w) (r, w')"
  proof (rule socket_loop.raw_induct [OF _ l], goal_cases)
    case (1 f b item w y)
    have "?G item w (snd y)" if bc: "b = c"
    proof (cases item)
      case None
      then have "snd y = w" using 1(2) by auto
      then show ?thesis by (simp add: mg.leads_steps)
    next
      case (Some k)
      have b: "b = body" using bc c by simp
      obtain r1 w1 where r1: "body k w = Some (r1, w1)"
        using 1(2) Some b by (auto split: option.splits)
      have o1: "ops P w w1" and run1: "mgr_inv w \<Longrightarrow> reg_id w k \<Longrightarrow> runs P w w1"
        using body r1 unfolding body_runs_def by blast+
      show ?thesis
      proof (cases "r1 = BREAK_ITERATION \<or> r1 = - 1")
        case True
        then have "snd y = w1" using 1(2) Some b r1 by auto
        then show ?thesis using o1 run1 Some by simp
      next
        case False
        obtain item' hm' where n: "(item', hm') = hashMapGetNext (mgr_sockets w1)" by (metis surj_pair)
        let ?w2 = "w1\<lparr>mgr_sockets := hm'\<rparr>"
        have rec: "f body item' ?w2 = Some y"
          using 1(2) Some b r1 False n [symmetric] by auto
        have g: "?G item' ?w2 (snd y)" using 1(1) [OF rec] c by (cases y) simp
        have o2: "ops P w1 (snd y)" using ops_then [OF mgr_op.next_item [OF n]] g by blast
        have "runs P w (snd y)" if inv: "mgr_inv w" and k: "reg_id w k"
        proof (rule runs_then [OF inv run1 [OF inv k] _ o2])
          assume inv1: "mgr_inv w1"
          note I = iteration_quiet [OF inv1 disjI2 [OF n]]
          have st: "runs P w1 ?w2" by (rule runs_step [OF mgr_op.next_item [OF n]])
          have "runs P ?w2 (snd y)" using g quietD(2,5) [OF I(1)] I(2) by simp
          then show "runs P w1 (snd y)" using runs_then [OF inv1 st] g by blast
        qed
        then show ?thesis using rtranclp_trans [OF o1 o2] Some by simp
      qed
    qed
    then show ?case by (cases y) simp
  qed
  then have "?G item w w'" using c by simp
  then show "ops P w w'" and "mgr_inv w \<Longrightarrow> (\<And>k. item = Some k \<Longrightarrow> reg_id w k) \<Longrightarrow> runs P w w'" by simp_all
qed

lemma for_each_socket_runs:
  assumes body: "body_runs P body" and l: "for_each_socket body w = Some (r, w')"
  shows "ops P w w'" and "mgr_inv w \<Longrightarrow> runs P w w'"
proof -
  obtain item hm' where n: "(item, hm') = hashMapGetFirst (mgr_sockets w)" by (metis surj_pair)
  let ?w1 = "w\<lparr>mgr_sockets := hm'\<rparr>"
  have "socket_loop body item ?w1 = Some (r, w')" using l n [symmetric] by (simp add: for_each_socket_def)
  note L = socket_loop_runs [OF body this]
  show "ops P w w'" by (rule ops_then [OF mgr_op.first_item [OF n] L(1)])
  show "runs P w w'" if inv: "mgr_inv w"
  proof (rule runs_then [OF inv runs_step [OF mgr_op.first_item [OF n]] _ L(1)])
    note I = iteration_quiet [OF inv disjI1 [OF n]]
    show "runs P ?w1 w'" by (rule L(2)) (use quietD(2,5) [OF I(1)] I(2) in simp_all)
  qed
qed

lemma handle_socket_in_network_body: "body_runs P (handle_socket_in_network P)"
  unfolding body_runs_def using handle_socket_in_network_runs by blast

text \<open>The end of the manager is a run of steps, as long as the sockets it visits are registered.\<close>

lemma terminate_socket_body: "body_runs P (terminate_socket P)"
  unfolding body_runs_def by (blast intro: mgr_op.terminate runs_step r_into_rtranclp)

lemma manager_round_runs:
  assumes m: "manager_round P w = Some (r, w')"
  shows "ops P w w'" and "mgr_inv w \<Longrightarrow> runs P w w'"
proof -
  obtain t w1 where 1: "should_terminate_manager P w = Some (t, w1)"
    using m by (auto simp: manager_round_def split: option.splits)
  have h1: "same_heap w w1"
    using 1 by (auto simp: should_terminate_manager_def split: option.splits)
  have parts: "\<exists>v. (mgr_step P)\<^sup>*\<^sup>* w v \<and> ops P v w' \<and> (mgr_inv v \<longrightarrow> runs P v w')"
  proof (cases t)
    case True
    obtain x where "terminate_manager P w1 = Some (x, w')"
      using m 1 True by (auto simp: manager_round_def split: option.splits)
    then obtain y where "for_each_socket (terminate_socket P) w1 = Some (y, w') \<or> w' = w1"
      by (auto simp: terminate_manager_def split: if_splits option.splits)
    then have "ops P w1 w' \<and> (mgr_inv w1 \<longrightarrow> runs P w1 w')"
      using for_each_socket_runs [OF terminate_socket_body] mg.leads_steps by blast
    then show ?thesis using heap_steps [OF h1] by blast
  next
    case False
    obtain r2 w2 where 2: "handle_bind_fifo P w1 = Some (r2, w2)"
      using m 1 False by (auto simp: manager_round_def split: option.splits)
    note s2 = rtranclp_trans [OF heap_steps [OF h1] handle_bind_fifo_steps [OF 2]]
    have refl: "ops P w' w' \<and> (mgr_inv w' \<longrightarrow> runs P w' w')" by (simp add: mg.leads_steps)
    show ?thesis
    proof (cases "r2 = 0")
      case r20: False
      then have "w' = w2" using m 1 False 2 by (simp add: manager_round_def)
      then show ?thesis using s2 refl by blast
    next
      case r20: True
      obtain r3 w3 where 3: "handle_in_packets_fifo P w2 = Some (r3, w3)"
        using m 1 False 2 r20 by (auto simp: manager_round_def split: option.splits)
      note s3 = rtranclp_trans [OF s2 in_packets_loop_steps [OF 3 [unfolded handle_in_packets_fifo_def]]]
      show ?thesis
      proof (cases "r3 = 0")
        case r30: False
        then have "w' = w3" using m 1 False 2 r20 3 by (simp add: manager_round_def)
        then show ?thesis using s3 refl by blast
      next
        case r30: True
        obtain r4 where 4: "for_each_socket (handle_socket_in_network P) w3 = Some (r4, w')"
          using m 1 False 2 r20 3 r30 by (auto simp: manager_round_def split: option.splits if_splits)
        show ?thesis using s3 for_each_socket_runs [OF handle_socket_in_network_body 4] by blast
      qed
    qed
  qed
  then obtain v where v: "(mgr_step P)\<^sup>*\<^sup>* w v" "ops P v w'" "mgr_inv v \<Longrightarrow> runs P v w'" by blast
  show "ops P w w'" by (rule rtranclp_trans [OF mg.steps_ops [OF v(1)] v(2)])
  show "runs P w w'" if "mgr_inv w" by (rule runs_then [OF that mg.leads_steps [OF v(1)] v(3) v(2)])
qed

lemma manager_rounds_runs:
  assumes m: "manager_rounds P w = Some (r, w')"
  shows "ops P w w'" and "mgr_inv w \<Longrightarrow> runs P w w'"
proof -
  let ?G = "\<lambda>w w'. ops P w w' \<and> (mgr_inv w \<longrightarrow> runs P w w')"
  have "(\<lambda>(Q, w) (r, w'). Q = P \<longrightarrow> ?G w w') (P, w) (r, w')"
  proof (rule manager_rounds.raw_induct [OF _ m], goal_cases)
    case (1 f Q w y)
    have "?G w (snd y)" if Q: "Q = P"
    proof -
      obtain x w1 where x: "manager_round P w = Some (x, w1)" using 1(2) Q by (auto split: option.splits)
      note R = manager_round_runs [OF x]
      show ?thesis
      proof (cases x)
        case None
        then have "f P w1 = Some y" using 1(2) Q x by simp
        from 1(1) [OF this] have g: "?G w1 (snd y)" by (auto split: prod.splits)
        have "runs P w (snd y)" if inv: "mgr_inv w"
          using runs_then [OF inv R(2) [OF inv]] g by blast
        then show ?thesis using rtranclp_trans [OF R(1)] g by blast
      next
        case (Some z)
        then have "snd y = w1" using 1(2) Q x by auto
        then show ?thesis using R by simp
      qed
    qed
    then show ?case by (auto split: prod.splits)
  qed
  then show "ops P w w'" and "mgr_inv w \<Longrightarrow> runs P w w'" by simp_all
qed

section \<open>Ending\<close>

lemma hashMapGetNext_advances:
  assumes "hm_inv ih sh h" and "hashMapGetNext (Some h) = (Some k, hm')"
  shows "\<exists>n. hm' = Some (h\<lparr>hm_iterator_index := n\<rparr>) \<and> hm_iterator_index h < n \<and> n < int HASH_MAP_DEFAULT_SIZE"
proof -
  obtain i where i: "hm' = Some (h\<lparr>hm_iterator_index := int i\<rparr>)" "nat (hm_iterator_index h + 1) \<le> i"
      "i < HASH_MAP_DEFAULT_SIZE"
    using assms(2) hm_invD(1) [OF assms(1)]
    by (auto simp: hashMapGetNext_def getHashMapSize_def Let_def split: option.splits if_splits dest!: find_in_set)
  then show ?thesis by (intro exI [of _ "int i"]) simp
qed

text \<open>A loop whose body returns and leaves the table alone ends.\<close>

lemma socket_loop_ends:
  assumes body: "\<And>k v. mgr_inv v \<Longrightarrow> reg_id v k \<Longrightarrow> \<exists>r v'. body k v = Some (r, v') \<and> same_heap v v'"
  shows "mgr_inv w \<Longrightarrow> (\<And>k. item = Some k \<Longrightarrow> reg_id w k) \<Longrightarrow>
    \<exists>r w'. socket_loop body item w = Some (r, w') \<and> quiet w w'"
proof (induction "nat (int HASH_MAP_DEFAULT_SIZE - hm_iterator_index (the (mgr_sockets w)))" arbitrary: w item
    rule: less_induct)
  case less
  show ?case
  proof (cases item)
    case None
    then show ?thesis
      using quiet_same_heap [OF less.prems(1) same_heap_refl] by (subst socket_loop.simps) simp
  next
    case (Some k)
    obtain r1 w1 where b: "body k w = Some (r1, w1)" "same_heap w w1"
      using body [OF less.prems(1)] less.prems(2) Some by blast
    note q1 = quiet_same_heap [OF less.prems(1) b(2)]
    note inv1 = quietD(2) [OF q1]
    show ?thesis
    proof (cases "r1 = BREAK_ITERATION \<or> r1 = - 1")
      case True
      then have "socket_loop body item w = Some (r1, w1)" using Some b(1) by (subst socket_loop.simps) auto
      then show ?thesis using q1 by blast
    next
      case False
      obtain item' hm' where n: "hashMapGetNext (mgr_sockets w1) = (item', hm')" by (metis surj_pair)
      let ?w2 = "w1\<lparr>mgr_sockets := hm'\<rparr>"
      note I = iteration_quiet [OF inv1 disjI2 [OF n [symmetric]]]
      have e: "socket_loop body item w = socket_loop body item' ?w2"
        using Some b(1) False n by (subst socket_loop.simps) simp
      have inv2: "mgr_inv ?w2" and k2: "\<And>k. item' = Some k \<Longrightarrow> reg_id ?w2 k"
        using quietD(2,5) [OF I(1)] I(2) by simp_all
      have "\<exists>r w'. socket_loop body item' ?w2 = Some (r, w') \<and> quiet ?w2 w'"
      proof (cases item')
        case None
        then show ?thesis using quiet_same_heap [OF inv2 same_heap_refl] by (subst socket_loop.simps) simp
      next
        case (Some k')
        obtain h where h: "mgr_sockets w1 = Some h" "hm_inv (ids w1) (socks w1) h" using inv1 by (rule mgr_inv_table)
        have "mgr_sockets w = Some h" using h(1) same_heapD(3) [OF b(2)] by simp
        then show ?thesis
          using hashMapGetNext_advances [OF h(2)] n Some h(1) by (intro less.hyps [OF _ inv2 k2]) auto
      qed
      then show ?thesis using e quiet_trans [OF quiet_trans [OF q1 I(1)]] by metis
    qed
  qed
qed

lemma for_each_socket_ends:
  assumes body: "\<And>k v. mgr_inv v \<Longrightarrow> reg_id v k \<Longrightarrow> \<exists>r v'. body k v = Some (r, v') \<and> same_heap v v'" and inv: "mgr_inv w"
  shows "\<exists>r w'. for_each_socket body w = Some (r, w') \<and> quiet w w'"
proof -
  obtain item hm' where n: "hashMapGetFirst (mgr_sockets w) = (item, hm')" by (metis surj_pair)
  note I = iteration_quiet [OF inv disjI1 [OF n [symmetric]]]
  have "\<exists>r w'. socket_loop body item (w\<lparr>mgr_sockets := hm'\<rparr>) = Some (r, w') \<and> quiet (w\<lparr>mgr_sockets := hm'\<rparr>) w'"
    using quietD(2,5) [OF I(1)] I(2) by (intro socket_loop_ends [OF body]) simp_all
  then show ?thesis using n quiet_trans [OF I(1)] by (auto simp: for_each_socket_def)
qed

lemma manager_rounds_end:
  assumes inv: "mgr_inv w" and r: "read_entire_message P (terminate_fifo_fd w) 1 w = Some (1, bs, w1)"
  shows "\<exists>w'. manager_rounds P w = Some (0, w') \<and> quiet w w'"
proof -
  have h1: "same_heap w w1" using read_entire_message_same_proc [OF r] by blast
  note q1 = quiet_same_heap [OF inv h1]
  have b: "\<exists>r v'. terminate_socket P k v = Some (r, v') \<and> same_heap v v'" if "mgr_inv v" "reg_id v k" for k v
  proof -
    obtain r v' where "terminate_socket P k v = Some (r, v')" by (simp add: terminate_socket_def Let_def split_def)
    then show ?thesis using terminate_socket_heap [OF that] by blast
  qed
  obtain r2 w2 where 2: "for_each_socket (terminate_socket P) w1 = Some (r2, w2)" "quiet w1 w2"
    using for_each_socket_ends [of "terminate_socket P" w1, OF b quietD(2) [OF q1]] by blast
  have "mgr_sockets w1 \<noteq> None" using quietD(2) [OF q1] by (auto elim: mgr_inv_table)
  then have "terminate_manager P w1 = Some (0, w2)" using 2(1) by (simp add: terminate_manager_def)
  then have "manager_round P w = Some (Some 0, w2)"
    using r by (simp add: manager_round_def should_terminate_manager_def)
  then have m: "manager_rounds P w = Some (0, w2)" by (subst manager_rounds.simps) simp
  show ?thesis using m quiet_trans [OF q1 2(2)] by blast
qed

section \<open>Starting\<close>

lemma init_fifo_directory_heap: "init_fifo_directory P w = (r, w') \<Longrightarrow> same_heap w w'"
  by (auto simp: init_fifo_directory_def sys_stat_def sys_mkdir_def same_heap_def split: prod.splits if_splits)

lemma mkfifo_all_heap: "mkfifo_all P ns w = (b, w') \<Longrightarrow> same_heap w w'"
proof (induction ns arbitrary: w)
  case (Cons n ns)
  obtain r w1 where 1: "mkfifo_opt P n w = (r, w1)" by fastforce
  have h1: "same_heap w w1" using 1 by (auto simp: mkfifo_opt_def split: option.splits)
  show ?case using Cons 1 h1 same_heap_trans [OF h1] by (auto split: if_splits)
qed simp

lemma open_opt_heap: "open_opt P n m w = (r, w') \<Longrightarrow> same_heap w w'"
  by (auto simp: open_opt_def split: option.splits)

lemma manager_fifo_names_heap:
  assumes "manager_fifo_names P w = (r, w')"
  shows "same_heap w w'"
proof -
  obtain n1 w1 where 1: "get_terminate_fifo_name P (mgr_ip w) w = (n1, w1)" by fastforce
  obtain n2 w2 where 2: "get_in_packet_fifo_name P (mgr_ip w) w1 = (n2, w2)" by fastforce
  obtain n3 w3 where 3: "get_bind_requests_fifo_name P (mgr_ip w) w2 = (n3, w3)" by fastforce
  obtain n4 w4 where 4: "get_connect_requests_fifo_name P (mgr_ip w) w3 = (n4, w4)" by fastforce
  have "w' = w4" using assms 1 2 3 4 by (simp add: manager_fifo_names_def)
  then show ?thesis
    using same_heap_trans [OF same_heap_trans [OF same_heap_trans [OF fifo_name_heap(11) [OF 1] fifo_name_heap(10) [OF 2]]
      fifo_name_heap(12) [OF 3]] fifo_name_heap(13) [OF 4]] by simp
qed

lemma initialize_fifos_heap:
  assumes "initialize_network_manager_fifos P w = (r, w')"
  shows "same_heap w w'"
proof -
  obtain n1 n2 n3 n4 w1 where 1: "manager_fifo_names P w = ((n1, n2, n3, n4), w1)" by (metis surj_pair)
  note h1 = manager_fifo_names_heap [OF 1]
  obtain b w2 where 2: "mkfifo_all P [n1, n2, n3, n4] w1 = (b, w2)" by fastforce
  note h2 = same_heap_trans [OF h1 mkfifo_all_heap [OF 2]]
  obtain f1 w3 where 3: "open_opt P n1 O_RDONLY_NONBLOCK w2 = (f1, w3)" by fastforce
  obtain f2 w4 where 4: "open_opt P n2 O_RDONLY_NONBLOCK w3 = (f2, w4)" by fastforce
  obtain f3 w5 where 5: "open_opt P n3 O_RDONLY_NONBLOCK w4 = (f3, w5)" by fastforce
  obtain f4 w6 where 6: "open_opt P n4 O_RDONLY_NONBLOCK w5 = (f4, w6)" by fastforce
  have h6: "same_heap w w6"
    using same_heap_trans [OF same_heap_trans [OF same_heap_trans [OF same_heap_trans [OF h2 open_opt_heap [OF 3]]
      open_opt_heap [OF 4]] open_opt_heap [OF 5]] open_opt_heap [OF 6]] .
  have "w' = w1 \<or> w' = w2 \<or> w' = w6\<lparr>terminate_fifo_fd := f1, in_packet_fifo_fd := f2,
      bind_request_fifo_fd := f3, connect_request_fifo_fd := f4\<rparr>"
    using assms 1 2 3 4 5 6 by (auto simp: initialize_network_manager_fifos_def Let_def split: if_splits)
  then show ?thesis using h1 h2 h6 by (auto simp: same_heap_def)
qed

lemma resourceful_mkfifo_all:
  assumes "resourceful P" and "\<forall>n \<in> set ns. n \<noteq> None" and "mkfifo_all P ns w = (b, w')"
  shows b
  using assms(2,3)
proof (induction ns arbitrary: w)
  case (Cons n ns)
  then obtain x where x: "n = Some x" by auto
  obtain r w1 where 1: "sys_mkfifo P x w = (r, w1)" by fastforce
  show ?case using Cons x 1 resourceful_calls(3) [OF assms(1) 1] by (simp add: mkfifo_opt_def)
qed simp

lemma initialize_fifos_succeeds:
  assumes P: "resourceful P" "fifos_open P" and i: "initialize_network_manager_fifos P w = (r, w')"
  shows "r = 0"
proof -
  obtain n1 n2 n3 n4 w1 where 1: "manager_fifo_names P w = ((n1, n2, n3, n4), w1)" by (metis surj_pair)
  have n: "n1 \<noteq> None" "n2 \<noteq> None" "n3 \<noteq> None" "n4 \<noteq> None"
    using 1
    by (auto simp: manager_fifo_names_def get_terminate_fifo_name_def get_in_packet_fifo_name_def
        get_bind_requests_fifo_name_def get_connect_requests_fifo_name_def Let_def split: prod.splits
        dest!: resourceful_name [OF P(1)])
  obtain b w2 where 2: "mkfifo_all P [n1, n2, n3, n4] w1 = (b, w2)" by fastforce
  have b: b by (rule resourceful_mkfifo_all [OF P(1) _ 2]) (use n in simp)
  have o: "fd \<noteq> - 1" if "open_opt P n m v = (fd, v')" "n \<noteq> None" for n m v fd v'
    using that by (auto simp: open_opt_def dest: fifos_open_calls(1) [OF P(2)])
  show ?thesis
    using i 1 n 2 b o by (auto simp: initialize_network_manager_fifos_def Let_def split: prod.splits)
qed

section \<open>Properties\<close>

text \<open>
  C3. The reachable states are in order.  Whatever the clients, the network and the operating system do, and in
  whatever order the manager handles it: the table holds at most a hundred sockets, every registered socket is
  well formed and is found under its own identifier, and no two registered sockets share an endpoint; or else,
  on the way, a connecting socket was closed although another socket had bound its port meanwhile, which put
  two sockets under one endpoint.  No other operation of the manager breaks the order.
\<close>

theorem reachable_states_are_in_order:
  assumes "mgr_inv w" and "(mgr_step P)\<^sup>*\<^sup>* w v"
  shows "(mgr_inv v \<and> card (dom (mgr_map v)) \<le> 100
      \<and> (\<forall>a. registered v a \<longrightarrow> (\<exists>s k i. socks v a = Some s \<and> socket_wf s \<and> sk_id s = Some k \<and> ids v k = Some i
            \<and> wf_sockid i \<and> mgr_getSocket (Some k) v = Some a))
      \<and> (\<forall>a b s t k l i j. registered v a \<longrightarrow> registered v b \<longrightarrow> socks v a = Some s \<longrightarrow> socks v b = Some t
            \<longrightarrow> sk_id s = Some k \<longrightarrow> sk_id t = Some l \<longrightarrow> ids v k = Some i \<longrightarrow> ids v l = Some j
            \<longrightarrow> sid_key i = sid_key j \<longrightarrow> a = b))
    \<or> (\<exists>u u'. (mgr_step P)\<^sup>*\<^sup>* w u \<and> mgr_inv u \<and> breaks_order P u u' \<and> (mgr_step P)\<^sup>*\<^sup>* u' v)"
proof (cases "mgr_inv v")
  case inv: True
  have found: "\<exists>s k i. socks v a = Some s \<and> socket_wf s \<and> sk_id s = Some k \<and> ids v k = Some i \<and> wf_sockid i
      \<and> mgr_getSocket (Some k) v = Some a" if "registered v a" for a
    using registered_socket [OF inv that] mgr_getSocket_map [OF inv] by metis
  have "a = b" if ab: "registered v a" "registered v b" "socks v a = Some s" "socks v b = Some t" "sk_id s = Some k"
      "sk_id t = Some l" "ids v k = Some i" "ids v l = Some j" "sid_key i = sid_key j" for a b s t k l i j
  proof -
    have "mgr_map v (sid_key i) = Some a" using registered_socket [OF inv ab(1)] ab(3,5,7) by (metis option.inject)
    moreover have "mgr_map v (sid_key j) = Some b" using registered_socket [OF inv ab(2)] ab(4,6,8) by (metis option.inject)
    ultimately show ?thesis using ab(9) by simp
  qed
  then show ?thesis using inv mgr_map_finite [OF inv] found by blast
next
  case False
  then show ?thesis using mg.first_break [OF assms(2,1)] by blast
qed

lemma reachable_states_are_in_order_witness:
  "\<exists>v. (mgr_step kind_posix)\<^sup>*\<^sup>* (example_manager LISTEN) v \<and> card (dom (mgr_map v)) = 2
     \<and> (mgr_inv v \<or> (\<exists>u u'. (mgr_step kind_posix)\<^sup>*\<^sup>* (example_manager LISTEN) u \<and> mgr_inv u \<and> breaks_order kind_posix u u'
          \<and> (mgr_step kind_posix)\<^sup>*\<^sup>* u' v))"
proof -
  obtain r v where v: "handle_incoming_ip_packet kind_posix (Some example_syn_packet) (example_manager LISTEN) = (r, v)"
    by fastforce
  have "mgr_step kind_posix (example_manager LISTEN) v" by (rule mgr_op.packet [OF v])
  then have st: "(mgr_step kind_posix)\<^sup>*\<^sup>* (example_manager LISTEN) v" by (rule r_into_rtranclp)
  obtain n where "mgr_map v = [example_key \<mapsto> 2, (replicate 16 (CHR ''1''), 80, replicate 16 (CHR ''1''), 9) \<mapsto> n]"
    using example_syn_accepted [OF v] by blast
  then have "dom (mgr_map v) = {example_key, (replicate 16 (CHR ''1''), 80, replicate 16 (CHR ''1''), 9)}" by auto
  then have "card (dom (mgr_map v)) = 2" by (simp add: example_key_def)
  then show ?thesis using st reachable_states_are_in_order [OF example_manager(1) st] by blast
qed

text \<open>
  C7. Sockets follow the state graph.  In every step of the manager, a registered socket that stays registered
  stays in its state or moves along an edge of the graph, and a socket that is new in the table is closed or
  has answered a SYN; so whatever is established after a step was established before, or was waiting for
  the end of its handshake.
\<close>

theorem sockets_follow_state_graph:
  assumes "mgr_inv w" and "mgr_step P w w'" and "registered w' b"
  shows "\<exists>s'. socks w' b = Some s'
    \<and> (registered w b \<longrightarrow> (\<exists>s. socks w b = Some s \<and> tcp_edge (sk_state s) (sk_state s')))
    \<and> (\<not> registered w b \<longrightarrow> sk_state s' = CLOSED \<or> sk_state s' = SYN_RECEIVED)
    \<and> (sk_state s' = ESTABLISED \<longrightarrow> (\<exists>s. socks w b = Some s \<and> registered w b
         \<and> sk_state s \<in> {ESTABLISED, SYN_SENT, SYN_RECEIVED}))"
proof -
  have g: "graph_step w w'" by (rule mgr_step_graph(2) [OF assms(1,2)])
  show ?thesis
  proof (cases "registered w b")
    case True
    obtain s where s: "socks w b = Some s" using registered_heap(1) [OF assms(1) True] by blast
    obtain s' where "socks w' b = Some s'" "tcp_edge (sk_state s) (sk_state s')"
      using g True s assms(3) unfolding graph_step_def by blast
    then show ?thesis using True s by (auto simp: tcp_edge_to_established)
  next
    case False
    then obtain s' where "socks w' b = Some s'" "sk_state s' \<in> {CLOSED, SYN_RECEIVED}"
      using g assms(3) unfolding graph_step_def by blast
    then show ?thesis using False by auto
  qed
qed

lemma sockets_follow_state_graph_witness:
  "\<exists>w' s'. mgr_step sim_posix (example_manager CLOSE_WAIT) w' \<and> socks w' 2 = Some s' \<and> tcp_edge CLOSE_WAIT (sk_state s')
     \<and> sk_state s' \<noteq> ESTABLISED"
proof -
  let ?w = "example_manager CLOSE_WAIT"
  note M = example_manager [of CLOSE_WAIT]
  obtain r w' where c: "check_and_handle_outgoing_status_messages sim_posix 0 ?w = (r, w')" by fastforce
  have k: "reg_id ?w 0" using M(2,3) by (auto simp: reg_id_def example_socket_def)
  have st: "mgr_step sim_posix ?w w'" by (rule mgr_op.status [where g = reg_id, OF k c])
  have "own_socket ?w 0 (the (example_ids 0)) 2 ((example_socket 0)\<lparr>sk_state := CLOSE_WAIT\<rparr>)"
    using example_manager_id(1,3) M(3,4) by (simp add: own_socket_def example_socket_def)
  note O = own_socketD [OF M(1) this]
  have "keeps ?w w'"
    by (rule only_socket_keeps [OF M(1) status_messages_only(2) [OF O(5,9) c]]) (simp add: timer_step_def)
  then have reg: "registered w' 2" using M(2) by (simp add: keeps_def)
  from sockets_follow_state_graph [OF M(1) st reg] obtain s' where s': "socks w' 2 = Some s'" "tcp_edge CLOSE_WAIT (sk_state s')"
      "sk_state s' = ESTABLISED \<Longrightarrow> CLOSE_WAIT \<in> {ESTABLISED, SYN_SENT, SYN_RECEIVED}"
    using M(2,3) by auto
  then show ?thesis using st by auto
qed

text \<open>
  C6. The program runs in these steps.  A manager that is created for an address, started with an empty heap, and
  returns from its loop either never got a table, or it started with an empty table in order and the state it
  ends in follows from it by the steps above; or those steps lead to a state in order in which a connecting
  socket was closed although another had bound its port, which is the first state out of order, and from
  there on the end follows by the same operations, on whatever socket they are called.
\<close>

theorem manager_runs_in_steps:
  assumes "createNetworkManager P ip w0 = (True, w)" and "NUL \<notin> set ip"
    and "ids w0 = Map.empty" and "socks w0 = Map.empty"
    and "managerLoop P w = Some (r, w')"
  shows "r = - 1 \<and> mgr_sockets w' = None
    \<or> (\<exists>v. mgr_inv v \<and> mgr_map v = Map.empty \<and> mgr_ip v = ip
         \<and> ((mgr_step P)\<^sup>*\<^sup>* v w'
            \<or> (\<exists>u u'. (mgr_step P)\<^sup>*\<^sup>* v u \<and> mgr_inv u \<and> breaks_order P u u' \<and> \<not> mgr_inv u' \<and> (any_op P)\<^sup>*\<^sup>* u' w')))"
proof -
  obtain m r0 w1 a2 w2 where 0: "length ip = MAX_IP_LENGTH" "init_fifo_directory P w0 = (r0, w1)" "sys_new P w1 = (a2, w2)"
      "w = (snd (sys_malloc P (length ip + 1) (w2\<lparr>mgr_sockets := None, terminate_fifo_fd := - 1, bind_request_fifo_fd := - 1,
         connect_request_fifo_fd := - 1, in_packet_fifo_fd := - 1\<rparr>)))\<lparr>mgr_ip := ip\<rparr>"
    using assms(1) by (auto simp: createNetworkManager_def Let_def split: if_splits prod.splits option.splits)
  note h2 = same_heap_trans [OF init_fifo_directory_heap [OF 0(2)] sys_same_heap(2) [OF 0(3)]]
  have w: "ids w = Map.empty" "socks w = Map.empty" "mgr_sockets w = None" "mgr_ip w = ip" "length ip = 16"
    using 0 assms(3,4) same_heapD(1,2) [OF h2] by (auto simp: sys_malloc_def MAX_IP_LENGTH_def split: prod.splits)
  obtain r1 v1 where 1: "initialize_network_manager_fifos P w = (r1, v1)" by fastforce
  obtain al v2 where 2: "sys_new P v1 = (al, v2)" by fastforce
  note hv = same_heap_trans [OF initialize_fifos_heap [OF 1] sys_same_heap(2) [OF 2]]
  note V1 = same_heapD(1-4) [OF initialize_fifos_heap [OF 1]] and V2 = same_heapD(1-4) [OF hv]
  show ?thesis
  proof (cases "r1 = 0 \<and> al")
    case False
    then have "r = - 1 \<and> (w' = v1 \<or> w' = set_ub v2)"
      using assms(5) w(3) 1 2 by (auto simp: managerLoop_def createHashMap_def split: if_splits)
    then show ?thesis using V1 V2 w(3) by auto
  next
    case True
    let ?v = "v2\<lparr>mgr_sockets := Some empty_table\<rparr>"
    have "createHashMap al = Returns empty_table" using True by (simp add: empty_table_def createHashMap_def)
    then have run: "manager_rounds P ?v = Some (r, w')" using assms(5) w(3) 1 2 True by (simp add: managerLoop_def)
    have inv: "mgr_inv ?v" "mgr_map ?v = Map.empty"
      using V2 w assms(2) empty_table by (auto simp: mgr_inv_def mgr_map_def heap_ok_def MAX_IP_LENGTH_def)
    have "runs P ?v w'" by (rule manager_rounds_runs(2) [OF run inv(1)])
    moreover have "mgr_ip ?v = ip" using V2(4) w(4) by simp
    ultimately show ?thesis using inv unfolding leads_to_def by blast
  qed
qed

text \<open>A system whose FIFOs answer every read with what was asked for.\<close>

definition generous_posix :: "sim posix" where
  "generous_posix = kind_posix\<lparr>px_read := \<lambda>fd n s. (Read (replicate n (CHR ''T'')), s)\<rparr>"

lemma generous_reads: "read_entire_message generous_posix fd 1 w = Some (1, ''T'', w)"
proof -
  have "sys_read generous_posix fd (nat 1) w = (Read ''T'', w)" by (simp add: sys_read_def generous_posix_def)
  moreover have "read_rest generous_posix fd 1 ''T'' 0 w = Some (1, ''T'', w)" by (subst read_rest.simps) simp
  ultimately show ?thesis by (simp add: read_entire_message_def)
qed

lemma manager_runs_in_steps_witness:
  "\<exists>w w' v. createNetworkManager generous_posix (replicate 16 (CHR ''1'')) (sim_world []) = (True, w)
     \<and> managerLoop generous_posix w = Some (0, w') \<and> mgr_inv v
     \<and> ((mgr_step generous_posix)\<^sup>*\<^sup>* v w'
        \<or> (\<exists>u u'. (mgr_step generous_posix)\<^sup>*\<^sup>* v u \<and> mgr_inv u \<and> breaks_order generous_posix u u' \<and> \<not> mgr_inv u'
             \<and> (any_op generous_posix)\<^sup>*\<^sup>* u' w'))"
proof -
  let ?ip = "replicate 16 (CHR ''1'')"
  obtain b w where c: "createNetworkManager generous_posix ?ip (sim_world []) = (b, w)" by fastforce
  note P = generous_posix_def kind_posix_def open_posix_def sim_posix_def
  have b: "b = True" and w: "mgr_sockets w = None" "ids w = Map.empty" "socks w = Map.empty" "mgr_ip w = ?ip"
    using c by (auto simp: createNetworkManager_def init_fifo_directory_def P sys_stat_def sys_new_def
        sys_malloc_def sys_mkdir_def MAX_IP_LENGTH_def sim_world_def split: if_splits)
  have res: "resourceful generous_posix" "fifos_open generous_posix"
    using kind_posix(1,2) by (simp_all add: generous_posix_def resourceful_def fifos_open_def)
  obtain r1 w1 where 1: "initialize_network_manager_fifos generous_posix w = (r1, w1)" by fastforce
  have r1: "r1 = 0" by (rule initialize_fifos_succeeds [OF res 1])
  obtain al w2 where 2: "sys_new generous_posix w1 = (al, w2)" by fastforce
  have al: "al" by (rule resourceful_calls(2) [OF res(1) 2])
  note h2 = same_heapD(1-4) [OF same_heap_trans [OF initialize_fifos_heap [OF 1] sys_same_heap(2) [OF 2]]]
  let ?v = "w2\<lparr>mgr_sockets := Some empty_table\<rparr>"
  have "mgr_inv ?v" using h2 w empty_table by (auto simp: mgr_inv_def heap_ok_def MAX_IP_LENGTH_def)
  from manager_rounds_end [OF this generous_reads] obtain w' where "manager_rounds generous_posix ?v = Some (0, w')" by blast
  then have m: "managerLoop generous_posix w = Some (0, w')"
    using w(1) 1 r1 2 al by (simp add: managerLoop_def empty_table_def createHashMap_def)
  have e: "ids (sim_world []) = Map.empty" "socks (sim_world []) = Map.empty" by (simp_all add: sim_world_def)
  have "NUL \<notin> set ?ip" by simp
  from manager_runs_in_steps [OF c [unfolded b] this e m] show ?thesis using c b m by (elim disjE conjE exE) (simp_all, blast+)
qed

text \<open>
  C22. The manager ends when it is told to.  When a byte waits in the terminate FIFO at the begin of a round,
  the loop returns success in that round: the visit of all sockets, in which their clients are told and
  their FIFOs removed, always ends, and it leaves the registered sockets and the table as they are.
\<close>

theorem manager_ends_on_request:
  assumes "mgr_inv w" and "read_laws P pend" and "pend (os w) (terminate_fifo_fd w) \<noteq> []"
  shows "\<exists>w'. manager_rounds P w = Some (0, w') \<and> mgr_inv w' \<and> mgr_map w' = mgr_map w
    \<and> (\<forall>b. registered w b \<longrightarrow> socks w' b = socks w b)"
proof -
  have "1 \<le> int (length (pend (os w) (terminate_fifo_fd w)))"
    using assms(3) by (cases "pend (os w) (terminate_fifo_fd w)") auto
  then obtain bs w1 where "read_entire_message P (terminate_fifo_fd w) 1 w = Some (1, bs, w1)"
    using read_entire_message_complete [OF assms(2), of 1 w "terminate_fifo_fd w"] by auto
  from manager_rounds_end [OF assms(1) this] obtain w' where m: "manager_rounds P w = Some (0, w')" and q: "quiet w w'" by blast
  show ?thesis using m quietD(2,3) [OF q] quietD(7) [OF q] by blast
qed

lemma manager_ends_on_request_witness:
  "\<exists>w w'. manager_rounds sim_posix w = Some (0, w') \<and> mgr_inv w' \<and> mgr_map w' = [example_key \<mapsto> 2]"
proof -
  let ?w = "(example_manager LISTEN)\<lparr>os := sim_boot\<lparr>sim_files := [(''f'', ''T'')], sim_fds := [(- 1, ''f'')]\<rparr>\<rparr>"
  have K: "keeps (example_manager LISTEN) ?w" by (rule same_heap_keeps [OF example_manager(1)]) (simp add: same_heap_def)
  have "terminate_fifo_fd ?w = - 1"
    by (simp add: example_manager_def example_world_def mgr_insertSocket_def sim_world_def upd_sock_def split: prod.splits)
  then have "sim_pend (os ?w) (terminate_fifo_fd ?w) \<noteq> []" by (simp add: sim_pend_def sim_tgt_def)
  from manager_ends_on_request [OF keepsD(1) [OF K] sim_read_laws this]
  show ?thesis using keepsD(2) [OF K] example_manager(4) by metis
qed

end
