(* ===== verification/Wire.thy ===== *)
theory Wire imports Packet_Steps Read_Loops begin

text \<open>
  From one manager to another: what \<open>send_TCP_packet\<close> of one process writes into the packet FIFO is what
  \<open>read_ip_packet_from_file\<close> and \<open>handle_incoming_ip_packet\<close> of the other make of it
  (src/network_manager/network_manager.c, over src/tcp.c and src/ip.c).
\<close>

section \<open>The length column\<close>

text \<open>
  \<open>str_to_ip\<close> reads the length with \<open>str_to_int\<close>, \<open>read_ip_packet_from_file\<close> with \<open>sscanf\<close>: both read the
  digits that \<open>int_to_str\<close> makes.
\<close>

lemma dec_value_Cons: "dec_value (c # ds) = (of_char c - 48) * 10 ^ length ds + dec_value ds"
proof (induction ds rule: rev_induct)
  case Nil
  then show ?case by (simp add: dec_value_def)
next
  case (snoc d ds)
  have "dec_value (c # ds @ [d]) = 10 * dec_value (c # ds) + (of_char d - 48)"
    using dec_value_snoc [of "c # ds" d] by simp
  then show ?case using snoc by simp
qed

lemma digit_cases: "0 \<le> x \<Longrightarrow> x < 10 \<Longrightarrow> \<exists>e. x = int e \<and> e < 10"
  by (intro exI [of _ "nat x"]) simp

lemma int_to_str_dec:
  assumes "0 \<le> n"
  shows "\<forall>c \<in> set (int_to_str k n). \<exists>d < 10. c = digit_char d"
    and "int (dec_value (int_to_str k n)) = n mod 10 ^ k"
proof -
  have "(\<forall>c \<in> set (int_to_str_loop k (10 ^ k) n). \<exists>d < 10. c = digit_char d)
      \<and> int (dec_value (int_to_str_loop k (10 ^ k) n)) = n mod 10 ^ k"
  proof (induction k)
    case 0
    then show ?case by (simp add: dec_value_def)
  next
    case (Suc k)
    obtain e where d: "(n mod 10 ^ Suc k) div 10 ^ k = int e" "e < 10"
      using digit_cases [OF top_digit(1,2)] by blast
    have c: "char_of ((n mod 10 ^ Suc k) div 10 ^ k + 48) = digit_char e"
      unfolding d(1) digit_char_def by (metis add.commute char_of_nat of_nat_add of_nat_numeral)
    have len: "length (int_to_str_loop k (10 ^ k) n) = k"
      using length_int_to_str [of k n] by (simp add: int_to_str_def)
    have "int (dec_value (digit_char e # int_to_str_loop k (10 ^ k) n)) = n mod 10 ^ Suc k"
    proof -
      have "int (dec_value (digit_char e # int_to_str_loop k (10 ^ k) n)) = int e * 10 ^ k + n mod 10 ^ k"
        using conjunct2 [OF Suc] d(2) by (simp add: dec_value_Cons len)
      then show ?thesis using d(1) top_digit(3) [where n = n and k = k] by (simp only:)
    qed
    moreover have "\<forall>c \<in> set (digit_char e # int_to_str_loop k (10 ^ k) n). \<exists>d < 10. c = digit_char d"
      using conjunct1 [OF Suc] d(2) by (simp del: power_Suc) blast
    ultimately show ?case by (simp only: int_to_str_step [OF assms] c simp_thms)
  qed
  then show "\<forall>c \<in> set (int_to_str k n). \<exists>d < 10. c = digit_char d"
    and "int (dec_value (int_to_str k n)) = n mod 10 ^ k"
    by (simp_all add: int_to_str_def)
qed

lemma scan_int_to_str:
  assumes "0 \<le> n" and "n < 10 ^ k" and "0 < k"
  shows "scan_d (int_to_str k n) = Some (n, [])"
proof -
  have ne: "int_to_str k n \<noteq> []" using assms(3) length_int_to_str by (metis length_greater_0_conv)
  have "int (dec_value (int_to_str k n)) = \<bar>n\<bar>" using int_to_str_dec(2) [OF assms(1)] assms by simp
  from scan_int_signed [OF int_to_str_dec(1) [OF assms(1)] ne this, of k "[]" 0] show ?thesis
    using assms(1) by (simp add: scan_d_def sign_str_def)
qed

section \<open>Sending\<close>

text \<open>The text of a segment with data \<open>d\<close> on its way between two managers.\<close>

definition segment_wire :: "string \<Rightarrow> string \<Rightarrow> TCPPacket \<Rightarrow> string \<Rightarrow> string" where
  "segment_wire src dst p d = ip_wire (91 + int (length d)) src dst 5 (tcp_head p @ d)"

definition manager_text :: "string \<Rightarrow> bool" where
  "manager_text ip \<longleftrightarrow> length ip = 16 \<and> NUL \<notin> set ip"

lemma sys_create_ip_packet_resourceful:
  assumes P: "resourceful P" and ip: "manager_text src" "manager_text dst"
    and c: "sys_create_ip_packet P src dst data w = (r, w')"
  shows "\<exists>b m. sys_malloc P 56 w = (m, w') \<and> r = Some \<lparr>total_length = 50 + int (length data),
     ip_src_ip = strcpy1 (block_cells b 17) (src @ [NUL]) 16,
     ip_dst_ip = strcpy1 (block_cells b 17) (dst @ [NUL]) 16, header_checksum = 5, ip_data = Some data\<rparr>"
proof -
  obtain m w1 where m: "sys_malloc P 56 w = (m, w1)" by fastforce
  obtain b where "m = Some b" using resourceful_calls(1) [OF P m] by blast
  then show ?thesis
    using c ip m by (auto simp: sys_create_ip_packet_def create_ip_packet_def calc_ip_checksum_def manager_text_def)
qed

lemma send_TCP_packet_writes:
  assumes P: "resourceful P" "fifos_open P" "fifo_laws P out tgt"
    and p: "tcp_sane p" "tcp_data p = Some d" "NUL \<notin> set d"
    and ip: "manager_text (mgr_ip w)" "manager_text (cstr to_ip)"
    and s: "send_TCP_packet P (Some p) to_ip w = (r, w')"
  shows "r = 0" and "same_heap w w'"
    and "out (os w') = (let path = fifo_path IN_PACKET_FIFO_PREFIX (cstr to_ip)
           in (out (os w))(path := out (os w) path @ segment_wire (mgr_ip w) (cstr to_ip) p d))"
proof -
  let ?text = "tcp_head p @ d"
  obtain m1 w1 where 1: "sys_malloc P (41 + length d + 1) w = (m1, w1)" by fastforce
  obtain b where b: "m1 = Some b" using resourceful_calls(1) [OF P(1) 1] by blast
  have t: "tcp_to_str P p w = (Some ?text, w1)" by (rule tcp_to_str_sane [OF p 1 [unfolded b]])
  have lt: "length ?text = 41 + length d" using length_tcp_head [OF p(1)] by simp
  have h1: "same_heap w w1" using 1 by blast
  obtain ipp w2 where 2: "sys_create_ip_packet P (mgr_ip w1) (cstr to_ip) ?text w1 = (ipp, w2)" by fastforce
  have ip1: "mgr_ip w1 = mgr_ip w" using same_heapD(4) [OF h1] .
  obtain b2 m2 where c2: "sys_malloc P 56 w1 = (m2, w2)" "ipp = Some \<lparr>total_length = 50 + int (length ?text),
     ip_src_ip = strcpy1 (block_cells b2 17) (mgr_ip w @ [NUL]) 16,
     ip_dst_ip = strcpy1 (block_cells b2 17) (cstr to_ip @ [NUL]) 16, header_checksum = 5, ip_data = Some ?text\<rparr>"
    using sys_create_ip_packet_resourceful [OF P(1) ip 2 [unfolded ip1]] by blast
  define q where "q = the ipp"
  have q: "ipp = Some q" "take 16 (ip_src_ip q) = mgr_ip w" "length (ip_src_ip q) = 17"
      "take 16 (ip_dst_ip q) = cstr to_ip" "length (ip_dst_ip q) = 17" "header_checksum q = 5"
      "ip_data q = Some ?text" "total_length q = 50 + int (length ?text)"
    using c2(2) ip by (auto simp: q_def strcpy1_exact manager_text_def)
  obtain str w3 where 3: "sys_ip_to_str P q w2 = (str, w3)" by fastforce
  obtain m3 where m3: "sys_malloc P (nat (total_length q) + 1) w2 = (m3, w3)" "str = ip_to_str m3 q"
    using 3 by (auto simp: sys_ip_to_str_def split: prod.splits)
  obtain b3 where b3: "m3 = Some b3" using resourceful_calls(1) [OF P(1) m3(1)] by blast
  have chk: "sint (5 :: c_int) = 5" by simp
  have "str = Some (ip_wire (total_length q) (mgr_ip w) (cstr to_ip) 5 ?text)"
    using ip_to_str_wire [of q ?text b3] q ip tcp_head_no_NUL [OF p(1)] p(3) chk m3(2) b3
    by (simp add: manager_text_def)
  then have str: "str = Some (segment_wire (mgr_ip w) (cstr to_ip) p d)"
    using q(8) lt by (simp add: segment_wire_def)
  have h3: "same_heap w w3" using same_heap_trans [OF h1] c2(1) m3(1) same_heap_trans by blast
  obtain nm w4 where 4: "get_in_packet_fifo_name P (cstr to_ip) w3 = (nm, w4)" by fastforce
  let ?path = "fifo_path IN_PACKET_FIFO_PREFIX (cstr to_ip)"
  have nm: "nm = Some ?path" using resourceful_name [OF P(1) 4 [unfolded get_in_packet_fifo_name_def]] .
  have out4: "out (os w4) = out (os w)"
    using construct_full_fifo_name_spec(3) [OF 4 [unfolded get_in_packet_fifo_name_def] P(3)]
      fifo_laws_simps(1) [OF P(3) 1] fifo_laws_simps(1) [OF P(3) c2(1)] fifo_laws_simps(1) [OF P(3) m3(1)] by simp
  obtain fd w5 where 5: "sys_open P ?path O_RDWR w4 = (fd, w5)" by fastforce
  obtain n w6 where 6: "sys_write P fd (segment_wire (mgr_ip w) (cstr to_ip) p d) w5 = (n, w6)" by fastforce
  note F = full_write [OF P(3,2) 5 6]
  have res: "r = 0 \<and> w' = sys_close P fd w6"
    using s t 2 q(1) 3 str 4 nm 5 6 F(1,2) by (simp add: send_TCP_packet_def)
  then show "r = 0" by simp
  show "same_heap w w'" using same_heap_trans [OF same_heap_trans [OF h3 fifo_name_heap(10) [OF 4]] F(4)] res by simp
  show "out (os w') = (let path = ?path
           in (out (os w))(path := out (os w) path @ segment_wire (mgr_ip w) (cstr to_ip) p d))"
    using F(3) out4 res by (simp add: Let_def)
qed

section \<open>Receiving\<close>

text \<open>Allocating memory leaves the FIFOs alone.\<close>

definition memory_apart :: "'s posix \<Rightarrow> ('s \<Rightarrow> int \<Rightarrow> string) \<Rightarrow> bool" where
  "memory_apart P pend \<longleftrightarrow> (\<forall>n s. pend (snd (px_malloc P n s)) = pend s)"

lemma memory_apart_malloc: "memory_apart P pend \<Longrightarrow> sys_malloc P n w = (m, w') \<Longrightarrow> pend (os w') = pend (os w)"
  by (auto simp: memory_apart_def sys_malloc_def split: prod.splits) (metis snd_conv)

lemma length_segment_wire:
  assumes "manager_text src" and "manager_text dst" and "tcp_sane p"
  shows "length (segment_wire src dst p d) = 91 + length d"
  using assms length_tcp_head [OF assms(3)] by (simp add: segment_wire_def ip_wire_def manager_text_def)

lemma segment_wire_no_NUL:
  assumes "manager_text src" and "manager_text dst" and "tcp_sane p" and "NUL \<notin> set d"
  shows "NUL \<notin> set (segment_wire src dst p d)"
proof -
  have "NUL \<notin> set (int_to_str k n)" if "0 \<le> n" for k n using int_to_str_digits(1) [OF that] .
  then show ?thesis
    using assms tcp_head_no_NUL [OF assms(3)] by (simp add: segment_wire_def ip_wire_def manager_text_def)
qed

lemma sys_str_to_ip_wire:
  assumes P: "resourceful P" and ip: "manager_text src" "manager_text dst" and p: "tcp_sane p" "NUL \<notin> set d"
    and short: "length d < 2147483556" and s: "sys_str_to_ip P (segment_wire src dst p d) w = (r, w')"
  shows "\<exists>q. r = Some q \<and> cstr (ip_src_ip q) = src \<and> cstr (ip_dst_ip q) = dst \<and> header_checksum q = 5
      \<and> ip_data q = Some (tcp_head p @ d)"
    and "memory_apart P pend \<Longrightarrow> pend (os w') = pend (os w)" and "same_heap w w'"
proof -
  let ?data = "tcp_head p @ d" and ?wire = "segment_wire src dst p d"
  have ld: "length ?data = 41 + length d" using length_tcp_head [OF p(1)] by simp
  have w: "?wire = ip_wire (50 + int (length ?data)) src dst 5 ?data" using ld by (simp add: segment_wire_def)
  have ne: "?data \<noteq> []" using ld by auto
  obtain m w1 where m: "sys_malloc P 56 w = (m, w1)" by fastforce
  obtain b where b: "m = Some b" using resourceful_calls(1) [OF P m] by blast
  have "str_to_int (?wire @ [NUL]) 10 = word_of_int (50 + int (length ?data))"
    unfolding w ip_wire_def append_assoc using ld short by (intro str_to_int_of_int_to_str) auto
  then have "ip_data_size ?wire = sint (word_of_int (int (length ?data)) :: c_int)" by (simp add: ip_data_size_def)
  moreover have "sint (word_of_int (int (length ?data)) :: c_int) = int (length ?data)"
    by (rule sint_word_of_int_32) (use ld short in auto)
  ultimately have sz: "ip_data_size ?wire = int (length ?data)" by (simp only:)
  have l50: "length ?wire \<ge> 50" using length_segment_wire [OF ip p(1)] by simp
  have pos: "int (length ?data) > 0" using ld by linarith
  obtain dm w2 where dm: "sys_malloc P (nat (int (length ?data)) + 1) w1 = (dm, w2)" by fastforce
  obtain b' where b': "dm = Some b'" using resourceful_calls(1) [OF P dm] by blast
  from str_to_ip_wire [of src dst ?data 5 b b'] ip ne ld short p(2) tcp_head_no_NUL [OF p(1)] obtain q where
    q: "str_to_ip (Some b) (Some b') ?wire = Returns (Some q)" "ip_src_ip q = src @ [NUL]" "ip_dst_ip q = dst @ [NUL]"
      "header_checksum q = word_of_int 5" "ip_data q = Some ?data"
    unfolding w by (auto simp: manager_text_def)
  have res: "r = Some q \<and> w' = w2" using s m b l50 sz pos dm b' q(1) by (simp add: sys_str_to_ip_def)
  then show "\<exists>q. r = Some q \<and> cstr (ip_src_ip q) = src \<and> cstr (ip_dst_ip q) = dst \<and> header_checksum q = 5
      \<and> ip_data q = Some ?data"
    using q ip by (auto simp: manager_text_def)
  show "memory_apart P pend \<Longrightarrow> pend (os w') = pend (os w)"
    using memory_apart_malloc m dm res by metis
  show "same_heap w w'" using res same_heap_trans m dm by blast
qed

lemma read_ip_packet_reads:
  assumes P: "resourceful P" "read_laws P pend" "memory_apart P pend"
    and ip: "manager_text src" "manager_text dst" and p: "tcp_sane p" "NUL \<notin> set d"
    and short: "length d < 2147483556" and wait: "pend (os v) fd = segment_wire src dst p d @ rest"
  shows "\<exists>q v'. read_ip_packet_from_file P fd v = Some (Some q, v') \<and> same_heap v v' \<and> pend (os v') fd = rest
    \<and> cstr (ip_src_ip q) = src \<and> cstr (ip_dst_ip q) = dst \<and> header_checksum q = 5 \<and> ip_data q = Some (tcp_head p @ d)"
proof -
  let ?wire = "segment_wire src dst p d" and ?n = "91 + int (length d)"
  define head where "head = int_to_str 10 ?n"
  define tail where "tail = drop 10 ?wire"
  have lw: "length ?wire = 91 + length d" by (rule length_segment_wire [OF ip p(1)])
  have lh: "length head = 10" by (simp add: head_def)
  have wire: "?wire = head @ tail"
    by (simp add: head_def tail_def segment_wire_def ip_wire_def)
  have "length head + length tail = 91 + length d" using lw wire by (metis length_append)
  then have lt: "length tail = 81 + length d" using lh by simp
  have nul: "NUL \<notin> set ?wire" by (rule segment_wire_no_NUL [OF ip p])
  then have "cstr head = head" using wire by simp
  moreover have "scan_d head = Some (?n, [])" unfolding head_def using short by (intro scan_int_to_str) auto
  ultimately have scan: "scan_d (cstr head) = Some (?n, [])" by simp
  have n: "sint (scanned_int ?n) = ?n" "sint (scanned_int ?n + 1) = ?n + 1" "sint (scanned_int ?n - 10) = ?n - 10"
  proof -
    have s: "scanned_int ?n = word_of_int ?n" using short by (simp add: scanned_int_def)
    then have "scanned_int ?n + 1 = word_of_int (?n + 1)" "scanned_int ?n - 10 = word_of_int (?n - 10)" by simp_all
    then show "sint (scanned_int ?n) = ?n" "sint (scanned_int ?n + 1) = ?n + 1" "sint (scanned_int ?n - 10) = ?n - 10"
      unfolding s using short by (simp_all only: sint_word_of_int_32)
  qed
  obtain v1 where 1: "read_entire_message P fd 10 v = Some (10, head, v1)" "pend (os v1) fd = tail @ rest"
    using read_entire_message_complete [OF P(2), of 10 v fd] wait wire lh by auto
  obtain m v2 where 2: "sys_malloc P (nat (sint (scanned_int ?n + 1) mod 2 ^ 64)) v1 = (m, v2)" by fastforce
  obtain b where b: "m = Some b" using resourceful_calls(1) [OF P(1) 2] by blast
  have p2: "pend (os v2) fd = tail @ rest" using memory_apart_malloc [OF P(3) 2] 1(2) by simp
  obtain v3 where 3: "read_nonzero_entire_message P fd (?n - 10) v2 = Some (?n - 10, tail, v3)" "pend (os v3) fd = rest"
    using read_nonzero_entire_message_complete [OF P(2), of "?n - 10" v2 fd] p2 lt by (auto simp: nat_add_distrib)
  have whole: "cstr (take (nat ?n) (head @ tail)) = ?wire" using wire lw nul by (simp add: nat_add_distrib)
  obtain r v4 where 4: "sys_str_to_ip P ?wire v3 = (r, v4)" by fastforce
  note S = sys_str_to_ip_wire [OF P(1) ip p short 4]
  have h3: "same_heap v v3"
    using same_heap_trans [OF same_proc_heap same_heap_trans [OF sys_same_heap(1) [OF 2] same_proc_heap]]
      read_entire_message_same_proc [OF 1(1)] read_nonzero_entire_message_same_proc [OF 3(1)] by blast
  have "read_ip_packet_from_file P fd v = Some (r, v4)"
    using 1(1) scan 2 b 3(1) whole 4 n by (simp add: read_ip_packet_from_file_def)
  then show ?thesis
    using S(1) S(2) [OF P(3)] 3(2) same_heap_trans [OF h3 S(3)] by auto
qed

section \<open>Handing over\<close>

lemma fresh_incoming_id_exists:
  assumes "length (cstr (ip_src_ip q)) = 16" and "length (cstr (ip_dst_ip q)) = 16"
  obtains i where "fresh_incoming_id b q t = Returns i"
proof -
  have "length (src_ip (fresh_sockid b)) = 17" "length (dst_ip (fresh_sockid b)) = 17"
    by (simp_all add: fresh_sockid_def block_cells_def MAX_IP_LENGTH_def)
  then have W: "wf_ip (src_ip (init_empty_socket_id (fresh_sockid b)))" "wf_ip (dst_ip (init_empty_socket_id (fresh_sockid b)))"
    using wf_ip_set_empty by (simp_all add: init_empty_socket_id_def)
  have le: "length (cstr (ip_src_ip q)) \<le> 16" "length (cstr (ip_dst_ip q)) \<le> 16" using assms by simp_all
  note L = wf_ip_strcpy_lib(1) [OF W(1) le(2) cstr_no_NUL] and M = wf_ip_strcpy_lib(1) [OF W(2) le(1) cstr_no_NUL]
  show thesis by (rule that) (simp add: fresh_incoming_id_def Let_def L M)
qed

text \<open>
  What \<open>handle_incoming_ip_packet\<close> does before it looks for the socket: both checksums are tested, the segment is read
  and an identifier is made from its addresses; \<open>None\<close> when the packet is dropped.
\<close>

definition incoming_segment ::
  "'s posix \<Rightarrow> ip_packet \<Rightarrow> 's world \<Rightarrow> (addr \<times> TCPPacket \<times> 's world) option" where
  "incoming_segment P p w =
     (if calc_ip_checksum p \<noteq> header_checksum p \<or> cstr (ip_dst_ip p) \<noteq> mgr_ip w then None
      else let (tcp_packet, w1) = str_to_tcp P (ip_data p) w in
        case tcp_packet of
          None \<Rightarrow> None
        | Some t \<Rightarrow>
            if calc_checksum t \<noteq> tcp_checksum t then None
            else let (m, w2) = sys_malloc P 48 w1 in
              case m of
                None \<Rightarrow> None
              | Some b \<Rightarrow>
                (case fresh_incoming_id b p t of
                   Undefined \<Rightarrow> None
                 | Returns i \<Rightarrow> let (k, w3) = new_id i w2 in Some (k, t, w3)))"

lemma incoming_segment_handled:
  assumes "incoming_segment P p w = Some (k, t, v)"
  shows "handle_incoming_ip_packet P (Some p) w = (0, dispatch_segment P k t v)"
  using assms
  by (auto simp: incoming_segment_def handle_incoming_ip_packet_def Let_def
      split: if_splits prod.splits option.splits c_result.splits)

text \<open>A segment that can be read back is dispatched as it was sent.\<close>

lemma incoming_segment_arrives:
  assumes P: "resourceful P" and inv: "mgr_inv v"
    and q: "header_checksum q = 5" "length (cstr (ip_src_ip q)) = 16" "cstr (ip_dst_ip q) = mgr_ip v"
      "ip_data q = Some (tcp_head p @ d)"
    and p: "tcp_sane p" "separated (tcp_checksum p) d" "tcp_checksum p = calc_checksum p"
  shows "\<exists>k i v4 v'. incoming_segment P q v = Some (k, norm_data p d, v') \<and> same_heap v v4 \<and> wf_sockid i \<and> new_id i v4 = (k, v')
    \<and> mgr_getSocket (Some k) v' = mgr_map v (mgr_ip v, tcp_dst_port p, cstr (ip_src_ip q), tcp_src_port p)"
proof -
  let ?t = "norm_data p d"
  obtain al v1 where 1: "sys_new P v = (al, v1)" by fastforce
  have al: al using resourceful_calls(2) [OF P 1] .
  obtain m v2 where 2: "sys_malloc P (length d + 1) v1 = (m, v2)" by fastforce
  obtain b where b: "m = Some b" using resourceful_calls(1) [OF P 2] by blast
  define v3 where "v3 = (if d = [] then v1 else v2)"
  have tcp: "str_to_tcp P (ip_data q) v = (Some ?t, v3)"
    unfolding q(4) v3_def by (rule str_to_tcp_head [OF p(1,2)]) (use 1 al 2 b in auto)
  obtain m' v4 where 4: "sys_malloc P 48 v3 = (m', v4)" by fastforce
  obtain b' where b': "m' = Some b'" using resourceful_calls(1) [OF P 4] by blast
  have len: "length (cstr (ip_dst_ip q)) = 16" using q(3) mgr_invD(4) [OF inv] by simp
  obtain i where i: "fresh_incoming_id b' q ?t = Returns i" by (rule fresh_incoming_id_exists [OF q(2) len])
  note F = fresh_incoming_id [OF i]
  obtain k v5 where 5: "new_id i v4 = (k, v5)" by fastforce
  have h: "same_heap v v4" by (rule same_heap_trans [OF str_to_tcp_heap [OF tcp] sys_same_heap(1) [OF 4]])
  note q4 = quiet_same_heap [OF inv h]
  note q5 = quiet_trans [OF q4 quiet_new_id [OF quietD(2) [OF q4] F(1) 5]]
  have chk: "calc_checksum ?t = tcp_checksum ?t" using p(3) by (simp add: norm_data_def calc_checksum_def)
  have "incoming_segment P q v = Some (k, ?t, v5)"
    using q(1,3) tcp chk 4 b' i 5 by (simp add: incoming_segment_def calc_ip_checksum_def)
  moreover have "mgr_getSocket (Some k) v5 = mgr_map v (mgr_ip v, tcp_dst_port p, cstr (ip_src_ip q), tcp_src_port p)"
    using mgr_getSocket_map [OF quietD(2) [OF q5] keeps_new_id(2) [OF quietD(2) [OF q4] F(1) 5]] F(2) q(3) quietD(3) [OF q5]
    by (simp add: norm_data_def)
  ultimately show ?thesis using h F(1) 5 by blast
qed

lemma handle_incoming_ip_packet_dispatches:
  assumes P: "resourceful P" and inv: "mgr_inv v"
    and q: "header_checksum q = 5" "length (cstr (ip_src_ip q)) = 16" "cstr (ip_dst_ip q) = mgr_ip v"
      "ip_data q = Some (tcp_head p @ d)"
    and p: "tcp_sane p" "separated (tcp_checksum p) d" "tcp_checksum p = calc_checksum p"
  shows "\<exists>k v'. handle_incoming_ip_packet P (Some q) v = (0, dispatch_segment P k (norm_data p d) v')
    \<and> quiet v v' \<and> mgr_getSocket (Some k) v' = mgr_map v (mgr_ip v, tcp_dst_port p, cstr (ip_src_ip q), tcp_src_port p)"
proof -
  obtain k i v4 v' where I: "incoming_segment P q v = Some (k, norm_data p d, v')" "same_heap v v4" "wf_sockid i"
      "new_id i v4 = (k, v')"
      "mgr_getSocket (Some k) v' = mgr_map v (mgr_ip v, tcp_dst_port p, cstr (ip_src_ip q), tcp_src_port p)"
    using incoming_segment_arrives [OF P inv q p] by blast
  note q4 = quiet_same_heap [OF inv I(2)]
  note q5 = quiet_trans [OF q4 quiet_new_id [OF quietD(2) [OF q4] I(3,4)]]
  show ?thesis using incoming_segment_handled [OF I(1)] q5 I(5) by blast
qed

section \<open>Two managers\<close>

text \<open>A manager with one socket, whose packet FIFO is open as descriptor 3 and holds some bytes.\<close>

definition with_packets :: "string \<Rightarrow> sim" where
  "with_packets bs = sim_boot\<lparr>sim_files := [(''packets'', bs)], sim_fds := [(3, ''packets'')], sim_next_fd := 4\<rparr>"

definition bare_manager :: "string \<Rightarrow> sockid \<Rightarrow> socket \<Rightarrow> string \<Rightarrow> sim world" where
  "bare_manager ip i s bs = (sim_world ip)\<lparr>os := with_packets bs, ids := [0 \<mapsto> i], socks := [1 \<mapsto> s], next_addr := 2,
     in_packet_fifo_fd := 3\<rparr>"

definition lone_manager :: "string \<Rightarrow> sockid \<Rightarrow> socket \<Rightarrow> string \<Rightarrow> sim world" where
  "lone_manager ip i s bs = snd (mgr_insertSocket (Some 1) (bare_manager ip i s bs))"

lemma lone_manager:
  fixes bs :: string
  assumes "manager_text ip" and "wf_sockid i" and "socket_wf s" and "sk_id s = Some 0"
    and w_def: "w = lone_manager ip i s bs"
  shows "mgr_inv w" and "own_socket w 0 i 1 s" and "mgr_ip w = ip" and "os w = with_packets bs"
    and "in_packet_fifo_fd w = 3" and "mgr_map w = [sid_key i \<mapsto> 1]"
proof -
  let ?b = "bare_manager ip i s bs"
  have tab: "mgr_sockets ?b = Some empty_table"
    by (simp add: bare_manager_def sim_world_def empty_table_def createHashMap_def)
  have b: "ids ?b = [0 \<mapsto> i]" "socks ?b = [1 \<mapsto> s]" "next_addr ?b = 2" "mgr_ip ?b = ip" "os ?b = with_packets bs"
      "in_packet_fifo_fd ?b = 3"
    by (simp_all add: bare_manager_def sim_world_def)
  have inv: "mgr_inv ?b" "mgr_map ?b = Map.empty"
    using tab b empty_table assms(1-3)
    by (auto simp: mgr_inv_def mgr_map_def heap_ok_def manager_text_def MAX_IP_LENGTH_def split: if_splits)
  obtain x w' where r: "mgr_insertSocket (Some 1) ?b = (x, w')" by fastforce
  have s: "socks ?b 1 = Some s" "ids ?b 0 = Some i" using b by simp_all
  note I = mgr_insertSocket_spec [OF inv(1) s(1) assms(4) s(2) r]
  have x: x using I(1) inv(2) by simp
  have w: "w = w'" using r by (simp add: w_def lone_manager_def)
  have u: "ids w' = ids ?b" "socks w' = socks ?b" "mgr_ip w' = mgr_ip ?b" "os w' = os ?b" "in_packet_fifo_fd w' = in_packet_fifo_fd ?b"
    using I(4) by (metis world.select_convs world.surjective world.update_convs(6))+
  show "mgr_inv w" and m: "mgr_map w = [sid_key i \<mapsto> 1]" using I(2) [OF x] inv(2) w by simp_all
  show "own_socket w 0 i 1 s" using m u b w assms(4) by (simp add: own_socket_def)
  show "mgr_ip w = ip" "os w = with_packets bs" "in_packet_fifo_fd w = 3" using u b w by simp_all
qed

lemma with_packets: "sim_pend (with_packets bs) 3 = bs" "sim_out (with_packets bs) n = []"
  by (simp_all add: with_packets_def sim_pend_def sim_tgt_def sim_out_def sim_boot_def)

lemma kind_posix_reads: "read_laws kind_posix sim_pend" "memory_apart kind_posix sim_pend"
  "reads_write_nothing kind_posix sim_out" "only_writes_send kind_posix sim_out"
proof -
  show "read_laws kind_posix sim_pend"
    using sim_read_laws by (simp add: read_laws_def kind_posix_def open_posix_def sim_posix_def)
  show "memory_apart kind_posix sim_pend" "only_writes_send kind_posix sim_out"
    by (simp_all add: memory_apart_def only_writes_send_def kind_posix_def open_posix_def sim_posix_def sim_out_def fun_eq_iff)
  show "reads_write_nothing kind_posix sim_out"
    by (auto simp: reads_write_nothing_def kind_posix_def open_posix_def sim_posix_def sim_read_def sim_out_def fun_eq_iff
        split: option.splits)
qed

text \<open>The two ends of a connection between two hosts.\<close>

definition host :: "char \<Rightarrow> string" where "host c = replicate 16 c"

definition near_id :: sockid where
  "near_id = \<lparr>src_port = 80, dst_port = 9, src_ip = ip_cells (CHR ''1''), dst_ip = ip_cells (CHR ''2'')\<rparr>"

definition far_id :: sockid where
  "far_id = \<lparr>src_port = 9, dst_port = 80, src_ip = ip_cells (CHR ''2''), dst_ip = ip_cells (CHR ''1'')\<rparr>"

lemma example_ends [simp]:
  "manager_text (host (CHR ''1''))" "manager_text (host (CHR ''2''))" "wf_sockid near_id" "wf_sockid far_id"
  "sid_key near_id = (host (CHR ''1''), 80, host (CHR ''2''), 9)" "sid_key far_id = (host (CHR ''2''), 9, host (CHR ''1''), 80)"
  "cstr (dst_ip near_id) = host (CHR ''2'')" "src_port near_id = 80" "dst_port near_id = 9"
  by (simp_all add: manager_text_def host_def near_id_def far_id_def wf_sockid_def wf_ip_cells sid_key_def cstr_ip_cells)

section \<open>Properties\<close>

text \<open>
  C8. A segment that can be read back crosses the wire.  Let its fields fit their columns and some flag be set,
  its checksum be right, its data hold no NUL and not begin with a digit (or the checksum fill its column:
  otherwise C40 applies), and be shorter than two gigabytes.  On systems that refuse nothing, one manager's
  \<open>send_TCP_packet\<close> then succeeds and adds one text to the packet FIFO of the manager addressed, and to no other.
  When this text stands at the front of that manager's FIFO, whatever follows it, then the manager reads one
  packet, up to exactly the end of the text, however small the pieces that the system hands out, accepts both
  checksums, and hands the very segment that was sent to the socket registered for the connection between
  the sender's address and port and its own, or tries the listening socket when there is none.
\<close>

theorem segment_crosses_the_wire:
  assumes "mgr_inv w" and "mgr_inv v" and "mgr_ip v = cstr to_ip"
    and "resourceful P" and "fifos_open P" and "fifo_laws P out tgt" and "read_laws P pend" and "memory_apart P pend"
    and "tcp_sane p" and "tcp_data p = Some d" and "NUL \<notin> set d" and "length d < 2147483556"
    and "separated (tcp_checksum p) d" and "tcp_checksum p = calc_checksum p"
    and "path = fifo_path IN_PACKET_FIFO_PREFIX (cstr to_ip)"
    and "send_TCP_packet P (Some p) to_ip w = (r, w')" and "out (os w') path = out (os w) path @ sent"
    and "pend (os v) (in_packet_fifo_fd v) = sent @ rest"
  shows "r = 0 \<and> out (os w') = (out (os w))(path := out (os w) path @ sent)
    \<and> (\<exists>q v1 k v2. read_ip_packet_from_file P (in_packet_fifo_fd v) v = Some (Some q, v1)
        \<and> pend (os v1) (in_packet_fifo_fd v) = rest
        \<and> handle_incoming_ip_packet P (Some q) v1 = (0, dispatch_segment P k (norm_data p d) v2)
        \<and> quiet v v2
        \<and> mgr_getSocket (Some k) v2 = mgr_map v (mgr_ip v, tcp_dst_port p, mgr_ip w, tcp_src_port p))"
proof -
  have ip: "manager_text (mgr_ip w)" "manager_text (cstr to_ip)"
    using mgr_invD(4,5) [OF assms(1)] mgr_invD(4,5) [OF assms(2)] assms(3) by (simp_all add: manager_text_def)
  note S = send_TCP_packet_writes [OF assms(4-6,9-11) ip assms(16)]
  have sent: "sent = segment_wire (mgr_ip w) (cstr to_ip) p d" using S(3) assms(15,17) by (simp add: Let_def)
  obtain q v1 where R: "read_ip_packet_from_file P (in_packet_fifo_fd v) v = Some (Some q, v1)" "same_heap v v1"
      "pend (os v1) (in_packet_fifo_fd v) = rest" "cstr (ip_src_ip q) = mgr_ip w" "cstr (ip_dst_ip q) = cstr to_ip"
      "header_checksum q = 5" "ip_data q = Some (tcp_head p @ d)"
    using read_ip_packet_reads [OF assms(4,7,8) ip assms(9,11,12) assms(18) [unfolded sent]] by blast
  note q1 = quiet_same_heap [OF assms(2) R(2)]
  have len: "length (cstr (ip_src_ip q)) = 16" and dst: "cstr (ip_dst_ip q) = mgr_ip v1"
    using R(4,5) ip(1) quietD(6) [OF q1] assms(3) by (simp_all add: manager_text_def)
  obtain k v2 where H: "handle_incoming_ip_packet P (Some q) v1 = (0, dispatch_segment P k (norm_data p d) v2)"
      "quiet v1 v2" "mgr_getSocket (Some k) v2 = mgr_map v1 (mgr_ip v1, tcp_dst_port p, cstr (ip_src_ip q), tcp_src_port p)"
    using handle_incoming_ip_packet_dispatches [OF assms(4) quietD(2) [OF q1] R(6) len dst R(7) assms(9,13,14)] by blast
  have key: "mgr_getSocket (Some k) v2 = mgr_map v (mgr_ip v, tcp_dst_port p, mgr_ip w, tcp_src_port p)"
    using H(3) R(4) quietD(3,6) [OF q1] by simp
  have "out (os w') = (out (os w))(path := out (os w) path @ sent)" using S(3) assms(15) sent by (simp add: Let_def)
  then show ?thesis using S(1) R(1,3) H(1) quiet_trans [OF q1 H(2)] key by blast
qed

lemma segment_crosses_the_wire_witness:
  "\<exists>w' q v1 k v2. send_TCP_packet kind_posix (Some (example_segment ''hello'')) (dst_ip near_id)
       (lone_manager (host (CHR ''1'')) near_id (example_socket 0) []) = (0, w')
     \<and> read_ip_packet_from_file kind_posix 3 (lone_manager (host (CHR ''2'')) far_id (example_socket 0)
          (sim_out (os w') (fifo_path IN_PACKET_FIFO_PREFIX (host (CHR ''2''))))) = Some (Some q, v1)
     \<and> handle_incoming_ip_packet kind_posix (Some q) v1 = (0, dispatch_segment kind_posix k (example_segment ''hello'') v2)
     \<and> mgr_getSocket (Some k) v2 = Some 1"
proof -
  have s: "socket_wf (example_socket 0)" "sk_id (example_socket 0) = Some 0"
    by (rule socket_wf_example) (simp add: example_socket_def)
  let ?w = "lone_manager (host (CHR ''1'')) near_id (example_socket 0) []" and ?p = "example_segment ''hello''"
  let ?path = "fifo_path IN_PACKET_FIFO_PREFIX (cstr (dst_ip near_id))"
  note W = lone_manager [OF example_ends(1,3) s refl, of "[]"]
  obtain r w' where 1: "send_TCP_packet kind_posix (Some ?p) (dst_ip near_id) ?w = (r, w')" by fastforce
  let ?sent = "sim_out (os w') ?path"
  let ?v = "lone_manager (host (CHR ''2'')) far_id (example_socket 0) ?sent"
  note V = lone_manager [OF example_ends(2,4) s refl, of ?sent]
  have sep: "separated (tcp_checksum ?p) ''hello''" by (simp add: separated_def is_digit_def)
  have chk: "tcp_checksum ?p = calc_checksum ?p" using example_segment(3,4) [of "''hello''"] by simp
  have ip: "mgr_ip ?v = cstr (dst_ip near_id)" using V(3) by simp
  have sent: "sim_out (os w') ?path = sim_out (os ?w) ?path @ ?sent" using W(4) with_packets(2) by simp
  have pend: "sim_pend (os ?v) (in_packet_fifo_fd ?v) = ?sent @ []" using V(4,5) with_packets(1) by simp
  have d: "NUL \<notin> set ''hello''" "length ''hello'' < 2147483556" by simp_all
  from segment_crosses_the_wire [OF W(1) V(1) ip kind_posix(1-3) kind_posix_reads(1,2) example_segment(1,2) d sep chk refl 1 sent pend]
  obtain q v1 k v2 where R: "r = 0" "read_ip_packet_from_file kind_posix (in_packet_fifo_fd ?v) ?v = Some (Some q, v1)"
      "handle_incoming_ip_packet kind_posix (Some q) v1 = (0, dispatch_segment kind_posix k (norm_data ?p ''hello'') v2)"
      "mgr_getSocket (Some k) v2 = mgr_map ?v (mgr_ip ?v, tcp_dst_port ?p, mgr_ip ?w, tcp_src_port ?p)"
    by blast
  have "norm_data ?p ''hello'' = ?p" by (simp add: norm_data_def example_segment(2))
  moreover have "tcp_dst_port ?p = 9" "tcp_src_port ?p = 80" by (simp_all add: example_segment_def Let_def)
  ultimately show ?thesis using R 1 V(3,5,6) W(3) by (intro exI [of _ w'] exI [of _ q] exI [of _ v1] exI [of _ k] exI [of _ v2]) simp
qed

end
