(* ===== verification/End_To_End.thy ===== *)
theory End_To_End imports Wire Delivery begin

text \<open>
  Data on its way from one user to the other: what \<open>check_and_handle_send_window\<close> of
  src/network_manager/network_manager.c sends again and again, and what it comes to at the other end, through
  the packet FIFO, the connection of the other manager and the FIFO of its user.
\<close>

section \<open>The data of the next segment\<close>

text \<open>At most 128 bytes from the front of the send window, up to the first NUL.\<close>

definition next_piece :: "queue \<Rightarrow> string" where
  "next_piece q = take 128 (cstr (queue_list q))"

lemma next_piece_no_NUL: "NUL \<notin> set (next_piece q)"
  unfolding next_piece_def by (meson cstr_no_NUL in_set_takeD)

lemma next_piece_loop:
  assumes "length acc < 128"
  shows "for_each_list (\<lambda>data item. (data @ [item], length data + 1 = MAX_DATA_PER_PACKET)) xs acc
    = acc @ take (128 - length acc) (cstr xs)"
  using assms
proof (induction xs arbitrary: acc)
  case (Cons x xs)
  show ?case
  proof (cases "x = NUL \<or> length acc = 127")
    case False
    then have "128 - length acc = Suc (128 - length (acc @ [x]))" using Cons.prems by simp
    then show ?thesis
      using Cons False by (simp add: QUEUE_EMPTY_ELEMENT_def MAX_DATA_PER_PACKET_def cstr_Cons)
  qed (auto simp: QUEUE_EMPTY_ELEMENT_def MAX_DATA_PER_PACKET_def cstr_Cons)
qed simp

lemma next_data_cases:
  assumes s: "socks w a = Some s" "send_window s = Some q" "queue_inv q"
    and g: "get_next_socket_packet_data P a w = (d, w')" and m: "sys_malloc P (MAX_DATA_PER_PACKET + 1) w = (m, w1)"
  shows "m = None \<and> d = None \<and> w' = w1 \<or> m \<noteq> None \<and> d = Some (next_piece q)
    \<and> (\<exists>j. w' = upd_sock a (\<lambda>s. s\<lparr>send_window := Some (q\<lparr>q_iterator := j\<rparr>)\<rparr>) w1)"
proof -
  have s1: "sock_at w1 a = s" "sock_at w a = s" using s(1) same_heapD(2) [OF sys_same_heap(1) [OF m]] by (simp_all add: sock_at_def)
  let ?body = "\<lambda>data item. (data @ [item], length data + 1 = MAX_DATA_PER_PACKET)"
  obtain j where "QUEUE_FOR_EACH ?body [] (Some q) = (for_each_list ?body (queue_list q) [], Some (q\<lparr>q_iterator := j\<rparr>))"
    using QUEUE_FOR_EACH_eq [OF s(3), of ?body "[]"] by blast
  then have F: "QUEUE_FOR_EACH ?body [] (Some q) = (next_piece q, Some (q\<lparr>q_iterator := j\<rparr>))"
    using next_piece_loop [of "[]" "queue_list q"] by (simp add: next_piece_def)
  show ?thesis
  proof (cases m)
    case (Some b)
    then have "d = Some (next_piece q) \<and> w' = upd_sock a (\<lambda>s. s\<lparr>send_window := Some (q\<lparr>q_iterator := j\<rparr>)\<rparr>) w1"
      using g s(2) s1 m F by (simp add: get_next_socket_packet_data_def)
    then show ?thesis using Some by blast
  qed (use g s(2) s1 m in \<open>simp add: get_next_socket_packet_data_def\<close>)
qed

lemma get_next_socket_packet_data_piece:
  assumes P: "resourceful P" and s: "socks w a = Some s" "send_window s = Some q" "queue_inv q"
    and g: "get_next_socket_packet_data P a w = (d, w')"
  shows "d = Some (next_piece q)"
    and "\<exists>j m w1. sys_malloc P (MAX_DATA_PER_PACKET + 1) w = (m, w1)
      \<and> w' = upd_sock a (\<lambda>s. s\<lparr>send_window := Some (q\<lparr>q_iterator := j\<rparr>)\<rparr>) w1"
proof -
  obtain m w1 where m: "sys_malloc P (MAX_DATA_PER_PACKET + 1) w = (m, w1)" by fastforce
  note N = next_data_cases [OF s g m]
  have "m \<noteq> None" using resourceful_calls(1) [OF P m] by blast
  then show "d = Some (next_piece q)"
    and "\<exists>j m w1. sys_malloc P (MAX_DATA_PER_PACKET + 1) w = (m, w1)
      \<and> w' = upd_sock a (\<lambda>s. s\<lparr>send_window := Some (q\<lparr>q_iterator := j\<rparr>)\<rparr>) w1"
    using N m by blast+
qed

text \<open>The segment that carries data from the front of the window of a socket.\<close>

definition window_segment :: "sockid \<Rightarrow> socket \<Rightarrow> string \<Rightarrow> TCPPacket" where
  "window_segment i s d =
     (let p = \<lparr>tcp_src_port = src_port i, tcp_dst_port = dst_port i, tcp_seq_num = seq_of_first_send_window s,
               tcp_ack_num = seq_of_first_recv_window s, tcp_flags = ACK, tcp_checksum = 0, tcp_data = Some d\<rparr>
      in p\<lparr>tcp_checksum := calc_checksum p\<rparr>)"

lemma window_segment [simp]:
  "tcp_src_port (window_segment i s d) = src_port i" "tcp_dst_port (window_segment i s d) = dst_port i"
  "tcp_seq_num (window_segment i s d) = seq_of_first_send_window s" "tcp_data (window_segment i s d) = Some d"
  "tcp_checksum (window_segment i s d) = calc_checksum (window_segment i s d)"
  "established_segment (window_segment i s d)"
  by (simp_all add: window_segment_def Let_def calc_checksum_def established_segment_def has_flag_def SYN_def FIN_def
      RST_def ACK_def)

lemma construct_packet_resourceful:
  assumes P: "resourceful P" and s: "socks w a = Some s" "sk_id s = Some k" "ids w k = Some i"
    and c: "construct_packet P a d ACK (dst_port i) w = (r, w')"
  shows "r = Some (window_segment i s d)"
proof -
  obtain al w1 where 1: "sys_new P w = (al, w1)" by fastforce
  obtain m w2 where 2: "sys_malloc P (length d + 1) w1 = (m, w2)" by fastforce
  have al: al using resourceful_calls(2) [OF P 1] .
  obtain b where b: "m = Some b" using resourceful_calls(1) [OF P 2] by blast
  obtain p where p: "r = Some p" using c 1 al 2 b by (auto simp: construct_packet_def Let_def)
  have "p = window_segment i s d"
    using construct_packet_eq(1) [OF c [unfolded p]] s
    by (simp add: window_segment_def sock_at_def id_at_def Let_def)
  then show ?thesis using p by simp
qed

section \<open>Sending again\<close>

lemma check_and_handle_send_window_sends:
  assumes P: "resourceful P" "fifos_open P" "fifo_laws P out tgt" "only_writes_send P out"
    and inv: "mgr_inv w" and o: "own_socket w k i a s" and st: "sk_state s = ESTABLISED" "send_window s = Some q"
    and due: "DIFF2SEC_gt (fst (px_clock P (os w)) - last_send_clock s) SOCKET_SEND_AGAIN_TIME"
    and ip: "length (cstr (dst_ip i)) = 16" and sane: "tcp_sane (window_segment i s (next_piece q))"
    and c: "check_and_handle_send_window P k w = (r, w')"
  shows "out (os w') = (let path = fifo_path IN_PACKET_FIFO_PREFIX (cstr (dst_ip i))
      in (out (os w))(path := out (os w) path
           @ segment_wire (mgr_ip w) (cstr (dst_ip i)) (window_segment i s (next_piece q)) (next_piece q)))"
    and "\<exists>s' q'. socks w' a = Some s' \<and> send_window s' = Some q' \<and> queue_list q' = queue_list q"
proof -
  note O = own_socketD [OF inv o]
  let ?d = "next_piece q" and ?p = "window_segment i s (next_piece q)"
  obtain now w1 where 1: "sys_clock P w = (now, w1)" by fastforce
  have h1: "same_heap w w1" using 1 by blast
  have "now = fst (px_clock P (os w))" using 1 by (auto simp: sys_clock_def split: prod.splits)
  then have old: "older_than P (last_send_clock s) SOCKET_SEND_AGAIN_TIME w = (True, w1)"
    using 1 due by (simp add: older_than_def)
  have s1: "socks w1 a = Some s" using O(5) same_heapD(2) [OF h1] by simp
  have q: "queue_inv q" using mgr_invD(3) [OF inv O(5)] st(2) by (auto simp: socket_wf_def)
  obtain d w2 where 2: "get_next_socket_packet_data P a w1 = (d, w2)" by fastforce
  note N = get_next_socket_packet_data_piece [OF P(1) s1 st(2) q 2]
  obtain j m v1 where j: "sys_malloc P (MAX_DATA_PER_PACKET + 1) w1 = (m, v1)"
      "w2 = upd_sock a (\<lambda>s. s\<lparr>send_window := Some (q\<lparr>q_iterator := j\<rparr>)\<rparr>) v1" using N(2) by blast
  let ?s = "s\<lparr>send_window := Some (q\<lparr>q_iterator := j\<rparr>)\<rparr>"
  note V = same_heapD [OF same_heap_trans [OF h1 sys_same_heap(1) [OF j(1)]]]
  have s2: "socks w2 a = Some ?s" "ids w2 k = Some i" "mgr_ip w2 = mgr_ip w" using V O(3,5) j(2) by simp_all
  have seg: "window_segment i ?s ?d = ?p" by (simp add: window_segment_def)
  obtain r3 w3 where 3: "construct_packet P a ?d ACK (dst_port i) w2 = (r3, w3)" by fastforce
  have r3: "r3 = Some ?p" using construct_packet_resourceful [OF P(1) s2(1) _ s2(2) 3] O(6) seg by simp
  note H3 = same_heapD [OF construct_packet_heap [OF 3]]
  have s3: "sock_at w3 a = ?s" "id_at w3 k = i" "id_at w2 k = i" "socks w3 a = Some ?s"
    using s2 H3 by (simp_all add: sock_at_def id_at_def)
  have same: "?p\<lparr>tcp_seq_num := seq_of_first_send_window ?s, tcp_ack_num := seq_of_first_recv_window ?s\<rparr> = ?p"
    by (simp add: window_segment_def Let_def)
  obtain x w5 where 5: "send_TCP_packet P (Some ?p) (dst_ip i) w3 = (x, w5)" by fastforce
  have ips: "manager_text (mgr_ip w3)" "manager_text (cstr (dst_ip i))"
    using mgr_invD(4,5) [OF inv] s2(3) H3(4) ip by (simp_all add: manager_text_def)
  note S = send_TCP_packet_writes [OF P(1-3) sane _ next_piece_no_NUL ips 5, simplified]
  have w': "w' = stamp_last_send P a w5"
    using c O(9,8) st old 2 N(1) 3 r3 s3 same 5 S(1) by (simp add: check_and_handle_send_window_def Let_def)
  obtain t w6 where 6: "sys_clock P w5 = (t, w6)" by fastforce
  have "out (os w5) = (let path = fifo_path IN_PACKET_FIFO_PREFIX (cstr (dst_ip i))
      in (out (os w))(path := out (os w) path @ segment_wire (mgr_ip w) (cstr (dst_ip i)) ?p ?d))"
    using S(3) construct_packet_out(1) [OF P(3) 3] fifo_laws_simps(1) [OF P(3) j(1)] only_writes_send_calls(2) [OF P(4) 1]
      j(2) s2(3) H3(4) by simp
  then show "out (os w') = (let path = fifo_path IN_PACKET_FIFO_PREFIX (cstr (dst_ip i))
      in (out (os w))(path := out (os w) path @ segment_wire (mgr_ip w) (cstr (dst_ip i)) ?p ?d))"
    using only_writes_send_calls(2) [OF P(4) 6] 6 w' by (simp add: stamp_last_send_def)
  have "socks w' a = Some (?s\<lparr>last_send_clock := t\<rparr>)"
    using w' 6 same_heapD(2) [OF same_heap_trans [OF S(2) sys_same_heap(10) [OF 6]]] s3(4) by (simp add: stamp_last_send_def)
  then show "\<exists>s' q'. socks w' a = Some s' \<and> send_window s' = Some q' \<and> queue_list q' = queue_list q"
    by simp
qed

section \<open>Steps that leave a receiving connection alone\<close>

lemma receiving_heap:
  assumes "receiving out a k i msg base before n w" and "same_heap w w'" and "out (os w') (recv_path i) = out (os w) (recv_path i)"
  shows "receiving out a k i msg base before n w'"
  using assms same_heapD(2,6) [OF assms(2)] by (simp add: receiving_def)

lemma receiving_quiet:
  assumes rec: "receiving out a k i msg base before n w" and reg: "registered w a" "reg_id w k" and q: "quiet w w'"
    and out: "out (os w') = out (os w)"
  shows "receiving out a k i msg base before n w'"
  using rec quietD(7) [OF q reg(1)] quietD(8) [OF q reg(2)] out by (simp add: receiving_def id_at_def)

lemma receiving_stamp:
  "receiving out a k i msg base before n w \<Longrightarrow>
   receiving out a k i msg base before n (upd_sock a (\<lambda>s. s\<lparr>last_send_clock := now\<rparr>) w)"
  by (auto simp: receiving_def window_of_def wf_windows_def)

lemma receiving_free_id: "receiving out a k i msg base before n w \<Longrightarrow> l \<noteq> k \<Longrightarrow> receiving out a k i msg base before n (free_id l w)"
  by (auto simp: receiving_def free_id_def id_at_def)

lemma recv_path_no_packets: "recv_path i \<noteq> fifo_path IN_PACKET_FIFO_PREFIX x"
  by (simp add: recv_path_def socket_fifo_path_def fifo_path_def IN_DATA_SOCKET_FIFO_PREFIX_def IN_PACKET_FIFO_PREFIX_def)

lemma send_TCP_packet_elsewhere:
  assumes laws: "fifo_laws P out tgt" and s: "send_TCP_packet P (Some p) to_ip w = (r, w')"
    and n: "n \<noteq> fifo_path IN_PACKET_FIFO_PREFIX (cstr to_ip)"
  shows "out (os w') n = out (os w) n"
proof -
  obtain ts w1 where 1: "tcp_to_str P p w = (ts, w1)" by fastforce
  obtain ipp w2 where 2: "sys_create_ip_packet P (mgr_ip w1) (cstr to_ip) (the ts) w1 = (ipp, w2)" by fastforce
  obtain str w3 where 3: "sys_ip_to_str P (the ipp) w2 = (str, w3)" by fastforce
  obtain nm w4 where 4: "get_in_packet_fifo_name P (cstr to_ip) w3 = (nm, w4)" by fastforce
  obtain fd w5 where 5: "sys_open P (the nm) O_RDWR w4 = (fd, w5)" by fastforce
  obtain wr w6 where 6: "sys_write P fd (the str) w5 = (wr, w6)" by fastforce
  note L = fifo_laws_simps [OF laws]
  have o1: "out (os w1) = out (os w)"
    using 1 L(1) by (auto simp: tcp_to_str_def split: option.splits prod.splits if_splits)
  have o2: "out (os w2) = out (os w)"
    using 2 o1 L(1) by (auto simp: sys_create_ip_packet_def split: prod.splits if_splits c_result.splits)
  have o3: "out (os w3) = out (os w)" using 3 o2 L(1) by (auto simp: sys_ip_to_str_def split: prod.splits)
  note N = construct_full_fifo_name_spec [OF 4 [unfolded get_in_packet_fifo_name_def]]
  have o4: "out (os w4) = out (os w)" using N(3) [OF laws] o3 by simp
  have o5: "out (os w5) = out (os w)" using L(4) [OF 5] o4 by simp
  have o6: "out (os (sys_close P fd w6)) n = out (os w) n" if "nm \<noteq> None" "fd \<noteq> - 1"
  proof -
    have "tgt (os w5) fd = fifo_path IN_PACKET_FIFO_PREFIX (cstr to_ip)" using L(5) [OF 5 that(2)] N(2) that(1) by auto
    from laws 6 show ?thesis
      by (cases rule: fifo_laws_write) (use L(3) o5 n \<open>tgt (os w5) fd = _\<close> in auto)
  qed
  consider "w' = w1" | "w' = w2" | "w' = w3" | "w' = w4" | "w' = w5" | "w' = sys_close P fd w6" "nm \<noteq> None" "fd \<noteq> - 1"
    using s 1 2 3 4 5 6
    by (cases ts; cases ipp; cases str; cases nm; cases "fd = - 1") (auto simp: send_TCP_packet_def)
  then show ?thesis using o1 o2 o3 o4 o5 o6 by cases simp_all
qed

lemma receiving_answer_sent:
  assumes P: "fifo_laws P out tgt" "only_writes_send P out" and rec: "receiving out a k i msg base before n w"
  shows "receiving out a k i msg base before n (answer_sent P l a reply w)"
proof (cases reply)
  case None
  then show ?thesis using rec by (simp add: answer_sent_def)
next
  case (Some p)
  obtain r w1 where 1: "send_TCP_packet P (Some p) (dst_ip (id_at w l)) w = (r, w1)" by fastforce
  have r1: "receiving out a k i msg base before n w1"
    using receiving_heap [OF rec send_TCP_packet_heap [OF 1] send_TCP_packet_elsewhere [OF P(1) 1 recv_path_no_packets]] .
  obtain t w2 where 2: "sys_clock P w1 = (t, w2)" by fastforce
  have r2: "receiving out a k i msg base before n w2"
    by (rule receiving_heap [OF r1 sys_same_heap(10) [OF 2]]) (simp add: only_writes_send_calls(2) [OF P(2) 2])
  then show ?thesis using r1 1 2 Some receiving_stamp [OF r2] by (simp add: answer_sent_def)
qed

lemma reader_ready_open:
  assumes "resourceful P" and "fifos_open P"
  shows "reader_ready P n"
proof -
  have "fst (write_string_to_fifo_name P (Some n) bs w) = int (length bs)" for bs and w :: "'a world"
  proof -
    obtain fd w1 where 1: "sys_open P n O_WRONLY_NONBLOCK w = (fd, w1)" by fastforce
    obtain r w2 where 2: "sys_write P fd bs w1 = (r, w2)" by fastforce
    show ?thesis
      using fifos_open_calls(1) [OF assms(2) 1] fifos_open_calls(2) [OF assms(2) 2] 1 2
      by (simp add: write_string_to_fifo_name_def)
  qed
  then show ?thesis using assms(1) by (simp add: reader_ready_def resourceful_def)
qed

section \<open>What has been written when a packet is read\<close>

lemma sys_str_to_ip_out:
  "fifo_laws P out tgt \<Longrightarrow> sys_str_to_ip P s w = (r, w') \<Longrightarrow> out (os w') = out (os w)"
  by (auto simp: sys_str_to_ip_def fifo_laws_simps(1) split: prod.splits if_splits c_result.splits)

lemma read_ip_packet_out:
  assumes laws: "fifo_laws P out tgt" and quiet: "reads_write_nothing P out"
    and r: "read_ip_packet_from_file P fd w = Some (q, w')"
  shows "out (os w') = out (os w)"
proof -
  obtain n bs w1 where 1: "read_entire_message P fd 10 w = Some (n, bs, w1)"
    using r by (auto simp: read_ip_packet_from_file_def split: option.splits)
  have o1: "out (os w1) = out (os w)" using silent.entire [OF 1] quiet by blast
  show ?thesis
  proof (cases "n = 10 \<and> scan_d (cstr bs) \<noteq> None")
    case False
    then have "w' = w1"
      using r 1 by (cases "scan_d (cstr bs)") (auto simp: read_ip_packet_from_file_def split: if_splits)
    then show ?thesis using o1 by simp
  next
    case True
    then obtain x rest where x: "n = 10" "scan_d (cstr bs) = Some (x, rest)" by fastforce
    let ?len = "scanned_int x"
    obtain m w2 where 2: "sys_malloc P (nat (sint (?len + 1) mod 2 ^ 64)) w1 = (m, w2)" by fastforce
    have o2: "out (os w2) = out (os w)" using fifo_laws_simps(1) [OF laws 2] o1 by simp
    define w3 where "w3 = (if sint (?len + 1) < 10 then set_ub w2 else w2)"
    have o3: "out (os w3) = out (os w)" using o2 by (simp add: w3_def)
    show ?thesis
    proof (cases m)
      case None
      then have "w' = w2" using r 1 x 2 by (simp add: read_ip_packet_from_file_def Let_def)
      then show ?thesis using o2 by simp
    next
      case (Some b)
      obtain l tail w4 where 4: "read_nonzero_entire_message P fd (sint (?len - 10)) w3 = Some (l, tail, w4)"
        using r 1 x 2 Some by (auto simp: read_ip_packet_from_file_def Let_def w3_def split: option.splits)
      have o4: "out (os w4) = out (os w)" using silent.nonzero_entire [OF 4] quiet o3 by simp
      have "w' = w4 \<or> sys_str_to_ip P (cstr (take (nat (sint ?len)) (bs @ tail))) w4 = (q, w')"
        using r 1 x 2 Some 4 by (simp add: read_ip_packet_from_file_def Let_def w3_def [symmetric] split: if_splits)
      then show ?thesis using o4 sys_str_to_ip_out [OF laws] by auto
    qed
  qed
qed

lemma str_to_tcp_out:
  "fifo_laws P out tgt \<Longrightarrow> str_to_tcp P s w = (r, w') \<Longrightarrow> out (os w') = out (os w)"
  by (auto simp: str_to_tcp_def Let_def fifo_laws_simps(1,2) split: prod.splits if_splits option.splits)

section \<open>A segment handed to a connection\<close>

lemma incoming_segment_reaches_connection:
  assumes P: "resourceful P" "fifos_open P" "fifo_laws P out tgt" "only_writes_send P out"
    and inv: "mgr_inv v" and q: "header_checksum q = 5" "length (cstr (ip_src_ip q)) = 16" "cstr (ip_dst_ip q) = mgr_ip v"
      "ip_data q = Some (tcp_head p @ d)"
    and p: "tcp_sane p" "separated (tcp_checksum p) d" "tcp_checksum p = calc_checksum p" "d \<noteq> []" "established_segment p"
    and o: "own_socket v l j b t" and key: "sid_key j = (mgr_ip v, tcp_dst_port p, cstr (ip_src_ip q), tcp_src_port p)"
    and rec: "receiving out b l j msg base before n v" and short: "length msg < 2147483648"
    and piece: "piece_at msg base m (tcp_seq_num p) d" "m \<le> n"
    and h: "handle_incoming_ip_packet P (Some q) v = (x, v')"
  shows "\<exists>n'. n \<le> n' \<and> min (m + length d) (n + 1024) \<le> n' \<and> receiving out b l j msg base before n' v'"
proof -
  let ?t = "norm_data p d"
  note O = own_socketD [OF inv o]
  obtain al v1 where 1: "sys_new P v = (al, v1)" by fastforce
  have al: al using resourceful_calls(2) [OF P(1) 1] .
  obtain mm v2 where 2: "sys_malloc P (length d + 1) v1 = (mm, v2)" by fastforce
  obtain bb where bb: "mm = Some bb" using resourceful_calls(1) [OF P(1) 2] by blast
  have tcp: "str_to_tcp P (ip_data q) v = (Some ?t, v2)"
    unfolding q(4) using str_to_tcp_head [OF p(1,2) 1 [unfolded eqTrueI [OF al]]] 2 bb p(4) by simp
  obtain m' v4 where 4: "sys_malloc P 48 v2 = (m', v4)" by fastforce
  obtain b' where b': "m' = Some b'" using resourceful_calls(1) [OF P(1) 4] by blast
  have len: "length (cstr (ip_dst_ip q)) = 16" using q(3) mgr_invD(4) [OF inv] by simp
  obtain i where i: "fresh_incoming_id b' q ?t = Returns i" by (rule fresh_incoming_id_exists [OF q(2) len])
  note F = fresh_incoming_id [OF i]
  obtain k v5 where 5: "new_id i v4 = (k, v5)" by fastforce
  have h4: "same_heap v v4" by (rule same_heap_trans [OF str_to_tcp_heap [OF tcp] sys_same_heap(1) [OF 4]])
  note q4 = quiet_same_heap [OF inv h4]
  note q5 = quiet_trans [OF q4 quiet_new_id [OF quietD(2) [OF q4] F(1) 5]]
  note K = keeps_new_id [OF quietD(2) [OF q4] F(1) 5]
  have chk: "calc_checksum ?t = tcp_checksum ?t" using p(3) by (simp add: norm_data_def calc_checksum_def)
  have v': "v' = dispatch_segment P k ?t v5"
    using h q(1,3) tcp chk 4 b' i 5 by (simp add: handle_incoming_ip_packet_def calc_ip_checksum_def)
  have "mgr_getSocket (Some k) v5 = mgr_map v (sid_key j)"
    using mgr_getSocket_map [OF quietD(2) [OF q5] K(2)] F(2) q(3) quietD(3) [OF q5] key by (simp add: norm_data_def)
  then have g: "mgr_getSocket (Some k) v5 = Some b" using O(4) by simp
  have "out (os v5) = out (os v)"
    using K(8) fifo_laws_simps(1) [OF P(3) 4] str_to_tcp_out [OF P(3) tcp] by simp
  from receiving_quiet [OF rec O(1,2) q5 this] have r5: "receiving out b l j msg base before n v5" .
  have port: "dst_port j = tcp_src_port p" using key by (simp add: sid_key_def)
  have est: "established_segment ?t" "tcp_src_port ?t = dst_port j" "tcp_data ?t = Some d" "tcp_seq_num ?t = tcp_seq_num p"
    using p(4,5) port by (simp_all add: norm_data_def established_segment_def has_flag_def)
  obtain reply v6 where 6: "handle_packet P b ?t (src_ip (id_at v5 k)) v5 = (reply, v6)" by fastforce
  obtain n' where n': "n \<le> n'" "min (m + length d) (n + 1024) \<le> n'" "receiving out b l j msg base before n' v6"
    using receiving_handle_progress [OF P(3) reader_ready_open [OF P(1,2)] r5 est(1-3) piece(1) [folded est(4)] piece(2) short,
        of "src_ip (id_at v5 k)"] 6 by auto
  have "k \<noteq> l" using K(3) O(2) quietD(5) [OF q5] by auto
  then have "receiving out b l j msg base before n' v'"
    using receiving_free_id [OF receiving_answer_sent [OF P(3,4) n'(3)]] dispatch_segment_to [OF g 6] v' by simp
  then show ?thesis using n'(1,2) by blast
qed

section \<open>A connection with two bytes to send\<close>

definition sending_socket :: socket where
  "sending_socket = (example_socket 0)\<lparr>send_window := Some (queue_after [Enq (CHR ''h''), Enq (CHR ''i'')]),
     last_send_clock := - 10000000\<rparr>"

definition expecting_socket :: socket where
  "expecting_socket = (example_socket 0)\<lparr>seq_of_first_recv_window := 100\<rparr>"

definition sender :: "sim world" where
  "sender = lone_manager (host (CHR ''1'')) near_id sending_socket []"

definition receiver :: "string \<Rightarrow> sim world" where
  "receiver bs = lone_manager (host (CHR ''2'')) far_id expecting_socket bs"

lemma two_bytes: "queue_list (queue_after [Enq (CHR ''h''), Enq (CHR ''i'')]) = ''hi''"
    "next_piece (queue_after [Enq (CHR ''h''), Enq (CHR ''i'')]) = ''hi''"
proof -
  show q: "queue_list (queue_after [Enq (CHR ''h''), Enq (CHR ''i'')]) = ''hi''"
    using queue_after_inv(2) [of "[Enq (CHR ''h''), Enq (CHR ''i'')]"] by (simp add: DEFAULT_QUEUE_CAPACITY_def)
  show "next_piece (queue_after [Enq (CHR ''h''), Enq (CHR ''i'')]) = ''hi''" by (simp add: next_piece_def q)
qed

lemma sending_socket:
  "socket_wf sending_socket" "sk_id sending_socket = Some 0" "sk_state sending_socket = ESTABLISED"
  "send_window sending_socket = Some (queue_after [Enq (CHR ''h''), Enq (CHR ''i'')])"
  "last_send_clock sending_socket = - 10000000" "seq_of_first_send_window sending_socket = 100"
  using socket_wf_example [of 0] queue_after_inv(1)
  by (auto simp: sending_socket_def socket_wf_def wf_windows_def example_socket_def)

lemma expecting_socket:
  "socket_wf expecting_socket" "sk_id expecting_socket = Some 0" "sk_state expecting_socket = ESTABLISED"
  "window_of ''hi'' 100 0 expecting_socket"
  using socket_wf_example [of 0]
  by (auto simp: expecting_socket_def socket_wf_def wf_windows_def example_socket_def window_of_def MAX_WINDOW_SIZE_def)

lemmas sender = lone_manager [OF example_ends(1,3) sending_socket(1,2) sender_def]
  and receiver = lone_manager [OF example_ends(2,4) expecting_socket(1,2) receiver_def]

lemma receiver_waits: "receiving sim_out 1 0 far_id ''hi'' 100 [] 0 (receiver bs)"
proof -
  note O = receiver(2) [of bs, unfolded own_socket_def]
  have "\<exists>q. send_window expecting_socket = Some q \<and> queue_inv q" using expecting_socket(1) by (auto simp: socket_wf_def)
  then show ?thesis
    using O expecting_socket(2-4) receiver(4) [of bs] with_packets(2) example_ends(4)
    by (auto simp: receiving_def id_at_def)
qed

lemma two_byte_segment:
  "tcp_sane (window_segment near_id sending_socket ''hi'')"
  "separated (tcp_checksum (window_segment near_id sending_socket ''hi'')) ''hi''"
  by (simp_all add: tcp_sane_def window_segment_def Let_def near_id_def sending_socket_def example_socket_def
      calc_checksum_def ACK_def fitsI_nonneg separated_def is_digit_def)

lemma sender_due: "DIFF2SEC_gt (fst (px_clock kind_posix (os sender)) - last_send_clock sending_socket) SOCKET_SEND_AGAIN_TIME"
  using sender(4) by (simp add: with_packets_def sim_boot_def kind_posix_def open_posix_def sim_posix_def sending_socket(5)
      DIFF2SEC_gt_def SOCKET_SEND_AGAIN_TIME_def CLOCKS_PER_SEC_def)

section \<open>Properties\<close>

text \<open>
  C17. Unacknowledged data is sent again.  On a system that refuses nothing, an established socket whose last
  segment was sent too long ago sends the bytes at the front of its window, at most 128 and up to the first
  NUL, with the number of the first of them, to the packet FIFO of its peer's manager and to no other;
  the window and the numbers stay as they are, so the same bytes go out again after the next pause, until
  an acknowledgment moves the window.
\<close>

theorem unacknowledged_data_is_sent_again:
  assumes "resourceful P" and "fifos_open P" and "fifo_laws P out tgt" and "only_writes_send P out"
    and "mgr_inv w" and "own_socket w k i a s" and "sk_state s = ESTABLISED" and "send_window s = Some q"
    and "DIFF2SEC_gt (fst (px_clock P (os w)) - last_send_clock s) SOCKET_SEND_AGAIN_TIME"
    and "length (cstr (dst_ip i)) = 16" and "tcp_sane (window_segment i s (next_piece q))"
    and "check_and_handle_send_window P k w = (r, w')"
  shows "r = 0 \<and> mgr_inv w' \<and> ids w' = ids w \<and> mgr_map w' = mgr_map w \<and> (\<forall>b. b \<noteq> a \<longrightarrow> socks w' b = socks w b)
    \<and> out (os w') = (let path = fifo_path IN_PACKET_FIFO_PREFIX (cstr (dst_ip i))
        in (out (os w))(path := out (os w) path
             @ segment_wire (mgr_ip w) (cstr (dst_ip i)) (window_segment i s (next_piece q)) (next_piece q)))
    \<and> (\<exists>s' q'. socks w' a = Some s' \<and> sk_state s' = ESTABLISED \<and> send_window s' = Some q' \<and> queue_list q' = queue_list q
        \<and> seq_of_first_send_window s' = seq_of_first_send_window s)"
proof -
  note O = own_socketD [OF assms(5,6)]
  note S = check_and_handle_send_window_sends [OF assms]
  note L = send_window_only [OF O(5,9) assms(12)]
  have K: "keeps w w'" by (rule only_socket_keeps [OF assms(5) L(2)]) (simp add: steady_def)
  obtain s' q' where s': "socks w' a = Some s'" "send_window s' = Some q'" "queue_list q' = queue_list q" using S(2) by blast
  have "steady s s'" and "ids w' = ids w" and "\<forall>b. b \<noteq> a \<longrightarrow> socks w' b = socks w b"
    using L(2) O(5) s'(1) by (auto simp: only_socket_def)
  then show ?thesis using L(1) keepsD(1,2) [OF K] S(1) s' assms(7) by (auto simp: steady_def)
qed

lemma unacknowledged_data_is_sent_again_witness:
  "\<exists>w'. check_and_handle_send_window kind_posix 0 sender = (0, w')
     \<and> sim_out (os w') (fifo_path IN_PACKET_FIFO_PREFIX (host (CHR ''2'')))
       = segment_wire (host (CHR ''1'')) (host (CHR ''2'')) (window_segment near_id sending_socket ''hi'') ''hi''"
proof -
  obtain r w' where c: "check_and_handle_send_window kind_posix 0 sender = (r, w')" by fastforce
  have "length (cstr (dst_ip near_id)) = 16" by (simp add: host_def)
  from unacknowledged_data_is_sent_again [OF kind_posix(1-3) kind_posix_reads(4) sender(1,2) sending_socket(3,4) sender_due this _ c]
  show ?thesis
    using c sender(3,4) with_packets(2) two_byte_segment(1) by (simp add: two_bytes Let_def)
qed

text \<open>
  C4. Data that can be read back gets from one user to the other.  Let an established socket of one manager hold
  bytes of a message in its window, and the connected socket of the other manager have handed over the message
  up to some byte of these, or further.  When the pause after the last segment is over and the first sends the
  piece at the front of its window again, and the second reads the text from its packet FIFO, then afterwards
  the user of the second has in addition everything up to the end of the piece sent (as far as the receive window
  reaches), in order and without gaps.  The piece, which ends before the first NUL, must not be empty and not begin
  with a digit, unless the checksum fills its column (otherwise the receiver drops it, C40); the fields of the
  segment must fit their columns; and the systems refuse nothing and keep the laws of FIFOs.
\<close>

theorem data_reaches_the_other_user:
  assumes "resourceful P" and "fifos_open P" and "fifo_laws P out tgt" and "only_writes_send P out"
    and "reads_write_nothing P out" and "read_laws P pend" and "memory_apart P pend"
    and "mgr_inv w" and "own_socket w k i a s" and "sk_state s = ESTABLISED" and "send_window s = Some q"
    and "DIFF2SEC_gt (fst (px_clock P (os w)) - last_send_clock s) SOCKET_SEND_AGAIN_TIME"
    and "d = next_piece q" and "d \<noteq> []" and "p = window_segment i s d" and "tcp_sane p" and "separated (tcp_checksum p) d"
    and "check_and_handle_send_window P k w = (r, w')"
    and "path = fifo_path IN_PACKET_FIFO_PREFIX (mgr_ip v)" and "out (os w') path = out (os w) path @ sent"
    and "mgr_inv v" and "mgr_ip v = cstr (dst_ip i)" and "own_socket v l j b t"
    and "sid_key j = (mgr_ip v, dst_port i, mgr_ip w, src_port i)"
    and "receiving out b l j msg base before n v" and "length msg < 2147483648"
    and "piece_at msg base m (seq_of_first_send_window s) d" and "m \<le> n"
    and "pend (os v) (in_packet_fifo_fd v) = sent @ rest"
  shows "\<exists>packet v1 v2 n'. read_ip_packet_from_file P (in_packet_fifo_fd v) v = Some (Some packet, v1)
    \<and> pend (os v1) (in_packet_fifo_fd v) = rest
    \<and> handle_incoming_ip_packet P (Some packet) v1 = (0, v2)
    \<and> out (os v2) (recv_path j) = before @ take n' msg \<and> n \<le> n' \<and> min (m + length d) (n + 1024) \<le> n'
    \<and> receiving out b l j msg base before n' v2"
proof -
  have ip: "manager_text (mgr_ip w)" "manager_text (cstr (dst_ip i))"
    using mgr_invD(4,5) [OF assms(8)] mgr_invD(4,5) [OF assms(21)] assms(22) by (simp_all add: manager_text_def)
  then have len: "length (cstr (dst_ip i)) = 16" by (simp add: manager_text_def)
  have sane: "tcp_sane (window_segment i s (next_piece q))" using assms(13,15,16) by simp
  have "out (os w') path = out (os w) path @ segment_wire (mgr_ip w) (cstr (dst_ip i)) p d"
    using check_and_handle_send_window_sends(1) [OF assms(1-4,8-12) len sane assms(18)] assms(13,15,19,22)
    by (simp add: Let_def)
  then have sent: "sent = segment_wire (mgr_ip w) (cstr (dst_ip i)) p d" using assms(20) by simp
  have d: "NUL \<notin> set d" "length d < 2147483556" using next_piece_no_NUL assms(13) by (auto simp: next_piece_def)
  obtain u v1 where R: "read_ip_packet_from_file P (in_packet_fifo_fd v) v = Some (Some u, v1)" "same_heap v v1"
      "pend (os v1) (in_packet_fifo_fd v) = rest" "cstr (ip_src_ip u) = mgr_ip w" "cstr (ip_dst_ip u) = cstr (dst_ip i)"
      "header_checksum u = 5" "ip_data u = Some (tcp_head p @ d)"
    using read_ip_packet_reads [OF assms(1,6,7) ip assms(16) d assms(29) [unfolded sent]] by blast
  note q1 = quiet_same_heap [OF assms(21) R(2)]
  note V = same_heapD [OF R(2)]
  have o1: "own_socket v1 l j b t" by (rule own_socket_quiet [OF assms(21,23) q1])
  have rec1: "receiving out b l j msg base before n v1"
    by (rule receiving_heap [OF assms(25) R(2)]) (simp add: read_ip_packet_out [OF assms(3,5) R(1)])
  have l: "length (cstr (ip_src_ip u)) = 16" and dst: "cstr (ip_dst_ip u) = mgr_ip v1"
    using R(4,5) ip(1) V(4) assms(22) by (simp_all add: manager_text_def)
  have key: "sid_key j = (mgr_ip v1, tcp_dst_port p, cstr (ip_src_ip u), tcp_src_port p)"
    using assms(15,24) R(4) V(4) by simp
  have p: "tcp_checksum p = calc_checksum p" "established_segment p" "tcp_seq_num p = seq_of_first_send_window s"
    using assms(15) by simp_all
  obtain x v2 where 2: "handle_incoming_ip_packet P (Some u) v1 = (x, v2)" by fastforce
  have x: "x = 0"
    using 2 handle_incoming_ip_packet_dispatches [OF assms(1) quietD(2) [OF q1] R(6) l dst R(7) assms(16,17) p(1)] by auto
  obtain n' where n': "n \<le> n'" "min (m + length d) (n + 1024) \<le> n'" "receiving out b l j msg base before n' v2"
    using incoming_segment_reaches_connection [OF assms(1-4) quietD(2) [OF q1] R(6) l dst R(7) assms(16,17) p(1) assms(14) p(2)
        o1 key rec1 assms(26) assms(27) [folded p(3)] assms(28) 2] by blast
  have "out (os v2) (recv_path j) = before @ take n' msg" using n'(3) by (auto simp: receiving_def)
  then show ?thesis using R(1,3) 2 x n' by blast
qed

lemma data_reaches_the_other_user_witness:
  "\<exists>w' packet v1 v2. check_and_handle_send_window kind_posix 0 sender = (0, w')
     \<and> read_ip_packet_from_file kind_posix 3 (receiver (sim_out (os w') (fifo_path IN_PACKET_FIFO_PREFIX (host (CHR ''2'')))))
       = Some (Some packet, v1)
     \<and> handle_incoming_ip_packet kind_posix (Some packet) v1 = (0, v2) \<and> sim_out (os v2) (recv_path far_id) = ''hi''"
proof -
  obtain r w' where c: "check_and_handle_send_window kind_posix 0 sender = (r, w')" by fastforce
  have r: "r = 0" using send_window_only(1) [OF own_socketD(5,9) [OF sender(1,2)] c] .
  let ?sent = "sim_out (os w') (fifo_path IN_PACKET_FIFO_PREFIX (host (CHR ''2'')))"
  let ?v = "receiver ?sent" and ?p = "window_segment near_id sending_socket ''hi''"
  have path: "fifo_path IN_PACKET_FIFO_PREFIX (host (CHR ''2'')) = fifo_path IN_PACKET_FIFO_PREFIX (mgr_ip ?v)"
    using receiver(3) by simp
  have sent: "?sent = sim_out (os sender) (fifo_path IN_PACKET_FIFO_PREFIX (host (CHR ''2''))) @ ?sent"
    using sender(4) with_packets(2) by simp
  have ip: "mgr_ip ?v = cstr (dst_ip near_id)" using receiver(3) by simp
  have key: "sid_key far_id = (mgr_ip ?v, dst_port near_id, mgr_ip sender, src_port near_id)"
    using receiver(3) sender(3) by simp
  have piece: "piece_at ''hi'' 100 0 (seq_of_first_send_window sending_socket) ''hi''"
    by (simp add: piece_at_def sending_socket(6))
  have pend: "sim_pend (os ?v) (in_packet_fifo_fd ?v) = ?sent @ []" using receiver(4,5) with_packets(1) by simp
  have hi: "''hi'' \<noteq> []" "length ''hi'' < 2147483648" by simp_all
  from data_reaches_the_other_user [OF kind_posix(1-3) kind_posix_reads(4,3,1,2) sender(1,2) sending_socket(3,4) sender_due
      two_bytes(2) [symmetric] hi(1) refl two_byte_segment c path sent receiver(1) ip receiver(2) key receiver_waits hi(2) piece le_refl pend]
  obtain packet v1 v2 n' where R: "read_ip_packet_from_file kind_posix (in_packet_fifo_fd ?v) ?v = Some (Some packet, v1)"
      "handle_incoming_ip_packet kind_posix (Some packet) v1 = (0, v2)"
      "sim_out (os v2) (recv_path far_id) = [] @ take n' ''hi''" "min (0 + length ''hi'') (0 + 1024) \<le> n'"
    by blast
  have "in_packet_fifo_fd ?v = 3" using receiver(5) .
  then show ?thesis using c r R by (intro exI [of _ w'] exI [of _ packet] exI [of _ v1] exI [of _ v2]) simp
qed

end
