(* ===== verification/Fifo_Names.thy ===== *)
theory Fifo_Names imports Client_Protocol begin

text \<open>
  The texts by which clients and managers find each other (src/fifo_utils.c, src/network.c): numbers and
  requests as printers with parsers, and the names of the FIFOs of a socket, which two processes compute
  independently from the endpoints alone.
\<close>

section \<open>Numbers and requests\<close>

interpretation number: codec "\<lambda>_. True" "\<lambda>x :: c_int. fmt_d (sint x)" "\<lambda>s. map_option (\<lambda>(n, _). word_of_int n) (scan_d s)"
  using scan_printed [of "[]"] by unfold_locales simp

interpretation bind_text: codec "\<lambda>_. True" "\<lambda>(p, pid, n). bind_request_text p pid n" scan_bind_request
  by unfold_locales (auto simp: bind_request_scanned)

interpretation connect_text: codec "\<lambda>(ip, _). plain_text ip" "\<lambda>(ip, p). connect_request_text ip p" parse_connect_request
  by unfold_locales (auto simp: connect_request_parsed)

text \<open>Different requests are different texts, so no client is answered in place of another.\<close>

lemma bind_request_text_inject:
  "bind_request_text p pid n = bind_request_text p' pid' n' \<longleftrightarrow> p = p' \<and> pid = pid' \<and> n = n'"
  using bind_text.print_inject [of "(p, pid, n)" "(p', pid', n')"] by simp

lemma underscore_not_in_number: "CHR ''_'' \<notin> set (fmt_d x)"
  by (auto simp: fmt_d_def sign_str_def digit_char_not(6) [symmetric] dest!: set_dec_digits dest: sym)

section \<open>Names of FIFOs\<close>

text \<open>The nine kinds of FIFO that belong to a socket.\<close>

definition socket_prefixes :: "string list" where
  "socket_prefixes = [LISTEN_SOCKET_READ_FIFO_PREFIX, LISTEN_SOCKET_WRITE_FIFO_PREFIX, ACCEPT_SOCKET_READ_FIFO_PREFIX,
     CONNECT_SOCKET_READ_FIFO_PREFIX, CONNECT_SOCKET_WRITE_FIFO_PREFIX, OUT_DATA_SOCKET_FIFO_PREFIX,
     IN_DATA_SOCKET_FIFO_PREFIX, END_SOCKET_WRITE_FIFO_PREFIX, END_SOCKET_READ_FIFO_PREFIX]"

lemmas prefix_defs = LISTEN_SOCKET_READ_FIFO_PREFIX_def LISTEN_SOCKET_WRITE_FIFO_PREFIX_def ACCEPT_SOCKET_READ_FIFO_PREFIX_def
  CONNECT_SOCKET_READ_FIFO_PREFIX_def CONNECT_SOCKET_WRITE_FIFO_PREFIX_def OUT_DATA_SOCKET_FIFO_PREFIX_def
  IN_DATA_SOCKET_FIFO_PREFIX_def END_SOCKET_WRITE_FIFO_PREFIX_def END_SOCKET_READ_FIFO_PREFIX_def

lemma socket_prefixes: "distinct socket_prefixes" "pre \<in> set socket_prefixes \<Longrightarrow> CHR ''('' \<notin> set pre"
  by (simp_all add: socket_prefixes_def prefix_defs) auto

text \<open>Addresses that the separator of the names does not occur in.\<close>

definition separable :: "sockid \<Rightarrow> bool" where
  "separable i \<longleftrightarrow> CHR ''_'' \<notin> set (cstr (src_ip i)) \<and> CHR ''_'' \<notin> set (cstr (dst_ip i))"

lemma socket_repr_inject:
  assumes "separable i" and "separable j"
  shows "socket_repr i = socket_repr j \<longleftrightarrow> sid_key i = sid_key j"
proof
  assume e: "socket_repr i = socket_repr j"
  note U = underscore_not_in_number
  have "cstr (src_ip i) @ CHR ''_'' # fmt_d (sint (src_port i)) @ CHR ''_'' # cstr (dst_ip i) @ CHR ''_'' # (fmt_d (sint (dst_port i)) @ '')'')
      = cstr (src_ip j) @ CHR ''_'' # fmt_d (sint (src_port j)) @ CHR ''_'' # cstr (dst_ip j) @ CHR ''_'' # (fmt_d (sint (dst_port j)) @ '')'')"
    using e by (simp add: socket_repr_def)
  then have "cstr (src_ip i) = cstr (src_ip j)" "fmt_d (sint (src_port i)) = fmt_d (sint (src_port j))"
      "cstr (dst_ip i) = cstr (dst_ip j)" "fmt_d (sint (dst_port i)) = fmt_d (sint (dst_port j))"
    using assms U unfolding separable_def by (simp_all only: join_inject append_same_eq simp_thms)
  then show "sid_key i = sid_key j" using number.print_inject by (simp add: sid_key_def)
qed (simp add: sid_key_def socket_repr_def)

lemma socket_fifo_path_inject:
  assumes "pre \<in> set socket_prefixes" and "pre' \<in> set socket_prefixes" and "separable i" and "separable j"
  shows "socket_fifo_path pre i = socket_fifo_path pre' j \<longleftrightarrow> pre = pre' \<and> sid_key i = sid_key j"
proof -
  have r: "socket_repr x = CHR ''('' # tl (socket_repr x)" for x by (simp add: socket_repr_def)
  have "socket_fifo_path pre i = socket_fifo_path pre' j
      \<longleftrightarrow> pre @ CHR ''('' # tl (socket_repr i) = pre' @ CHR ''('' # tl (socket_repr j)"
    using r [of i] r [of j] by (simp add: socket_fifo_path_def fifo_path_def)
  also have "\<dots> \<longleftrightarrow> pre = pre' \<and> socket_repr i = socket_repr j"
    using join_inject [OF socket_prefixes(2) [OF assms(1)] socket_prefixes(2) [OF assms(2)]] r [of i] r [of j]
    by (metis list.inject)
  finally show ?thesis using socket_repr_inject [OF assms(3,4)] by simp
qed

lemma made_name:
  assumes "construct_full_socket_fifo_name P pre (Some k) w = (Some name, w')"
  shows "name = socket_fifo_path pre (id_at w k)"
  using assms construct_full_fifo_name_spec(2)
  by (fastforce simp: construct_full_socket_fifo_name_def socket_fifo_path_def Let_def)

section \<open>Properties\<close>

text \<open>
  C18. FIFO names are as good as endpoints.  Whenever two processes, or two parts of one, succeed in making the
  name of a FIFO of a socket, the names are the same exactly when the kind of FIFO and all four parts of
  the endpoint are: a client and its manager meet in the same FIFO, and no two sockets ever share one.
  The addresses must not hold an underscore.
\<close>

theorem fifo_names_are_endpoints:
  assumes "pre \<in> set socket_prefixes" and "pre' \<in> set socket_prefixes"
    and "separable (id_at w k)" and "separable (id_at v l)"
    and "construct_full_socket_fifo_name P pre (Some k) w = (Some name, w')"
    and "construct_full_socket_fifo_name Q pre' (Some l) v = (Some name', v')"
  shows "name = name' \<longleftrightarrow> pre = pre' \<and> sid_key (id_at w k) = sid_key (id_at v l)"
proof -
  have "name = socket_fifo_path pre (id_at w k)" "name' = socket_fifo_path pre' (id_at v l)"
    using made_name [OF assms(5)] made_name [OF assms(6)] by simp_all
  then show ?thesis using socket_fifo_path_inject [OF assms(1-4)] by simp
qed

lemma fifo_names_are_endpoints_witness:
  "\<exists>name name' w w'. construct_full_socket_fifo_name kind_posix IN_DATA_SOCKET_FIFO_PREFIX (Some 0) (example_manager LISTEN) = (Some name, w)
     \<and> construct_full_socket_fifo_name kind_posix OUT_DATA_SOCKET_FIFO_PREFIX (Some 0) (example_manager LISTEN) = (Some name', w')
     \<and> name \<noteq> name'"
proof -
  let ?w = "example_manager LISTEN"
  obtain n w1 where 1: "construct_full_socket_fifo_name kind_posix IN_DATA_SOCKET_FIFO_PREFIX (Some 0) ?w = (n, w1)" by fastforce
  obtain n' w2 where 2: "construct_full_socket_fifo_name kind_posix OUT_DATA_SOCKET_FIFO_PREFIX (Some 0) ?w = (n', w2)" by fastforce
  obtain name name' where n: "n = Some name" "n' = Some name'"
    using resourceful_socket_name [OF kind_posix(1) 1] resourceful_socket_name [OF kind_posix(1) 2] by blast
  have s: "separable (id_at ?w 0)"
    by (simp add: separable_def example_manager_id(2) example_ids_def cstr_ip_cells)
  have p: "IN_DATA_SOCKET_FIFO_PREFIX \<in> set socket_prefixes" "OUT_DATA_SOCKET_FIFO_PREFIX \<in> set socket_prefixes"
    by (simp_all add: socket_prefixes_def)
  have "IN_DATA_SOCKET_FIFO_PREFIX \<noteq> OUT_DATA_SOCKET_FIFO_PREFIX" by (simp add: prefix_defs)
  with fifo_names_are_endpoints [OF p s s 1 [unfolded n] 2 [unfolded n]] show ?thesis using 1 2 n by metis
qed

lemma bound_name_in_bounds:
  assumes "ids w k = Some i" and "wf_sockid i"
  shows "ub (snd (get_bound_socket_repr_string P (Some k) w)) = ub w"
proof -
  obtain m w1 where m: "sys_malloc P MAX_SOCKET_STRING_REPR_SIZE w = (m, w1)" by fastforce
  note p = same_procD(6) [OF sys_same_proc(1) [OF m]]
  have "wf_ip (src_ip (id_at w k))" using assms by (simp add: id_at_def wf_sockid_def)
  then have "length (cstr (src_ip (id_at w k))) \<le> 16" by (rule length_cstr_wf_ip)
  then have "length (cstr (src_ip (id_at w k)) @ ''_'' @ fmt_d (sint (src_port (id_at w k))) @ ''_BOUND'') < MAX_SOCKET_STRING_REPR_SIZE"
    using length_fmt_c_int [of "src_port (id_at w k)"] by (simp add: MAX_SOCKET_STRING_REPR_SIZE_def)
  then show ?thesis using m p by (simp add: get_bound_socket_repr_string_def Let_def split: option.splits)
qed

lemma client_name_in_bounds: "ub (snd (get_client_fifo_name P pid n w)) = ub w"
proof -
  obtain m w1 where m: "sys_malloc P MAX_SOCKET_STRING_REPR_SIZE w = (m, w1)" by fastforce
  have w1: "ub w1 = ub w" using m by (auto simp: sys_malloc_def split: prod.splits)
  obtain r w2 where c: "construct_full_fifo_name P CLIENT_FIFO_PREFIX (fmt_d (sint pid) @ ''_'' @ fmt_d (sint n)) w1 = (r, w2)"
    by fastforce
  have "ub w2 = ub w1" using same_procD(6) [OF construct_full_fifo_name_spec(1) [OF c]] .
  then show ?thesis using m w1 c by (simp add: get_client_fifo_name_eq split: option.splits)
qed

text \<open>
  C33. Every text fits its array.  For a well formed identifier and an address of at most sixteen characters the
  names of its FIFOs, the name of a bound socket, the name of the FIFO on which a client is answered, the
  requests to bind and to connect and the text for an accepting client fit, with their terminators, into the
  arrays in which they are made and those into which the other process reads them, whatever the ports and
  numbers; so none of the three functions that print a name into an array runs into undefined behaviour.
\<close>

theorem texts_fit_their_arrays:
  assumes "wf_sockid i" and "length ip \<le> MAX_IP_LENGTH"
  shows "length (socket_repr i) < MAX_SOCKET_STRING_REPR_SIZE
    \<and> length (bind_request_text p pid n) + 2 \<le> MAX_SOCKET_STRING_REPR_SIZE
    \<and> length (bind_request_text p pid n) + 1 \<le> MAX_BIND_REQUEST_SIZE
    \<and> length (connect_request_text ip p) + 2 \<le> MAX_SOCKET_STRING_REPR_SIZE
    \<and> length (cstr (dst_ip i) @ ''_'' @ fmt_d (sint (dst_port i))) + 1 \<le> MAX_SOCKET_STRING_REPR_SIZE
    \<and> length (fmt_d (sint pid) @ ''_'' @ fmt_d (sint n)) < MAX_SOCKET_STRING_REPR_SIZE
    \<and> (\<forall>v. ub (snd (get_client_fifo_name P pid n v)) = ub v)
    \<and> (\<forall>prefix k w. ids w k = Some i \<longrightarrow>
         ub (snd (construct_full_socket_fifo_name P prefix (Some k) w)) = ub w
         \<and> ub (snd (get_bound_socket_repr_string P (Some k) w)) = ub w)"
proof -
  have d: "length (cstr (dst_ip i)) \<le> 16" using assms(1) length_cstr_wf_ip by (simp add: wf_sockid_def)
  note F = length_fmt_c_int
  have "ub (snd (construct_full_socket_fifo_name P prefix (Some k) w)) = ub w" if "ids w k = Some i" for prefix k w
  proof -
    have "wf_sockid (id_at w k)" using that assms(1) by (simp add: id_at_def)
    then show ?thesis
      using construct_full_socket_fifo_name_spec(1) [OF surjective_pairing] same_procD(6) by blast
  qed
  moreover have "length (bind_request_text p pid n) \<le> 35" "length (connect_request_text ip p) \<le> 28"
    "length (cstr (dst_ip i) @ ''_'' @ fmt_d (sint (dst_port i))) \<le> 28"
    "length (fmt_d (sint pid) @ ''_'' @ fmt_d (sint n)) \<le> 23"
    using d assms(2) F [of p] F [of pid] F [of n] F [of "dst_port i"]
    by (simp_all add: bind_request_text_def connect_request_text_def MAX_IP_LENGTH_def)
  moreover have "ub (snd (get_bound_socket_repr_string P (Some k) w)) = ub w" if "ids w k = Some i" for k w
    by (rule bound_name_in_bounds [OF that assms(1)])
  moreover have "ub (snd (get_client_fifo_name P pid n v)) = ub v" for v
    by (rule client_name_in_bounds)
  ultimately show ?thesis
    using length_socket_repr [OF assms(1)]
    by (simp add: MAX_SOCKET_STRING_REPR_SIZE_def MAX_BIND_REQUEST_SIZE_def)
qed

lemma texts_fit_their_arrays_witness:
  "length (socket_repr (the (example_ids 0))) < MAX_SOCKET_STRING_REPR_SIZE
    \<and> length (connect_request_text ''1234123412341234'' (- 1)) + 2 \<le> MAX_SOCKET_STRING_REPR_SIZE"
proof -
  have "wf_sockid (the (example_ids 0))" by (simp add: example_ids_def wf_sockid_def wf_ip_cells)
  from texts_fit_their_arrays [OF this, of "''1234123412341234''" "- 1" 0 0 sim_posix] show ?thesis by (simp add: MAX_IP_LENGTH_def)
qed

end
