(* ===== verification/Client_Steps.thy ===== *)
theory Client_Steps imports Client_Protocol Read_Loops begin

text \<open>
  A client process as a transition system: the calls of src/network.c in any order on any of its
  identifiers.  The identifiers stay well formed, an identifier gets its own endpoint once and its peer
  while it has none, and a connected one does not change any more.
\<close>

section \<open>Calls that only talk to the manager\<close>

text \<open>The loops that wait leave the identifiers alone when what they end with does.\<close>

lemma same_heap_unlink_name [simp, intro]: "same_heap w (unlink_name P n w)"
  by (simp add: unlink_name_def)

lemma same_heap_upto_close [intro]: "same_heap w w1 \<Longrightarrow> same_heap w (sys_close P fd w1)"
  by (rule same_heap_trans [OF _ same_heap_close])

lemma same_heap_upto_unlink [intro]: "same_heap w w1 \<Longrightarrow> same_heap w (unlink_name P n w1)"
  by (rule same_heap_trans [OF _ same_heap_unlink_name])

lemma same_heap_upto_ub [intro]: "same_heap w w1 \<Longrightarrow> same_heap w (set_ub w1)"
  by (rule same_heap_trans [OF _ same_heap_set_ub])

lemma await_answer_heap:
  assumes "await_answer P fd start finish w = Some (r, w')" and "\<And>v. same_heap v (finish v)"
  shows "same_heap w w'"
proof -
  have "(\<lambda>((((P, fd), start), finish), w) (r, w'). (\<forall>v. same_heap v (finish v)) \<longrightarrow> same_heap w w')
    ((((P, fd), start), finish), w) (r, w')"
  proof (rule await_answer.raw_induct [OF _ assms(1)], goal_cases)
    case (1 f P fd start finish w y)
    obtain r bs w1 where r: "read_entire_message P fd 1 w = Some (r, bs, w1)"
      using 1(2) by (auto split: option.splits)
    obtain t w2 where t: "sys_clock P w1 = (t, w2)" by fastforce
    have h1: "same_heap w w1" using read_entire_message_same_proc [OF r] by (rule same_proc_heap)
    have h2: "same_heap w w2" by (rule same_heap_trans [OF h1 sys_same_heap(10) [OF t]])
    consider "snd y = finish w1" | "snd y = finish w2" | "f P fd start finish w2 = Some y"
      using 1(2) r t by (auto split: if_splits)
    then show ?case
      using 1(1) same_heap_trans [OF h1] same_heap_trans [OF h2] by cases (fastforce split: prod.splits)+
  qed
  then show ?thesis using assms(2) by simp
qed

lemma await_connection_heap:
  assumes "await_connection P nm start fd w = Some (r, w')"
  shows "same_heap w w'"
proof -
  have "(\<lambda>((((P, nm), start), fd), w) (r, w'). same_heap w w') ((((P, nm), start), fd), w) (r, w')"
  proof (rule await_connection.raw_induct [OF _ assms], goal_cases)
    case (1 f P nm start fd w y)
    obtain t w1 where t: "sys_clock P w = (t, w1)" by fastforce
    have h1: "same_heap w w1" by (rule sys_same_heap(10) [OF t])
    show ?case
    proof (cases "DIFF2SEC_gt (t - start) SOCKET_TIMEOUT")
      case True
      then have "snd y = w1 \<or> snd y = sys_close P fd w1" using 1(2) t by (auto split: if_splits)
      then show ?thesis using h1 by (auto split: prod.splits)
    next
      case go: False
      show ?thesis
      proof (cases "fd = - 1")
        case True
        obtain fd' w2 where o: "sys_open P nm O_RDONLY_NONBLOCK w1 = (fd', w2)" by fastforce
        then have "f P nm start fd' w2 = Some y" using 1(2) t go True by simp
        from 1(1) [OF this] show ?thesis
          using same_heap_trans [OF same_heap_trans [OF h1 sys_same_heap(3) [OF o]]] by (simp split: prod.splits)
      next
        case False
        obtain n bs w2 where m: "read_message_until_char P fd NUL w1 = Some (n, bs, w2)"
          using 1(2) t go False by (auto split: option.splits)
        have h2: "same_heap w w2"
          using same_heap_trans [OF h1 same_proc_heap [OF read_message_until_char_same_proc [OF m]]] .
        consider "snd y = sys_close P fd w2" | "snd y = sys_close P fd (set_ub w2)" | "f P nm start fd w2 = Some y"
          using 1(2) t go False m by (auto split: if_splits)
        then show ?thesis
          using 1(1) same_heap_trans [OF h2] h2 by cases (fastforce split: prod.splits)+
      qed
    qed
  qed
  then show ?thesis by simp
qed

lemma recv_loop_heap:
  assumes "recv_loop P k n w = Some (r, bs, w')"
  shows "same_heap w w'"
proof -
  have "(\<lambda>(((P, k), n), w) (r, bs, w'). same_heap w w') (((P, k), n), w) (r, bs, w')"
  proof (rule recv_loop.raw_induct [OF _ assms], goal_cases)
    case (1 f P k n w y)
    obtain nm w1 where n: "get_socket_recv_fifo_name P k w = (nm, w1)" by fastforce
    have h1: "same_heap w w1" by (rule fifo_name_heap(6) [OF n])
    show ?case
    proof (cases nm)
      case None
      then show ?thesis using 1(2) n h1 by auto
    next
      case (Some name)
      obtain fd w2 where o: "sys_open P name O_RDONLY w1 = (fd, w2)" by fastforce
      obtain rd w3 where rd: "sys_read P fd n w2 = (rd, w3)" by fastforce
      have h2: "same_heap w w2" by (rule same_heap_trans [OF h1 sys_same_heap(3) [OF o]])
      have h3: "same_heap w w3" by (rule same_heap_trans [OF h2 sys_same_heap(4) [OF rd]])
      have h4: "same_heap w (sys_close P fd w3)" "same_heap w (set_ub (sys_close P fd w3))" using h3 by auto
      consider "snd (snd y) = w2" | "snd (snd y) = sys_close P fd w3" | "f P k n (sys_close P fd w3) = Some y"
        | "f P k n (set_ub (sys_close P fd w3)) = Some y"
        using 1(2) n Some o rd by (auto split: if_splits read_outcome.splits)
      then show ?thesis
        using 1(1) same_heap_trans [OF h4(1)] same_heap_trans [OF h4(2)] h2 h4
        by cases (fastforce split: prod.splits)+
    qed
  qed
  then show ?thesis by simp
qed

text \<open>A call that ends at any point of a chain of such steps.\<close>

lemmas call_heap = sys_same_heap(3,4,5,6,10) fifo_name_heap

lemma mkfifo_both_heap [intro]: "mkfifo_both P a b w = (r, w') \<Longrightarrow> same_heap w w'"
  by (auto simp: mkfifo_both_def intro: same_heap_trans split: prod.splits if_splits)

lemma AddressCreate_heap: "AddressCreate P ip p w = (r, w') \<Longrightarrow> same_heap w w'"
  by (auto simp: AddressCreate_def intro: same_heap_trans split: prod.splits if_splits option.splits)

lemma SocketClose_heap:
  assumes "SocketClose P sockid w = Some (r, w')"
  shows "same_heap w w'"
proof -
  obtain n1 w1 where 1: "get_end_fifo_write_end_name P sockid w = (n1, w1)" by fastforce
  obtain n2 w2 where 2: "get_end_fifo_read_end_name P sockid w1 = (n2, w2)" by fastforce
  obtain f3 w3 where 3: "sys_open P (the n2) O_RDONLY w2 = (f3, w3)" by fastforce
  obtain f5 w5 where 5: "sys_open P (the n1) O_WRONLY (sys_close P f3 w3) = (f5, w5)" by fastforce
  obtain r6 w6 where 6: "sys_write P f5 ''E'' w5 = (r6, w6)" by fastforce
  note h1 = fifo_name_heap(8) [OF 1]
  note h2 = same_heap_trans [OF h1 fifo_name_heap(7) [OF 2]]
  note h5 = same_heap_trans [OF same_heap_upto_close [OF same_heap_trans [OF h2 sys_same_heap(3) [OF 3]]] sys_same_heap(3) [OF 5]]
  note h6 = same_heap_trans [OF h5 sys_same_heap(5) [OF 6]]
  have "w' = w1 \<or> w' = w2 \<or> w' = w5 \<or> w' = sys_close P f5 w6 \<or> w' = unlink_name P (the n2) (sys_close P f5 w6)"
    using assms 1 2 3 5 6 by (cases n1; cases n2) (auto simp: SocketClose_def Let_def split: if_splits)
  then show ?thesis using h1 h2 h5 h6 by auto
qed

lemma SocketSend_heap:
  assumes "SocketSend P sockid message len w = (r, w')"
  shows "same_heap w w'"
proof -
  obtain n1 w1 where 1: "get_socket_send_fifo_name P sockid w = (n1, w1)" by fastforce
  obtain f2 w2 where 2: "sys_open P (the n1) O_RDWR w1 = (f2, w2)" by fastforce
  note h1 = fifo_name_heap(9) [OF 1]
  note h2 = same_heap_trans [OF h1 sys_same_heap(3) [OF 2]]
  have "w' = w \<or> w' = w1 \<or> w' = w2 \<or> (\<exists>bs v. (v = w2 \<or> v = set_ub w2) \<and> sys_write P f2 bs v = (r, w'))"
    using assms 1 2 by (cases n1) (auto simp: SocketSend_def Let_def split: if_splits option.splits)
  then show ?thesis
    using h1 h2 same_heap_trans [OF h2 sys_same_heap(5)] same_heap_trans [OF same_heap_upto_ub [OF h2] sys_same_heap(5)] by blast
qed

lemma SocketRecv_heap: "SocketRecv P sockid b n w = Some (r, bs, w') \<Longrightarrow> same_heap w w'"
  by (auto simp: SocketRecv_def split: if_splits dest: recv_loop_heap)

lemma SocketListen_heap:
  assumes "SocketListen P sockid q w = Some (r, w')"
  shows "same_heap w w'"
proof -
  obtain n1 w1 where 1: "get_listen_fifo_write_end_name P sockid w = (n1, w1)" by fastforce
  obtain n2 w2 where 2: "get_listen_fifo_read_end_name P sockid w1 = (n2, w2)" by fastforce
  obtain m w3 where 3: "mkfifo_both P (the n1) (the n2) w2 = (m, w3)" by fastforce
  obtain f4 w4 where 4: "sys_open P (the n2) O_RDONLY w3 = (f4, w4)" by fastforce
  obtain f5 w5 where 5: "sys_open P (the n1) O_WRONLY w4 = (f5, w5)" by fastforce
  obtain r6 w6 where 6: "sys_write P f5 [char_of (nat q)] w5 = (r6, w6)" by fastforce
  obtain t w7 where 7: "sys_clock P (sys_close P f5 w6) = (t, w7)" by fastforce
  let ?u = "\<lambda>w. unlink_name P (the n1) (unlink_name P (the n2) w)"
  note h1 = fifo_name_heap(2) [OF 1]
  note h2 = same_heap_trans [OF h1 fifo_name_heap(1) [OF 2]]
  note h3 = same_heap_trans [OF h2 mkfifo_both_heap [OF 3]]
  note h4 = same_heap_trans [OF h3 sys_same_heap(3) [OF 4]]
  note h5 = same_heap_trans [OF h4 sys_same_heap(3) [OF 5]]
  note h6 = same_heap_trans [OF h5 sys_same_heap(5) [OF 6]]
  note h7 = same_heap_trans [OF same_heap_upto_close [OF h6] sys_same_heap(10) [OF 7]]
  have "w' \<in> {w, w2, w3, ?u w4, ?u (sys_close P f4 w5), ?u (sys_close P f4 (sys_close P f5 w6))}
    \<or> (\<exists>x. await_answer P f4 t (\<lambda>w. ?u (sys_close P f4 w)) w7 = Some (x, w'))"
    using assms 1 2 3 4 5 6 7
    by (cases n1; cases n2) (auto simp: SocketListen_def Let_def split: if_splits option.splits sum.splits)
  then show ?thesis
  proof
    assume "\<exists>x. await_answer P f4 t (\<lambda>w. ?u (sys_close P f4 w)) w7 = Some (x, w')"
    then obtain x where "await_answer P f4 t (\<lambda>w. ?u (sys_close P f4 w)) w7 = Some (x, w')" by blast
    from await_answer_heap [OF this] show ?thesis using same_heap_trans [OF h7] by auto
  qed (use h2 h3 h4 h5 h6 in auto)
qed

section \<open>Calls that change an identifier\<close>

text \<open>One identifier changes as a relation says, from well formed to well formed; nothing else does.\<close>

definition edits :: "addr \<Rightarrow> (sockid \<Rightarrow> sockid \<Rightarrow> bool) \<Rightarrow> 's world \<Rightarrow> 's world \<Rightarrow> bool" where
  "edits k R w w' \<longleftrightarrow> next_addr w \<le> next_addr w' \<and> (\<forall>j. j \<noteq> k \<longrightarrow> ids w' j = ids w j)
     \<and> (\<forall>i. ids w k = Some i \<longrightarrow> wf_sockid i \<longrightarrow> (\<exists>i'. ids w' k = Some i' \<and> wf_sockid i' \<and> R i i'))"

definition same_local :: "sockid \<Rightarrow> sockid \<Rightarrow> bool" where
  "same_local i i' \<longleftrightarrow> src_ip i' = src_ip i \<and> src_port i' = src_port i"

definition same_peer :: "sockid \<Rightarrow> sockid \<Rightarrow> bool" where
  "same_peer i i' \<longleftrightarrow> dst_ip i' = dst_ip i \<and> dst_port i' = dst_port i"

lemma same_local_refl [simp]: "same_local i i" "same_peer i i"
  by (simp_all add: same_local_def same_peer_def)

lemma same_local_trans: "same_local i j \<Longrightarrow> same_local j l \<Longrightarrow> same_local i l"
  by (simp add: same_local_def)

lemma edits_same_heap: "same_heap w w' \<Longrightarrow> (\<And>i. R i i) \<Longrightarrow> edits k R w w'"
  by (simp add: edits_def same_heap_def)

lemma edits_trans:
  assumes "edits k R w w1" and "edits k R w1 w2" and "\<And>i j l. R i j \<Longrightarrow> R j l \<Longrightarrow> R i l"
  shows "edits k R w w2"
proof -
  have "next_addr w \<le> next_addr w2" using assms(1,2) unfolding edits_def by linarith
  moreover have "ids w2 j = ids w j" if "j \<noteq> k" for j using assms(1,2) that by (simp add: edits_def)
  moreover have "\<exists>i'. ids w2 k = Some i' \<and> wf_sockid i' \<and> R i i'" if i: "ids w k = Some i" "wf_sockid i" for i
  proof -
    obtain j where j: "ids w1 k = Some j" "wf_sockid j" "R i j" using assms(1) i by (auto simp: edits_def)
    then obtain l where "ids w2 k = Some l" "wf_sockid l" "R j l" using assms(2) by (auto simp: edits_def)
    then show ?thesis using j(3) assms(3) by blast
  qed
  ultimately show ?thesis by (simp add: edits_def)
qed

lemmas edits_local_trans = edits_trans [where R = same_local, OF _ _ same_local_trans]
lemmas edits_local_same = edits_same_heap [where R = same_local, OF _ same_local_refl(1)]

lemma edits_pre: "same_heap w w1 \<Longrightarrow> edits k R w1 w2 \<Longrightarrow> edits k R w w2"
  by (auto simp: edits_def same_heap_def)

lemma strcpy_lib_wf:
  assumes "wf_ip d" and "NUL \<notin> set x" and "strcpy_lib d x = Returns s"
  shows "wf_ip s"
proof (cases "length x \<le> 16")
  case True
  then show ?thesis using wf_ip_strcpy_lib [OF assms(1) True assms(2)] assms(3) by simp
next
  case False
  then show ?thesis using assms(1,3) by (simp add: strcpy_lib_def wf_ip_def MAX_IP_LENGTH_def)
qed

lemma set_peer_edits: "NUL \<notin> set ip \<Longrightarrow> edits k same_local w (set_peer k ip p w)"
  by (auto simp: set_peer_def edits_def same_local_def wf_sockid_def id_at_def dest: strcpy_lib_wf split: c_result.splits)

lemma clear_peer_edits: "edits k same_local w (clear_peer k w)"
  using wf_ip_set_empty
  by (auto simp: clear_peer_def edits_def same_local_def wf_sockid_def wf_ip_def MAX_IP_LENGTH_def)

lemma SocketBind_edits:
  assumes "SocketBind P (Some k) (Some a) n w = Some (r, n', w')" and "addr a = Some ip" and "NUL \<notin> set ip"
  shows "edits k (\<lambda>i i'. i' = i \<or> get_socket_state (Some i) = EMPTY_SOCKET \<and> same_peer i i') w w'"
proof -
  let ?R = "\<lambda>i i'. i' = i \<or> get_socket_state (Some i) = EMPTY_SOCKET \<and> same_peer i i'"
  obtain n1 w1 where 1: "get_bind_requests_fifo_name P ip w = (n1, w1)" by fastforce
  obtain n2 w2 where 2: "get_client_fifo_name P (px_getpid P (os w1)) (n + 1) w1 = (n2, w2)" by fastforce
  obtain f3 w3 where 3: "sys_open P (the n1) O_WRONLY w2 = (f3, w3)" by fastforce
  obtain m w4 where 4: "sys_mkfifo P (the n2) w3 = (m, w4)" by fastforce
  obtain f5 w5 where 5: "sys_open P (the n2) O_RDONLY_NONBLOCK w4 = (f5, w5)" by fastforce
  let ?msg = "bind_request_text (port a) (px_getpid P (os w1)) (n + 1) @ [NUL]"
  obtain r6 w6 where 6: "sys_write P f3 ?msg w5 = (r6, w6)" by fastforce
  note h1 = same_heap_name [OF 1]
  note h2 = same_heap_trans [OF h1 get_client_fifo_name_heap [OF 2]]
  note h3 = same_heap_trans [OF h2 sys_same_heap(3) [OF 3]]
  note h4 = same_heap_trans [OF h3 sys_same_heap(6) [OF 4]]
  note h5 = same_heap_trans [OF h4 sys_same_heap(3) [OF 5]]
  note h6 = same_heap_trans [OF h5 sys_same_heap(5) [OF 6]]
  have cases: "w' \<in> {w, w1, w2, w3, w4, sys_close P f3 (unlink_name P (the n2) w5),
      unlink_name P (the n2) (sys_close P f3 (sys_close P f5 w6))}
    \<or> (\<exists>x w7. await_bind_answer P (the n2) f5 (sys_close P f3 w6) = Some (x, w7)
        \<and> (w' = w7 \<or> state_of (Some k) w = EMPTY_SOCKET \<and> w' = (case strcpy_lib (src_ip (id_at w7 k)) ip of
            Undefined \<Rightarrow> set_ub w7 | Returns s \<Rightarrow> upd_id k (\<lambda>i. i\<lparr>src_ip := s, src_port := port a\<rparr>) w7)))"
    using assms(1,2) 1 2 3 4 5 6
    by (cases n1; cases n2) (auto simp: SocketBind_def Let_def split: if_splits option.splits)
  from cases show ?thesis
  proof (elim disjE exE conjE)
    assume "w' \<in> {w, w1, w2, w3, w4, sys_close P f3 (unlink_name P (the n2) w5),
      unlink_name P (the n2) (sys_close P f3 (sys_close P f5 w6))}"
    then have "same_heap w w'" using h1 h2 h3 h4 h5 h6 by auto
    then show ?thesis by (rule edits_same_heap) simp
  next
    fix x w7
    assume "await_bind_answer P (the n2) f5 (sys_close P f3 w6) = Some (x, w7)" and "w' = w7"
    then have "same_heap w w'"
      using same_heap_trans [OF same_heap_upto_close [OF h6] await_bind_answer_same_proc] by blast
    then show ?thesis by (rule edits_same_heap) simp
  next
    fix x w7
    assume 7: "await_bind_answer P (the n2) f5 (sys_close P f3 w6) = Some (x, w7)"
      and e: "state_of (Some k) w = EMPTY_SOCKET" and w': "w' = (case strcpy_lib (src_ip (id_at w7 k)) ip of
            Undefined \<Rightarrow> set_ub w7 | Returns s \<Rightarrow> upd_id k (\<lambda>i. i\<lparr>src_ip := s, src_port := port a\<rparr>) w7)"
    have h7: "same_heap w w7" by (rule same_heap_trans [OF same_heap_upto_close [OF h6] await_bind_answer_same_proc [OF 7]])
    then show ?thesis
      using e w' assms(3)
      by (auto simp: edits_def same_heap_def same_peer_def wf_sockid_def id_at_def state_of_def
          dest: strcpy_lib_wf split: c_result.splits)
  qed
qed

lemma edits_local_upto: "edits k same_local w w1 \<Longrightarrow> same_heap w1 w2 \<Longrightarrow> edits k same_local w w2"
  by (rule edits_local_trans [OF _ edits_local_same])

lemma connection_granted_edits:
  assumes "connection_granted P k ip p w = (r, w')" and "NUL \<notin> set ip"
  shows "edits k same_local w w'"
proof -
  obtain n1 w1 where 1: "get_end_fifo_read_end_name P (Some k) w = (n1, w1)" by fastforce
  obtain n2 w2 where 2: "get_end_fifo_write_end_name P (Some k) w1 = (n2, w2)" by fastforce
  define w5 where "w5 = set_peer k ip p (snd (sys_unlink P n2 (snd (sys_unlink P n1 w2))))"
  obtain n6 w6 where 6: "get_socket_send_fifo_name P (Some k) w5 = (n6, w6)" by fastforce
  obtain n7 w7 where 7: "get_socket_recv_fifo_name P (Some k) w6 = (n7, w7)" by fastforce
  obtain m w8 where 8: "mkfifo_both P (the n6) (the n7) w7 = (m, w8)" by fastforce
  define w9 where "w9 = clear_peer k (unlink_name P (the n7) (unlink_name P (the n6) w8))"
  note h2 = same_heap_trans [OF fifo_name_heap(7) [OF 1] fifo_name_heap(8) [OF 2]]
  have "same_heap w (snd (sys_unlink P n2 (snd (sys_unlink P n1 w2))))"
    by (rule same_heap_trans [OF same_heap_trans [OF h2 same_heap_unlink] same_heap_unlink])
  then have e5: "edits k same_local w w5" unfolding w5_def by (rule edits_pre [OF _ set_peer_edits [OF assms(2)]])
  note e6 = edits_local_upto [OF e5 fifo_name_heap(9) [OF 6]]
  note e7 = edits_local_upto [OF e6 fifo_name_heap(6) [OF 7]]
  note e8 = edits_local_upto [OF e7 mkfifo_both_heap [OF 8]]
  have e9: "edits k same_local w w9"
    unfolding w9_def by (rule edits_local_trans [OF edits_local_upto [OF e8] clear_peer_edits]) auto
  have e10: "edits k same_local w (snd (create_socket_end_fifos P (Some k) w9))"
    by (rule edits_local_upto [OF e9]) (rule create_socket_end_fifos_heap [OF surjective_pairing])
  have "w' \<in> {w6, w7, w8, snd (create_socket_end_fifos P (Some k) w9)}"
    using assms(1) 1 2 6 [unfolded w5_def] 7 8
    by (cases n6; cases n7) (auto simp: connection_granted_def w9_def Let_def split: if_splits)
  then show ?thesis using e6 e7 e8 e10 by blast
qed

lemma SocketConnect_edits:
  assumes "SocketConnect P (Some k) (Some a) w = Some (r, w')" and "addr a = Some ip" and "NUL \<notin> set ip"
  shows "same_heap w w' \<or> state_of (Some k) w = BOUND_ONLY_SOCKET \<and> edits k same_local w w'"
proof (cases "state_of (Some k) w = BOUND_ONLY_SOCKET")
  case False
  then show ?thesis using assms(1,2) by (auto simp: SocketConnect_def)
next
  case True
  obtain n1 w1 where 1: "get_connect_fifo_write_end_name P (Some k) w = (n1, w1)" by fastforce
  obtain n2 w2 where 2: "get_connect_fifo_read_end_name P (Some k) w1 = (n2, w2)" by fastforce
  obtain m w3 where 3: "mkfifo_both P (the n1) (the n2) w2 = (m, w3)" by fastforce
  obtain f4 w4 where 4: "sys_open P (the n2) O_RDONLY w3 = (f4, w4)" by fastforce
  obtain f5 w5 where 5: "sys_open P (the n1) O_WRONLY w4 = (f5, w5)" by fastforce
  let ?msg = "connect_request_text ip (port a)"
  define w6 where "w6 = (if length ?msg + 2 \<le> MAX_SOCKET_STRING_REPR_SIZE then w5 else set_ub w5)"
  obtain r7 w7 where 7: "sys_write P f5 (?msg @ [NUL]) w6 = (r7, w7)" by fastforce
  obtain t w8 where 8: "sys_clock P w7 = (t, w8)" by fastforce
  let ?u = "\<lambda>w. unlink_name P (the n1) (unlink_name P (the n2) w)"
  let ?c = "\<lambda>w. ?u (sys_close P f5 (sys_close P f4 w))"
  let ?fin = "\<lambda>w. unlink_name P (the n1) (sys_close P f5 (unlink_name P (the n2) (sys_close P f4 w)))"
  note h2 = same_heap_trans [OF fifo_name_heap(5) [OF 1] fifo_name_heap(4) [OF 2]]
  note h3 = same_heap_trans [OF h2 mkfifo_both_heap [OF 3]]
  note h4 = same_heap_trans [OF h3 sys_same_heap(3) [OF 4]]
  note h5 = same_heap_trans [OF h4 sys_same_heap(3) [OF 5]]
  have h6: "same_heap w w6" using h5 by (auto simp: w6_def)
  note h7 = same_heap_trans [OF h6 sys_same_heap(5) [OF 7]]
  note h8 = same_heap_trans [OF h7 sys_same_heap(10) [OF 8]]
  have "w' \<in> {w2, w3, ?u w4, ?u (sys_close P f4 w5), ?c w6, ?c w7}
    \<or> (\<exists>x w9. await_answer P f4 t ?fin w8 = Some (x, w9) \<and> (w' = w9 \<or> connection_granted P k ip (port a) w9 = (r, w')))"
    using assms(1,2) 1 2 3 4 5 7 [unfolded w6_def] 8 True
    by (cases n1; cases n2) (auto simp: SocketConnect_def w6_def Let_def split: if_splits option.splits sum.splits)
  then show ?thesis
  proof
    assume "\<exists>x w9. await_answer P f4 t ?fin w8 = Some (x, w9) \<and> (w' = w9 \<or> connection_granted P k ip (port a) w9 = (r, w'))"
    then obtain x w9 where w9: "await_answer P f4 t ?fin w8 = Some (x, w9)"
      "w' = w9 \<or> connection_granted P k ip (port a) w9 = (r, w')" by blast
    have h9: "same_heap w w9" using same_heap_trans [OF h8 await_answer_heap [OF w9(1)]] by auto
    then show ?thesis
      using True w9(2) edits_local_same [OF h9] edits_pre [OF h9 connection_granted_edits [OF _ assms(3)]] by auto
  qed (use h2 h3 h4 h5 h6 h7 in auto)
qed

section \<open>Calls that make an identifier\<close>

definition adds_id :: "'s world \<Rightarrow> 's world \<Rightarrow> bool" where
  "adds_id w w' \<longleftrightarrow> (\<exists>c j. next_addr w \<le> c \<and> c < next_addr w' \<and> wf_sockid j \<and> ids w' = (ids w)(c \<mapsto> j))"

lemma new_id_adds:
  assumes "same_heap w w1" and "wf_sockid j" and "new_id j w1 = (c, w2)"
  shows "next_addr w \<le> c \<and> c < next_addr w2 \<and> ids w2 = (ids w)(c \<mapsto> j)"
  using assms by (auto simp: new_id_def same_heap_def)

lemma adds_edits:
  assumes "next_addr w \<le> c" "c < next_addr w1" "wf_sockid j" "ids w1 = (ids w)(c \<mapsto> j)" and "edits c R w1 w2"
  shows "adds_id w w2"
proof -
  obtain l where l: "ids w2 c = Some l" "wf_sockid l" using assms by (auto simp: edits_def)
  have "ids w2 x = ((ids w)(c \<mapsto> l)) x" for x using assms(4,5) l(1) by (simp add: edits_def)
  then have "ids w2 = (ids w)(c \<mapsto> l)" by blast
  moreover have "c < next_addr w2" using assms(2,5) by (simp add: edits_def)
  ultimately show ?thesis using assms(1) l(2) by (auto simp: adds_id_def)
qed

lemma SocketCreate_adds:
  assumes "SocketCreate P w = (r, w')"
  shows "same_heap w w' \<or> adds_id w w'"
proof -
  obtain m w1 where m: "sys_malloc P 48 w = (m, w1)" by fastforce
  note h1 = sys_same_heap(1) [OF m]
  show ?thesis
  proof (cases m)
    case None
    then show ?thesis using assms m h1 by (simp add: SocketCreate_def)
  next
    case (Some b)
    let ?i = "init_empty_socket_id (fresh_sockid b)"
    have wf: "wf_sockid ?i"
      using wf_ip_set_empty by (simp add: wf_sockid_def init_empty_socket_id_def fresh_sockid_def)
    obtain c w2 where n: "new_id ?i w1 = (c, w2)" by fastforce
    then have "w' = w2" using assms m Some by (simp add: SocketCreate_def)
    then show ?thesis using new_id_adds [OF h1 wf n] wf by (auto simp: adds_id_def)
  qed
qed

lemma copy_socket_id_adds:
  assumes "ids w k = Some i" and "wf_sockid i" and "copy_socket_id P k w = (r, w')"
  shows "r = None \<and> same_heap w w'
    \<or> (\<exists>c j. r = Some c \<and> next_addr w \<le> c \<and> c < next_addr w' \<and> wf_sockid j \<and> ids w' = (ids w)(c \<mapsto> j))"
proof -
  obtain m w1 where m: "sys_malloc P 48 w = (m, w1)" by fastforce
  note h1 = sys_same_heap(1) [OF m]
  show ?thesis
  proof (cases m)
    case None
    then show ?thesis using assms(3) m h1 by (simp add: copy_socket_id_def)
  next
    case (Some b)
    define j where "j = \<lparr>src_port = src_port i, dst_port = dst_port i,
      src_ip = strcpy_arr (ip_set_empty (block_cells b 17)) (src_ip i),
      dst_ip = strcpy_arr (ip_set_empty (block_cells b 17)) (dst_ip i)\<rparr>"
    have wf: "wf_sockid j"
      using assms(2) wf_ip_strcpy_arr length_ip_set_empty [of "block_cells b 17"] by (simp add: j_def wf_sockid_def)
    obtain c w2 where n: "new_id j w1 = (c, w2)" by fastforce
    have "id_at w1 k = i" using assms(1) h1 by (simp add: id_at_def same_heap_def)
    then have "r = Some c \<and> w' = w2"
      using assms(3) m Some n by (auto simp: copy_socket_id_def fresh_sockid_def j_def Let_def)
    then show ?thesis using new_id_adds [OF h1 wf n] wf by blast
  qed
qed

lemma accepted_connection_adds:
  assumes "ids w k = Some i" and "wf_sockid i" and "accepted_connection P k (cstr bs) w = (r, w')"
  shows "same_heap w w' \<and> r = None \<or> adds_id w w' \<and> (\<forall>c. r = Some c \<longrightarrow> ids w' c \<noteq> None \<and> next_addr w \<le> c)"
proof (cases "parse_connect_request (cstr bs)")
  case None
  then show ?thesis using assms(3) by (simp add: accepted_connection_def)
next
  case (Some x)
  obtain ip p where x: "parse_connect_request (cstr bs) = Some (ip, p)" using Some by (cases x) simp
  note nn = parse_connect_request_no_NUL [OF x]
  define w0 where "w0 = (if length ip \<le> MAX_IP_LENGTH then w else set_ub w)"
  have h0: "same_heap w w0" "ids w0 k = Some i" using assms(1) by (auto simp: w0_def)
  obtain c0 w1 where 1: "copy_socket_id P k w0 = (c0, w1)" by fastforce
  from copy_socket_id_adds [OF h0(2) assms(2) 1] show ?thesis
  proof (elim disjE exE conjE)
    assume "c0 = None" and "same_heap w0 w1"
    then show ?thesis
      using assms(3) x 1 [unfolded w0_def] same_heap_trans [OF h0(1)] by (auto simp: accepted_connection_def)
  next
    fix c j
    assume c: "c0 = Some c" "next_addr w0 \<le> c" "c < next_addr w1" "wf_sockid j" "ids w1 = (ids w0)(c \<mapsto> j)"
    have new: "next_addr w \<le> c" "ids w1 = (ids w)(c \<mapsto> j)" using c(2,5) h0(1) by (auto simp: same_heap_def)
    define w2 where "w2 = set_peer c ip p w1"
    obtain n3 w3 where 3: "get_socket_send_fifo_name P (Some c) w2 = (n3, w3)" by fastforce
    obtain n4 w4 where 4: "get_socket_recv_fifo_name P (Some c) w3 = (n4, w4)" by fastforce
    obtain m w5 where 5: "mkfifo_both P (the n3) (the n4) w4 = (m, w5)" by fastforce
    define w6 where "w6 = clear_peer c (unlink_name P (the n4) (unlink_name P (the n3) w5))"
    have e2: "edits c same_local w1 w2" unfolding w2_def by (rule set_peer_edits [OF nn])
    note e3 = edits_local_upto [OF e2 fifo_name_heap(9) [OF 3]]
    note e4 = edits_local_upto [OF e3 fifo_name_heap(6) [OF 4]]
    note e5 = edits_local_upto [OF e4 mkfifo_both_heap [OF 5]]
    have e6: "edits c same_local w1 w6"
      unfolding w6_def by (rule edits_local_trans [OF edits_local_upto [OF e5] clear_peer_edits]) auto
    have "w' \<in> {w3, w4, w5, w6} \<and> (r = None \<or> r = Some c)"
      using assms(3) x 1 [unfolded w0_def] c(1) 3 [unfolded w2_def] 4 5
      by (cases n3; cases n4) (auto simp: accepted_connection_def w6_def Let_def split: if_splits)
    then have e: "edits c same_local w1 w'" "r = None \<or> r = Some c" using e3 e4 e5 e6 by blast+
    moreover have "ids w' c \<noteq> None" using e(1) c(4,5) by (auto simp: edits_def)
    ultimately show ?thesis using adds_edits [OF new(1) c(3,4) new(2) e(1)] new(1) by auto
  qed
qed

lemma SocketAccept_adds:
  assumes "ids w k = Some i" and "wf_sockid i" and "SocketAccept P (Some k) w = Some (r, w')"
  shows "same_heap w w' \<and> r = None \<or> adds_id w w' \<and> (\<forall>c. r = Some c \<longrightarrow> ids w' c \<noteq> None \<and> next_addr w \<le> c)"
proof (cases "state_of (Some k) w = BOUND_ONLY_SOCKET")
  case False
  then show ?thesis using assms(3) by (simp add: SocketAccept_def)
next
  case True
  obtain n1 w1 where 1: "get_accept_fifo_write_end_name P (Some k) w = (n1, w1)" by fastforce
  obtain t w2 where 2: "sys_clock P w1 = (t, w2)" by fastforce
  note h1 = fifo_name_heap(3) [OF 1]
  note h2 = same_heap_trans [OF h1 sys_same_heap(10) [OF 2]]
  have "w' = w1 \<and> r = None \<or> (\<exists>x w3. await_connection P (the n1) t (- 1) w2 = Some (x, w3)
      \<and> (w' = w3 \<and> r = None \<or> (\<exists>bs. accepted_connection P k (cstr bs) w3 = (r, w'))))"
    using assms(3) 1 2 True by (cases n1) (auto simp: SocketAccept_def split: option.splits)
  then show ?thesis
  proof
    assume "\<exists>x w3. await_connection P (the n1) t (- 1) w2 = Some (x, w3)
      \<and> (w' = w3 \<and> r = None \<or> (\<exists>bs. accepted_connection P k (cstr bs) w3 = (r, w')))"
    then obtain x w3 where w3: "await_connection P (the n1) t (- 1) w2 = Some (x, w3)"
      "w' = w3 \<and> r = None \<or> (\<exists>bs. accepted_connection P k (cstr bs) w3 = (r, w'))" by blast
    have h3: "same_heap w w3" by (rule same_heap_trans [OF h2 await_connection_heap [OF w3(1)]])
    have i3: "ids w3 k = Some i" using assms(1) h3 by (simp add: same_heap_def)
    have up: "adds_id w w'" if "adds_id w3 w'" using that h3 unfolding adds_id_def same_heap_def by (metis order_trans)
    have le: "next_addr w \<le> next_addr w3" using h3 by (simp add: same_heap_def)
    from w3(2) show ?thesis
    proof
      assume "\<exists>bs. accepted_connection P k (cstr bs) w3 = (r, w')"
      then obtain bs where "accepted_connection P k (cstr bs) w3 = (r, w')" by blast
      from accepted_connection_adds [OF i3 assms(2) this] show ?thesis
        using same_heap_trans [OF h3] up order_trans [OF le] by blast
    qed (use h3 in simp)
  qed (use h1 in simp)
qed

section \<open>The client as a transition system\<close>

text \<open>An address as \<open>AddressCreate\<close> makes it.\<close>

definition made_address :: "Address \<Rightarrow> bool" where
  "made_address a \<longleftrightarrow> (\<exists>ip. addr a = Some ip \<and> length ip = MAX_IP_LENGTH \<and> NUL \<notin> set ip)"

lemma AddressCreate_made: "AddressCreate P ip p w = (Some a, w') \<Longrightarrow> NUL \<notin> set ip \<Longrightarrow> made_address a"
  by (auto simp: AddressCreate_def made_address_def split: if_splits prod.splits option.splits)

inductive client_step :: "'s posix \<Rightarrow> 's world \<Rightarrow> 's world \<Rightarrow> bool" for P where
  creates: "SocketCreate P w = (r, w') \<Longrightarrow> client_step P w w'"
| destroys: "client_step P w (SocketDestroy k w)"
| addresses: "AddressCreate P ip p w = (a, w') \<Longrightarrow> client_step P w w'"
| binds: "ids w k \<noteq> None \<Longrightarrow> made_address a \<Longrightarrow> SocketBind P (Some k) (Some a) n w = Some (r, n', w') \<Longrightarrow> client_step P w w'"
| listens: "ids w k \<noteq> None \<Longrightarrow> SocketListen P (Some k) q w = Some (r, w') \<Longrightarrow> client_step P w w'"
| connects: "ids w k \<noteq> None \<Longrightarrow> made_address a \<Longrightarrow> SocketConnect P (Some k) (Some a) w = Some (r, w') \<Longrightarrow> client_step P w w'"
| accepts: "ids w k \<noteq> None \<Longrightarrow> SocketAccept P (Some k) w = Some (c, w') \<Longrightarrow> client_step P w w'"
| sends: "ids w k \<noteq> None \<Longrightarrow> SocketSend P (Some k) message len w = (m, w') \<Longrightarrow> client_step P w w'"
| receives: "ids w k \<noteq> None \<Longrightarrow> SocketRecv P (Some k) has_buffer len w = Some (m, bs, w') \<Longrightarrow> client_step P w w'"
| closes: "ids w k \<noteq> None \<Longrightarrow> SocketClose P (Some k) w = Some (r, w') \<Longrightarrow> client_step P w w'"

inductive_cases client_stepE: "client_step P w w'"

definition client_ok :: "'s world \<Rightarrow> bool" where
  "client_ok w \<longleftrightarrow> (\<forall>k i. ids w k = Some i \<longrightarrow> wf_sockid i \<and> k < next_addr w)"

text \<open>How an identifier may change: its endpoint while it is empty, its peer while it is only bound.\<close>

definition id_moves :: "sockid \<Rightarrow> sockid \<Rightarrow> bool" where
  "id_moves i i' \<longleftrightarrow> i' = i \<or> get_socket_state (Some i) = EMPTY_SOCKET \<and> same_peer i i'
     \<or> get_socket_state (Some i) = BOUND_ONLY_SOCKET \<and> same_local i i'"

definition client_moves :: "'s world \<Rightarrow> 's world \<Rightarrow> bool" where
  "client_moves w w' \<longleftrightarrow> next_addr w \<le> next_addr w'
     \<and> (\<forall>k i'. k < next_addr w \<longrightarrow> ids w' k = Some i' \<longrightarrow> (\<exists>i. ids w k = Some i \<and> id_moves i i'))"

lemma client_same_heap:
  assumes "client_ok w" and "same_heap w w'"
  shows "client_ok w' \<and> client_moves w w'"
  using assms by (fastforce simp: client_ok_def client_moves_def same_heap_def id_moves_def)

lemma client_adds:
  assumes "client_ok w" and "same_heap w w' \<or> adds_id w w'"
  shows "client_ok w' \<and> client_moves w w'"
  using assms(2)
proof
  assume "adds_id w w'"
  then obtain c j where c: "next_addr w \<le> c" "c < next_addr w'" "wf_sockid j" "ids w' = (ids w)(c \<mapsto> j)"
    by (auto simp: adds_id_def)
  then show ?thesis using assms(1) by (fastforce simp: client_ok_def client_moves_def id_moves_def)
qed (rule client_same_heap [OF assms(1)])

lemma client_edits:
  assumes "client_ok w" and "ids w k = Some i" and "edits k R w w'" and "\<And>i'. R i i' \<Longrightarrow> id_moves i i'"
  shows "client_ok w' \<and> client_moves w w'"
proof -
  obtain i' where i': "ids w' k = Some i'" "wf_sockid i'" "R i i'"
    using assms(1-3) by (auto simp: edits_def client_ok_def)
  have rest: "\<forall>j. j \<noteq> k \<longrightarrow> ids w' j = ids w j" "next_addr w \<le> next_addr w'" using assms(3) by (simp_all add: edits_def)
  have "k < next_addr w" using assms(1,2) by (auto simp: client_ok_def)
  then have "client_ok w'" using assms(1) i' rest unfolding client_ok_def by (metis option.inject order_less_le_trans)
  moreover have "\<exists>l. ids w j = Some l \<and> id_moves l l'" if "ids w' j = Some l'" for j l'
    using that i' rest(1) assms(2) assms(4) [OF i'(3)] by (cases "j = k") (auto simp: id_moves_def)
  ultimately show ?thesis using rest(2) by (simp add: client_moves_def)
qed

lemma client_step_ok:
  assumes ok: "client_ok w" and st: "client_step P w w'"
  shows "client_ok w' \<and> client_moves w w'"
proof -
  have id: "\<exists>i. ids w k = Some i \<and> wf_sockid i" if "ids w k \<noteq> None" for k using ok that by (auto simp: client_ok_def)
  from st show ?thesis
  proof cases
    case (destroys k)
    then show ?thesis using ok
      by (cases k) (auto simp: SocketDestroy_def destroy_socket_id_def free_id_def client_ok_def client_moves_def id_moves_def
          split: if_splits)
  next
    case (binds k a n r n')
    obtain ip i where "addr a = Some ip" "NUL \<notin> set ip" "ids w k = Some i"
      using binds(1,2) by (auto simp: made_address_def)
    then show ?thesis using client_edits [OF ok _ SocketBind_edits [OF binds(3)]] by (auto simp: id_moves_def)
  next
    case (connects k a r)
    obtain ip i where a: "addr a = Some ip" "NUL \<notin> set ip" "ids w k = Some i"
      using connects(1,2) by (auto simp: made_address_def)
    from SocketConnect_edits [OF connects(3) a(1,2)] show ?thesis
    proof
      assume e: "state_of (Some k) w = BOUND_ONLY_SOCKET \<and> edits k same_local w w'"
      then have "get_socket_state (Some i) = BOUND_ONLY_SOCKET" using a(3) by (simp add: state_of_def id_at_def)
      then show ?thesis using client_edits [OF ok a(3)] e by (auto simp: id_moves_def)
    qed (rule client_same_heap [OF ok])
  next
    case (accepts k c)
    obtain i where i: "ids w k = Some i" "wf_sockid i" using id [OF accepts(1)] by blast
    show ?thesis using client_adds [OF ok] SocketAccept_adds [OF i accepts(2)] by blast
  next
    case (creates r)
    show ?thesis by (rule client_adds [OF ok SocketCreate_adds [OF creates]])
  next
    case (addresses ip p a)
    show ?thesis by (rule client_same_heap [OF ok AddressCreate_heap [OF addresses]])
  next
    case (listens k q r)
    show ?thesis by (rule client_same_heap [OF ok SocketListen_heap [OF listens(2)]])
  next
    case (sends k message len m)
    show ?thesis by (rule client_same_heap [OF ok SocketSend_heap [OF sends(2)]])
  next
    case (receives k has_buffer len m bs)
    show ?thesis by (rule client_same_heap [OF ok SocketRecv_heap [OF receives(2)]])
  next
    case (closes k r)
    show ?thesis by (rule client_same_heap [OF ok SocketClose_heap [OF closes(2)]])
  qed
qed

interpretation cl: invariant_system "client_step P" client_ok client_moves for P
  by unfold_locales (simp_all add: client_step_ok)

text \<open>No call but \<open>SocketDestroy\<close> frees an identifier.\<close>

definition still_there :: "'s world \<Rightarrow> 's world \<Rightarrow> bool" where
  "still_there w w' \<longleftrightarrow> (\<forall>k. ids w k \<noteq> None \<longrightarrow> ids w' k \<noteq> None)"

lemma still_there_effects:
  "same_heap w w' \<Longrightarrow> still_there w w'" "adds_id w w' \<Longrightarrow> still_there w w'"
  "client_ok w \<Longrightarrow> edits k R w w' \<Longrightarrow> still_there w w'"
proof -
  show "same_heap w w' \<Longrightarrow> still_there w w'" "adds_id w w' \<Longrightarrow> still_there w w'"
    by (auto simp: still_there_def same_heap_def adds_id_def)
  show "still_there w w'" if "client_ok w" "edits k R w w'"
  proof -
    have "ids w' j \<noteq> None" if "ids w j \<noteq> None" for j
      using that \<open>client_ok w\<close> \<open>edits k R w w'\<close> unfolding edits_def client_ok_def by (cases "j = k") auto
    then show ?thesis by (simp add: still_there_def)
  qed
qed

lemma client_call:
  assumes ok: "client_ok w" and k: "ids w k \<noteq> None"
  shows "made_address a \<Longrightarrow> SocketBind P (Some k) (Some a) n w = Some (r, n', w') \<Longrightarrow> client_step P w w' \<and> still_there w w'"
    and "SocketListen P (Some k) q w = Some (r, w') \<Longrightarrow> client_step P w w' \<and> still_there w w'"
    and "made_address a \<Longrightarrow> SocketConnect P (Some k) (Some a) w = Some (r, w') \<Longrightarrow> client_step P w w' \<and> still_there w w'"
    and "SocketAccept P (Some k) w = Some (c, w') \<Longrightarrow> client_step P w w' \<and> still_there w w' \<and> (\<forall>x. c = Some x \<longrightarrow> ids w' x \<noteq> None \<and> next_addr w \<le> x)"
    and "SocketSend P (Some k) message len w = (m, w') \<Longrightarrow> client_step P w w' \<and> still_there w w'"
    and "SocketRecv P (Some k) has_buffer len w = Some (m, bs, w') \<Longrightarrow> client_step P w w' \<and> still_there w w'"
    and "SocketClose P (Some k) w = Some (r, w') \<Longrightarrow> client_step P w w' \<and> still_there w w'"
proof -
  obtain i where i: "ids w k = Some i" "wf_sockid i" using ok k by (auto simp: client_ok_def)
  show "client_step P w w' \<and> still_there w w'"
    if a: "made_address a" and c: "SocketBind P (Some k) (Some a) n w = Some (r, n', w')"
  proof -
    obtain ip where "addr a = Some ip" "NUL \<notin> set ip" using a by (auto simp: made_address_def)
    from still_there_effects(3) [OF ok SocketBind_edits [OF c this]] client_step.binds [OF k a c] show ?thesis by simp
  qed
  show "client_step P w w' \<and> still_there w w'"
    if a: "made_address a" and c: "SocketConnect P (Some k) (Some a) w = Some (r, w')"
  proof -
    obtain ip where "addr a = Some ip" "NUL \<notin> set ip" using a by (auto simp: made_address_def)
    from SocketConnect_edits [OF c this] have "still_there w w'" using still_there_effects(1,3) ok by blast
    then show ?thesis using client_step.connects [OF k a c] by simp
  qed
  show "client_step P w w' \<and> still_there w w' \<and> (\<forall>x. c = Some x \<longrightarrow> ids w' x \<noteq> None \<and> next_addr w \<le> x)"
    if c: "SocketAccept P (Some k) w = Some (c, w')"
    using SocketAccept_adds [OF i c] still_there_effects(1,2) [of w w'] client_step.accepts [OF k c] by auto
  show "client_step P w w' \<and> still_there w w'" if c: "SocketListen P (Some k) q w = Some (r, w')"
    using still_there_effects(1) [OF SocketListen_heap [OF c]] client_step.listens [OF k c] by simp
  show "client_step P w w' \<and> still_there w w'" if c: "SocketSend P (Some k) message len w = (m, w')"
    using still_there_effects(1) [OF SocketSend_heap [OF c]] client_step.sends [OF k c] by simp
  show "client_step P w w' \<and> still_there w w'" if c: "SocketRecv P (Some k) has_buffer len w = Some (m, bs, w')"
    using still_there_effects(1) [OF SocketRecv_heap [OF c]] client_step.receives [OF k c] by simp
  show "client_step P w w' \<and> still_there w w'" if c: "SocketClose P (Some k) w = Some (r, w')"
    using still_there_effects(1) [OF SocketClose_heap [OF c]] client_step.closes [OF k c] by simp
qed

text \<open>A run of calls that keeps an identifier.\<close>

definition keeps_id :: "'s posix \<Rightarrow> addr \<Rightarrow> 's world \<Rightarrow> 's world \<Rightarrow> bool" where
  "keeps_id P k w w' \<longleftrightarrow> (client_ok w \<and> ids w k \<noteq> None \<longrightarrow>
     (client_step P)\<^sup>*\<^sup>* w w' \<and> client_ok w' \<and> ids w' k \<noteq> None)"

lemma keeps_id_refl [simp]: "keeps_id P k w w"
  by (simp add: keeps_id_def)

lemma keeps_id_trans: "keeps_id P k w w1 \<Longrightarrow> keeps_id P k w1 w2 \<Longrightarrow> keeps_id P k w w2"
  unfolding keeps_id_def by (meson rtranclp_trans)

lemma keeps_idI:
  assumes "client_ok w \<Longrightarrow> ids w k \<noteq> None \<Longrightarrow> client_step P w w' \<and> still_there w w'"
  shows "keeps_id P k w w'"
  using assms cl.step_inv [of w P w'] by (auto simp: keeps_id_def still_there_def)

lemma keeps_id_calls:
  "made_address a \<Longrightarrow> SocketBind P (Some k) (Some a) n w = Some (r, n', w') \<Longrightarrow> keeps_id P k w w'"
  "SocketListen P (Some k) q w = Some (r, w') \<Longrightarrow> keeps_id P k w w'"
  "made_address a \<Longrightarrow> SocketConnect P (Some k) (Some a) w = Some (r, w') \<Longrightarrow> keeps_id P k w w'"
  "SocketSend P (Some k) message len w = (m, w') \<Longrightarrow> keeps_id P k w w'"
  "SocketRecv P (Some k) has_buffer len w = Some (m, bs, w') \<Longrightarrow> keeps_id P k w w'"
  "SocketClose P (Some k) w = Some (c, w') \<Longrightarrow> keeps_id P k w w'"
  by (rule keeps_idI, rule client_call; assumption)+

section \<open>Properties\<close>

text \<open>
  C20. The identifiers of a client stay in order.  Whatever calls a client makes, starting without
  identifiers, with whatever answers of the manager and of the system, every identifier it holds has two terminated
  addresses of seventeen cells, so the name of any of its FIFOs fits into the array it is printed into and is the
  path made of the kind and the endpoints, unless memory runs out.
\<close>

theorem client_identifiers_in_order:
  assumes "ids w0 = Map.empty" and "(client_step P)\<^sup>*\<^sup>* w0 w" and "ids w k = Some i"
  shows "wf_sockid i \<and> k < next_addr w
    \<and> (\<forall>prefix r w'. construct_full_socket_fifo_name P prefix (Some k) w = (r, w') \<longrightarrow>
         ub w' = ub w \<and> (r = None \<or> r = Some (socket_fifo_path prefix i)))"
proof -
  have "client_ok w0" using assms(1) by (simp add: client_ok_def)
  from cl.steps_inv [OF assms(2) this] have i: "wf_sockid i \<and> k < next_addr w" "id_at w k = i"
    using assms(3) by (simp_all add: client_ok_def id_at_def)
  then have wf: "wf_sockid (id_at w k)" by simp
  show ?thesis
    using i construct_full_socket_fifo_name_spec(1,2) [OF _ wf] same_procD(6) by (metis (no_types, lifting))
qed

lemma sim_create:
  "SocketCreate sim_posix w = (Some (next_addr w), w\<lparr>ids := (ids w)(next_addr w \<mapsto> init_empty_socket_id (fresh_sockid (\<lambda>_. NUL))),
     next_addr := next_addr w + 1\<rparr>)"
  by (simp add: SocketCreate_def sim_alloc new_id_def)

lemma client_identifiers_in_order_witness:
  "\<exists>w i. (client_step sim_posix)\<^sup>*\<^sup>* (sim_world []) w \<and> ids w 0 = Some i \<and> wf_sockid i"
proof -
  obtain w where w: "SocketCreate sim_posix (sim_world []) = (Some 0, w)" "ids w 0 \<noteq> None"
    by (simp add: sim_create sim_world_def)
  then obtain i where i: "ids w 0 = Some i" by blast
  have st: "(client_step sim_posix)\<^sup>*\<^sup>* (sim_world []) w" using client_step.creates [OF w(1)] by blast
  have "ids (sim_world []) = Map.empty" by (simp add: sim_world_def)
  from client_identifiers_in_order [OF this st i] show ?thesis using st i by blast
qed

text \<open>
  C19. Endpoints are given once.  Over every sequence of calls an identifier that is bound keeps its address and
  port, and one that is connected keeps all four endpoints, until it is destroyed, so that the FIFOs for its data
  never change under a client that sends and receives.
\<close>

theorem endpoints_are_given_once:
  assumes "client_ok w" and "(client_step P)\<^sup>*\<^sup>* w w'" and "ids w k = Some i" and "ids w' k = Some i'"
  shows "(get_socket_state (Some i) = CONNECTED_SOCKET \<longrightarrow> i' = i)
    \<and> (get_socket_state (Some i) = BOUND_ONLY_SOCKET \<longrightarrow> same_local i i')"
proof -
  have k: "k < next_addr w" using assms(1,3) by (auto simp: client_ok_def)
  have "k < next_addr v \<and> (\<forall>j. ids v k = Some j \<longrightarrow> (get_socket_state (Some i) = CONNECTED_SOCKET \<longrightarrow> j = i)
      \<and> (get_socket_state (Some i) = BOUND_ONLY_SOCKET \<longrightarrow> same_local i j))" if "(client_step P)\<^sup>*\<^sup>* w v" for v
    using that
  proof (induction rule: rtranclp_induct)
    case base
    then show ?case using k assms(3) by simp
  next
    case (step v u)
    have m: "client_moves v u" using cl.step_moves [OF cl.steps_inv [OF step.hyps(1) assms(1)] step.hyps(2)] .
    have "(get_socket_state (Some i) = CONNECTED_SOCKET \<longrightarrow> j = i)
        \<and> (get_socket_state (Some i) = BOUND_ONLY_SOCKET \<longrightarrow> same_local i j)" if j: "ids u k = Some j" for j
    proof -
      obtain l where l: "ids v k = Some l" "id_moves l j" using m j step.IH unfolding client_moves_def by blast
      have "get_socket_state (Some l) \<noteq> EMPTY_SOCKET" if "get_socket_state (Some i) = BOUND_ONLY_SOCKET" "same_local i l"
        using that by (auto simp: get_socket_state_def same_local_def is_socket_bound_only_def is_socket_connected_def
            is_socket_empty_def split: if_splits)
      then show ?thesis using step.IH l by (auto simp: id_moves_def intro: same_local_trans)
    qed
    then show ?case using step.IH m by (simp add: client_moves_def)
  qed
  from this [OF assms(2)] show ?thesis using assms(4) by blast
qed

lemma endpoints_are_given_once_witness:
  "\<exists>w'. (client_step sim_posix)\<^sup>*\<^sup>* (client_world (the (example_ids 0))) w'
     \<and> ids w' 1 \<noteq> None \<and> ids w' 0 = Some (the (example_ids 0))"
proof -
  let ?i = "the (example_ids 0)" and ?w = "client_world (the (example_ids 0))"
  obtain w' where w: "SocketCreate sim_posix ?w = (Some 1, w')" "ids w' 1 \<noteq> None" "ids w' 0 = Some ?i"
    by (simp add: sim_create client_world_def)
  have st: "(client_step sim_posix)\<^sup>*\<^sup>* ?w w'" using client_step.creates [OF w(1)] by blast
  have "wf_sockid ?i" by (simp add: example_ids_def wf_sockid_def wf_ip_cells)
  then have ok: "client_ok ?w" by (simp add: client_ok_def client_world_def)
  have c: "get_socket_state (Some ?i) = CONNECTED_SOCKET"
    by (simp add: example_ids_def get_socket_state_def is_socket_connected_def is_empty_ip_def ip_cells_def EMPTY_PORT_def nth_append)
  from endpoints_are_given_once [OF ok st client_ids(2) w(3)] c show ?thesis using st w by blast
qed

end
