(* ===== verification/Programs.thy ===== *)
theory Programs imports Client_Steps Manager_Steps begin

text \<open>
  The main programs: src/network_manager/manager_main.c, the client and the server of the chat
  (src/client_main.c, src/server_main.c) and the self test of the queue (src/queue_main.c).  Messages for
  the terminal are left out, except that the chat server returns the messages it prints.
\<close>

section \<open>The self test of the queue\<close>

definition test_items :: "char list" where
  "test_items = map (\<lambda>i. char_of (i mod 100 + 1)) [0..<DEFAULT_QUEUE_CAPACITY]"

fun dequeues_match :: "char list \<Rightarrow> queue \<Rightarrow> bool" where
  "dequeues_match [] q = True"
| "dequeues_match (c # cs) q = (let (dequeued, q') = dequeue q in if dequeued \<noteq> c then False else dequeues_match cs q')"

text \<open>The arguments are the outcomes of the two allocations.\<close>

definition queue_main :: "bool \<Rightarrow> bool \<Rightarrow> int" where
  "queue_main allocated copy_allocated =
     (case QueueCreate allocated of
        None \<Rightarrow> - 1
      | Some q \<Rightarrow>
          if \<not> QueueIsEmpty (Some q) then - 1
          else let (found, q1) = QUEUE_FOR_EACH (\<lambda>_ _. (True, True)) False (Some q) in
          if found then - 1
          else let q2 = foldl (\<lambda>q c. snd (enqueue q c)) q1 test_items in
          if \<not> QueueIsFull q2 then - 1
          else (case QueueCopy copy_allocated q2 of
                  (None, _) \<Rightarrow> - 1
                | (Some copy_q, _) \<Rightarrow> if dequeues_match test_items copy_q then 0 else - 1))"

lemma enqueue_all:
  assumes "queue_inv q" and "length (queue_list q) + length xs \<le> DEFAULT_QUEUE_CAPACITY"
  shows "\<exists>q'. foldl (\<lambda>q c. snd (enqueue q c)) (Some q) xs = Some q' \<and> queue_inv q' \<and> queue_list q' = queue_list q @ xs"
  using assms
proof (induction xs arbitrary: q)
  case (Cons x xs)
  obtain q1 where q1: "enqueue (Some q) x = (True, Some q1)" "queue_inv q1" "queue_list q1 = queue_list q @ [x]"
    using enqueue_room [of q x] Cons.prems by auto
  have "length (queue_list q1) + length xs \<le> DEFAULT_QUEUE_CAPACITY"
    using q1(3) Cons.prems(2) by (simp del: length_queue_list)
  from Cons.IH [OF q1(2) this] show ?case using q1(1,3) by simp
qed simp

lemma dequeues_contents: "queue_inv q \<Longrightarrow> queue_list q = cs \<Longrightarrow> dequeues_match cs q"
proof (induction cs arbitrary: q)
  case (Cons c cs)
  from dequeue_nonempty [OF Cons.prems] Cons.IH show ?case by auto
qed simp

lemma test_items: "length test_items = DEFAULT_QUEUE_CAPACITY" "NUL \<notin> set test_items"
proof -
  have "of_char (char_of (i mod 100 + 1) :: char) = i mod 100 + 1" for i :: nat
    using mod_less_divisor [of 100 i] by (simp add: of_char_of take_bit_eq_mod)
  moreover have "of_char NUL = (0 :: nat)" by simp
  ultimately have "char_of (i mod 100 + 1) \<noteq> (NUL :: char)" for i :: nat
    by (metis Suc_eq_plus1 nat.distinct(1))
  then show "NUL \<notin> set test_items" by (metis (no_types, lifting) imageE set_map test_items_def)
qed (simp add: test_items_def)

text \<open>
  The queue passes its own test: \<open>queue_main\<close> finds a new queue empty, fills it, copies it and takes
  8192 bytes in order out of the copy, and returns 0 exactly when both allocations succeed.
\<close>

theorem queue_test_passes:
  "queue_main allocated copy_allocated = (if allocated \<and> copy_allocated then 0 else - 1)"
proof (cases allocated)
  case True
  obtain q where q: "QueueCreate True = Some q" by (simp add: QueueCreate_def)
  note Q = QueueCreate_empty [OF q]
  have size: "q_size q = 0" using q by (auto simp: QueueCreate_def)
  obtain j where j: "QUEUE_FOR_EACH (\<lambda>_ _. (True, True)) False (Some q) = (False, Some (q\<lparr>q_iterator := j\<rparr>))"
    using QUEUE_FOR_EACH_eq [OF Q(1), of "\<lambda>_ _. (True, True)" False] Q(2) by auto
  have "queue_inv (q\<lparr>q_iterator := j\<rparr>)" "length (queue_list (q\<lparr>q_iterator := j\<rparr>)) + length test_items \<le> DEFAULT_QUEUE_CAPACITY"
    using Q test_items(1) by simp_all
  from enqueue_all [OF this] obtain q2 where q2: "foldl (\<lambda>q c. snd (enqueue q c)) (Some (q\<lparr>q_iterator := j\<rparr>)) test_items = Some q2"
    "queue_inv q2" "queue_list q2 = test_items" using Q(2) by auto
  have full: "QueueIsFull (Some q2)"
    using length_queue_list [of q2] q2(3) test_items(1) queue_invD(6) [OF q2(2)] by (simp del: length_queue_list)
  have "cstr test_items = test_items" using test_items(2) by (simp add: cstr_def takeWhile_eq_all_conv) blast
  then obtain c q3 where c: "QueueCopy True (Some q2) = (Some c, q3)" "queue_inv c" "queue_list c = test_items"
    using QueueCopy_eq [OF q2(2)] q2(3) by auto
  have no: "QueueCopy False (Some q2) = (None, Some q2)" by (simp add: QueueCopy_def QueueCreate_def)
  show ?thesis
    using True q size j q2(1) full c(1) no dequeues_contents [OF c(2,3)]
    by (cases copy_allocated) (simp_all add: queue_main_def)
qed (simp add: queue_main_def QueueCreate_def)

section \<open>The manager program\<close>

definition manager_main :: "'s posix \<Rightarrow> string list \<Rightarrow> 's world \<Rightarrow> (int \<times> 's world) option" where
  "manager_main P argv w =
     (if length argv \<noteq> 2 then Some (- 1, w)
      else let (created, w1) = createNetworkManager P (argv ! 1) w in
        if \<not> created then Some (- 1, w1)
        else (case managerLoop P w1 of
                None \<Rightarrow> None
              | Some (loop_result, w2) \<Rightarrow>
                  (case destroyNetworkManager P w2 of None \<Rightarrow> None | Some w3 \<Rightarrow> Some (loop_result, w3))))"

text \<open>
  What POSIX promises about names, as a hypothesis: \<open>present s\<close> are the FIFOs in the file system.  Only
  \<open>mkfifo\<close> and \<open>unlink\<close> by this process are of interest; \<open>mkfifo\<close> fails for a name that is
  present, and the process may remove any FIFO.
\<close>

definition name_laws :: "'s posix \<Rightarrow> ('s \<Rightarrow> string set) \<Rightarrow> bool" where
  "name_laws P present \<longleftrightarrow>
     (\<forall>n s. present (snd (px_malloc P n s)) = present s) \<and> (\<forall>s. present (snd (px_new P s)) = present s)
   \<and> (\<forall>fd s. present (px_close P fd s) = present s) \<and> (\<forall>n s. present (snd (px_stat P n s)) = present s)
   \<and> (\<forall>n s. present (snd (px_mkdir P n s)) = present s)
   \<and> (\<forall>n s. n \<in> present s \<longrightarrow> fst (px_mkfifo P n s) \<noteq> 0 \<and> present (snd (px_mkfifo P n s)) = present s)
   \<and> (\<forall>n s. present (snd (px_unlink P n s)) = present s - {n})"

definition memory_lasts :: "'s posix \<Rightarrow> bool" where
  "memory_lasts P \<longleftrightarrow> (\<forall>n s. fst (px_malloc P n s) \<noteq> None) \<and> (\<forall>s. fst (px_new P s))"

definition manager_fifos :: "string \<Rightarrow> string set" where
  "manager_fifos ip = (\<lambda>prefix. fifo_path prefix ip) ` {TERMINATE_FIFO_PREFIX, IN_PACKET_FIFO_PREFIX,
     BIND_REQUEST_FIFO_PREFIX, CONNECT_REQUEST_FIFO_PREFIX}"

lemma name_lawsD:
  assumes "name_laws P present"
  shows "present (snd (px_malloc P n s)) = present s" and "present (snd (px_new P s)) = present s"
    and "present (px_close P fd s) = present s" and "present (snd (px_stat P nm s)) = present s"
    and "present (snd (px_mkdir P nm s)) = present s"
    and "nm \<in> present s \<Longrightarrow> fst (px_mkfifo P nm s) \<noteq> 0 \<and> present (snd (px_mkfifo P nm s)) = present s"
    and "present (snd (px_unlink P nm s)) = present s - {nm}"
  using assms unfolding name_laws_def by simp_all

lemma name_laws_snd:
  assumes "name_laws P present"
  shows "present (os (snd (sys_malloc P n w))) = present (os w)"
    and "present (os (snd (sys_new P w))) = present (os w)"
    and "present (os (snd (sys_stat P nm w))) = present (os w)"
    and "present (os (snd (sys_mkdir P nm w))) = present (os w)"
    and "present (os (sys_close P fd w)) = present (os w)"
    and "nm \<in> present (os w) \<Longrightarrow> fst (sys_mkfifo P nm w) \<noteq> 0 \<and> present (os (snd (sys_mkfifo P nm w))) = present (os w)"
    and "present (os (snd (sys_unlink P (Some nm) w))) = present (os w) - {nm}"
  using name_lawsD [OF assms]
  by (simp_all add: sys_malloc_def sys_new_def sys_stat_def sys_mkdir_def sys_close_def sys_mkfifo_def sys_unlink_def
      case_prod_beta Let_def)

lemma name_laws_calls:
  assumes "name_laws P present"
  shows "sys_malloc P n w = (m, w') \<Longrightarrow> present (os w') = present (os w)"
    and "sys_new P w = (b, w') \<Longrightarrow> present (os w') = present (os w)"
    and "sys_stat P nm w = (r, w') \<Longrightarrow> present (os w') = present (os w)"
    and "sys_mkdir P nm w = (r, w') \<Longrightarrow> present (os w') = present (os w)"
    and "nm \<in> present (os w) \<Longrightarrow> sys_mkfifo P nm w = (r, w') \<Longrightarrow> r \<noteq> 0 \<and> present (os w') = present (os w)"
  using name_laws_snd(1) [OF assms, of n w] name_laws_snd(2) [OF assms, of w] name_laws_snd(3,4) [OF assms, of nm w]
    name_laws_snd(6) [OF assms, of nm w] by simp_all

lemma full_name_present:
  assumes L: "name_laws P present" and c: "construct_full_fifo_name P prefix s w = (r, w')"
  shows "present (os w') = present (os w)" and "memory_lasts P \<Longrightarrow> r = Some (fifo_path prefix s)"
proof -
  obtain m w1 where 1: "sys_malloc P (length s + length prefix + 1) w = (m, w1)" by fastforce
  obtain m' w2 where 2: "sys_malloc P (length (prefix @ s) + length FIFO_FOLDER_PATH_PREFIX + 1) w1 = (m', w2)" by fastforce
  show "present (os w') = present (os w)"
    using c 1 2 name_laws_calls(1) [OF L 1] name_laws_calls(1) [OF L 2]
    by (auto simp: construct_full_fifo_name_def add_as_prefix_def add_folder_prefix_def split: option.splits)
  show "r = Some (fifo_path prefix s)" if M: "memory_lasts P"
  proof -
    have "m \<noteq> None" "m' \<noteq> None"
      using M 1 2 by (auto simp: memory_lasts_def sys_malloc_def split: prod.splits) (metis fst_conv)+
    then show ?thesis
      using c 1 2 by (auto simp: construct_full_fifo_name_def add_as_prefix_def add_folder_prefix_def fifo_path_def)
  qed
qed

lemma manager_names_present:
  assumes L: "name_laws P present" and M: "memory_lasts P" and c: "manager_fifo_names P w = (ns, w')"
  shows "ns = (Some (fifo_path TERMINATE_FIFO_PREFIX (mgr_ip w)), Some (fifo_path IN_PACKET_FIFO_PREFIX (mgr_ip w)),
      Some (fifo_path BIND_REQUEST_FIFO_PREFIX (mgr_ip w)), Some (fifo_path CONNECT_REQUEST_FIFO_PREFIX (mgr_ip w)))"
    and "present (os w') = present (os w)" and "same_proc w w'"
proof -
  obtain n1 w1 where 1: "get_terminate_fifo_name P (mgr_ip w) w = (n1, w1)" by fastforce
  obtain n2 w2 where 2: "get_in_packet_fifo_name P (mgr_ip w) w1 = (n2, w2)" by fastforce
  obtain n3 w3 where 3: "get_bind_requests_fifo_name P (mgr_ip w) w2 = (n3, w3)" by fastforce
  obtain n4 w4 where 4: "get_connect_requests_fifo_name P (mgr_ip w) w3 = (n4, w4)" by fastforce
  note d = 1 [unfolded get_terminate_fifo_name_def] 2 [unfolded get_in_packet_fifo_name_def]
    3 [unfolded get_bind_requests_fifo_name_def] 4 [unfolded get_connect_requests_fifo_name_def]
  note F = full_name_present [OF L d(1)] full_name_present [OF L d(2)] full_name_present [OF L d(3)] full_name_present [OF L d(4)]
  show "ns = (Some (fifo_path TERMINATE_FIFO_PREFIX (mgr_ip w)), Some (fifo_path IN_PACKET_FIFO_PREFIX (mgr_ip w)),
      Some (fifo_path BIND_REQUEST_FIFO_PREFIX (mgr_ip w)), Some (fifo_path CONNECT_REQUEST_FIFO_PREFIX (mgr_ip w)))"
    and "present (os w') = present (os w)"
    using c 1 2 3 4 F M by (simp_all add: manager_fifo_names_def)
  show "same_proc w w'"
    using c 1 2 3 4 same_proc_trans [OF same_proc_trans [OF same_proc_trans [OF construct_full_fifo_name_spec(1) [OF d(1)]
      construct_full_fifo_name_spec(1) [OF d(2)]] construct_full_fifo_name_spec(1) [OF d(3)]] construct_full_fifo_name_spec(1) [OF d(4)]]
    by (simp add: manager_fifo_names_def)
qed

lemma createNetworkManager_fresh:
  assumes L: "name_laws P present" and c: "createNetworkManager P ip w = (True, w')"
  shows "present (os w') = present (os w)" and "mgr_ip w' = ip" and "mgr_sockets w' = None"
    and "terminate_fifo_fd w' = - 1" and "in_packet_fifo_fd w' = - 1" and "bind_request_fifo_fd w' = - 1"
    and "connect_request_fifo_fd w' = - 1"
proof -
  obtain r1 w1 where 1: "init_fifo_directory P w = (r1, w1)" by fastforce
  obtain al w2 where 2: "sys_new P w1 = (al, w2)" by fastforce
  define w3 where "w3 = w2\<lparr>mgr_sockets := None, terminate_fifo_fd := - 1, bind_request_fifo_fd := - 1,
                           connect_request_fifo_fd := - 1, in_packet_fifo_fd := - 1\<rparr>"
  obtain m w4 where 4: "sys_malloc P (length ip + 1) w3 = (m, w4)" by fastforce
  have w': "w' = w4\<lparr>mgr_ip := ip\<rparr>"
    using c 1 2 4 [unfolded w3_def] by (auto simp: createNetworkManager_def w3_def split: if_splits option.splits)
  have "present (os w1) = present (os w)"
    using 1 name_laws_calls(3,4) [OF L] by (auto simp: init_fifo_directory_def split: prod.splits if_splits)
  then show "present (os w') = present (os w)"
    using w' name_laws_calls(2) [OF L 2] name_laws_calls(1) [OF L 4] by (simp add: w3_def)
  obtain x where "w4 = w3\<lparr>os := x\<rparr>" using sys_same_proc(1) [OF 4] unfolding same_proc_def by blast
  then have "mgr_sockets w4 = None \<and> terminate_fifo_fd w4 = - 1 \<and> in_packet_fifo_fd w4 = - 1
      \<and> bind_request_fifo_fd w4 = - 1 \<and> connect_request_fifo_fd w4 = - 1"
    by (simp add: w3_def)
  then show "mgr_ip w' = ip" and "mgr_sockets w' = None"
    and "terminate_fifo_fd w' = - 1" and "in_packet_fifo_fd w' = - 1" and "bind_request_fifo_fd w' = - 1"
    and "connect_request_fifo_fd w' = - 1" using w' by simp_all
qed

lemma unlink_present:
  "name_laws P present \<Longrightarrow> present (os (unlink_named P (Some n, w))) = present (os w) - {n}"
  by (simp add: unlink_named_def name_laws_snd)

text \<open>Cleaning up after a manager that never got its table and has no descriptors.\<close>

lemma clean_unstarted_manager:
  assumes L: "name_laws P present" and M: "memory_lasts P" and t: "mgr_sockets w = None"
    and fd: "terminate_fifo_fd w = - 1" "in_packet_fifo_fd w = - 1" "bind_request_fifo_fd w = - 1" "connect_request_fifo_fd w = - 1"
  shows "\<exists>w'. destroyNetworkManager P w = Some w' \<and> present (os w') = present (os w) - manager_fifos (mgr_ip w)"
proof -
  obtain ns w1 where 1: "manager_fifo_names P w = (ns, w1)" by fastforce
  note N = manager_names_present [OF L M 1]
  define w2 where "w2 = unlink_named P (Some (fifo_path CONNECT_REQUEST_FIFO_PREFIX (mgr_ip w)),
    unlink_named P (Some (fifo_path BIND_REQUEST_FIFO_PREFIX (mgr_ip w)), unlink_named P (Some (fifo_path IN_PACKET_FIFO_PREFIX (mgr_ip w)),
      unlink_named P (Some (fifo_path TERMINATE_FIFO_PREFIX (mgr_ip w)), w1))))"
  have u: "same_heap v (unlink_named P (Some n, v))" for n v by (simp add: unlink_named_def)
  have "same_heap w1 w2" unfolding w2_def by (rule same_heap_trans [OF same_heap_trans [OF same_heap_trans [OF u u] u] u])
  then have "mgr_sockets w2 = None" using t same_procD(5) [OF N(3)] same_heapD(3) [of w1 w2] by simp
  then have "destroyNetworkManager P w = Some w2"
    using 1 N(1) fd by (simp add: destroyNetworkManager_def unlink_and_clean_manager_def w2_def Let_def)
  moreover have "present (os w2) = present (os w) - manager_fifos (mgr_ip w)"
    unfolding w2_def manager_fifos_def unlink_present [OF L] N(2) by blast
  ultimately show ?thesis by blast
qed

text \<open>
  C23. A second manager for an address stops the first.  When the FIFOs of a manager with this address exist
  already, the program cannot make its own and returns -1; on the way out it removes the four FIFOs of the
  address all the same, that is, those of the running manager, so no client and no other manager can reach it any
  more.  No other FIFO is touched.
\<close>

theorem second_manager_removes_fifos_of_first:
  assumes "name_laws P present" and "memory_lasts P" and "createNetworkManager P ip w = (True, w1)"
    and "fifo_path TERMINATE_FIFO_PREFIX ip \<in> present (os w)"
  shows "\<exists>w'. manager_main P [program_name, ip] w = Some (- 1, w')
    \<and> present (os w') = present (os w) - manager_fifos ip"
proof -
  note F = createNetworkManager_fresh [OF assms(1,3)]
  obtain ns w2 where 2: "manager_fifo_names P w1 = (ns, w2)" by fastforce
  note N = manager_names_present [OF assms(1,2) 2]
  let ?n = "fifo_path TERMINATE_FIFO_PREFIX ip"
  obtain r w3 where 3: "sys_mkfifo P ?n w2 = (r, w3)" by fastforce
  have r: "r \<noteq> 0" "present (os w3) = present (os w)"
    using name_laws_calls(5) [OF assms(1) _ 3] assms(4) N(2) F(1) by simp_all
  have "initialize_network_manager_fifos P w1 = (- 1, w3)"
    using 2 3 r(1) N(1) F(2) by (simp add: initialize_network_manager_fifos_def mkfifo_opt_def Let_def)
  then have l: "managerLoop P w1 = Some (- 1, w3)" using F(3) by (simp add: managerLoop_def)
  have p: "same_proc w1 w3" by (rule same_proc_trans [OF N(3) sys_same_proc(6) [OF 3]])
  then have same: "mgr_sockets w3 = None" "mgr_ip w3 = ip"
    using same_procD(4,5) [OF p] F(2,3) by simp_all
  obtain x where "w3 = w1\<lparr>os := x\<rparr>" using p unfolding same_proc_def by blast
  then have fd: "terminate_fifo_fd w3 = - 1" "in_packet_fifo_fd w3 = - 1" "bind_request_fifo_fd w3 = - 1" "connect_request_fifo_fd w3 = - 1"
    using F(4-7) by simp_all
  from clean_unstarted_manager [OF assms(1,2) same(1) fd] obtain w' where
    "destroyNetworkManager P w3 = Some w'" "present (os w') = present (os w3) - manager_fifos ip" using same(2) by auto
  then show ?thesis using assms(3) l r(2) by (simp add: manager_main_def)
qed

definition sim_present :: "sim \<Rightarrow> string set" where
  "sim_present s = dom (map_of (sim_files s))"

lemma sim_names: "name_laws sim_posix sim_present" "memory_lasts sim_posix"
proof -
  have "dom (map_of (filter (\<lambda>e. fst e \<noteq> n) xs)) = dom (map_of xs) - {n}" for n and xs :: "(string \<times> string) list"
    by (auto simp: dom_map_of_conv_image_fst)
  then show "name_laws sim_posix sim_present"
    by (auto simp: name_laws_def sim_posix_def sim_present_def)
  show "memory_lasts sim_posix" by (simp add: memory_lasts_def sim_posix_def)
qed

lemma second_manager_removes_fifos_of_first_witness:
  "\<exists>w'. manager_main sim_posix [''manager'', replicate 16 (CHR ''1'')]
      ((sim_world [])\<lparr>os := sim_boot\<lparr>sim_files := map (\<lambda>n. (n, [])) [fifo_path TERMINATE_FIFO_PREFIX (replicate 16 (CHR ''1'')),
         fifo_path IN_PACKET_FIFO_PREFIX (replicate 16 (CHR ''1'')), ''other'']\<rparr>\<rparr>) = Some (- 1, w')
    \<and> ''other'' \<in> sim_present (os w') \<and> fifo_path IN_PACKET_FIFO_PREFIX (replicate 16 (CHR ''1'')) \<notin> sim_present (os w')"
proof -
  let ?ip = "replicate 16 (CHR ''1'')"
  let ?w = "(sim_world [])\<lparr>os := sim_boot\<lparr>sim_files := map (\<lambda>n. (n, [])) [fifo_path TERMINATE_FIFO_PREFIX ?ip,
         fifo_path IN_PACKET_FIFO_PREFIX ?ip, ''other'']\<rparr>\<rparr>"
  have "init_fifo_directory sim_posix ?w = (0, ?w)"
    by (simp add: init_fifo_directory_def sys_stat_def sim_posix_def)
  then obtain w1 where c: "createNetworkManager sim_posix ?ip ?w = (True, w1)"
    by (simp add: createNetworkManager_def sim_alloc MAX_IP_LENGTH_def)
  have t: "fifo_path TERMINATE_FIFO_PREFIX ?ip \<in> sim_present (os ?w)" by (simp add: sim_present_def)
  have o: "''other'' \<in> sim_present (os ?w)" by (simp add: sim_present_def)
  have f: "fifo_path IN_PACKET_FIFO_PREFIX ?ip \<in> manager_fifos ?ip" "''other'' \<notin> manager_fifos ?ip"
    by (auto simp: manager_fifos_def fifo_path_def FIFO_FOLDER_PATH_PREFIX_def)
  from second_manager_removes_fifos_of_first [OF sim_names c t, of "''manager''"] o f show ?thesis by blast
qed

section \<open>The chat\<close>

definition CHAT_ADDRESS :: string where
  "CHAT_ADDRESS = ''1234123412341234''"

text \<open>
  The client sends the lines of its user, given as the texts that \<open>fgets\<close> puts into the buffer one after
  the other, up to a line \<open>exit\<close>.  At the end of the input \<open>fgets\<close> keeps returning \<open>NULL\<close>.
\<close>

definition chop_newline :: "string \<Rightarrow> string" where
  "chop_newline line = (if line \<noteq> [] \<and> last line = CHR 0x0A then butlast line else line)"

partial_function (option) client_chat :: "'s posix \<Rightarrow> addr \<Rightarrow> string list \<Rightarrow> 's world \<Rightarrow> 's world option" where
  "client_chat P sock_id input w =
     (case input of
        [] \<Rightarrow> client_chat P sock_id [] w
      | line # rest \<Rightarrow>
          let message = chop_newline line;
              (sent, w1) = SocketSend P (Some sock_id) (Some message) (word_of_int (int (length message)))
                             (if line = [] then set_ub w else w)
          in if sent = - 1 then Some w1
             else if message = ''exit'' then Some w1
             else client_chat P sock_id rest w1)"

text \<open>The second address is not tested; a missing one is freed through a null pointer at the end.\<close>

definition client_main :: "'s posix \<Rightarrow> string list \<Rightarrow> 's world \<Rightarrow> (int \<times> 's world) option" where
  "client_main P input w =
     (let (sock, w1) = SocketCreate P w in
      case sock of
        None \<Rightarrow> Some (- 1, w1)
      | Some k \<Rightarrow>
        let (address, w2) = AddressCreate P CHAT_ADDRESS 8081 w1 in
        if address = None then Some (- 1, SocketDestroy sock w2)
        else let (server_addr, w3) = AddressCreate P CHAT_ADDRESS 8080 w2;
                 finish = (\<lambda>w. Some (0, SocketDestroy sock (if server_addr = None then set_ub w else w))) in
        (case SocketBind P sock address 0 w3 of
           None \<Rightarrow> None
         | Some (status, _, w4) \<Rightarrow>
             if status \<noteq> SUCCESS then finish w4
             else (case SocketConnect P sock server_addr w4 of
                     None \<Rightarrow> None
                   | Some (connect_status, w5) \<Rightarrow>
                       (case (if connect_status \<noteq> SUCCESS then Some w5 else client_chat P k input w5) of
                          None \<Rightarrow> None
                        | Some w6 \<Rightarrow> (case SocketClose P sock w6 of
                                        None \<Rightarrow> None
                                      | Some (_, w7) \<Rightarrow> finish w7)))))"

text \<open>The server prints what it receives until the connection ends; the messages printed are returned.\<close>

partial_function (option) server_chat ::
  "'s posix \<Rightarrow> addr \<Rightarrow> string list \<Rightarrow> 's world \<Rightarrow> (string list \<times> 's world) option" where
  "server_chat P sock_id printed w =
     (case SocketRecv P (Some sock_id) True 100 w of
        None \<Rightarrow> None
      | Some (received_length, recv_buffer, w1) \<Rightarrow>
          if received_length = - 1 then Some (printed, w1)
          else server_chat P sock_id (printed @ [cstr recv_buffer]) w1)"

definition serve_connection :: "'s posix \<Rightarrow> addr \<Rightarrow> 's world \<Rightarrow> (string list \<times> 's world) option" where
  "serve_connection P sock w =
     (case SocketListen P (Some sock) 5 w of
        None \<Rightarrow> None
      | Some (status, w1) \<Rightarrow>
          if status \<noteq> SUCCESS then Some ([], w1)
          else (case SocketAccept P (Some sock) w1 of
                  None \<Rightarrow> None
                | Some (None, w2) \<Rightarrow> Some ([], w2)
                | Some (Some new_connection, w2) \<Rightarrow>
                    (case server_chat P new_connection [] w2 of
                       None \<Rightarrow> None
                     | Some (messages, w3) \<Rightarrow>
                         (case SocketClose P (Some new_connection) w3 of
                            None \<Rightarrow> None
                          | Some (_, w4) \<Rightarrow> Some (messages, destroy_socket_id (Some new_connection) w4)))))"

definition server_main :: "'s posix \<Rightarrow> 's world \<Rightarrow> (int \<times> string list \<times> 's world) option" where
  "server_main P w =
     (let (sock, w1) = SocketCreate P w in
      case sock of
        None \<Rightarrow> Some (- 1, [], w1)
      | Some k \<Rightarrow>
        let (address, w2) = AddressCreate P CHAT_ADDRESS 8080 w1 in
        if address = None then Some (- 1, [], SocketDestroy sock w2)
        else (case SocketBind P sock address 0 w2 of
                None \<Rightarrow> None
              | Some (status, _, w3) \<Rightarrow>
                  if status \<noteq> SUCCESS then Some (0, [], SocketDestroy sock w3)
                  else (case serve_connection P k w3 of
                          None \<Rightarrow> None
                        | Some (messages, w4) \<Rightarrow>
                            (case SocketClose P sock w4 of
                               None \<Rightarrow> None
                             | Some (_, w5) \<Rightarrow> Some (0, messages, SocketDestroy sock w5)))))"

section \<open>The chat programs make calls of the library only\<close>

lemma client_chat_keeps:
  assumes "client_chat P k input w = Some w'" and "[] \<notin> set input"
  shows "keeps_id P k w w'"
proof -
  have "(\<lambda>(((P, k), input), w) w'. [] \<notin> set input \<longrightarrow> keeps_id P k w w') (((P, k), input), w) w'"
  proof (rule client_chat.raw_induct [OF _ assms(1)], goal_cases)
    case (1 f P k input w y)
    show ?case
    proof (cases input)
      case Nil
      then have "f P k [] w = Some y" using 1(2) by simp
      from 1(1) [OF this] show ?thesis using Nil by simp
    next
      case (Cons line rest)
      let ?m = "chop_newline line"
      have "keeps_id P k w y" if n: "[] \<notin> set input"
      proof -
        obtain sent w1 where s: "SocketSend P (Some k) (Some ?m) (word_of_int (int (length ?m))) w = (sent, w1)" by fastforce
        note K = keeps_id_calls(4) [OF s]
        have "y = w1 \<or> f P k rest w1 = Some y" using 1(2) Cons n s by (auto simp: Let_def split: if_splits)
        then show ?thesis
        proof
          assume "f P k rest w1 = Some y"
          from 1(1) [OF this] n Cons show ?thesis using keeps_id_trans [OF K] by simp
        qed (use K in simp)
      qed
      then show ?thesis by simp
    qed
  qed
  then show ?thesis using assms(2) by simp
qed

lemma server_chat_keeps:
  assumes "server_chat P c printed w = Some (ms, w')"
  shows "keeps_id P c w w'" and "still_there w w'"
proof -
  have "(\<lambda>(((P, c), printed), w) (ms, w'). keeps_id P c w w' \<and> still_there w w') (((P, c), printed), w) (ms, w')"
  proof (rule server_chat.raw_induct [OF _ assms], goal_cases)
    case (1 f P c printed w y)
    obtain n bs w1 where r: "SocketRecv P (Some c) True 100 w = Some (n, bs, w1)" using 1(2) by (auto split: option.splits)
    have K: "keeps_id P c w w1" "still_there w w1"
      using keeps_id_calls(5) [OF r] still_there_effects(1) [OF SocketRecv_heap [OF r]] by simp_all
    have "y = (printed, w1) \<or> f P c (printed @ [cstr bs]) w1 = Some y" using 1(2) r by (auto split: if_splits)
    then show ?case
    proof
      assume "f P c (printed @ [cstr bs]) w1 = Some y"
      from 1(1) [OF this] show ?thesis
        using keeps_id_trans [OF K(1)] K(2) by (auto simp: still_there_def split: prod.splits)
    qed (use K in simp)
  qed
  then show "keeps_id P c w w'" and "still_there w w'" by simp_all
qed

lemma chat_address: "NUL \<notin> set CHAT_ADDRESS"
  by (simp add: CHAT_ADDRESS_def)

lemma keeps_id_address: "AddressCreate P ip p w = (a, w') \<Longrightarrow> keeps_id P k w w'"
  using client_step.addresses still_there_effects(1) [OF AddressCreate_heap] by (blast intro: keeps_idI)

text \<open>How both programs begin: a socket, then an address.\<close>

lemma program_start:
  assumes ok: "client_ok w" and c: "SocketCreate P w = (sock, w1)"
  shows "(client_step P)\<^sup>*\<^sup>* w w1" and "client_ok w1" and "sock = Some k \<Longrightarrow> ids w1 k \<noteq> None"
proof -
  have st: "client_step P w w1" by (rule client_step.creates [OF c])
  show "(client_step P)\<^sup>*\<^sup>* w w1" using st by blast
  show "client_ok w1" by (rule cl.step_inv [OF ok st])
  show "ids w1 k \<noteq> None" if "sock = Some k"
    using c that by (auto simp: SocketCreate_def new_id_def split: prod.splits option.splits)
qed

text \<open>A run of the program that keeps its socket, and the end of it.\<close>

lemma run_then_destroy:
  assumes "client_ok w1" and "ids w1 k \<noteq> None" and "keeps_id P k w1 v" and "(client_step P)\<^sup>*\<^sup>* w w1"
  shows "(client_step P)\<^sup>*\<^sup>* w (SocketDestroy (Some k) v)"
proof -
  have "(client_step P)\<^sup>*\<^sup>* w v" using assms by (auto simp: keeps_id_def)
  then show ?thesis by (rule rtranclp.rtrancl_into_rtrancl) (rule client_step.destroys)
qed

lemma serve_connection_keeps:
  assumes "serve_connection P k w = Some (ms, w')" and "client_ok w" and "ids w k \<noteq> None"
  shows "keeps_id P k w w'"
proof -
  obtain st w1 where 1: "SocketListen P (Some k) 5 w = Some (st, w1)"
    using assms(1) by (auto simp: serve_connection_def split: option.splits)
  note K1 = keeps_id_calls(2) [OF 1]
  show ?thesis
  proof (cases "st = SUCCESS")
    case False
    then show ?thesis using assms(1) 1 K1 by (simp add: serve_connection_def)
  next
    case True
    obtain c w2 where 2: "SocketAccept P (Some k) w1 = Some (c, w2)"
      using assms(1) 1 True by (auto simp: serve_connection_def split: option.splits)
    have w1: "client_ok w1" "ids w1 k \<noteq> None" using K1 assms(2,3) by (auto simp: keeps_id_def)
    note A = client_call(4) [OF w1 2]
    have K2: "keeps_id P k w w2" by (rule keeps_id_trans [OF K1 keeps_idI]) (use A in blast)
    have w2: "client_ok w2" "ids w2 k \<noteq> None" using K2 assms(2,3) by (auto simp: keeps_id_def)
    show ?thesis
    proof (cases c)
      case None
      then show ?thesis using assms(1) 1 True 2 K2 by (simp add: serve_connection_def)
    next
      case (Some x)
      obtain ms' w3 where 3: "server_chat P x [] w2 = Some (ms', w3)"
        using assms(1) 1 True 2 Some by (auto simp: serve_connection_def split: option.splits)
      obtain r w4 where 4: "SocketClose P (Some x) w3 = Some (r, w4)"
        using assms(1) 1 True 2 Some 3 by (auto simp: serve_connection_def split: option.splits)
      have w': "w' = SocketDestroy (Some x) w4"
        using assms(1) 1 True 2 Some 3 4 by (simp add: serve_connection_def SocketDestroy_def)
      have "k < next_addr w1" using w1 unfolding client_ok_def by blast
      then have x2: "ids w2 x \<noteq> None" "x \<noteq> k" using A Some by auto
      have w3: "client_ok w3" "ids w3 x \<noteq> None" "ids w3 k \<noteq> None" "(client_step P)\<^sup>*\<^sup>* w2 w3"
        using server_chat_keeps [OF 3] w2 x2(1) by (auto simp: keeps_id_def still_there_def)
      note C = client_call(7) [OF w3(1,2) 4]
      have "(client_step P)\<^sup>*\<^sup>* w2 w'"
        unfolding w' using w3(4) C client_step.destroys by (meson rtranclp.rtrancl_into_rtrancl)
      then have r: "(client_step P)\<^sup>*\<^sup>* w w'" using K2 assms(2,3) by (auto simp: keeps_id_def)
      moreover have "ids w' k \<noteq> None"
        using C w3(3) x2(2) by (auto simp: w' still_there_def SocketDestroy_def destroy_socket_id_def free_id_def)
      ultimately show ?thesis using cl.steps_inv [OF r assms(2)] by (simp add: keeps_id_def)
    qed
  qed
qed

lemma server_main_runs:
  assumes ok: "client_ok w" and m: "server_main P w = Some (r, ms, w')"
  shows "(client_step P)\<^sup>*\<^sup>* w w'"
proof -
  obtain sock w1 where 1: "SocketCreate P w = (sock, w1)" by fastforce
  note S = program_start [OF ok 1]
  show ?thesis
  proof (cases sock)
    case None
    then show ?thesis using m 1 S(1) by (simp add: server_main_def)
  next
    case (Some k)
    note K = S(3) [OF Some]
    obtain a w2 where 2: "AddressCreate P CHAT_ADDRESS 8080 w1 = (a, w2)" by fastforce
    note K2 = keeps_id_address [OF 2, of k] and fin = run_then_destroy [OF S(2) K _ S(1)]
    show ?thesis
    proof (cases a)
      case None
      then show ?thesis using m 1 Some 2 fin [OF K2] by (simp add: server_main_def)
    next
      case a: (Some ad)
      have mk: "made_address ad" using AddressCreate_made [OF 2 [unfolded a] chat_address] .
      obtain st n w3 where 3: "SocketBind P (Some k) (Some ad) 0 w2 = Some (st, n, w3)"
        using m 1 Some 2 a by (auto simp: server_main_def split: option.splits)
      note K3 = keeps_id_trans [OF K2 keeps_id_calls(1) [OF mk 3]]
      show ?thesis
      proof (cases "st = SUCCESS")
        case False
        then show ?thesis using m 1 Some 2 a 3 fin [OF K3] by (simp add: server_main_def)
      next
        case True
        obtain ms' w4 where 4: "serve_connection P k w3 = Some (ms', w4)"
          using m 1 Some 2 a 3 True by (auto simp: server_main_def split: option.splits)
        obtain c w5 where 5: "SocketClose P (Some k) w4 = Some (c, w5)"
          using m 1 Some 2 a 3 True 4 by (auto simp: server_main_def split: option.splits)
        have w3: "client_ok w3" "ids w3 k \<noteq> None" using K3 S(2) K by (auto simp: keeps_id_def)
        note K5 = keeps_id_trans [OF keeps_id_trans [OF K3 serve_connection_keeps [OF 4 w3]] keeps_id_calls(6) [OF 5]]
        show ?thesis using m 1 Some 2 a 3 True 4 5 fin [OF K5] by (simp add: server_main_def)
      qed
    qed
  qed
qed

lemma client_main_runs:
  assumes ok: "client_ok w" and m: "client_main P input w = Some (r, w')" and n: "[] \<notin> set input"
  shows "\<exists>v. (client_step P)\<^sup>*\<^sup>* w v \<and> (w' = v \<or> w' = set_ub v)"
proof -
  obtain sock w1 where 1: "SocketCreate P w = (sock, w1)" by fastforce
  note S = program_start [OF ok 1]
  show ?thesis
  proof (cases sock)
    case None
    then show ?thesis using m 1 S(1) by (auto simp: client_main_def)
  next
    case (Some k)
    note K = S(3) [OF Some]
    obtain a w2 where 2: "AddressCreate P CHAT_ADDRESS 8081 w1 = (a, w2)" by fastforce
    note K2 = keeps_id_address [OF 2, of k] and fin = run_then_destroy [OF S(2) K _ S(1)]
    show ?thesis
    proof (cases a)
      case None
      then show ?thesis using m 1 Some 2 fin [OF K2] by (auto simp: client_main_def)
    next
      case a: (Some ad)
      have mk: "made_address ad" using AddressCreate_made [OF 2 [unfolded a] chat_address] .
      obtain sa w3 where 3: "AddressCreate P CHAT_ADDRESS 8080 w2 = (sa, w3)" by fastforce
      obtain st cnt w4 where 4: "SocketBind P (Some k) (Some ad) 0 w3 = Some (st, cnt, w4)"
        using m 1 Some 2 a 3 by (auto simp: client_main_def split: option.splits)
      note K4 = keeps_id_trans [OF keeps_id_trans [OF K2 keeps_id_address [OF 3]] keeps_id_calls(1) [OF mk 4]]
      have ub: "SocketDestroy (Some k) (set_ub v) = set_ub (SocketDestroy (Some k) v)" for v
        by (simp add: SocketDestroy_def destroy_socket_id_def free_id_def set_ub_def)
      have ends: "\<exists>v. (client_step P)\<^sup>*\<^sup>* w v \<and> (w' = v \<or> w' = set_ub v)"
        if "keeps_id P k w1 u" "w' = SocketDestroy (Some k) (if sa = None then set_ub u else u)" for u
        using fin [OF that(1)] that(2) ub by auto
      show ?thesis
      proof (cases "st = SUCCESS")
        case False
        then show ?thesis using m 1 Some 2 a 3 4 ends [OF K4] by (simp add: client_main_def)
      next
        case True
        obtain cs w5 where 5: "SocketConnect P (Some k) sa w4 = Some (cs, w5)"
          using m 1 Some 2 a 3 4 True by (auto simp: client_main_def split: option.splits)
        have c5: "keeps_id P k w4 w5"
        proof (cases sa)
          case None
          then show ?thesis using 5 by (simp add: SocketConnect_def)
        next
          case (Some sad)
          then show ?thesis using keeps_id_calls(3) AddressCreate_made [OF 3 [unfolded Some] chat_address] 5 by blast
        qed
        note K5 = keeps_id_trans [OF K4 c5]
        obtain w6 where 6: "(if cs \<noteq> SUCCESS then Some w5 else client_chat P k input w5) = Some w6"
          using m 1 Some 2 a 3 4 True 5 by (auto simp: client_main_def split: option.splits if_splits)
        have K6: "keeps_id P k w1 w6"
          using 6 K5 keeps_id_trans [OF K5 client_chat_keeps [OF _ n]] by (auto split: if_splits)
        obtain c w7 where 7: "SocketClose P (Some k) w6 = Some (c, w7)"
          using m 1 Some 2 a 3 4 True 5 6 by (auto simp: client_main_def split: option.splits if_splits)
        show ?thesis
          using m 1 Some 2 a 3 4 True 5 6 7 ends [OF keeps_id_trans [OF K6 keeps_id_calls(6) [OF 7]]]
          by (auto simp: client_main_def split: if_splits)
      qed
    qed
  qed
qed

text \<open>
  C21. The chat programs are clients.  When the client or the server of the chat returns, the state it ends in
  follows from the state it began in by calls of the library on identifiers that it holds, so all that is true of
  every client is true of them.  The client may end with undefined behaviour after its last call, when its
  second address could not be allocated.
\<close>

theorem chat_programs_run_in_steps:
  assumes "client_ok w"
  shows "(server_main P w = Some (r, ms, w') \<longrightarrow> (client_step P)\<^sup>*\<^sup>* w w')
    \<and> ([] \<notin> set input \<longrightarrow> client_main P input w = Some (r, w') \<longrightarrow>
         (\<exists>v. (client_step P)\<^sup>*\<^sup>* w v \<and> (w' = v \<or> w' = set_ub v)))"
  using server_main_runs [OF assms] client_main_runs [OF assms] by blast

text \<open>Without a manager nothing can be bound.\<close>

lemma bind_without_manager:
  assumes "os w = sim_boot" and "state_of (Some k) w = EMPTY_SOCKET" and "addr a = Some ip"
  shows "\<exists>n' w'. SocketBind sim_posix (Some k) (Some a) n w = Some (MEMORY_ERROR, n', w')"
proof -
  obtain x w1 where 1: "get_bind_requests_fifo_name sim_posix ip w = (Some x, w1)" "os w1 = sim_boot"
    using assms(1) by (simp add: get_bind_requests_fifo_name_def construct_full_fifo_name_def add_as_prefix_def
        add_folder_prefix_def sim_alloc)
  obtain y w2 where 2: "get_client_fifo_name sim_posix (px_getpid sim_posix (os w1)) (n + 1) w1 = (Some y, w2)" "os w2 = sim_boot"
    using 1(2) by (simp add: get_client_fifo_name_eq construct_full_fifo_name_def add_as_prefix_def add_folder_prefix_def sim_alloc)
  have "\<exists>w3. sys_open sim_posix x O_WRONLY w2 = (- 1, w3)"
    using 2(2) by (simp add: sys_open_def sim_posix_def sim_open_def sim_boot_def)
  moreover have "\<not> open_waits sim_posix x O_WRONLY w2" by (simp add: open_waits_def sim_posix_def)
  ultimately show ?thesis using assms(2,3) 1(1) 2(1) by (auto simp: SocketBind_def Let_def)
qed

lemma chat_programs_run_in_steps_witness:
  "(\<exists>w'. server_main sim_posix (sim_world []) = Some (0, [], w') \<and> (client_step sim_posix)\<^sup>*\<^sup>* (sim_world []) w')
    \<and> (\<exists>w' v. client_main sim_posix [''hi''] (sim_world []) = Some (0, w') \<and> (client_step sim_posix)\<^sup>*\<^sup>* (sim_world []) v
         \<and> (w' = v \<or> w' = set_ub v))"
proof -
  let ?w = "sim_world []"
  have ok: "client_ok ?w" by (simp add: client_ok_def sim_world_def)
  obtain k w1 where 1: "SocketCreate sim_posix ?w = (Some k, w1)" "os w1 = sim_boot" "state_of (Some k) w1 = EMPTY_SOCKET"
    by (simp add: sim_create sim_world_def state_of_def id_at_def get_socket_state_def init_empty_socket_id_def
        is_socket_connected_def is_socket_bound_only_def is_socket_empty_def is_empty_ip_def ip_set_empty_eq
        fresh_sockid_def block_cells_def EMPTY_PORT_def nth_append)
  have 2: "AddressCreate sim_posix CHAT_ADDRESS p w = (Some \<lparr>addr = Some CHAT_ADDRESS, port = p\<rparr>, w)" for p w
    by (simp add: AddressCreate_def CHAT_ADDRESS_def MAX_IP_LENGTH_def sim_alloc)
  have 3: "\<exists>n' w'. SocketBind sim_posix (Some k) (Some \<lparr>addr = Some CHAT_ADDRESS, port = p\<rparr>) 0 w1 = Some (MEMORY_ERROR, n', w')" for p
    by (rule bind_without_manager [OF 1(2,3)]) simp
  obtain w' where s: "server_main sim_posix ?w = Some (0, [], w')" using 1 2 3 [of 8080] by (auto simp: server_main_def)
  obtain v where c: "client_main sim_posix [''hi''] ?w = Some (0, v)" using 1 2 3 [of 8081] by (auto simp: client_main_def)
  show ?thesis
    using chat_programs_run_in_steps [OF ok, of sim_posix 0 "[]" w' "[''hi'']"]
      chat_programs_run_in_steps [OF ok, of sim_posix 0 "[]" v "[''hi'']"] s c by simp
qed

lemma client_chat_input:
  assumes "client_chat P k input w = Some y"
  shows "input \<noteq> []"
proof -
  have "(\<lambda>(((P, k), input), w) y. input \<noteq> []) (((P, k), input), w) y"
  proof (rule client_chat.raw_induct [OF _ assms], goal_cases)
    case (1 f P k input w y)
    have False if "input = []"
    proof -
      have "f P k [] w = Some y" using 1(2) that by simp
      from 1(1) [OF this] show False by simp
    qed
    then show ?case by auto
  qed
  then show ?thesis by simp
qed

lemma client_chat_end_of_input: "client_chat P k [] w = None"
  using client_chat_input by fastforce

text \<open>A line that is sent in full.\<close>

lemma SocketSend_all:
  assumes L: "fifo_laws P out tgt" and R: "resourceful P" "fifos_open P"
    and i: "ids w k = Some i" "wf_sockid i" "get_socket_state (Some i) = CONNECTED_SOCKET"
    and len: "length message < 2 ^ 31"
    and s: "SocketSend P (Some k) (Some message) (word_of_int (int (length message))) w = (r, w')"
  shows "r \<noteq> - 1" and "ids w' k = Some i"
    and "out (os w') = (let path = socket_fifo_path OUT_DATA_SOCKET_FIFO_PREFIX i in (out (os w))(path := out (os w) path @ message))"
proof -
  have sl: "sint (word_of_int (int (length message)) :: c_int) = int (length message)"
    using len by (intro sint_word_of_int_32) auto
  obtain nm w1 where 1: "get_socket_send_fifo_name P (Some k) w = (nm, w1)" by fastforce
  obtain n where nm: "nm = Some n" using resourceful_socket_name [OF R(1) 1 [unfolded socket_name_defs]] by blast
  obtain fd w2 where 2: "sys_open P n O_RDWR w1 = (fd, w2)" by fastforce
  note O = fifos_open_calls [OF R(2)]
  have st: "state_of (Some k) w = CONNECTED_SOCKET" using i by (simp add: state_of_def id_at_def)
  have "sys_write P fd (take (length message) message) w2 = (r, w')"
    using s 1 nm 2 O(1) [OF 2] st sl by (simp add: SocketSend_def)
  from O(2) [OF this] have r: "r = int (length message)" by simp
  then show "r \<noteq> - 1" by simp
  show "ids w' k = Some i" using SocketSend_heap [OF s] i(1) by (simp add: same_heap_def)
  have s': "(r = - 1 \<and> out (os w') = out (os w))
    \<or> (0 \<le> r \<and> r \<le> sint (word_of_int (int (length message)) :: c_int) \<and> r \<le> int (length message)
        \<and> out (os w') = (let path = socket_fifo_path OUT_DATA_SOCKET_FIFO_PREFIX i in
             (out (os w))(path := out (os w) path @ take (nat r) message)))"
    using SocketSend_writes [OF L i(1,2) s] sl by simp
  then show "out (os w') = (let path = socket_fifo_path OUT_DATA_SOCKET_FIFO_PREFIX i in (out (os w))(path := out (os w) path @ message))"
    using r by simp
qed

definition is_exit :: "string \<Rightarrow> bool" where
  "is_exit line \<longleftrightarrow> chop_newline line = ''exit''"

lemma length_chop_newline: "length (chop_newline line) \<le> length line"
  by (simp add: chop_newline_def)

text \<open>
  C30. The client chats until \<open>exit\<close>.  On a connected socket, when the FIFO takes every byte, the lines of the
  user arrive in order and without their newlines up to and including the first line \<open>exit\<close>, and then the chat
  ends; when the input ends without such a line, the chat never ends.
\<close>

theorem chat_ends_with_exit:
  assumes "fifo_laws P out tgt" and "resourceful P" and "fifos_open P"
    and "ids w k = Some i" and "wf_sockid i" and "get_socket_state (Some i) = CONNECTED_SOCKET"
    and "\<forall>line \<in> set input. line \<noteq> [] \<and> length line < 2 ^ 31"
  shows "if \<exists>line \<in> set input. is_exit line
    then \<exists>w'. client_chat P k input w = Some w'
      \<and> out (os w') = (let path = socket_fifo_path OUT_DATA_SOCKET_FIFO_PREFIX i in
           (out (os w))(path := out (os w) path
              @ concat (map chop_newline (takeWhile (\<lambda>line. \<not> is_exit line) input)) @ ''exit''))
    else client_chat P k input w = None"
  using assms(4,7)
proof (induction input arbitrary: w)
  case Nil
  show ?case by (simp add: client_chat_end_of_input)
next
  case (Cons line rest)
  let ?m = "chop_newline line" and ?path = "socket_fifo_path OUT_DATA_SOCKET_FIFO_PREFIX i"
  obtain r w1 where s: "SocketSend P (Some k) (Some ?m) (word_of_int (int (length ?m))) w = (r, w1)" by fastforce
  have len: "length ?m < 2 ^ 31" using length_chop_newline [of line] Cons.prems(2) by (auto intro: le_less_trans)
  note S = SocketSend_all [OF assms(1-3) Cons.prems(1) assms(5,6) len s]
  have e: "client_chat P k (line # rest) w = (if ?m = ''exit'' then Some w1 else client_chat P k rest w1)"
    using Cons.prems(2) s S(1) by (subst client_chat.simps) (simp add: Let_def)
  show ?case
  proof (cases "is_exit line")
    case True
    then show ?thesis using e S(3) by (simp add: is_exit_def)
  next
    case False
    then have e': "client_chat P k (line # rest) w = client_chat P k rest w1" using e by (simp add: is_exit_def)
    have "\<forall>line \<in> set rest. line \<noteq> [] \<and> length line < 2 ^ 31" using Cons.prems(2) by simp
    note IH = Cons.IH [OF S(2) this]
    show ?thesis
    proof (cases "\<exists>line \<in> set rest. is_exit line")
      case True
      then obtain w' where "client_chat P k rest w1 = Some w'"
        "out (os w') = (let path = ?path in (out (os w1))(path := out (os w1) path
              @ concat (map chop_newline (takeWhile (\<lambda>line. \<not> is_exit line) rest)) @ ''exit''))"
        using IH by auto
      then show ?thesis using True False S(3) unfolding e' by (simp add: Let_def)
    next
      case none: False
      then show ?thesis using IH False unfolding e' by simp
    qed
  qed
qed

lemma chat_ends_with_exit_witness:
  "(\<exists>w'. client_chat kind_posix 0 [''hi'' @ [CHR 0x0A], ''exit'' @ [CHR 0x0A], ''no''] (client_world (the (example_ids 0))) = Some w'
      \<and> sim_out (os w') (socket_fifo_path OUT_DATA_SOCKET_FIFO_PREFIX (the (example_ids 0))) = ''hiexit'')
    \<and> client_chat kind_posix 0 [''hi''] (client_world (the (example_ids 0))) = None"
proof -
  let ?i = "the (example_ids 0)"
  have wf: "wf_sockid ?i" by (simp add: example_ids_def wf_sockid_def wf_ip_cells)
  have c: "get_socket_state (Some ?i) = CONNECTED_SOCKET"
    by (simp add: example_ids_def get_socket_state_def is_socket_connected_def is_empty_ip_def ip_cells_def EMPTY_PORT_def nth_append)
  have o: "sim_out (os (client_world ?i)) n = []" for n
    by (simp add: client_world_def sim_world_def sim_boot_def sim_out_def)
  note T = chat_ends_with_exit [OF kind_posix(3,1,2) client_ids(2) wf c]
  show ?thesis
    using T [of "[''hi'' @ [CHR 0x0A], ''exit'' @ [CHR 0x0A], ''no'']"] T [of "[''hi'']"] o
    by (simp add: is_exit_def chop_newline_def Let_def) (metis fun_upd_same)
qed

end
