(* ===== verification/Sending.thy ===== *)
theory Sending imports End_To_End Contracts begin

text \<open>
  What becomes of the bytes that a manager takes from a user, on their way from the FIFO of the user into
  the send window of an established socket and out of it again when they are acknowledged
  (src/network_manager/network_manager.c, src/packet_handlers.c).  The bytes read from a FIFO are
  counted in a log, as the bytes written are.
\<close>

section \<open>What a process reads\<close>

text \<open>
  Documented behaviour of the calls, as a hypothesis: \<open>inn s n\<close> is everything this process has read
  from the FIFO \<open>n\<close> so far, \<open>tgt s fd\<close> the FIFO for which a descriptor was opened last.  A read returns at
  most as many bytes as asked for, and only a read that returns bytes adds to the log: these bytes.
\<close>

definition intake_laws :: "'s posix \<Rightarrow> ('s \<Rightarrow> string \<Rightarrow> string) \<Rightarrow> ('s \<Rightarrow> int \<Rightarrow> string) \<Rightarrow> bool" where
  "intake_laws P inn tgt \<longleftrightarrow>
     (\<forall>n s. inn (snd (px_malloc P n s)) = inn s) \<and> (\<forall>s. inn (snd (px_new P s)) = inn s)
   \<and> (\<forall>fd s. inn (px_close P fd s) = inn s \<and> tgt (px_close P fd s) = tgt s)
   \<and> (\<forall>s. inn (snd (px_clock P s)) = inn s)
   \<and> (\<forall>fd bs s. inn (snd (px_write P fd bs s)) = inn s)
   \<and> (\<forall>name mode s fd s'. px_open P name mode s = (fd, s') \<longrightarrow>
        inn s' = inn s \<and> (fd \<noteq> - 1 \<longrightarrow> tgt s' fd = name))
   \<and> (\<forall>fd n s rd s'. px_read P fd n s = (rd, s') \<longrightarrow> tgt s' = tgt s
        \<and> (case rd of
             Read bs \<Rightarrow> length bs \<le> n \<and> inn s' = (inn s)(tgt s fd := inn s (tgt s fd) @ bs)
           | _ \<Rightarrow> inn s' = inn s))"

lemma intake_laws_calls:
  assumes "intake_laws P inn tgt"
  shows "sys_open P name mode w = (fd, w') \<Longrightarrow> inn (os w') = inn (os w)"
    and "sys_open P name mode w = (fd, w') \<Longrightarrow> fd \<noteq> - 1 \<Longrightarrow> tgt (os w') fd = name"
    and "tgt (os (sys_close P fd w)) = tgt (os w)" and "inn (os (sys_close P fd w)) = inn (os w)"
    and "sys_read P fd n w = (rd, w') \<Longrightarrow> tgt (os w') = tgt (os w)"
    and "sys_read P fd n w = (Read bs, w') \<Longrightarrow> length bs \<le> n
      \<and> inn (os w') = (inn (os w))(tgt (os w) fd := inn (os w) (tgt (os w) fd) @ bs)"
    and "sys_read P fd n w = (rd, w') \<Longrightarrow> \<forall>bs. rd \<noteq> Read bs \<Longrightarrow> inn (os w') = inn (os w)"
  using assms unfolding intake_laws_def
  by (auto simp: sys_open_def sys_close_def sys_read_def split: prod.splits read_outcome.splits)
    (metis read_outcome.exhaust)+

text \<open>
  The segment that \<open>check_and_handle_send_window\<close> hands to \<open>send_TCP_packet\<close>, if any: the function up to
  that call.
\<close>

definition outgoing_segment :: "'s posix \<Rightarrow> addr \<Rightarrow> 's world \<Rightarrow> TCPPacket option \<times> 's world" where
  "outgoing_segment P sock_id w =
     (case mgr_getSocket (Some sock_id) w of
        None \<Rightarrow> (None, w)
      | Some sock \<Rightarrow>
        if sk_state (sock_at w sock) \<noteq> ESTABLISED then (None, w)
        else let (due, w1) = older_than P (last_send_clock (sock_at w sock)) SOCKET_SEND_AGAIN_TIME w in
        if \<not> due then (None, w1)
        else let (est_socket_data, w2) = get_next_socket_packet_data P sock w1;
                 (ack_packet, w3) = construct_packet P sock (case est_socket_data of None \<Rightarrow> [] | Some d \<Rightarrow> d)
                    ACK (dst_port (id_at w2 sock_id)) w2;
                 w4 = (if est_socket_data = None then set_ub w3 else w3);
                 s = sock_at w4 sock
             in (map_option (\<lambda>p. p\<lparr>tcp_seq_num := seq_of_first_send_window s,
                                   tcp_ack_num := seq_of_first_recv_window s\<rparr>) ack_packet, w4))"

lemma check_and_handle_send_window_eq:
  "check_and_handle_send_window P k w =
     (case outgoing_segment P k w of
        (None, w1) \<Rightarrow> (0, w1)
      | (Some p, w1) \<Rightarrow>
          let (r, w2) = send_TCP_packet P (Some p) (dst_ip (id_at w1 k)) w1
          in (0, if r = 0 then stamp_last_send P (the (mgr_getSocket (Some k) w)) w2 else w2))"
  by (simp add: check_and_handle_send_window_def outgoing_segment_def Let_def split: option.splits prod.splits)

text \<open>
  An observation of the system that the calls for memory, descriptors and time do not change, and one that
  \<open>write\<close> does not change either.
\<close>

locale observation =
  fixes P :: "'s posix"
    and f :: "'s \<Rightarrow> 'b"
  assumes malloc: "f (snd (px_malloc P n s)) = f s"
    and new: "f (snd (px_new P s)) = f s"
    and open_call: "f (snd (px_open P name mode s)) = f s"
    and close_call: "f (px_close P fd s) = f s"
    and clock: "f (snd (px_clock P s)) = f s"
begin

lemma calls:
  "sys_malloc P n w = (m, w') \<Longrightarrow> f (os w') = f (os w)"
  "sys_new P w = (b, w') \<Longrightarrow> f (os w') = f (os w)"
  "sys_open P name mode w = (r, w') \<Longrightarrow> f (os w') = f (os w)"
  "f (os (sys_close P fd w)) = f (os w)"
  "sys_clock P w = (t, w') \<Longrightarrow> f (os w') = f (os w)"
  using malloc [of n "os w"] new [of "os w"] open_call [of name mode "os w"] close_call
    clock [of "os w"]
  by (auto simp: sys_malloc_def sys_new_def sys_open_def sys_close_def sys_clock_def split: prod.splits)

lemma names:
  "construct_full_fifo_name P prefix t w = (r, w') \<Longrightarrow> f (os w') = f (os w)"
  "construct_full_socket_fifo_name P prefix k w = (r, w') \<Longrightarrow> f (os w') = f (os w)"
proof -
  show full: "f (os w') = f (os w)" if "construct_full_fifo_name P prefix t w = (r, w')" for prefix t w r w'
    using that
    by (auto simp: construct_full_fifo_name_def add_as_prefix_def add_folder_prefix_def calls split: prod.splits option.splits)
  show "construct_full_socket_fifo_name P prefix k w = (r, w') \<Longrightarrow> f (os w') = f (os w)"
    by (auto simp: construct_full_socket_fifo_name_def Let_def dest!: full split: option.splits if_splits)
qed

lemma constructed: "construct_packet P a d fl port w = (r, w') \<Longrightarrow> f (os w') = f (os w)"
  by (auto simp: construct_packet_def Let_def calls split: prod.splits if_splits option.splits)

lemma parsed: "str_to_tcp P t w = (r, w') \<Longrightarrow> f (os w') = f (os w)"
  by (auto simp: str_to_tcp_def Let_def calls split: prod.splits if_splits option.splits)

lemma incoming:
  assumes "incoming_segment P q w = Some (k, t, v)"
  shows "f (os v) = f (os w)"
proof -
  obtain u w1 where 1: "str_to_tcp P (ip_data q) w = (u, w1)" by fastforce
  obtain m w2 where 2: "sys_malloc P 48 w1 = (m, w2)" by fastforce
  have "f (os w2) = f (os w)" using parsed [OF 1] calls(1) [OF 2] by simp
  then show ?thesis
    using assms 1 2 by (auto simp: incoming_segment_def new_id_def split: if_splits option.splits c_result.splits)
qed

lemma stamped: "f (os (stamp_last_send P a w)) = f (os w)"
  by (auto simp: stamp_last_send_def calls split: prod.splits)

lemma outgoing: "outgoing_segment P k w = (r, w') \<Longrightarrow> f (os w') = f (os w)"
  by (auto simp: outgoing_segment_def older_than_def get_next_socket_packet_data_def Let_def calls dest!: constructed
      split: option.splits prod.splits if_splits)

end

locale input_observation = observation P f
  for P :: "'s posix"
    and f :: "'s \<Rightarrow> 'b" +
  assumes write_call: "f (snd (px_write P fd bs s)) = f s"
begin

lemma wrote: "sys_write P fd bs w = (r, w') \<Longrightarrow> f (os w') = f (os w)"
  using write_call [of fd bs "os w"] by (auto simp: sys_write_def split: prod.splits)

lemma write_string: "write_string_to_fifo_name P nm bs w = (r, w') \<Longrightarrow> f (os w') = f (os w)"
  by (auto simp: write_string_to_fifo_name_def calls wrote split: option.splits prod.splits if_splits)

lemma received: "f (os (receiveNewData P a p w)) = f (os w)"
  by (auto simp: receiveNewData_def update_recv_window_def Let_def get_socket_recv_fifo_name_def
      dest!: names write_string split: prod.splits)

lemma sent:
  assumes s: "send_TCP_packet P p ip w = (r, w')"
  shows "f (os w') = f (os w)"
proof -
  have t: "f (os w') = f (os w)" if "tcp_to_str P p w = (r, w')" for p w r w'
    using that by (auto simp: tcp_to_str_def calls split: prod.splits option.splits if_splits)
  have c: "f (os w') = f (os w)" if "sys_create_ip_packet P src dst d w = (r, w')" for src dst d w r w'
    using that by (auto simp: sys_create_ip_packet_def calls split: prod.splits if_splits c_result.splits)
  have i: "f (os w') = f (os w)" if "sys_ip_to_str P q w = (r, w')" for q w r w'
    using that by (auto simp: sys_ip_to_str_def calls split: prod.splits)
  show ?thesis
    using s
    by (auto simp: send_TCP_packet_def get_in_packet_fifo_name_def calls wrote dest!: t c i names
        split: option.splits prod.splits if_splits)
qed

lemma answered: "f (os (answer_sent P l a reply w)) = f (os w)"
  by (auto simp: answer_sent_def Let_def calls dest!: sent split: prod.splits)

lemma resent: "f (os (snd (check_and_handle_send_window P k w))) = f (os w)"
  by (auto simp: check_and_handle_send_window_eq stamped Let_def dest!: outgoing sent split: prod.splits option.splits)

end

lemma intake_laws_keep:
  assumes "intake_laws P inn tgt"
  shows "inn (snd (px_malloc P n s)) = inn s" "inn (snd (px_new P s)) = inn s" "inn (px_close P fd s) = inn s"
    "inn (snd (px_clock P s)) = inn s" "inn (snd (px_write P fd bs s)) = inn s" "inn (snd (px_open P name mode s)) = inn s"
  using assms prod.collapse [of "px_open P name mode s"] unfolding intake_laws_def by metis+

text \<open>The log of the bytes read is such an observation.\<close>

interpretation intake: input_observation P "\<lambda>s. if intake_laws P inn tgt then Some (inn s) else None" for P inn tgt
  by unfold_locales (simp_all add: intake_laws_keep)

lemma intake_kept:
  assumes "intake_laws P inn tgt"
  shows "sys_malloc P n w = (m, w') \<Longrightarrow> inn (os w') = inn (os w)"
    and "construct_full_socket_fifo_name P prefix k w = (nm, w') \<Longrightarrow> inn (os w') = inn (os w)"
    and "inn (os (receiveNewData P a p w)) = inn (os w)"
    and "construct_packet P a d fl port w = (r, w') \<Longrightarrow> inn (os w') = inn (os w)"
    and "send_TCP_packet P q ip w = (x, w') \<Longrightarrow> inn (os w') = inn (os w)"
    and "inn (os (answer_sent P l a q w)) = inn (os w)"
    and "sys_clock P w = (t, w') \<Longrightarrow> inn (os w') = inn (os w)"
    and "inn (os (snd (check_and_handle_send_window P l w))) = inn (os w)"
  using assms intake.calls(1,5) [where P = P and inn = inn and tgt = tgt]
    intake.names(2) [where P = P and inn = inn and tgt = tgt] intake.received [where P = P and inn = inn and tgt = tgt]
    intake.constructed [where P = P and inn = inn and tgt = tgt] intake.sent [where P = P and inn = inn and tgt = tgt]
    intake.answered [where P = P and inn = inn and tgt = tgt] intake.resent [where P = P and inn = inn and tgt = tgt]
  by simp_all

lemma fifo_laws_keep:
  assumes "fifo_laws P out tgt" and "only_writes_send P out"
  shows "out (snd (px_malloc P n s)) = out s" "out (snd (px_new P s)) = out s" "out (px_close P fd s) = out s"
    "out (snd (px_clock P s)) = out s" "out (snd (px_open P name mode s)) = out s"
  using assms prod.collapse [of "px_open P name mode s"] unfolding fifo_laws_def only_writes_send_def by metis+

text \<open>What has been written is an observation of the first kind.\<close>

interpretation written: observation P "\<lambda>s. if fifo_laws P out tgt \<and> only_writes_send P out then Some (out s) else None" for P out tgt
  by unfold_locales (simp_all add: fifo_laws_keep [where P = P and out = out and tgt = tgt])

section \<open>Bytes of the user\<close>

text \<open>What a round takes from the user stands in the send window afterwards, behind what was there.\<close>

lemma take_user_bytes_intake:
  assumes laws: "intake_laws P inn tgt" and s: "socks w a = Some s" "send_window s = Some q" "queue_inv q"
    and t: "tgt (os w) fd = name"
  shows "\<exists>q' bs. socks (take_user_bytes n P a fd w) a = Some (s\<lparr>send_window := Some q'\<rparr>) \<and> queue_inv q'
    \<and> queue_list q' = queue_list q @ bs
    \<and> inn (os (take_user_bytes n P a fd w)) = (inn (os w))(name := inn (os w) name @ bs)"
  using s t
proof (induction n arbitrary: w s q)
  case 0
  then show ?case by (intro exI [of _ q] exI [of _ "[]"]) simp
next
  case (Suc n)
  obtain r w1 where r: "sys_read P fd 1 w = (r, w1)" by fastforce
  note L = intake_laws_calls [OF laws]
  have sa: "sock_at w a = s" using Suc.prems(1) by (simp add: sock_at_def)
  have s1: "socks w1 a = Some s" using Suc.prems(1) same_procD(2) [OF sys_same_proc(4) [OF r]] by simp
  have same: "\<exists>q' bs. socks v a = Some (s\<lparr>send_window := Some q'\<rparr>) \<and> queue_inv q' \<and> queue_list q' = queue_list q @ bs
      \<and> inn (os v) = (inn (os w))(name := inn (os w) name @ bs)"
    if "socks v a = Some s" "inn (os v) = inn (os w)" for v
    using that Suc.prems(2,3) by (intro exI [of _ q] exI [of _ "[]"]) simp
  show ?case
  proof (cases "length (queue_list q) = DEFAULT_QUEUE_CAPACITY")
    case True
    then have v: "take_user_bytes (Suc n) P a fd w = w"
      using sa Suc.prems(2,3) length_queue_list [of q] queue_invD [OF Suc.prems(3)] by simp
    show ?thesis unfolding v by (rule same [OF Suc.prems(1) refl])
  next
    case room: False
    have le: "length (queue_list q) \<le> DEFAULT_QUEUE_CAPACITY" using queue_invD [OF Suc.prems(3)] by simp
    then have go: "\<not> QueueSize (send_window (sock_at w a)) \<ge> QueueCapacity (send_window (sock_at w a))"
      using sa room Suc.prems(2,3) length_queue_list [of q] queue_invD [OF Suc.prems(3)] by simp
    show ?thesis
    proof (cases "\<exists>c. r = Read [c]")
      case False
      then have v: "take_user_bytes (Suc n) P a fd w = w1"
        using go r by (auto split: read_outcome.splits list.splits)
      have "inn (os w1) = inn (os w)"
      proof (cases "\<exists>bs. r = Read bs")
        case True
        then obtain bs where bs: "r = Read bs" by blast
        then have "length bs \<le> 1" using L(6) r by simp
        then have "bs = []" using False bs by (cases bs) auto
        then show ?thesis using L(6) r bs by simp
      qed (use L(7) [OF r] in simp)
      then show ?thesis unfolding v by (rule same [OF s1])
    next
      case True
      then obtain c where c: "r = Read [c]" by blast
      obtain q1 where q1: "enqueue (Some q) c = (True, Some q1)" "queue_inv q1" "queue_list q1 = queue_list q @ [c]"
        using enqueue_room [OF Suc.prems(3), of c] le room by auto
      let ?s = "s\<lparr>send_window := Some q1\<rparr>"
      let ?w2 = "sys_close P fd (upd_sock a (\<lambda>s. s\<lparr>send_window := snd (enqueue (send_window s) c)\<rparr>) w1)"
      have s2: "socks ?w2 a = Some ?s" using s1 q1(1) Suc.prems(2) by (simp add: sys_close_def)
      have i2: "tgt (os ?w2) fd = name" "inn (os ?w2) = (inn (os w))(name := inn (os w) name @ [c])"
        using L(3,4) L(5) [OF r] L(6) [OF r [unfolded c]] Suc.prems(4) by simp_all
      have v: "take_user_bytes (Suc n) P a fd w = take_user_bytes n P a fd ?w2" using go r c by simp
      have sw: "send_window ?s = Some q1" by simp
      from Suc.IH [OF s2 sw q1(2) i2(1)] obtain q' bs where R:
        "socks (take_user_bytes n P a fd ?w2) a = Some (?s\<lparr>send_window := Some q'\<rparr>)" "queue_inv q'"
        "queue_list q' = queue_list q1 @ bs"
        "inn (os (take_user_bytes n P a fd ?w2)) = (inn (os ?w2))(name := inn (os ?w2) name @ bs)"
        by blast
      have "inn (os (take_user_bytes n P a fd ?w2)) = (inn (os w))(name := inn (os w) name @ c # bs)"
        unfolding R(4) i2(2) by simp
      then show ?thesis
        unfolding v using R(1-3) q1(3) by (intro exI [of _ q'] exI [of _ "c # bs"] conjI) simp_all
    qed
  qed
qed

lemma take_user_bytes_out:
  assumes "fifo_laws P out tgt" and "reads_write_nothing P out"
  shows "out (os (take_user_bytes n P a fd w)) = out (os w)"
proof (induction n arbitrary: w)
  case (Suc n)
  obtain r w1 where r: "sys_read P fd 1 w = (r, w1)" by fastforce
  have "out (os w1) = out (os w)" using silent.read [OF r] assms(2) by blast
  then show ?case
    using Suc r fifo_laws_simps(3) [OF assms(1)] by (auto split: read_outcome.splits list.splits)
qed simp

definition send_path :: "sockid \<Rightarrow> string" where
  "send_path i = socket_fifo_path OUT_DATA_SOCKET_FIFO_PREFIX i"

lemma status_established_intake:
  assumes laws: "intake_laws P inn tgt" and s: "socks w a = Some s" "send_window s = Some q" "queue_inv q"
    and k: "sk_id s = Some k" "wf_sockid (id_at w k)"
  shows "\<exists>q' bs. socks (status_established P l a w) a = Some (s\<lparr>send_window := Some q'\<rparr>) \<and> queue_inv q'
    \<and> queue_list q' = queue_list q @ bs
    \<and> inn (os (status_established P l a w)) = (inn (os w))(send_path (id_at w k) := inn (os w) (send_path (id_at w k)) @ bs)"
    and "fifo_laws P out tgt' \<Longrightarrow> reads_write_nothing P out \<Longrightarrow> out (os (status_established P l a w)) = out (os w)"
proof -
  note L = intake_laws_calls [OF laws]
  let ?path = "send_path (id_at w k)"
  have sa: "sock_at w a = s" using s(1) by (simp add: sock_at_def)
  obtain nm w1 where n: "get_socket_send_fifo_name P (Some k) w = (nm, w1)" by fastforce
  note N = construct_full_socket_fifo_name_spec [OF n [unfolded get_socket_send_fifo_name_def] k(2)]
  have s1: "socks w1 a = Some s" using s(1) same_procD(2) [OF N(1)] by simp
  have i1: "inn (os w1) = inn (os w)" using intake_kept(2) [OF laws n [unfolded get_socket_send_fifo_name_def]] .
  obtain fd w2 where o: "sys_open P ?path O_RDONLY_NONBLOCK w1 = (fd, w2)" by fastforce
  have s2: "socks w2 a = Some s" using s1 same_procD(2) [OF sys_same_proc(3) [OF o]] by simp
  have i2: "inn (os w2) = inn (os w)" using i1 L(1) [OF o] by simp
  let ?v = "sys_close P fd (take_user_bytes MAX_DATA_PER_PACKET P a fd w2)"
  have res: "status_established P l a w = (if nm = None then w1 else if fd = - 1 then w2 else ?v)"
    using n o N(2) sa s(2) k(1)
    by (auto simp: status_established_def send_path_def split: option.splits)
  have same: "\<exists>q' bs. socks v a = Some (s\<lparr>send_window := Some q'\<rparr>) \<and> queue_inv q' \<and> queue_list q' = queue_list q @ bs
      \<and> inn (os v) = (inn (os w))(?path := inn (os w) ?path @ bs)"
    if "socks v a = Some s" "inn (os v) = inn (os w)" for v
    using that s(2,3) by (intro exI [of _ q] exI [of _ "[]"]) simp
  have "\<exists>q' bs. socks ?v a = Some (s\<lparr>send_window := Some q'\<rparr>) \<and> queue_inv q' \<and> queue_list q' = queue_list q @ bs
      \<and> inn (os ?v) = (inn (os w))(?path := inn (os w) ?path @ bs)" if "fd \<noteq> - 1"
    using take_user_bytes_intake [OF laws s2 s(2,3) L(2) [OF o that], of MAX_DATA_PER_PACKET] i2 L(4)
    by (simp add: sys_close_def)
  then show "\<exists>q' bs. socks (status_established P l a w) a = Some (s\<lparr>send_window := Some q'\<rparr>) \<and> queue_inv q'
    \<and> queue_list q' = queue_list q @ bs
    \<and> inn (os (status_established P l a w)) = (inn (os w))(?path := inn (os w) ?path @ bs)"
    using same [OF s1 i1] same [OF s2 i2] unfolding res by simp
  show "out (os (status_established P l a w)) = out (os w)" if "fifo_laws P out tgt'" "reads_write_nothing P out"
    using N(3) [OF that(1)] fifo_laws_simps(4) [OF that(1) o] fifo_laws_simps(3) [OF that(1)] take_user_bytes_out [OF that]
    unfolding res by simp
qed

section \<open>Bytes that are sent\<close>

text \<open>
  Whatever memory there is, the segment that goes out carries the next piece of the window or nothing, under the
  number of the first byte of the window; the window keeps its bytes.
\<close>

lemma outgoing_segment_window:
  assumes inv: "mgr_inv w" and o: "own_socket w k i a s" and sw: "send_window s = Some q"
    and g: "outgoing_segment P k w = (r, w')"
  shows "\<exists>j. socks w' a = Some (s\<lparr>send_window := Some (q\<lparr>q_iterator := j\<rparr>)\<rparr>)"
    and "r = Some p \<Longrightarrow> \<exists>d. (d = [] \<or> d = next_piece q) \<and> p = window_segment i s d"
proof -
  note O = own_socketD [OF inv o]
  have q: "queue_inv q" using mgr_invD(3) [OF inv O(5)] sw by (auto simp: socket_wf_def)
  have same: "s\<lparr>send_window := Some (q\<lparr>q_iterator := q_iterator q\<rparr>)\<rparr> = s" using sw by simp
  obtain due w1 where 1: "older_than P (last_send_clock s) SOCKET_SEND_AGAIN_TIME w = (due, w1)" by fastforce
  note h1 = older_than_heap [OF 1]
  have s1: "socks w1 a = Some s" "ids w1 k = Some i" using O(3,5) same_heapD(1,2) [OF h1] by simp_all
  have "(\<exists>j. socks w' a = Some (s\<lparr>send_window := Some (q\<lparr>q_iterator := j\<rparr>)\<rparr>))
    \<and> (\<forall>p. r = Some p \<longrightarrow> (\<exists>d. (d = [] \<or> d = next_piece q) \<and> p = window_segment i s d))"
  proof (cases "sk_state s = ESTABLISED \<and> due")
    case False
    then have "r = None \<and> (w' = w \<or> w' = w1)"
      using g O(9,8) 1 by (auto simp: outgoing_segment_def split: if_splits)
    then have "r = None \<and> socks w' a = Some (s\<lparr>send_window := Some (q\<lparr>q_iterator := q_iterator q\<rparr>)\<rparr>)"
      using O(5) s1(1) unfolding same by auto
    then show ?thesis by blast
  next
    case True
    obtain d w2 where 2: "get_next_socket_packet_data P a w1 = (d, w2)" by fastforce
    obtain m v1 where m: "sys_malloc P (MAX_DATA_PER_PACKET + 1) w1 = (m, v1)" by fastforce
    note V = same_heapD [OF sys_same_heap(1) [OF m]]
    have "(d = None \<or> d = Some (next_piece q)) \<and> ids w2 k = Some i
        \<and> (\<exists>j. socks w2 a = Some (s\<lparr>send_window := Some (q\<lparr>q_iterator := j\<rparr>)\<rparr>))"
      using next_data_cases [OF s1(1) sw q 2 m]
    proof
      assume "m = None \<and> d = None \<and> w2 = v1"
      then show ?thesis using V(1,2) s1 same by (intro conjI exI [of _ "q_iterator q"]) simp_all
    next
      assume "m \<noteq> None \<and> d = Some (next_piece q)
        \<and> (\<exists>j. w2 = upd_sock a (\<lambda>s. s\<lparr>send_window := Some (q\<lparr>q_iterator := j\<rparr>)\<rparr>) v1)"
      then show ?thesis using V(1,2) s1 by auto
    qed
    then obtain j where j: "d = None \<or> d = Some (next_piece q)" "ids w2 k = Some i"
        "socks w2 a = Some (s\<lparr>send_window := Some (q\<lparr>q_iterator := j\<rparr>)\<rparr>)" by blast
    let ?d = "case d of None \<Rightarrow> [] | Some d \<Rightarrow> d"
    let ?s = "s\<lparr>send_window := Some (q\<lparr>q_iterator := j\<rparr>)\<rparr>"
    obtain r3 w3 where 3: "construct_packet P a ?d ACK (dst_port (id_at w2 k)) w2 = (r3, w3)" by fastforce
    note H3 = same_heapD [OF construct_packet_heap [OF 3]]
    have s3: "socks w3 a = Some ?s" "id_at w2 k = i" using j H3(2) by (simp_all add: id_at_def)
    have res: "r = map_option (\<lambda>p. p\<lparr>tcp_seq_num := seq_of_first_send_window ?s, tcp_ack_num := seq_of_first_recv_window ?s\<rparr>) r3"
        "socks w' = socks w3"
      using g O(9,8) 1 True 2 3 s3(1) by (auto simp: outgoing_segment_def Let_def sock_at_def)
    have "p = window_segment i s ?d" if r: "r = Some p" for p
    proof -
      obtain p3 where p3: "r3 = Some p3" using r res(1) by auto
      have "p3 = window_segment i s ?d"
        using construct_packet_eq(1) [OF 3 [unfolded p3]] j(3) s3(2) O(6)
        by (simp add: window_segment_def sock_at_def Let_def)
      then show ?thesis using r res(1) p3 by (simp add: window_segment_def Let_def)
    qed
    moreover have "?d = [] \<or> ?d = next_piece q" using j(1) by auto
    ultimately show ?thesis using res(2) s3(1) by auto
  qed
  then show "\<exists>j. socks w' a = Some (s\<lparr>send_window := Some (q\<lparr>q_iterator := j\<rparr>)\<rparr>)"
    and "r = Some p \<Longrightarrow> \<exists>d. (d = [] \<or> d = next_piece q) \<and> p = window_segment i s d" by blast+
qed

text \<open>When there is memory and the last segment is old enough, the piece goes out.\<close>

lemma outgoing_segment_due:
  assumes P: "resourceful P" and inv: "mgr_inv w" and o: "own_socket w k i a s" and st: "sk_state s = ESTABLISED"
    and sw: "send_window s = Some q"
    and due: "DIFF2SEC_gt (fst (px_clock P (os w)) - last_send_clock s) SOCKET_SEND_AGAIN_TIME"
  shows "fst (outgoing_segment P k w) = Some (window_segment i s (next_piece q))"
proof -
  note O = own_socketD [OF inv o]
  have q: "queue_inv q" using mgr_invD(3) [OF inv O(5)] sw by (auto simp: socket_wf_def)
  obtain now w1 where 1: "sys_clock P w = (now, w1)" by fastforce
  have h1: "same_heap w w1" using 1 by blast
  have "now = fst (px_clock P (os w))" using 1 by (auto simp: sys_clock_def split: prod.splits)
  then have old: "older_than P (last_send_clock s) SOCKET_SEND_AGAIN_TIME w = (True, w1)"
    using 1 due by (simp add: older_than_def)
  have s1: "socks w1 a = Some s" using O(5) same_heapD(2) [OF h1] by simp
  obtain d w2 where 2: "get_next_socket_packet_data P a w1 = (d, w2)" by fastforce
  note N = get_next_socket_packet_data_piece [OF P s1 sw q 2]
  obtain j m v1 where j: "sys_malloc P (MAX_DATA_PER_PACKET + 1) w1 = (m, v1)"
      "w2 = upd_sock a (\<lambda>s. s\<lparr>send_window := Some (q\<lparr>q_iterator := j\<rparr>)\<rparr>) v1" using N(2) by blast
  let ?s = "s\<lparr>send_window := Some (q\<lparr>q_iterator := j\<rparr>)\<rparr>"
  note V = same_heapD [OF same_heap_trans [OF h1 sys_same_heap(1) [OF j(1)]]]
  have s2: "socks w2 a = Some ?s" "ids w2 k = Some i" using V O(3,5) j(2) by simp_all
  obtain r3 w3 where 3: "construct_packet P a (next_piece q) ACK (dst_port i) w2 = (r3, w3)" by fastforce
  have "r3 = Some (window_segment i ?s (next_piece q))"
    using construct_packet_resourceful [OF P s2(1) _ s2(2) 3] O(6) by simp
  moreover have "sock_at w3 a = ?s" "id_at w2 k = i"
    using s2 same_heapD(2) [OF construct_packet_heap [OF 3]] by (simp_all add: sock_at_def id_at_def)
  ultimately show ?thesis
    using O(9,8) st old 2 N(1) 3 by (simp add: outgoing_segment_def Let_def window_segment_def)
qed

lemma check_and_handle_send_window_socket:
  assumes inv: "mgr_inv w" and o: "own_socket w k i a s" and sw: "send_window s = Some q"
  shows "\<exists>j t. socks (snd (check_and_handle_send_window P k w)) a
     = Some (s\<lparr>send_window := Some (q\<lparr>q_iterator := j\<rparr>), last_send_clock := t\<rparr>)"
proof -
  obtain r w1 where 1: "outgoing_segment P k w = (r, w1)" by fastforce
  obtain j where j: "socks w1 a = Some (s\<lparr>send_window := Some (q\<lparr>q_iterator := j\<rparr>)\<rparr>)"
    using outgoing_segment_window(1) [OF inv o sw 1] by blast
  obtain x w2 where 2: "send_TCP_packet P r (dst_ip (id_at w1 k)) w1 = (x, w2)" by fastforce
  obtain t w3 where 3: "sys_clock P w2 = (t, w3)" by fastforce
  have s2: "socks w2 a = socks w1 a" "socks w3 a = socks w1 a"
    using same_heapD(2) [OF send_TCP_packet_heap [OF 2]] same_heapD(2) [OF sys_same_heap(10) [OF 3]] by simp_all
  have "snd (check_and_handle_send_window P k w) \<in> {w1, w2, upd_sock a (\<lambda>s. s\<lparr>last_send_clock := t\<rparr>) w3}"
    using 1 2 3 own_socketD(9) [OF inv o] by (cases r) (simp_all add: check_and_handle_send_window_eq stamp_last_send_def)
  moreover have "\<exists>t. u = u\<lparr>last_send_clock := t\<rparr>" for u :: socket by (rule exI [of _ "last_send_clock u"]) simp
  ultimately show ?thesis using j s2 by (metis insertE option.simps(9) singletonD upd_sock_simps(1))
qed

section \<open>Acknowledged bytes\<close>

text \<open>Handling a segment of an established connection changes the send side of the socket by the acknowledgment only.\<close>

definition send_side :: "socket \<Rightarrow> queue option \<times> c_int" where
  "send_side s = (send_window s, seq_of_first_send_window s)"

lemma store_data_send_side: "send_side (store_data x d s) = send_side s"
proof -
  have "send_side (foldl (store_byte x d) s is) = send_side s" for "is"
    by (induction "is" arbitrary: s) (auto simp: send_side_def store_byte_def Let_def)
  then show ?thesis by (simp add: store_data_def)
qed

lemma receiveNewData_send_side:
  assumes "socks w a = Some s"
  shows "\<exists>s'. socks (receiveNewData P a p w) a = Some s' \<and> send_side s' = send_side s"
proof -
  let ?f = "store_data (tcp_seq_num p) (the (tcp_data p))"
  let ?w = "upd_sock a ?f w"
  obtain nm w1 where 1: "get_socket_recv_fifo_name P (sk_id (?f s)) ?w = (nm, w1)" by fastforce
  obtain n w2 where 2: "write_string_to_fifo_name P nm (take (valid_recvs (?f s)) (recv_window (?f s))) w1 = (n, w2)"
    by fastforce
  have s1: "socks w1 a = Some (?f s)" "sock_at ?w a = ?f s"
    using assms same_heapD(2) [OF fifo_name_heap(6) [OF 1]] by (simp_all add: sock_at_def)
  have s2: "socks w2 a = Some (?f s)" using s1(1) same_heapD(2) [OF fifo_name_heap(14) [OF 2]] by simp
  let ?g = "\<lambda>s. slide_recv_window (nat n) (s\<lparr>seq_of_first_recv_window := seq_of_first_recv_window s + word_of_int n\<rparr>)"
  have g: "send_side (?g s) = send_side s" for s
    by (simp add: send_side_def slide_recv_window_def Let_def slide_fold clear_fold)
  have "receiveNewData P a p w \<in> {w1, w2, set_ub w2, upd_sock a ?g w2}"
    using 1 2 s1(2) by (simp add: receiveNewData_def update_recv_window_def Let_def)
  then show ?thesis using s1(1) s2 g store_data_send_side [of "tcp_seq_num p" "the (tcp_data p)" s] by auto
qed

lemma handle_packet_send_side:
  assumes s: "socks w a = Some s" "sk_state s = ESTABLISED" "sk_id s = Some k" "send_window s = Some q"
    and est: "established_segment p" and h: "handle_packet P a p ip w = (r, w')"
  shows "\<exists>s'. socks w' a = Some s' \<and> send_side s' \<in> {send_side s, send_side (ack_slide (tcp_ack_num p) s)}
     \<and> (\<forall>p'. r = Some p' \<longrightarrow> tcp_data p' = Some [] \<and> tcp_flags p' = ACK \<and> tcp_seq_num p' = seq_of_first_send_window s')"
    and "intake_laws P inn tgt \<Longrightarrow> inn (os w') = inn (os w)"
proof -
  define w1 where "w1 = (if has_flag p ACK then upd_sock a (ack_slide (tcp_ack_num p)) w else w)"
  obtain s1 where s1: "socks w1 a = Some s1" "send_side s1 \<in> {send_side s, send_side (ack_slide (tcp_ack_num p) s)}"
    by (rule that [of "if has_flag p ACK then ack_slide (tcp_ack_num p) s else s"]) (simp_all add: w1_def s(1))
  have o1: "os w1 = os w" by (simp add: w1_def)
  consider "w' = w" "r = None" | "w' = w1" "r = None"
    | "construct_packet P a [] ACK (tcp_src_port p) (receiveNewData P a p w1) = (r, w')"
    using handle_packet_established_segment [OF s est, of P ip, folded w1_def, unfolded h Let_def]
    by (auto split: if_splits)
  then have "(\<exists>s'. socks w' a = Some s' \<and> send_side s' \<in> {send_side s, send_side (ack_slide (tcp_ack_num p) s)}
     \<and> (\<forall>p'. r = Some p' \<longrightarrow> tcp_data p' = Some [] \<and> tcp_flags p' = ACK \<and> tcp_seq_num p' = seq_of_first_send_window s'))
     \<and> (intake_laws P inn tgt \<longrightarrow> inn (os w') = inn (os w))"
  proof cases
    case 3
    obtain s2 where s2: "socks (receiveNewData P a p w1) a = Some s2" "send_side s2 = send_side s1"
      using receiveNewData_send_side [OF s1(1)] by blast
    have s': "socks w' a = Some s2" using s2(1) same_heapD(2) [OF construct_packet_heap [OF 3]] by simp
    have "tcp_data p' = Some [] \<and> tcp_flags p' = ACK \<and> tcp_seq_num p' = seq_of_first_send_window s2"
      if "r = Some p'" for p'
      using construct_packet_eq(1) [OF 3 [unfolded that]] s2(1) by (simp add: sock_at_def Let_def)
    moreover have "inn (os w') = inn (os w)" if "intake_laws P inn tgt"
      using intake_kept(4) [OF that 3] intake_kept(3) [OF that, of a p w1] o1 by simp
    ultimately show ?thesis using s' s2(2) s1(2) by (intro conjI exI [of _ s2]) auto
  qed (use s(1) s1 o1 in auto)
  then show "\<exists>s'. socks w' a = Some s' \<and> send_side s' \<in> {send_side s, send_side (ack_slide (tcp_ack_num p) s)}
     \<and> (\<forall>p'. r = Some p' \<longrightarrow> tcp_data p' = Some [] \<and> tcp_flags p' = ACK \<and> tcp_seq_num p' = seq_of_first_send_window s')"
    and "intake_laws P inn tgt \<Longrightarrow> inn (os w') = inn (os w)"
    by blast+
qed

text \<open>
  The numbers of the bytes of a message that does not reach the top of the number range compare as their
  positions do.
\<close>

definition numbered :: "c_int \<Rightarrow> nat \<Rightarrow> bool" where
  "numbered base n \<longleftrightarrow> n < 2147483648 \<and> sint base + int n < 2147483648"

lemma numbered_sint: "numbered base n \<Longrightarrow> m \<le> n \<Longrightarrow> sint (base + of_nat m) = sint base + int m"
proof -
  assume n: "numbered base n" "m \<le> n"
  have "base + of_nat m = word_of_int (sint base + int m)" by simp
  moreover have "sint (word_of_int (sint base + int m) :: c_int) = sint base + int m"
    using n sint_bounds_32 [of base] by (intro sint_word_of_int_32) (auto simp: numbered_def)
  ultimately show ?thesis by metis
qed

lemma ack_slide_window:
  assumes s: "send_window s = Some q" "queue_inv q" and n: "numbered base (length taken)"
    and m: "m \<le> length taken" "c \<le> length taken"
    and w: "queue_list q = drop m taken" "seq_of_first_send_window s = base + of_nat m"
  shows "\<exists>q'. send_side (ack_slide (base + of_nat c) s) = (Some q', base + of_nat (max m c))
    \<and> queue_list q' = drop (max m c) taken"
proof -
  have d: "nat (sint (base + of_nat c) - sint (seq_of_first_send_window s)) = c - m"
    using numbered_sint [OF n m(1)] numbered_sint [OF n m(2)] w(2) by simp
  have "min (c - m) (length (queue_list q)) = c - m" using w(1) m by simp
  moreover have "m + (c - m) = max m c" by simp
  then have "base + of_nat m + of_nat (c - m) = base + of_nat (max m c)" "c - m + m = max m c"
    by (metis add.assoc of_nat_add) simp
  ultimately show ?thesis
    using ack_slide_spec [OF s, of "base + of_nat c"] w unfolding d by (auto simp: send_side_def)
qed

text \<open>
  Beyond the top of the number range this fails: the numbers are compared as signed integers, so an old
  acknowledgment from before the overflow empties the window of bytes that nobody has received.
\<close>

lemma old_acknowledgment_empties_window:
  assumes s: "send_window s = Some q" "queue_inv q" and first: "seq_of_first_send_window s = - 2147483648"
    and old: "n = 2147483647"
  shows "\<exists>q'. send_window (ack_slide n s) = Some q' \<and> queue_list q' = []"
proof -
  have "length (queue_list q) \<le> 8192" using queue_invD [OF s(2)] by (simp add: DEFAULT_QUEUE_CAPACITY_def)
  then show ?thesis using ack_slide_spec [OF s, of n] first old by auto
qed

end
