(* ===== verification/Watched_Os.thy ===== *)
theory Watched_Os imports Sending begin

text \<open>
  Any system with a book kept beside it: what has been read from each FIFO, and for which FIFO each
  descriptor was opened last.  The book makes the laws on reading hold of every system, and changes nothing
  of what the process sees except that a read never returns more than was asked for.
\<close>

section \<open>The book\<close>

type_synonym book = "(string \<Rightarrow> string) \<times> (int \<Rightarrow> string)"

definition beside :: "('s \<Rightarrow> 'r \<times> 's) \<Rightarrow> 's \<times> book \<Rightarrow> 'r \<times> 's \<times> book" where
  "beside f sb = (let (r, s) = f (fst sb) in (r, s, snd sb))"

definition watched_open :: "'s posix \<Rightarrow> string \<Rightarrow> open_mode \<Rightarrow> 's \<times> book \<Rightarrow> int \<times> 's \<times> book" where
  "watched_open P name mode sb =
     (let (fd, s) = px_open P name mode (fst sb); (log, tgt) = snd sb in (fd, s, log, tgt(fd := name)))"

definition watched_read :: "'s posix \<Rightarrow> int \<Rightarrow> nat \<Rightarrow> 's \<times> book \<Rightarrow> read_outcome \<times> 's \<times> book" where
  "watched_read P fd n sb =
     (let (r, s) = px_read P fd n (fst sb); (log, tgt) = snd sb
      in case r of
           Read bs \<Rightarrow> (Read (take n bs), s, log(tgt fd := log (tgt fd) @ take n bs), tgt)
         | _ \<Rightarrow> (r, s, log, tgt))"

definition watched :: "'s posix \<Rightarrow> ('s \<times> book) posix" where
  "watched P =
     \<lparr>px_malloc = (\<lambda>n. beside (px_malloc P n)), px_new = beside (px_new P), px_open = watched_open P,
      px_close = (\<lambda>fd sb. (px_close P fd (fst sb), snd sb)), px_read = watched_read P,
      px_write = (\<lambda>fd bs. beside (px_write P fd bs)), px_mkfifo = (\<lambda>n. beside (px_mkfifo P n)),
      px_unlink = (\<lambda>n. beside (px_unlink P n)), px_stat = (\<lambda>n. beside (px_stat P n)),
      px_mkdir = (\<lambda>n. beside (px_mkdir P n)), px_clock = beside (px_clock P), px_rand = beside (px_rand P),
      px_getpid = (\<lambda>sb. px_getpid P (fst sb)),
      px_open_waits = (\<lambda>n m sb. px_open_waits P n m (fst sb)), px_read_waits = (\<lambda>fd sb. px_read_waits P fd (fst sb))\<rparr>"

definition book_log :: "'s \<times> book \<Rightarrow> string \<Rightarrow> string" where "book_log sb = fst (snd sb)"

definition book_tgt :: "'s \<times> book \<Rightarrow> int \<Rightarrow> string" where "book_tgt sb = snd (snd sb)"

lemma watched_intake: "intake_laws (watched P) book_log book_tgt"
  by (simp add: intake_laws_def watched_def beside_def watched_open_def watched_read_def book_log_def book_tgt_def
      split: prod.splits read_outcome.splits)

lemma watched_fifo:
  assumes "fifo_laws P out tgt"
  shows "fifo_laws (watched P) (out \<circ> fst) (tgt \<circ> fst)"
  using assms
  by (auto simp: fifo_laws_def watched_def beside_def watched_open_def split: prod.splits) (metis snd_conv)+

lemma watched_out:
  assumes "only_writes_send P out" and "reads_write_nothing P out"
  shows "only_writes_send (watched P) (out \<circ> fst)" and "reads_write_nothing (watched P) (out \<circ> fst)"
  using assms
  by (auto simp: only_writes_send_def reads_write_nothing_def watched_def beside_def watched_read_def
      split: prod.splits read_outcome.splits) (metis snd_conv)+

lemma watched_kind:
  assumes "resourceful P" and "fifos_open P"
  shows "resourceful (watched P)" and "fifos_open (watched P)"
  using assms
  by (auto simp: resourceful_def fifos_open_def watched_def beside_def watched_open_def split: prod.splits)
    (metis fst_conv)+

lemma watched_clock: "fst (px_clock (watched P) sb) = fst (px_clock P (fst sb))"
  by (simp add: watched_def beside_def split: prod.splits)

section \<open>A process on such a system\<close>

definition watching :: "book \<Rightarrow> 's world \<Rightarrow> ('s \<times> book) world" where
  "watching b w =
     \<lparr>os = (os w, b), ids = ids w, socks = socks w, next_addr = next_addr w, mgr_ip = mgr_ip w,
      mgr_sockets = mgr_sockets w, in_packet_fifo_fd = in_packet_fifo_fd w,
      bind_request_fifo_fd = bind_request_fifo_fd w, connect_request_fifo_fd = connect_request_fifo_fd w,
      terminate_fifo_fd = terminate_fifo_fd w, ub = ub w\<rparr>"

lemma watching [simp]:
  "os (watching b w) = (os w, b)" "ids (watching b w) = ids w" "socks (watching b w) = socks w"
  "mgr_ip (watching b w) = mgr_ip w" "mgr_map (watching b w) = mgr_map w" "mgr_inv (watching b w) = mgr_inv w"
  "own_socket (watching b w) k i a s = own_socket w k i a s"
proof -
  show m: "mgr_map (watching b w) = mgr_map w"
    by (cases "mgr_sockets w") (simp_all add: watching_def mgr_map_def)
  show "mgr_inv (watching b w) = mgr_inv w" by (simp add: watching_def mgr_inv_def heap_ok_def)
  show i: "ids (watching b w) = ids w" "socks (watching b w) = socks w" by (simp_all add: watching_def)
  show "own_socket (watching b w) k i a s = own_socket w k i a s" using m i by (simp add: own_socket_def)
qed (simp_all add: watching_def)

end
