(* ===== verification/Conversation.thy ===== *)
theory Conversation imports Watched_Os "HOL-Library.Sublist" begin

text \<open>
  A whole connection at work: two managers, each taking bytes from its user, sending them again and again,
  and handling the segments of the other as they come, in any order of these operations and with a network
  that loses, repeats, delays and reorders segments.  The contract is that of a pair of streams: what one
  user has been given is a prefix of what the other has written, and no byte is dropped by the sender
  before it has been given to the receiver.
\<close>

section \<open>One end of the connection\<close>

text \<open>
  An end: the system it runs on, the addresses of its identifier and its socket, its endpoints, the logs of
  what its process reads and writes, and the number of the first byte it sends.
\<close>

record 's party =
  pt_os :: "'s posix"
  pt_id :: addr
  pt_sock :: addr
  pt_name :: sockid
  pt_in :: "'s \<Rightarrow> string \<Rightarrow> string"
  pt_out :: "'s \<Rightarrow> string \<Rightarrow> string"
  pt_base :: c_int

definition party_laws :: "'s party \<Rightarrow> bool" where
  "party_laws e \<longleftrightarrow> (\<exists>tgt. fifo_laws (pt_os e) (pt_out e) tgt) \<and> only_writes_send (pt_os e) (pt_out e)
     \<and> reads_write_nothing (pt_os e) (pt_out e) \<and> (\<exists>tgt. intake_laws (pt_os e) (pt_in e) tgt)"

text \<open>The bytes taken from the user and those given to the user.\<close>

definition taken_by :: "'s party \<Rightarrow> 's world \<Rightarrow> string" where
  "taken_by e w = pt_in e (os w) (send_path (pt_name e))"

definition given_to :: "'s party \<Rightarrow> 's world \<Rightarrow> string" where
  "given_to e w = pt_out e (os w) (recv_path (pt_name e))"

text \<open>
  The end is connected: of the bytes of its user, all but the first \<open>m\<close> stand in its send window, and of the
  bytes of the other user, it has given away the first \<open>n\<close>.
\<close>

definition talks :: "'s party \<Rightarrow> c_int \<Rightarrow> string \<Rightarrow> nat \<Rightarrow> nat \<Rightarrow> 's world \<Rightarrow> bool" where
  "talks e rbase msg m n w \<longleftrightarrow> mgr_inv w
     \<and> (\<exists>s q. own_socket w (pt_id e) (pt_name e) (pt_sock e) s \<and> sk_state s = ESTABLISED
          \<and> send_window s = Some q \<and> m \<le> length (taken_by e w) \<and> queue_list q = drop m (taken_by e w)
          \<and> seq_of_first_send_window s = pt_base e + of_nat m \<and> window_of msg rbase n s)
     \<and> given_to e w = take n msg"

text \<open>A segment carries bytes of the user and acknowledges no more than what has been given away.\<close>

definition faithful :: "string \<Rightarrow> c_int \<Rightarrow> c_int \<Rightarrow> nat \<Rightarrow> TCPPacket \<Rightarrow> bool" where
  "faithful msg base rbase n p \<longleftrightarrow>
     established_segment p \<and> carries msg base p \<and> (\<exists>c \<le> n. tcp_ack_num p = rbase + of_nat c)"

text \<open>Empty data arrives as no data.\<close>

definition arrived :: "TCPPacket \<Rightarrow> TCPPacket" where
  "arrived p = (if tcp_data p = Some [] then p\<lparr>tcp_data := None\<rparr> else p)"

text \<open>
  The operations of an end, with the segments it has sent so far; \<open>G\<close> are the segments the other has sent.
  A segment is handed over as it was sent, any number of times and at any time, or never: one whose text cannot
  be read back counts as lost here (Progress sends segments as texts).  Everything else that the manager does leaves
  this socket and the FIFOs of its user alone.
\<close>

inductive end_step :: "'s party \<Rightarrow> TCPPacket set \<Rightarrow> 's world \<times> TCPPacket set \<Rightarrow> 's world \<times> TCPPacket set \<Rightarrow> bool"
  for e :: "'s party" and G :: "TCPPacket set" where
  take_bytes: "check_and_handle_outgoing_status_messages (pt_os e) (pt_id e) w = (r, w') \<Longrightarrow>
    end_step e G (w, F) (w', F)"
| send_bytes: "check_and_handle_send_window (pt_os e) (pt_id e) w = (r, w') \<Longrightarrow>
    end_step e G (w, F) (w', F \<union> set_option (fst (outgoing_segment (pt_os e) (pt_id e) w)))"
| segment: "p \<in> G \<Longrightarrow> mgr_getSocket (Some l) w = Some (pt_sock e) \<Longrightarrow> \<not> reg_id w l \<Longrightarrow>
    handle_packet (pt_os e) (pt_sock e) (arrived p) (src_ip (id_at w l)) w = (reply, w1) \<Longrightarrow>
    end_step e G (w, F) (dispatch_segment (pt_os e) l (arrived p) w, F \<union> set_option reply)"
| elsewhere: "mgr_inv w' \<Longrightarrow> ids w' (pt_id e) = ids w (pt_id e) \<Longrightarrow> socks w' (pt_sock e) = socks w (pt_sock e) \<Longrightarrow>
    mgr_map w' (sid_key (pt_name e)) = mgr_map w (sid_key (pt_name e)) \<Longrightarrow>
    taken_by e w' = taken_by e w \<Longrightarrow> given_to e w' = given_to e w \<Longrightarrow> end_step e G (w, F) (w', F)"

lemma carries_more:
  assumes "carries msg base p"
  shows "carries (msg @ bs) base p"
proof (cases "tcp_data p")
  case (Some d)
  then obtain q where "q \<le> length msg" "piece_at msg base q (tcp_seq_num p) d" using assms by (auto simp: carries_def)
  then show ?thesis using Some by (auto simp: carries_def piece_at_def intro!: exI [of _ q])
qed (simp add: carries_def)

lemma faithful_mono: "faithful msg base rbase n p \<Longrightarrow> n \<le> n' \<Longrightarrow> faithful (msg @ bs) base rbase n' p"
  using carries_more by (meson faithful_def order_trans)

lemma faithful_arrived:
  assumes "faithful msg base rbase n p"
  shows "established_segment (arrived p)" "carries msg base (arrived p)" "\<exists>c \<le> n. tcp_ack_num (arrived p) = rbase + of_nat c"
  using assms by (auto simp: faithful_def arrived_def established_segment_def has_flag_def carries_def)

lemma talks_receiving:
  "talks e rbase msg m n w \<longleftrightarrow> mgr_inv w \<and> m \<le> length (taken_by e w)
    \<and> (\<exists>s q. own_socket w (pt_id e) (pt_name e) (pt_sock e) s \<and> send_side s = (Some q, pt_base e + of_nat m)
          \<and> queue_list q = drop m (taken_by e w))
    \<and> receiving (pt_out e) (pt_sock e) (pt_id e) (pt_name e) msg rbase [] n w"
proof -
  let ?own = "own_socket w (pt_id e) (pt_name e) (pt_sock e)"
  have own: "wf_sockid (pt_name e) \<and> id_at w (pt_id e) = pt_name e \<and> socket_wf s \<and> sk_id s = Some (pt_id e)
      \<and> socks w (pt_sock e) = Some s"
    if "mgr_inv w" "?own s" for s
    using own_socketD [OF that] mgr_invD(3) [OF that(1)] by (simp add: id_at_def)
  show ?thesis
  proof
    assume t: "talks e rbase msg m n w"
    then obtain s q where s: "mgr_inv w" "?own s" "sk_state s = ESTABLISED" "send_window s = Some q"
        "m \<le> length (taken_by e w)" "queue_list q = drop m (taken_by e w)"
        "seq_of_first_send_window s = pt_base e + of_nat m" "window_of msg rbase n s" "given_to e w = take n msg"
      by (auto simp: talks_def)
    moreover have "queue_inv q" using own [OF s(1,2)] s(4) by (auto simp: socket_wf_def)
    ultimately have "receiving (pt_out e) (pt_sock e) (pt_id e) (pt_name e) msg rbase [] n w"
      using own [OF s(1,2)] by (simp add: receiving_def given_to_def)
    then show "mgr_inv w \<and> m \<le> length (taken_by e w)
      \<and> (\<exists>s q. ?own s \<and> send_side s = (Some q, pt_base e + of_nat m) \<and> queue_list q = drop m (taken_by e w))
      \<and> receiving (pt_out e) (pt_sock e) (pt_id e) (pt_name e) msg rbase [] n w"
      using s by (auto simp: send_side_def)
  next
    assume "mgr_inv w \<and> m \<le> length (taken_by e w)
      \<and> (\<exists>s q. ?own s \<and> send_side s = (Some q, pt_base e + of_nat m) \<and> queue_list q = drop m (taken_by e w))
      \<and> receiving (pt_out e) (pt_sock e) (pt_id e) (pt_name e) msg rbase [] n w"
    then obtain s q where s: "mgr_inv w" "m \<le> length (taken_by e w)" "?own s"
        "send_side s = (Some q, pt_base e + of_nat m)" "queue_list q = drop m (taken_by e w)"
        "receiving (pt_out e) (pt_sock e) (pt_id e) (pt_name e) msg rbase [] n w" by blast
    then show "talks e rbase msg m n w"
      using own [OF s(1,3)] unfolding talks_def by (auto simp: receiving_def send_side_def given_to_def)
  qed
qed

lemma talks_more: "talks e rbase msg m n w \<Longrightarrow> talks e rbase (msg @ bs) m n w"
proof -
  have "window_of (msg @ bs) rbase n s" if "window_of msg rbase n s" for s
    using that by (auto simp: window_of_def nth_append)
  then show "talks e rbase msg m n w \<Longrightarrow> talks e rbase (msg @ bs) m n w"
    unfolding talks_def by (auto simp: window_of_def)
qed

section \<open>Taking bytes\<close>

lemma take_bytes_talks:
  assumes laws: "party_laws e" and t: "talks e rbase msg m n w"
    and c: "check_and_handle_outgoing_status_messages (pt_os e) (pt_id e) w = (r, w')"
  shows "\<exists>bs. taken_by e w' = taken_by e w @ bs \<and> talks e rbase msg m n w'"
proof -
  obtain s q where s: "mgr_inv w" "own_socket w (pt_id e) (pt_name e) (pt_sock e) s" "sk_state s = ESTABLISED"
      "send_window s = Some q" "m \<le> length (taken_by e w)" "queue_list q = drop m (taken_by e w)"
      "seq_of_first_send_window s = pt_base e + of_nat m" "window_of msg rbase n s" "given_to e w = take n msg"
    using t by (auto simp: talks_def)
  note O = own_socketD [OF s(1,2)]
  obtain tgt tgt' where L: "fifo_laws (pt_os e) (pt_out e) tgt" "reads_write_nothing (pt_os e) (pt_out e)"
      "intake_laws (pt_os e) (pt_in e) tgt'"
    using laws by (auto simp: party_laws_def)
  have q: "queue_inv q" using mgr_invD(3) [OF s(1) O(5)] s(4) by (auto simp: socket_wf_def)
  have name: "id_at w (pt_id e) = pt_name e" using O(3) by (simp add: id_at_def)
  have w': "w' = status_established (pt_os e) (pt_id e) (pt_sock e) w"
    using c O(8,9) s(3) by (simp add: check_and_handle_outgoing_status_messages_def)
  obtain q' bs where B: "socks w' (pt_sock e) = Some (s\<lparr>send_window := Some q'\<rparr>)" "queue_list q' = queue_list q @ bs"
      "pt_in e (os w') = (pt_in e (os w))(send_path (pt_name e) := pt_in e (os w) (send_path (pt_name e)) @ bs)"
    using status_established_intake(1) [OF L(3) O(5) s(4) q O(6), of "pt_id e"] O(7) unfolding w' name by auto
  have out: "pt_out e (os w') = pt_out e (os w)"
    using status_established_intake(2) [OF L(3) O(5) s(4) q O(6) _ L(1,2)] O(7) name w' by simp
  note T = status_messages_only(2) [OF O(5,9) c]
  have K: "keeps w w'" by (rule only_socket_keeps [OF s(1) T]) (simp add: timer_step_def)
  have "ids w' = ids w" using T by (simp add: only_socket_def)
  then have own: "own_socket w' (pt_id e) (pt_name e) (pt_sock e) (s\<lparr>send_window := Some q'\<rparr>)"
    using O keepsD(2) [OF K] B(1) by (simp add: own_socket_def)
  have tk: "taken_by e w' = taken_by e w @ bs" using B(3) by (simp add: taken_by_def)
  have "window_of msg rbase n (s\<lparr>send_window := Some q'\<rparr>)" using s(8) by (simp add: window_of_def wf_windows_def)
  then have "talks e rbase msg m n w'"
    using keepsD(1) [OF K] own s tk B(2) out by (auto simp: talks_def given_to_def)
  then show ?thesis using tk by blast
qed

section \<open>Sending\<close>

lemma resent_elsewhere:
  assumes "fifo_laws P out tgt" and "only_writes_send P out"
  shows "out (os (snd (check_and_handle_send_window P k w))) (recv_path i) = out (os w) (recv_path i)"
proof -
  obtain r w1 where 1: "outgoing_segment P k w = (r, w1)" by fastforce
  have o1: "out (os w1) = out (os w)"
    using written.outgoing [OF 1, where out = out and tgt = tgt] assms by simp
  show ?thesis
  proof (cases r)
    case None
    then show ?thesis using 1 o1 by (simp add: check_and_handle_send_window_eq)
  next
    case (Some p)
    obtain x w2 where 2: "send_TCP_packet P (Some p) (dst_ip (id_at w1 k)) w1 = (x, w2)" by fastforce
    have "out (os w2) (recv_path i) = out (os w) (recv_path i)"
      using send_TCP_packet_elsewhere [OF assms(1) 2 recv_path_no_packets] o1 by simp
    moreover have "out (os (stamp_last_send P a w2)) = out (os w2)" for a
      using written.stamped [where P = P and out = out and tgt = tgt and w = w2 and a = a] assms by simp
    ultimately show ?thesis using 1 2 Some by (simp add: check_and_handle_send_window_eq Let_def)
  qed
qed

lemma cstr_prefix: "cstr xs = take (length (cstr xs)) xs"
  unfolding cstr_def by (rule takeWhile_eq_take)

lemma next_piece_prefix: "next_piece q = take (length (next_piece q)) (queue_list q)"
proof -
  let ?l = "queue_list q" and ?k = "min 128 (length (cstr (queue_list q)))"
  have "take 128 (cstr ?l) = take 128 (take (length (cstr ?l)) ?l)" by (rule arg_cong [OF cstr_prefix [of ?l]])
  also have "\<dots> = take ?k ?l" by (rule take_take)
  finally have p: "next_piece q = take ?k ?l" unfolding next_piece_def .
  have "length (cstr ?l) \<le> length ?l" unfolding cstr_def by (rule length_takeWhile_le)
  then have k: "length (next_piece q) = ?k" unfolding p length_take by linarith
  show ?thesis unfolding k by (rule p)
qed

lemma send_bytes_talks:
  assumes laws: "party_laws e" and t: "talks e rbase msg m n w"
    and c: "check_and_handle_send_window (pt_os e) (pt_id e) w = (r, w')"
  shows "taken_by e w' = taken_by e w \<and> talks e rbase msg m n w'"
    and "outgoing_segment (pt_os e) (pt_id e) w = (Some p, w1) \<Longrightarrow> faithful (taken_by e w) (pt_base e) rbase n p"
proof -
  obtain s q where s: "mgr_inv w" "own_socket w (pt_id e) (pt_name e) (pt_sock e) s" "sk_state s = ESTABLISED"
      "send_window s = Some q" "m \<le> length (taken_by e w)" "queue_list q = drop m (taken_by e w)"
      "seq_of_first_send_window s = pt_base e + of_nat m" "window_of msg rbase n s" "given_to e w = take n msg"
    using t by (auto simp: talks_def)
  note O = own_socketD [OF s(1,2)]
  obtain tgt tgt' where L: "fifo_laws (pt_os e) (pt_out e) tgt" "only_writes_send (pt_os e) (pt_out e)"
      "intake_laws (pt_os e) (pt_in e) tgt'"
    using laws by (auto simp: party_laws_def)
  obtain j u where j: "socks w' (pt_sock e) = Some (s\<lparr>send_window := Some (q\<lparr>q_iterator := j\<rparr>), last_send_clock := u\<rparr>)"
    using check_and_handle_send_window_socket [OF s(1,2,4)] c by (metis snd_conv)
  note T = send_window_only(2) [OF O(5,9) c]
  have K: "keeps w w'" by (rule only_socket_keeps [OF s(1) T]) (simp add: steady_def)
  let ?s = "s\<lparr>send_window := Some (q\<lparr>q_iterator := j\<rparr>), last_send_clock := u\<rparr>"
  have "ids w' = ids w" using T by (simp add: only_socket_def)
  then have own: "own_socket w' (pt_id e) (pt_name e) (pt_sock e) ?s"
    using O keepsD(2) [OF K] j by (simp add: own_socket_def)
  have tk: "taken_by e w' = taken_by e w"
    using intake_kept(8) [OF L(3), of "pt_id e" w] c by (simp add: taken_by_def)
  have "given_to e w' = given_to e w"
    using resent_elsewhere [OF L(1,2), of "pt_id e" w] c by (simp add: given_to_def)
  moreover have "window_of msg rbase n ?s" using s(8) by (simp add: window_of_def wf_windows_def)
  ultimately have "talks e rbase msg m n w'"
    unfolding talks_def using keepsD(1) [OF K] own s tk
    by (intro conjI exI [of _ ?s] exI [of _ "q\<lparr>q_iterator := j\<rparr>"]) simp_all
  then show "taken_by e w' = taken_by e w \<and> talks e rbase msg m n w'" using tk by simp
  show "faithful (taken_by e w) (pt_base e) rbase n p" if g: "outgoing_segment (pt_os e) (pt_id e) w = (Some p, w1)"
  proof -
    obtain d where d: "d = [] \<or> d = next_piece q" "p = window_segment (pt_name e) s d"
      using outgoing_segment_window(2) [OF s(1,2,4) g] by blast
    have "d = take (length d) (drop m (taken_by e w))" using d(1) next_piece_prefix [of q] s(6) by auto
    moreover from this have "m + length d \<le> length (taken_by e w)"
      using s(5) by (metis add_diff_inverse_nat add_le_cancel_left length_drop length_take min.cobounded1 not_le)
    ultimately have "piece_at (taken_by e w) (pt_base e) m (tcp_seq_num p) d"
      using d(2) s(7) by (simp add: piece_at_def)
    moreover have "tcp_ack_num p = rbase + of_nat n"
      using d(2) s(8) by (simp add: window_segment_def Let_def window_of_def)
    ultimately show ?thesis using d(2) s(5) by (auto simp: faithful_def carries_def)
  qed
qed

section \<open>Handling segments\<close>

lemma answer_sent_socket:
  assumes "socks w a = Some s"
  shows "\<exists>t. socks (answer_sent P l a reply w) a = Some (s\<lparr>last_send_clock := t\<rparr>)"
    and "only_socket a steady w (answer_sent P l a reply w)"
proof -
  have same: "s = s\<lparr>last_send_clock := last_send_clock s\<rparr>" by simp
  obtain r w1 where 1: "send_TCP_packet P reply (dst_ip (id_at w l)) w = (r, w1)" by fastforce
  obtain t w2 where 2: "sys_clock P w1 = (t, w2)" by fastforce
  have s1: "socks w1 a = Some s" "socks w2 a = Some s"
    using assms same_heapD(2) [OF send_TCP_packet_heap [OF 1]] same_heapD(2) [OF sys_same_heap(10) [OF 2]] by simp_all
  have "socks (answer_sent P l a reply w) a \<in> {Some s, Some (s\<lparr>last_send_clock := t\<rparr>)}"
    using assms s1 1 2 by (simp add: answer_sent_def)
  then show "\<exists>t. socks (answer_sent P l a reply w) a = Some (s\<lparr>last_send_clock := t\<rparr>)"
    using same by (metis insertE singletonD)
  show "only_socket a steady w (answer_sent P l a reply w)"
    using stamp_reply [OF assms, of P reply "dst_ip (id_at w l)"] assms
    by (auto simp: answer_sent_def intro: only_socket_same)
qed

lemma dispatched_logs:
  "os (free_id l w) = os w"
  by (simp add: free_id_def)

text \<open>A segment of the other end, taken in.\<close>

lemma handled_talks:
  assumes laws: "party_laws e" and t: "talks e rbase msg m n w"
    and num: "numbered (pt_base e) (length (taken_by e w))" and short: "length msg < 2147483648"
    and p: "faithful msg rbase (pt_base e) c p" "m \<le> c" "c \<le> length (taken_by e w)"
    and h: "handle_packet (pt_os e) (pt_sock e) (arrived p) ip w = (reply, w1)"
  shows "\<exists>m' n'. taken_by e w1 = taken_by e w \<and> talks e rbase msg m' n' w1 \<and> m \<le> m' \<and> m' \<le> c \<and> n \<le> n'
    \<and> keeps w w1 \<and> (\<forall>p' \<in> set_option reply. faithful (taken_by e w) (pt_base e) rbase n' p')"
proof -
  obtain s q where s: "mgr_inv w" "own_socket w (pt_id e) (pt_name e) (pt_sock e) s" "sk_state s = ESTABLISED"
      "send_window s = Some q" "m \<le> length (taken_by e w)" "queue_list q = drop m (taken_by e w)"
      "seq_of_first_send_window s = pt_base e + of_nat m"
    using t by (auto simp: talks_def)
  have rec: "receiving (pt_out e) (pt_sock e) (pt_id e) (pt_name e) msg rbase [] n w" using t talks_receiving by blast
  note O = own_socketD [OF s(1,2)]
  obtain tgt tgt' where L: "fifo_laws (pt_os e) (pt_out e) tgt" "intake_laws (pt_os e) (pt_in e) tgt'"
    using laws by (auto simp: party_laws_def)
  have q: "queue_inv q" using mgr_invD(3) [OF s(1) O(5)] s(4) by (auto simp: socket_wf_def)
  note A = faithful_arrived [OF p(1)]
  obtain c' where c': "c' \<le> c" "tcp_ack_num (arrived p) = pt_base e + of_nat c'" using A(3) by blast
  obtain n' where n': "n \<le> n'" "receiving (pt_out e) (pt_sock e) (pt_id e) (pt_name e) msg rbase [] n' w1"
      "\<forall>p'. reply = Some p' \<longrightarrow> tcp_ack_num p' = rbase + of_nat n' \<and> tcp_flags p' = ACK"
    using receiving_handle_packet [OF L(1) rec A(1,2) short h] by blast
  obtain s1 where s1: "socks w1 (pt_sock e) = Some s1" "send_side s1 \<in> {send_side s, send_side (ack_slide (tcp_ack_num (arrived p)) s)}"
      "\<forall>p'. reply = Some p' \<longrightarrow> tcp_data p' = Some [] \<and> tcp_flags p' = ACK \<and> tcp_seq_num p' = seq_of_first_send_window s1"
    using handle_packet_send_side(1) [OF O(5) s(3) O(6) s(4) A(1) h] by blast
  have tk: "taken_by e w1 = taken_by e w"
    using handle_packet_send_side(2) [OF O(5) s(3) O(6) s(4) A(1) h L(2)] by (simp add: taken_by_def)
  obtain q2 where q2: "send_side (ack_slide (tcp_ack_num (arrived p)) s) = (Some q2, pt_base e + of_nat (max m c'))"
      "queue_list q2 = drop (max m c') (taken_by e w)"
    using ack_slide_window [OF s(4) q num s(5) _ s(6,7), of c'] c' p(3) by auto
  obtain m' q' where m': "m \<le> m'" "m' \<le> c" "send_side s1 = (Some q', pt_base e + of_nat m')"
      "queue_list q' = drop m' (taken_by e w)"
  proof (cases "send_side s1 = send_side s")
    case True
    then show thesis using that [of m q] s(4,6,7) p(2) by (simp add: send_side_def)
  next
    case False
    then show thesis using that [of "max m c'" q2] s1(2) q2 c'(1) p(2) by auto
  qed
  have st: "sk_state s \<noteq> LISTEN" using s(3) by simp
  note T = handle_packet_step [OF s(1) O(1,5) st h]
  have K: "keeps w w1" by (rule only_socket_keeps [OF s(1) T]) simp
  have "ids w1 = ids w" "kept s s1" using T O(5) s1(1) by (auto simp: only_socket_def)
  then have own: "own_socket w1 (pt_id e) (pt_name e) (pt_sock e) s1"
    using O keepsD(2) [OF K] s1(1) by (simp add: own_socket_def kept_def)
  have "talks e rbase msg m' n' w1"
    unfolding talks_receiving tk using keepsD(1) [OF K] m'(2-4) p(3) own n'(2) by auto
  moreover have "faithful (taken_by e w) (pt_base e) rbase n' p'" if "reply = Some p'" for p'
  proof -
    have f: "tcp_data p' = Some []" "tcp_flags p' = ACK" "tcp_seq_num p' = pt_base e + of_nat m'"
        "tcp_ack_num p' = rbase + of_nat n'"
      using that s1(3) n'(3) m'(3) by (auto simp: send_side_def)
    have "established_segment p'" using f(2) by (simp add: established_segment_def has_flag_def SYN_def FIN_def RST_def ACK_def)
    moreover have "carries (taken_by e w) (pt_base e) p'"
      using f(1,3) m'(2) p(3) by (auto simp: carries_def piece_at_def intro!: exI [of _ m'])
    ultimately show ?thesis using f(4) by (auto simp: faithful_def)
  qed
  ultimately show ?thesis using tk m'(1,2) n'(1) K by (intro exI [of _ m'] exI [of _ n']) auto
qed

text \<open>The answer goes out and the temporary identifier is freed.\<close>

lemma answered_talks:
  assumes laws: "party_laws e" and t: "talks e rbase msg m n w" and l: "\<not> reg_id w l"
  shows "taken_by e (free_id l (answer_sent (pt_os e) l (pt_sock e) reply w)) = taken_by e w"
    and "talks e rbase msg m n (free_id l (answer_sent (pt_os e) l (pt_sock e) reply w))"
proof -
  let ?w1 = "answer_sent (pt_os e) l (pt_sock e) reply w"
  obtain tgt tgt' where L: "fifo_laws (pt_os e) (pt_out e) tgt" "only_writes_send (pt_os e) (pt_out e)"
      "intake_laws (pt_os e) (pt_in e) tgt'"
    using laws by (auto simp: party_laws_def)
  obtain s q where s: "mgr_inv w" "own_socket w (pt_id e) (pt_name e) (pt_sock e) s" "m \<le> length (taken_by e w)"
      "send_side s = (Some q, pt_base e + of_nat m)" "queue_list q = drop m (taken_by e w)"
    and rec: "receiving (pt_out e) (pt_sock e) (pt_id e) (pt_name e) msg rbase [] n w"
    using t unfolding talks_receiving by blast
  note O = own_socketD [OF s(1,2)]
  obtain u where u: "socks ?w1 (pt_sock e) = Some (s\<lparr>last_send_clock := u\<rparr>)" using answer_sent_socket(1) [OF O(5)] by blast
  have T: "only_socket (pt_sock e) steady w ?w1" by (rule answer_sent_socket(2) [OF O(5)])
  have K: "keeps w ?w1" by (rule only_socket_keeps [OF s(1) T]) (simp add: steady_def)
  have "\<not> reg_id ?w1 l" using l keepsD(4) [OF K] by simp
  note K2 = keeps_free_id [OF keepsD(1) [OF K] this]
  have ne: "pt_id e \<noteq> l" using O(2) l by auto
  have "ids ?w1 = ids w" using T by (simp add: only_socket_def)
  then have own: "own_socket (free_id l ?w1) (pt_id e) (pt_name e) (pt_sock e) (s\<lparr>last_send_clock := u\<rparr>)"
    using O keepsD(2) [OF K] keepsD(2) [OF K2] u ne by (simp add: own_socket_def free_id_def)
  show tk: "taken_by e (free_id l ?w1) = taken_by e w"
    using intake_kept(6) [OF L(3)] by (simp add: taken_by_def dispatched_logs)
  have "receiving (pt_out e) (pt_sock e) (pt_id e) (pt_name e) msg rbase [] n (free_id l ?w1)"
    by (rule receiving_free_id [OF receiving_answer_sent [OF L(1,2) rec]]) (use ne in simp)
  then show "talks e rbase msg m n (free_id l ?w1)"
    unfolding talks_receiving tk using keepsD(1) [OF K2] own s(3-5) by (auto simp: send_side_def)
qed

section \<open>The conversation\<close>

lemma end_step_talks:
  assumes laws: "party_laws e" and t: "talks e rbase msg m n w"
    and num: "numbered (pt_base e) (length (taken_by e w))" and short: "length msg < 2147483648"
    and G: "\<forall>p \<in> G. faithful msg rbase (pt_base e) c p" and c: "m \<le> c" "c \<le> length (taken_by e w)"
    and F: "\<forall>p \<in> F. faithful (taken_by e w) (pt_base e) rbase n p"
    and step: "end_step e G (w, F) (w', F')"
  shows "\<exists>m' n' bs. taken_by e w' = taken_by e w @ bs \<and> talks e rbase msg m' n' w' \<and> m' \<le> c \<and> n \<le> n'
    \<and> (\<forall>p \<in> F'. faithful (taken_by e w') (pt_base e) rbase n' p)"
  using step
proof (cases rule: end_step.cases)
  case (take_bytes r)
  obtain bs where B: "taken_by e w' = taken_by e w @ bs" "talks e rbase msg m n w'"
    using take_bytes_talks [OF laws t take_bytes(2)] by blast
  have "\<forall>p \<in> F'. faithful (taken_by e w') (pt_base e) rbase n p"
    unfolding take_bytes(1) B(1) using F faithful_mono [OF _ order_refl] by blast
  then show ?thesis using B c(1) by blast
next
  case (send_bytes r)
  note S = send_bytes_talks [OF laws t send_bytes(2)]
  have "faithful (taken_by e w) (pt_base e) rbase n p" if "p \<in> F'" for p
  proof (cases "p \<in> F")
    case False
    then have "fst (outgoing_segment (pt_os e) (pt_id e) w) = Some p" using that send_bytes(1) by auto
    then show ?thesis using S(2) by (metis prod.collapse)
  qed (use F in blast)
  moreover have "taken_by e w' = taken_by e w @ []" using S(1) by simp
  ultimately show ?thesis using S(1) c(1) by (metis order_refl)
next
  case (segment p l reply w1)
  obtain m' n' where H: "taken_by e w1 = taken_by e w" "talks e rbase msg m' n' w1" "m' \<le> c" "n \<le> n'" "keeps w w1"
      "\<forall>p' \<in> set_option reply. faithful (taken_by e w) (pt_base e) rbase n' p'"
    using handled_talks [OF laws t num short bspec [OF G segment(3)] c segment(6)] by blast
  have l: "\<not> reg_id w1 l" using segment(5) keepsD(4) [OF H(5)] by simp
  note A = answered_talks [OF laws H(2) l, of reply]
  have w': "w' = free_id l (answer_sent (pt_os e) l (pt_sock e) reply w1)"
    using segment(1) dispatch_segment_to [OF segment(4,6)] by simp
  have "faithful (taken_by e w) (pt_base e) rbase n' p'" if "p' \<in> F'" for p'
  proof (cases "p' \<in> F")
    case True
    then show ?thesis using F faithful_mono [OF _ H(4), where bs = "[]"] by simp
  qed (use that segment(2) H(6) in blast)
  moreover have "taken_by e w' = taken_by e w @ []" using A(1) H(1) w' by simp
  ultimately show ?thesis using A(2) H(3,4) w' by (metis append_Nil2)
next
  case elsewhere
  have "own_socket w' (pt_id e) (pt_name e) (pt_sock e) s = own_socket w (pt_id e) (pt_name e) (pt_sock e) s" for s
    using elsewhere(3-5) by (simp add: own_socket_def)
  then have "talks e rbase msg m n w'" using t elsewhere(2,6,7) by (simp add: talks_def)
  moreover have "taken_by e w' = taken_by e w @ []" using elsewhere(6) by simp
  moreover have "\<forall>p \<in> F'. faithful (taken_by e w') (pt_base e) rbase n p" using F elsewhere(1,6) by simp
  ultimately show ?thesis using c(1) by blast
qed

text \<open>
  The network gives each end segments of the other, any of them, at any time, as often as it likes.  The
  conversation goes on until the numbers of the bytes come to the end of their range.
\<close>

inductive conv_step ::
  "'s party \<Rightarrow> 't party \<Rightarrow> ('s world \<times> TCPPacket set) \<times> ('t world \<times> TCPPacket set)
    \<Rightarrow> ('s world \<times> TCPPacket set) \<times> ('t world \<times> TCPPacket set) \<Rightarrow> bool"
  for e :: "'s party" and f :: "'t party" where
  near: "end_step e G (w, F) (w', F') \<Longrightarrow> numbered (pt_base e) (length (taken_by e w')) \<Longrightarrow>
    conv_step e f ((w, F), (v, G)) ((w', F'), (v, G))"
| far: "end_step f F (v, G) (v', G') \<Longrightarrow> numbered (pt_base f) (length (taken_by f v')) \<Longrightarrow>
    conv_step e f ((w, F), (v, G)) ((w, F), (v', G'))"

definition one_way :: "'s party \<Rightarrow> 't party \<Rightarrow> 's world \<Rightarrow> TCPPacket set \<Rightarrow> 't world \<Rightarrow> nat \<Rightarrow> nat \<Rightarrow> nat \<Rightarrow> bool" where
  "one_way e f w F v m n k \<longleftrightarrow> numbered (pt_base e) (length (taken_by e w))
     \<and> talks e (pt_base f) (taken_by f v) m n w \<and> m \<le> k
     \<and> (\<forall>p \<in> F. faithful (taken_by e w) (pt_base e) (pt_base f) n p)"

fun conv_ok :: "'s party \<Rightarrow> 't party \<Rightarrow> ('s world \<times> TCPPacket set) \<times> ('t world \<times> TCPPacket set) \<Rightarrow> bool" where
  "conv_ok e f ((w, F), (v, G)) \<longleftrightarrow> (\<exists>m n m' n'. one_way e f w F v m n n' \<and> one_way f e v G w m' n' n)"

lemma talks_delivered: "talks e rbase msg m n w \<Longrightarrow> n \<le> length msg"
  by (auto simp: talks_def window_of_def)

text \<open>Nothing that was taken or given is taken back.\<close>

fun conv_grows :: "'s party \<Rightarrow> 't party \<Rightarrow> ('s world \<times> TCPPacket set) \<times> ('t world \<times> TCPPacket set)
    \<Rightarrow> ('s world \<times> TCPPacket set) \<times> ('t world \<times> TCPPacket set) \<Rightarrow> bool" where
  "conv_grows e f ((w, F), (v, G)) ((w', F'), (v', G')) \<longleftrightarrow>
     prefix (taken_by e w) (taken_by e w') \<and> prefix (taken_by f v) (taken_by f v')
   \<and> prefix (given_to e w) (given_to e w') \<and> prefix (given_to f v) (given_to f v')"

lemma one_way_step:
  assumes laws: "party_laws e" and e: "one_way e f w F v m n k" and f: "one_way f e v G w m' k n"
    and step: "end_step e G (w, F) (w', F')" and num: "numbered (pt_base e) (length (taken_by e w'))"
  shows "(\<exists>m n. one_way e f w' F' v m n k \<and> one_way f e v G w' m' k n)
    \<and> prefix (taken_by e w) (taken_by e w') \<and> prefix (given_to e w) (given_to e w')"
proof -
  have E: "talks e (pt_base f) (taken_by f v) m n w" "numbered (pt_base e) (length (taken_by e w))" "m \<le> k"
      "\<forall>p \<in> F. faithful (taken_by e w) (pt_base e) (pt_base f) n p"
    using e by (simp_all add: one_way_def)
  have V: "talks f (pt_base e) (taken_by e w) m' k v" "numbered (pt_base f) (length (taken_by f v))" "m' \<le> n"
      "\<forall>p \<in> G. faithful (taken_by f v) (pt_base f) (pt_base e) k p"
    using f by (simp_all add: one_way_def)
  have short: "length (taken_by f v) < 2147483648" using V(2) by (simp add: numbered_def)
  obtain m1 n1 bs where N: "taken_by e w' = taken_by e w @ bs" "talks e (pt_base f) (taken_by f v) m1 n1 w'" "m1 \<le> k"
      "n \<le> n1" "\<forall>p \<in> F'. faithful (taken_by e w') (pt_base e) (pt_base f) n1 p"
    using end_step_talks [OF laws E(1,2) short V(4) E(3) talks_delivered [OF V(1)] E(4) step] by blast
  then have "one_way e f w' F' v m1 n1 k" "one_way f e v G w' m' k n1"
    using num V talks_more [OF V(1), of bs] by (simp_all add: one_way_def)
  moreover have "prefix (taken_by e w) (taken_by e w')" using N(1) by simp
  moreover have "given_to e w = take n (taken_by f v)" "given_to e w' = take n1 (taken_by f v)"
    using E(1) N(2) by (simp_all add: talks_def)
  then have "prefix (given_to e w) (given_to e w')" using N(4) by (metis min.absorb1 take_is_prefix take_take)
  ultimately show ?thesis by blast
qed

lemma conv_step_ok:
  assumes "party_laws e" and "party_laws f" and "conv_ok e f x" and "conv_step e f x y"
  shows "conv_ok e f y \<and> conv_grows e f x y"
  using assms(4)
proof cases
  case (near G w F w' F' v)
  then obtain m n m' n' where "one_way e f w F v m n n'" "one_way f e v G w m' n' n" using assms(3) by auto
  from one_way_step [OF assms(1) this near(3,4)] show ?thesis using near(1,2) by auto
next
  case (far F v G v' G' w)
  then obtain m n m' n' where "one_way f e v G w m' n' n" "one_way e f w F v m n n'" using assms(3) by auto
  from one_way_step [OF assms(2) this far(3,4)] show ?thesis using far(1,2) by auto
qed

text \<open>The conversation is a transition system with this invariant, and logs only grow.\<close>

interpretation conv: invariant_system "conv_step e f" "\<lambda>x. party_laws e \<and> party_laws f \<and> conv_ok e f x" "conv_grows e f"
  for e :: "'s party" and f :: "'t party"
  by unfold_locales (auto dest: conv_step_ok)

lemma conv_grows_trans: "conv_grows e f x y \<Longrightarrow> conv_grows e f y z \<Longrightarrow> conv_grows e f x z"
  by (cases x; cases y; cases z) (auto elim: conv_grows.elims intro: prefix_order.trans)

lemma conv_grows_steps: "(conv_grows e f)\<^sup>*\<^sup>* x y \<Longrightarrow> conv_grows e f x y"
proof (induction rule: rtranclp_induct)
  case base
  show ?case by (cases x) auto
qed (rule conv_grows_trans)

text \<open>
  The contract of one direction: the receiver's user has a prefix of what the sender's user has written, and
  everything behind some point of this prefix still stands in the send window.
\<close>

definition stream :: "'s party \<Rightarrow> 't party \<Rightarrow> 's world \<Rightarrow> 't world \<Rightarrow> bool" where
  "stream e f w v \<longleftrightarrow> (\<exists>m n s q. given_to f v = take n (taken_by e w) \<and> m \<le> n \<and> n \<le> length (taken_by e w)
     \<and> socks w (pt_sock e) = Some s \<and> sk_state s = ESTABLISED \<and> send_window s = Some q
     \<and> queue_list q = drop m (taken_by e w))"

lemma one_way_stream:
  assumes "one_way e f w F v m n k" and "one_way f e v G w m' k n"
  shows "stream e f w v"
proof -
  have E: "talks e (pt_base f) (taken_by f v) m n w" "m \<le> k" using assms(1) by (simp_all add: one_way_def)
  have V: "talks f (pt_base e) (taken_by e w) m' k v" using assms(2) by (simp add: one_way_def)
  have "given_to f v = take k (taken_by e w)" using V by (simp add: talks_def)
  then show ?thesis
    using E talks_delivered [OF V] unfolding stream_def talks_def own_socket_def by blast
qed

section \<open>The identifier of an incoming segment\<close>

text \<open>
  The manager makes an identifier from the addresses of an incoming packet before it looks for the socket;
  the connection that goes on is not touched.
\<close>

lemma id_allocated:
  assumes t: "talks e rbase msg m n w"
  obtains l w' where "\<And>F G. end_step e G (w, F) (w', F)" and "talks e rbase msg m n w'"
    and "taken_by e w' = taken_by e w" and "mgr_getSocket (Some l) w' = Some (pt_sock e)" and "\<not> reg_id w' l"
proof -
  obtain s where o: "mgr_inv w" "own_socket w (pt_id e) (pt_name e) (pt_sock e) s" using t by (auto simp: talks_def)
  note O = own_socketD [OF o]
  obtain l w' where n: "new_id (pt_name e) w = (l, w')" by fastforce
  note N = keeps_new_id [OF o(1) O(7) n]
  have "l \<noteq> pt_id e" using N(5) O(3) by (metis option.distinct(1))
  then have same: "ids w' (pt_id e) = ids w (pt_id e)" using N(6) by simp
  have tk: "taken_by e w' = taken_by e w" "given_to e w' = given_to e w"
    using N(8) by (simp_all add: taken_by_def given_to_def)
  have step: "end_step e G (w, F) (w', F)" for F G
    by (rule end_step.elsewhere) (use keepsD(1,2) [OF N(1)] same N(4) tk in simp_all)
  have "own_socket w' (pt_id e) (pt_name e) (pt_sock e) s = own_socket w (pt_id e) (pt_name e) (pt_sock e) s" for s
    using same N(4) keepsD(2) [OF N(1)] by (simp add: own_socket_def)
  then have "talks e rbase msg m n w'" using t keepsD(1) [OF N(1)] tk by (simp add: talks_def)
  moreover have "mgr_getSocket (Some l) w' = Some (pt_sock e)"
    using mgr_getSocket_map [OF keepsD(1) [OF N(1)] N(2)] keepsD(2) [OF N(1)] O(4) by simp
  ultimately show thesis using that [OF step] tk(1) N(3) by blast
qed

section \<open>Two connected hosts\<close>

text \<open>The first has taken two bytes from its user, the second none; neither has sent anything.\<close>

definition near_party :: "(sim \<times> book) party" where
  "near_party = \<lparr>pt_os = watched kind_posix, pt_id = 0, pt_sock = 1, pt_name = near_id, pt_in = book_log,
     pt_out = sim_out \<circ> fst, pt_base = 100\<rparr>"

definition far_party :: "(sim \<times> book) party" where
  "far_party = \<lparr>pt_os = watched kind_posix, pt_id = 0, pt_sock = 1, pt_name = far_id, pt_in = book_log,
     pt_out = sim_out \<circ> fst, pt_base = 500\<rparr>"

definition answering_socket :: socket where
  "answering_socket = expecting_socket\<lparr>seq_of_first_send_window := 500\<rparr>"

definition near_start :: "(sim \<times> book) world" where
  "near_start = watching ((\<lambda>_. [])(send_path near_id := ''hi''), \<lambda>_. []) sender"

definition far_start :: "(sim \<times> book) world" where
  "far_start = watching (\<lambda>_. [], \<lambda>_. []) (lone_manager (host (CHR ''2'')) far_id answering_socket [])"

lemma parties: "party_laws near_party" "party_laws far_party"
  using watched_fifo [OF kind_posix(3)] watched_out [OF kind_posix_reads(4,3)] watched_intake [of kind_posix]
  by (auto simp: party_laws_def near_party_def far_party_def)

lemma answering_socket:
  "socket_wf answering_socket" "sk_id answering_socket = Some 0" "sk_state answering_socket = ESTABLISED"
  "window_of ''hi'' 100 0 answering_socket" "\<exists>q. send_window answering_socket = Some q \<and> queue_list q = []"
proof -
  obtain q where q: "QueueCreate True = Some q" by (simp add: QueueCreate_def)
  show "\<exists>q. send_window answering_socket = Some q \<and> queue_list q = []"
    using q QueueCreate_empty(2) [OF q] by (simp add: answering_socket_def expecting_socket_def example_socket_def)
qed (use expecting_socket in \<open>auto simp: answering_socket_def socket_wf_def wf_windows_def window_of_def\<close>)

lemmas answering = lone_manager [OF example_ends(2,4) answering_socket(1,2) refl, of "[]"]

lemma near_talks: "talks near_party 500 [] 0 0 near_start" "taken_by near_party near_start = ''hi''"
proof -
  show t: "taken_by near_party near_start = ''hi''"
    by (simp add: taken_by_def near_party_def near_start_def book_log_def)
  have "window_of [] 500 0 sending_socket"
    by (simp add: window_of_def wf_windows_def sending_socket_def example_socket_def MAX_WINDOW_SIZE_def)
  moreover have "given_to near_party near_start = []"
    using sender(4) with_packets(2) by (simp add: given_to_def near_party_def near_start_def)
  ultimately show "talks near_party 500 [] 0 0 near_start"
    using sender(1,2) sending_socket(3,4,6) two_bytes(1) t
    by (auto simp: talks_def near_start_def near_party_def)
qed

lemma far_talks: "talks far_party 100 ''hi'' 0 0 far_start" "taken_by far_party far_start = []"
proof -
  show t: "taken_by far_party far_start = []"
    by (simp add: taken_by_def far_party_def far_start_def book_log_def)
  have "given_to far_party far_start = []"
    using answering(4) with_packets(2) by (simp add: given_to_def far_party_def far_start_def)
  then show "talks far_party 100 ''hi'' 0 0 far_start"
    using answering(1,2) answering_socket(3-5) t
    by (auto simp: talks_def far_start_def far_party_def answering_socket_def)
qed

lemma near_sends:
  obtains w' where "end_step near_party {} (near_start, {}) (w', {window_segment near_id sending_socket ''hi''})"
    and "taken_by near_party w' = ''hi''" and "faithful ''hi'' 100 500 0 (window_segment near_id sending_socket ''hi'')"
proof -
  let ?p = "window_segment near_id sending_socket ''hi''"
  have o: "mgr_inv near_start" "own_socket near_start 0 near_id 1 sending_socket"
    using sender(1,2) by (simp_all add: near_start_def)
  have due: "DIFF2SEC_gt (fst (px_clock (watched kind_posix) (os near_start)) - last_send_clock sending_socket) SOCKET_SEND_AGAIN_TIME"
    using sender_due by (simp add: watched_clock near_start_def)
  note S = outgoing_segment_due [OF watched_kind(1) [OF kind_posix(1,2)] o sending_socket(3,4) due]
  have p: "fst (outgoing_segment (pt_os near_party) (pt_id near_party) near_start) = Some ?p"
    using S two_bytes(2) by (simp add: near_party_def)
  obtain r w' where c: "check_and_handle_send_window (pt_os near_party) (pt_id near_party) near_start = (r, w')" by fastforce
  have step: "end_step near_party {} (near_start, {}) (w', {?p})" using end_step.send_bytes [OF c, of "{}" "{}"] p by simp
  have "pt_base near_party = 100" by (simp add: near_party_def)
  then have "faithful ''hi'' 100 500 0 ?p"
    using send_bytes_talks(2) [OF parties(1) near_talks(1) c, of ?p "snd (outgoing_segment (pt_os near_party) (pt_id near_party) near_start)"]
      p near_talks(2) prod.collapse [of "outgoing_segment (pt_os near_party) (pt_id near_party) near_start"] by simp
  then show thesis using that [OF step] send_bytes_talks(1) [OF parties(1) near_talks(1) c] near_talks(2) by simp
qed

lemma far_receives:
  assumes f: "faithful ''hi'' 100 500 0 p" "p = window_segment near_id sending_socket ''hi''"
    and v: "talks far_party 100 ''hi'' 0 0 v" "taken_by far_party v = []" "mgr_getSocket (Some l) v = Some 1" "\<not> reg_id v l"
  obtains v' G where "end_step far_party {p} (v, {}) (v', G)" and "taken_by far_party v' = []" and "given_to far_party v' = ''hi''"
proof -
  let ?P = "watched kind_posix"
  have pt: "pt_os far_party = ?P" "pt_sock far_party = 1" "pt_id far_party = 0" "pt_name far_party = far_id"
      "pt_base far_party = 500" "pt_out far_party = sim_out \<circ> fst"
    by (simp_all add: far_party_def)
  have a: "arrived p = p" using f(2) by (simp add: arrived_def)
  obtain reply v1 where h: "handle_packet ?P 1 p (src_ip (id_at v l)) v = (reply, v1)" by fastforce
  have rec: "receiving (sim_out \<circ> fst) 1 0 far_id ''hi'' 100 [] 0 v" using v(1) unfolding talks_receiving pt by blast
  have laws: "fifo_laws ?P (sim_out \<circ> fst) (sim_tgt \<circ> fst)" "only_writes_send ?P (sim_out \<circ> fst)"
    using watched_fifo [OF kind_posix(3)] watched_out(1) [OF kind_posix_reads(4,3)] by blast+
  have ready: "reader_ready ?P (recv_path far_id)"
    by (rule reader_ready_open [OF watched_kind [OF kind_posix(1,2)]])
  have port: "tcp_src_port p = dst_port far_id" using f(2) by (simp add: far_id_def)
  have piece: "piece_at ''hi'' 100 0 (tcp_seq_num p) ''hi''" using f(2) by (simp add: piece_at_def sending_socket(6))
  have est: "established_segment p" "tcp_data p = Some ''hi''" using f(2) by simp_all
  obtain n' where n': "min (0 + length ''hi'') (0 + 1024) \<le> n'" "receiving (sim_out \<circ> fst) 1 0 far_id ''hi'' 100 [] n' v1"
    using receiving_handle_progress [OF laws(1) ready rec est(1) port est(2) piece le_refl, of "src_ip (id_at v l)"] h by auto
  have num: "numbered (pt_base far_party) (length (taken_by far_party v))" using v(2) pt(5) by (simp add: numbered_def)
  have f': "faithful ''hi'' 100 (pt_base far_party) 0 p" using f(1) pt(5) by simp
  have h': "handle_packet (pt_os far_party) (pt_sock far_party) (arrived p) (src_ip (id_at v l)) v = (reply, v1)"
    using h a pt(1,2) by (simp only:)
  have "length ''hi'' < 2147483648" by simp
  from handled_talks [OF parties(2) v(1) num this f' le_refl le0 h']
  have H: "taken_by far_party v1 = [] \<and> keeps v v1 \<and> (\<exists>m n. talks far_party 100 ''hi'' m n v1)" using v(2) by auto
  then have l: "\<not> reg_id v1 l" using v(4) keepsD(4) [of v v1] by simp
  let ?v = "free_id l (answer_sent ?P l 1 reply v1)"
  have tk: "taken_by far_party ?v = []" using H answered_talks(1) [OF parties(2) _ l, of 100 "''hi''" _ _ reply] pt by auto
  have "0 \<noteq> l"
  proof
    assume "0 = l"
    moreover obtain s where "own_socket v 0 far_id 1 s" "mgr_inv v" using v(1) unfolding talks_def pt by blast
    ultimately show False using own_socketD(2) v(4) by blast
  qed
  then have "receiving (sim_out \<circ> fst) 1 0 far_id ''hi'' 100 [] n' ?v"
    using receiving_free_id [OF receiving_answer_sent [OF laws n'(2)]] by simp
  then have "given_to far_party ?v = ''hi''" using n'(1) by (auto simp: receiving_def given_to_def pt)
  moreover have "end_step far_party {p} (v, {}) (?v, {} \<union> set_option reply)"
    using end_step.segment [of p "{p}" l v far_party reply v1 "{}"] v(3,4) h a pt dispatch_segment_to [OF v(3) h] by simp
  ultimately show thesis using that tk by blast
qed

section \<open>Properties\<close>

text \<open>
  C1. A connection is a pair of streams.  Two managers with an established connection between them take bytes
  from their users, send their windows again and again, handle each other's segments and answer them, in any
  order, while the network loses, repeats, delays and reorders segments as it likes and the systems run out
  of memory or refuse calls.  As long as neither end closes and the bytes are numbered without overflow, at
  every moment each user has been given a prefix of exactly what the other has written, every byte once and
  in order; each sender still holds every byte that has not been given to the receiver, so a full window or a
  lost segment loses nothing; and what has been given or taken stays so.
\<close>

theorem connection_is_pair_of_streams:
  assumes "party_laws e" and "party_laws f"
    and "talks e (pt_base f) (taken_by f v) m n w" and "talks f (pt_base e) (taken_by e w) m' n' v"
    and "m \<le> n'" and "m' \<le> n"
    and "numbered (pt_base e) (length (taken_by e w))" and "numbered (pt_base f) (length (taken_by f v))"
    and "(conv_step e f)\<^sup>*\<^sup>* ((w, {}), (v, {})) ((w', F), (v', G))"
  shows "stream e f w' v' \<and> stream f e v' w'
    \<and> prefix (taken_by e w) (taken_by e w') \<and> prefix (given_to e w) (given_to e w')
    \<and> prefix (taken_by f v) (taken_by f v') \<and> prefix (given_to f v) (given_to f v')"
proof -
  have "one_way e f w {} v m n n'" "one_way f e v {} w m' n' n" using assms(3-8) by (simp_all add: one_way_def)
  then have ok: "party_laws e \<and> party_laws f \<and> conv_ok e f ((w, {}), (v, {}))" using assms(1,2) by auto
  have "conv_ok e f ((w', F), (v', G))" using conv.steps_inv [OF assms(9) ok] by blast
  then have "stream e f w' v' \<and> stream f e v' w'" by (auto dest: one_way_stream)
  moreover have "conv_grows e f ((w, {}), (v, {})) ((w', F), (v', G))"
    by (rule conv_grows_steps [OF conv.steps_move [OF assms(9) ok]])
  ultimately show ?thesis by simp
qed

lemma connection_is_pair_of_streams_witness:
  "\<exists>w' F v' G. (conv_step near_party far_party)\<^sup>*\<^sup>* ((near_start, {}), (far_start, {})) ((w', F), (v', G))
     \<and> given_to far_party v' = ''hi'' \<and> stream near_party far_party w' v' \<and> stream far_party near_party v' w'"
proof -
  let ?p = "window_segment near_id sending_socket ''hi''"
  have base: "pt_base near_party = 100" "pt_base far_party = 500" by (simp_all add: near_party_def far_party_def)
  obtain w' where w: "end_step near_party {} (near_start, {}) (w', {?p})" "taken_by near_party w' = ''hi''"
      "faithful ''hi'' 100 500 0 ?p" by (rule near_sends)
  have sock: "pt_sock far_party = 1" by (simp add: far_party_def)
  obtain l v where v: "\<And>F G. end_step far_party G (far_start, F) (v, F)" "talks far_party 100 ''hi'' 0 0 v"
      "taken_by far_party v = []" "mgr_getSocket (Some l) v = Some 1" "\<not> reg_id v l"
    by (rule id_allocated [OF far_talks(1), unfolded far_talks(2) sock], rule that)
  obtain v' G where v': "end_step far_party {?p} (v, {}) (v', G)" "taken_by far_party v' = []" "given_to far_party v' = ''hi''"
    by (rule far_receives [OF w(3) refl v(2-5)])
  have num: "numbered 100 (length ''hi'')" "numbered 500 (length ([] :: string))" by (simp_all add: numbered_def)
  let ?x = "((near_start, {}), (far_start, {}))"
  have "conv_step near_party far_party ?x ((w', {?p}), (far_start, {}))"
    by (rule conv_step.near [OF w(1)]) (use num w(2) base in simp)
  moreover have "conv_step near_party far_party ((w', {?p}), (far_start, {})) ((w', {?p}), (v, {}))"
    by (rule conv_step.far [OF v(1)]) (use num v(3) base in simp)
  moreover have "conv_step near_party far_party ((w', {?p}), (v, {})) ((w', {?p}), (v', G))"
    by (rule conv_step.far [OF v'(1)]) (use num v'(2) base in simp)
  ultimately have run: "(conv_step near_party far_party)\<^sup>*\<^sup>* ?x ((w', {?p}), (v', G))"
    by (meson rtranclp.rtrancl_into_rtrancl rtranclp.rtrancl_refl)
  have t: "talks near_party (pt_base far_party) (taken_by far_party far_start) 0 0 near_start"
      "talks far_party (pt_base near_party) (taken_by near_party near_start) 0 0 far_start"
      "numbered (pt_base near_party) (length (taken_by near_party near_start))"
      "numbered (pt_base far_party) (length (taken_by far_party far_start))"
    using near_talks far_talks base num by simp_all
  from connection_is_pair_of_streams [OF parties t(1,2) le_refl le_refl t(3,4) run] show ?thesis
    using run v'(3) by blast
qed

end
