(* ===== verification/Progress.thy ===== *)
theory Progress imports Conversation begin

text \<open>
  A connection does not get stuck: from every state of a conversation it can go on so that everything taken
  from a user is given to the other and acknowledged.  One more round of the sender, one packet through and its
  answer back empty at least one byte of the window.  The packets go as texts: they are printed by
  \<open>tcp_to_str\<close> and taken in by \<open>handle_incoming_ip_packet\<close>, with all that it tests and reads.
\<close>

section \<open>Ends that are served\<close>

text \<open>
  A system that refuses nothing, and in which time passes: after some pause, in which the process neither reads
  nor writes, the clock is as far as one likes.
\<close>

definition served :: "'s party \<Rightarrow> bool" where
  "served e \<longleftrightarrow> party_laws e \<and> resourceful (pt_os e) \<and> fifos_open (pt_os e)
     \<and> (\<forall>s t. \<exists>s'. pt_in e s' = pt_in e s \<and> pt_out e s' = pt_out e s \<and> t < fst (px_clock (pt_os e) s'))"

text \<open>The two ends take each other for their peers.\<close>

definition peers :: "'s party \<Rightarrow> 't party \<Rightarrow> bool" where
  "peers e f \<longleftrightarrow> src_port (pt_name e) = dst_port (pt_name f) \<and> src_port (pt_name f) = dst_port (pt_name e)
     \<and> cstr (src_ip (pt_name e)) = cstr (dst_ip (pt_name f)) \<and> cstr (src_ip (pt_name f)) = cstr (dst_ip (pt_name e))"

text \<open>
  The fields of all segments fit their columns, when \<open>m\<close> bytes have been taken from the user of one end and \<open>n\<close>
  from the other: the ports have at most five digits, and no checksum, the sum of the fields, overflows.
\<close>

definition fields_fit :: "'s party \<Rightarrow> 't party \<Rightarrow> nat \<Rightarrow> nat \<Rightarrow> bool" where
  "fields_fit e f m n \<longleftrightarrow> 0 \<le> sint (src_port (pt_name e)) \<and> sint (src_port (pt_name e)) \<le> 99999
     \<and> 0 \<le> sint (dst_port (pt_name e)) \<and> sint (dst_port (pt_name e)) \<le> 99999
     \<and> 0 \<le> sint (pt_base e) \<and> 0 \<le> sint (pt_base f)
     \<and> sint (pt_base e) + int m + sint (pt_base f) + int n < 2147283648"

lemma fields_fit_numbered: "fields_fit e f m n \<Longrightarrow> numbered (pt_base e) m \<and> numbered (pt_base f) n"
  by (simp add: fields_fit_def numbered_def)

lemma fields_fit_swap: "peers e f \<Longrightarrow> fields_fit e f m n \<Longrightarrow> fields_fit f e n m"
  by (simp add: fields_fit_def peers_def)

section \<open>Segments as packets\<close>

text \<open>
  The packet with the text that \<open>tcp_to_str\<close> makes of a segment, as the manager of the endpoint \<open>i\<close> sends it and
  the manager of the peer reads it from its FIFO.
\<close>

definition packet_of :: "sockid \<Rightarrow> TCPPacket \<Rightarrow> ip_packet \<Rightarrow> bool" where
  "packet_of i p q \<longleftrightarrow> header_checksum q = 5 \<and> cstr (ip_src_ip q) = cstr (src_ip i) \<and> cstr (ip_dst_ip q) = cstr (dst_ip i)
     \<and> (\<exists>d. tcp_data p = Some d \<and> ip_data q = Some (cstr (tcp_head p @ d)))"

text \<open>It is what crosses: sent by \<open>send_TCP_packet\<close>, it is what \<open>read_ip_packet_from_file\<close> returns.\<close>

lemma packet_of_wire:
  assumes "mgr_inv w" "mgr_inv v" and "mgr_ip w = cstr (src_ip i)" "mgr_ip v = cstr (dst_ip i)"
    and P: "resourceful P" "fifos_open P" "fifo_laws P out tgt" "read_laws P pend" "memory_apart P pend"
    and p: "tcp_sane p" "tcp_data p = Some d" "NUL \<notin> set d" "length d < 2147483556"
    and s: "send_TCP_packet P (Some p) (dst_ip i) w = (r, w')"
    and o: "out (os w') (fifo_path IN_PACKET_FIFO_PREFIX (cstr (dst_ip i)))
        = out (os w) (fifo_path IN_PACKET_FIFO_PREFIX (cstr (dst_ip i))) @ sent"
    and wait: "pend (os v) (in_packet_fifo_fd v) = sent @ rest"
  shows "\<exists>q v1. read_ip_packet_from_file P (in_packet_fifo_fd v) v = Some (Some q, v1) \<and> packet_of i p q
    \<and> pend (os v1) (in_packet_fifo_fd v) = rest"
proof -
  have ip: "manager_text (mgr_ip w)" "manager_text (cstr (dst_ip i))"
    using mgr_invD(4,5) [OF assms(1)] mgr_invD(4,5) [OF assms(2)] assms(4) by (simp_all add: manager_text_def)
  have sent: "sent = segment_wire (mgr_ip w) (cstr (dst_ip i)) p d"
    using send_TCP_packet_writes(3) [OF P(1-3) p(1-3) ip s] o by (simp add: Let_def)
  obtain q v1 where R: "read_ip_packet_from_file P (in_packet_fifo_fd v) v = Some (Some q, v1)"
      "pend (os v1) (in_packet_fifo_fd v) = rest" "cstr (ip_src_ip q) = mgr_ip w" "cstr (ip_dst_ip q) = cstr (dst_ip i)"
      "header_checksum q = 5" "ip_data q = Some (tcp_head p @ d)"
    using read_ip_packet_reads [OF P(1,4,5) ip p(1,3,4) wait [unfolded sent]] by blast
  have "cstr (tcp_head p @ d) = tcp_head p @ d" using tcp_head_no_NUL [OF p(1)] p(3) by simp
  then have "packet_of i p q" using R(3-6) p(2) assms(3) by (simp add: packet_of_def)
  then show ?thesis using R(1,2) by blast
qed

text \<open>
  The operations of an end, with the segments it has sent and those the other end, of endpoint \<open>j\<close>, has sent: time
  passes, in which nothing is read or written, and a segment comes as a packet, which goes through the whole of
  \<open>handle_incoming_ip_packet\<close>.
\<close>

inductive wired_end :: "'s party \<Rightarrow> sockid \<Rightarrow> TCPPacket set \<Rightarrow> 's world \<times> TCPPacket set \<Rightarrow> 's world \<times> TCPPacket set \<Rightarrow> bool"
  for e :: "'s party" and j :: sockid and G :: "TCPPacket set" where
  pause: "pt_in e s = pt_in e (os w) \<Longrightarrow> pt_out e s = pt_out e (os w) \<Longrightarrow> wired_end e j G (w, F) (w\<lparr>os := s\<rparr>, F)"
| take_bytes: "check_and_handle_outgoing_status_messages (pt_os e) (pt_id e) w = (r, w') \<Longrightarrow>
    wired_end e j G (w, F) (w', F)"
| send_bytes: "check_and_handle_send_window (pt_os e) (pt_id e) w = (r, w') \<Longrightarrow>
    wired_end e j G (w, F) (w', F \<union> set_option (fst (outgoing_segment (pt_os e) (pt_id e) w)))"
| packet: "p \<in> G \<Longrightarrow> packet_of j p q \<Longrightarrow> incoming_segment (pt_os e) q w = Some (l, t, v) \<Longrightarrow>
    mgr_getSocket (Some l) v = Some (pt_sock e) \<Longrightarrow>
    handle_packet (pt_os e) (pt_sock e) t (src_ip (id_at v l)) v = (reply, v1) \<Longrightarrow>
    wired_end e j G (w, F) (snd (handle_incoming_ip_packet (pt_os e) (Some q) w), F \<union> set_option reply)"

inductive wired_step :: "'s party \<Rightarrow> 't party \<Rightarrow>
    ('s world \<times> TCPPacket set) \<times> 't world \<times> TCPPacket set \<Rightarrow>
    ('s world \<times> TCPPacket set) \<times> 't world \<times> TCPPacket set \<Rightarrow> bool"
  for e :: "'s party" and f :: "'t party" where
  near: "wired_end e (pt_name f) G x x' \<Longrightarrow> wired_step e f (x, (v, G)) (x', (v, G))"
| far: "wired_end f (pt_name e) F y y' \<Longrightarrow> wired_step e f ((w, F), y) ((w, F), y')"

lemma fields_sane:
  assumes "0 \<le> sint (tcp_src_port p)" "sint (tcp_src_port p) \<le> 99999" "0 \<le> sint (tcp_dst_port p)" "sint (tcp_dst_port p) \<le> 99999"
    and "0 \<le> sint (tcp_seq_num p)" "0 \<le> sint (tcp_ack_num p)" "sint (tcp_seq_num p) + sint (tcp_ack_num p) < 2147283648"
    and "tcp_flags p = ACK" and "tcp_checksum p = calc_checksum p"
  shows "tcp_sane p"
proof -
  let ?n = "sint (tcp_src_port p) + sint (tcp_dst_port p) + sint (tcp_seq_num p) + sint (tcp_ack_num p) + 1"
  have "calc_checksum p = word_of_int ?n" using assms(8) by (simp add: calc_checksum_def ACK_def)
  moreover have "sint (word_of_int ?n :: c_int) = ?n" by (rule sint_word_of_int_32) (use assms(1-7) in linarith)+
  ultimately have c: "sint (tcp_checksum p) = ?n" using assms(9) by simp
  have "fits 10 (sint (tcp_checksum p))" "fits 10 (sint (tcp_seq_num p))" "fits 10 (sint (tcp_ack_num p))"
      "fits 5 (sint (tcp_src_port p))" "fits 5 (sint (tcp_dst_port p))"
    unfolding c using assms(1-7) by (simp_all add: fitsI_nonneg)
  then show ?thesis using assms(8) by (simp add: tcp_sane_def ACK_def)
qed

text \<open>A segment that can be read back arrives at the socket of the connection.\<close>

lemma packet_arrives:
  assumes f: "served f" and t: "talks f rbase msg m n v" and home: "mgr_ip v = cstr (src_ip (pt_name f))"
    and p: "tcp_sane p" "separated (tcp_checksum p) d" "tcp_checksum p = calc_checksum p" "tcp_data p = Some d" "NUL \<notin> set d"
    and peer: "peers e f" "tcp_src_port p = src_port (pt_name e)" "tcp_dst_port p = src_port (pt_name f)"
      "length (cstr (src_ip (pt_name e))) = 16"
  obtains q l v1 where "packet_of (pt_name e) p q" and "incoming_segment (pt_os f) q v = Some (l, arrived p, v1)"
    and "mgr_getSocket (Some l) v1 = Some (pt_sock f)" and "\<not> reg_id v1 l" and "talks f rbase msg m n v1"
    and "taken_by f v1 = taken_by f v" and "mgr_ip v1 = mgr_ip v"
proof -
  obtain s where s: "mgr_inv v" "own_socket v (pt_id f) (pt_name f) (pt_sock f) s" using t by (auto simp: talks_def)
  note O = own_socketD [OF s]
  have laws: "party_laws f" and P: "resourceful (pt_os f)" using f by (simp_all add: served_def)
  have far: "cstr (dst_ip (pt_name f)) = cstr (src_ip (pt_name e))" "cstr (dst_ip (pt_name e)) = cstr (src_ip (pt_name f))"
      "src_port (pt_name e) = dst_port (pt_name f)"
    using peer(1) by (simp_all add: peers_def)
  have whole: "cstr (tcp_head p @ d) = tcp_head p @ d" using tcp_head_no_NUL [OF p(1)] p(5) by simp
  define q where "q = \<lparr>total_length = 0, ip_src_ip = src_ip (pt_name e), ip_dst_ip = dst_ip (pt_name e),
     header_checksum = 5, ip_data = Some (tcp_head p @ d)\<rparr>"
  have q: "packet_of (pt_name e) p q" using p(4) whole by (simp add: packet_of_def q_def)
  have "cstr (ip_dst_ip q) = mgr_ip v" using far(2) home by (simp add: q_def)
  from incoming_segment_arrives [OF P s(1) _ _ this _ p(1-3)] obtain l i v4 v1 where
    I: "incoming_segment (pt_os f) q v = Some (l, norm_data p d, v1)" "same_heap v v4" "wf_sockid i" "new_id i v4 = (l, v1)"
      "mgr_getSocket (Some l) v1 = mgr_map v (mgr_ip v, tcp_dst_port p, cstr (ip_src_ip q), tcp_src_port p)"
    using peer(4) by (auto simp: q_def)
  note q4 = quiet_same_heap [OF s(1) I(2)]
  note N = keeps_new_id [OF quietD(2) [OF q4] I(3,4)]
  note K = keeps_trans [OF quietD(1) [OF q4] N(1)]
  have a: "norm_data p d = arrived p" using p(4) by (simp add: norm_data_def arrived_def)
  have key: "(mgr_ip v, tcp_dst_port p, cstr (ip_src_ip q), tcp_src_port p) = sid_key (pt_name f)"
    using home peer(2,3) far by (simp add: sid_key_def q_def)
  obtain tgt tgt' where L: "fifo_laws (pt_os f) (pt_out f) tgt" "only_writes_send (pt_os f) (pt_out f)"
      "intake_laws (pt_os f) (pt_in f) tgt'"
    using laws by (auto simp: party_laws_def)
  have logs: "pt_out f (os v1) = pt_out f (os v)" "pt_in f (os v1) = pt_in f (os v)"
    using written.incoming [OF I(1), where out = "pt_out f" and tgt = tgt]
      intake.incoming [OF I(1), where inn = "pt_in f" and tgt = tgt'] L by simp_all
  have "l \<noteq> pt_id f" using N(5) O(3) same_heapD(1) [OF I(2)] by (metis option.distinct(1))
  then have same: "ids v1 (pt_id f) = ids v (pt_id f)" "socks v1 = socks v"
    using N(4,6) same_heapD(1,2) [OF I(2)] by simp_all
  have own: "own_socket v1 (pt_id f) (pt_name f) (pt_sock f) x = own_socket v (pt_id f) (pt_name f) (pt_sock f) x" for x
    using same keepsD(2) [OF K] by (simp add: own_socket_def)
  have "talks f rbase msg m n v1"
    using t own keepsD(1) [OF K] logs by (simp add: talks_def taken_by_def given_to_def)
  moreover have "mgr_getSocket (Some l) v1 = Some (pt_sock f)" using I(5) O(4) unfolding key by simp
  ultimately show thesis
    using that [OF q I(1) [unfolded a]] N(3) logs keepsD(5) [OF K] by (simp add: taken_by_def)
qed


lemma receiving_count:
  assumes "receiving out a k i msg base before n w" and "receiving out a k i msg base before n' w"
  shows "n = n'"
proof -
  have "before @ take n msg = before @ take n' msg" "n \<le> length msg" "n' \<le> length msg"
    using assms by (auto simp: receiving_def window_of_def)
  then show ?thesis by (metis append_eq_append_conv length_take min.absorb2)
qed

section \<open>One piece through\<close>

text \<open>After a pause the sender sends the next piece of its window.\<close>

lemma piece_sent:
  assumes e: "served e" and t: "talks e (pt_base f) msg m n w" and fit: "fields_fit e f (length (taken_by e w)) (length msg)"
    and more: "m < length (taken_by e w)" and plain: "\<forall>c \<in> set (taken_by e w). c \<noteq> NUL \<and> \<not> is_digit c"
  obtains w1 w2 p d where "\<And>j F G. wired_end e j G (w, F) (w1, F)" and "\<And>j F G. wired_end e j G (w1, F) (w2, insert p F)"
    and "taken_by e w2 = taken_by e w" and "mgr_ip w2 = mgr_ip w" and "talks e (pt_base f) msg m n w2"
    and "faithful (taken_by e w) (pt_base e) (pt_base f) n p" and "tcp_data p = Some d" and "d \<noteq> []" and "length d \<le> 128"
    and "piece_at (taken_by e w) (pt_base e) m (tcp_seq_num p) d" and "tcp_src_port p = src_port (pt_name e)"
    and "tcp_dst_port p = dst_port (pt_name e)" and "tcp_sane p" and "separated (tcp_checksum p) d"
    and "tcp_checksum p = calc_checksum p" and "NUL \<notin> set d"
proof -
  have num: "numbered (pt_base e) (length (taken_by e w))" "numbered (pt_base f) (length msg)"
    using fields_fit_numbered [OF fit] by simp_all
  have laws: "party_laws e" "resourceful (pt_os e)" using e by (simp_all add: served_def)
  obtain s q where s: "own_socket w (pt_id e) (pt_name e) (pt_sock e) s" "sk_state s = ESTABLISED"
      "send_window s = Some q" "queue_list q = drop m (taken_by e w)"
      "seq_of_first_send_window s = pt_base e + of_nat m" "window_of msg (pt_base f) n s"
    using t by (auto simp: talks_def)
  obtain s' where s': "pt_in e s' = pt_in e (os w)" "pt_out e s' = pt_out e (os w)"
      "last_send_clock s + SOCKET_SEND_AGAIN_TIME * CLOCKS_PER_SEC < fst (px_clock (pt_os e) s')"
    using e unfolding served_def by blast
  let ?w1 = "w\<lparr>os := s'\<rparr>"
  have same: "same_heap w ?w1" by simp
  have inv: "mgr_inv w" using t by (simp add: talks_def)
  note Q = quiet_same_heap [OF inv same]
  have tk: "taken_by e ?w1 = taken_by e w" "given_to e ?w1 = given_to e w"
    using s' by (simp_all add: taken_by_def given_to_def)
  have step1: "wired_end e j G (w, F) (?w1, F)" for j F G
    by (rule wired_end.pause [OF s'(1,2)])
  have own: "own_socket ?w1 (pt_id e) (pt_name e) (pt_sock e) s"
    if "own_socket w (pt_id e) (pt_name e) (pt_sock e) s" for s using that quietD(3) [OF Q] by (simp add: own_socket_def)
  have t1: "talks e (pt_base f) msg m n ?w1"
    using t quietD(2) [OF Q] own tk unfolding talks_def by auto
  have due: "DIFF2SEC_gt (fst (px_clock (pt_os e) (os ?w1)) - last_send_clock s) SOCKET_SEND_AGAIN_TIME"
    using s'(3) by (simp add: DIFF2SEC_gt_def)
  let ?p = "window_segment (pt_name e) s (next_piece q)"
  have p: "fst (outgoing_segment (pt_os e) (pt_id e) ?w1) = Some ?p"
    by (rule outgoing_segment_due [OF laws(2) quietD(2) [OF Q] own [OF s(1)] s(2,3) due])
  obtain r w2 where c: "check_and_handle_send_window (pt_os e) (pt_id e) ?w1 = (r, w2)" by fastforce
  have step2: "wired_end e j G (?w1, F) (w2, insert ?p F)" for j F G
    using wired_end.send_bytes [OF c, of j G F] p by simp
  note S = send_bytes_talks [OF laws(1) t1 c]
  have f: "faithful (taken_by e w) (pt_base e) (pt_base f) n ?p" using S(2) p tk(1) by (metis prod.collapse)
  have ne: "queue_list q \<noteq> []" unfolding s(4) using more by simp
  have pl: "\<forall>c \<in> set (queue_list q). c \<noteq> NUL \<and> \<not> is_digit c" unfolding s(4) using plain in_set_dropD by metis
  have d: "next_piece q \<noteq> []" using ne pl by (cases "queue_list q") (simp_all add: next_piece_def cstr_Cons)
  have len: "length (next_piece q) \<le> 128" by (simp add: next_piece_def)
  have pre: "next_piece q = take (length (next_piece q)) (drop m (taken_by e w))"
    using next_piece_prefix [of q] unfolding s(4) .
  have "set (next_piece q) \<subseteq> set (queue_list q)" by (subst next_piece_prefix) (rule set_take_subset)
  then have sep: "separated (tcp_checksum ?p) (next_piece q)" using d pl hd_in_set [OF d] unfolding separated_def by blast
  have "length (next_piece q) \<le> length (drop m (taken_by e w))" using pre by (metis length_take min.cobounded1)
  then have "m + length (next_piece q) \<le> length (taken_by e w)" using more by simp
  then have piece: "piece_at (taken_by e w) (pt_base e) m (tcp_seq_num ?p) (next_piece q)"
    using pre s(5) by (simp add: piece_at_def)
  have fields: "tcp_seq_num ?p = pt_base e + of_nat m" "tcp_ack_num ?p = pt_base f + of_nat n" "tcp_flags ?p = ACK" "n \<le> length msg"
    using s(5,6) by (simp_all add: window_segment_def Let_def window_of_def)
  have "sint (tcp_seq_num ?p) = sint (pt_base e) + int m" "sint (tcp_ack_num ?p) = sint (pt_base f) + int n"
    unfolding fields(1,2) using numbered_sint [OF num(1), of m] numbered_sint [OF num(2) fields(4)] more by simp_all
  then have sane: "tcp_sane ?p"
    using fit more fields(3,4) by (intro fields_sane) (simp_all add: fields_fit_def)
  have K: "keeps ?w1 w2"
  proof (rule only_socket_keeps [OF quietD(2) [OF Q]])
    show "only_socket (pt_sock e) steady ?w1 w2"
      using own_socketD [OF quietD(2) [OF Q] own [OF s(1)]] send_window_only(2) c by blast
  qed (simp add: steady_def)
  then have ip: "mgr_ip w2 = mgr_ip w" using keepsD(5) [OF K] by simp
  show thesis
    using that [OF step1 step2 _ ip] tk(1) S(1) f d len piece sep sane next_piece_no_NUL by simp
qed

text \<open>The answer to a segment, where memory does not run out.\<close>

lemma packet_constructed:
  assumes P: "resourceful P" and c: "construct_packet P a d fl port y = (reply, x)"
  obtains r where "reply = Some r"
proof -
  obtain al y1 where 1: "sys_new P y = (al, y1)" by fastforce
  obtain mm y2 where 2: "sys_malloc P (length d + 1) y1 = (mm, y2)" by fastforce
  have al by (rule resourceful_calls(2) [OF P 1])
  moreover obtain b where "mm = Some b" using resourceful_calls(1) [OF P 2] by blast
  ultimately have "reply \<noteq> None" using c 1 2 by (auto simp: construct_packet_def Let_def)
  then show thesis using that by blast
qed

lemma answer_fields:
  assumes c: "construct_packet P (pt_sock f) [] fl port y = (Some r, x)" and t: "talks f base msg m n x"
  shows "tcp_src_port r = src_port (pt_name f)" and "tcp_dst_port r = port" and "tcp_data r = Some []"
    and "tcp_seq_num r = pt_base f + of_nat m" and "tcp_checksum r = calc_checksum r"
proof -
  obtain u where u: "own_socket x (pt_id f) (pt_name f) (pt_sock f) u" "mgr_inv x"
      "seq_of_first_send_window u = pt_base f + of_nat m"
    using t by (auto simp: talks_def)
  note O = own_socketD [OF u(2,1)]
  note S = same_procD(1,2) [OF construct_packet_eq(2) [OF c]]
  have y: "sock_at y (pt_sock f) = u" "id_at y (pt_id f) = pt_name f"
    using O(3,5) S by (simp_all add: sock_at_def id_at_def)
  show "tcp_src_port r = src_port (pt_name f)" "tcp_dst_port r = port" "tcp_data r = Some []"
      "tcp_seq_num r = pt_base f + of_nat m" "tcp_checksum r = calc_checksum r"
    using construct_packet_eq(1) [OF c] y O(6) u(3) by (simp_all add: Let_def calc_checksum_def)
qed

lemma answered_address:
  assumes t: "talks f base msg m n x" and l: "\<not> reg_id x l"
  shows "mgr_ip (free_id l (answer_sent P l (pt_sock f) reply x)) = mgr_ip x"
proof -
  obtain u where u: "mgr_inv x" "socks x (pt_sock f) = Some u" using t by (auto simp: talks_def own_socket_def)
  have K: "keeps x (answer_sent P l (pt_sock f) reply x)"
    by (rule only_socket_keeps [OF u(1) answer_sent_socket(2) [OF u(2)]]) (simp add: steady_def)
  have "\<not> reg_id (answer_sent P l (pt_sock f) reply x) l" using l keepsD(4) [OF K] by simp
  then show ?thesis using keepsD(5) [OF K] keepsD(5) [OF keeps_free_id [OF keepsD(1) [OF K]]] by simp
qed

text \<open>The receiver gives the piece to its user and acknowledges it.\<close>

lemma piece_received:
  assumes f: "served f" and v: "talks f base msg m n v" and num: "numbered (pt_base f) (length (taken_by f v))"
    and fit: "fields_fit f e (length (taken_by f v)) (length msg)" and base: "base = pt_base e" and peers: "peers e f"
    and home: "mgr_ip v = cstr (src_ip (pt_name f))" "length (cstr (src_ip (pt_name e))) = 16"
    and short: "length msg < 2147483648" and c: "m \<le> c" "c \<le> length (taken_by f v)"
    and p: "faithful msg base (pt_base f) c p" "tcp_data p = Some d" "d \<noteq> []" "length d \<le> 128"
      "piece_at msg base j (tcp_seq_num p) d" "j \<le> n" "tcp_src_port p = src_port (pt_name e)" "tcp_dst_port p = src_port (pt_name f)"
    and wire: "tcp_sane p" "separated (tcp_checksum p) d" "tcp_checksum p = calc_checksum p" "NUL \<notin> set d"
  obtains v2 r m' n' where "\<And>F G. p \<in> F \<Longrightarrow> wired_end f (pt_name e) F (v, G) (v2, insert r G)"
    and "taken_by f v2 = taken_by f v" and "mgr_ip v2 = mgr_ip v" and "talks f base msg m' n' v2" and "m' \<le> c"
    and "n \<le> n'" and "j + length d \<le> n'" and "faithful (taken_by f v) (pt_base f) base n' r"
    and "tcp_ack_num r = base + of_nat n'" and "tcp_data r = Some []" and "has_flag r ACK"
    and "tcp_src_port r = src_port (pt_name f)" and "tcp_dst_port r = src_port (pt_name e)"
    and "tcp_sane r" and "tcp_checksum r = calc_checksum r"
proof -
  have laws: "party_laws f" "resourceful (pt_os f)" "fifos_open (pt_os f)" using f by (simp_all add: served_def)
  obtain tgt where L: "fifo_laws (pt_os f) (pt_out f) tgt" using laws(1) by (auto simp: party_laws_def)
  have port: "tcp_src_port p = dst_port (pt_name f)" using p(7) peers by (simp add: peers_def)
  obtain pk l v1 where v1: "packet_of (pt_name e) p pk" "incoming_segment (pt_os f) pk v = Some (l, arrived p, v1)"
      "mgr_getSocket (Some l) v1 = Some (pt_sock f)" "\<not> reg_id v1 l" "talks f base msg m n v1" "taken_by f v1 = taken_by f v"
      "mgr_ip v1 = mgr_ip v"
    by (rule packet_arrives [OF f v home(1) wire(1-3) p(2) wire(4) peers p(7,8) home(2)], rule that)
  have a: "arrived p = p" using p(2,3) by (simp add: arrived_def)
  obtain reply x where h: "handle_packet (pt_os f) (pt_sock f) (arrived p) (src_ip (id_at v1 l)) v1 = (reply, x)" by fastforce
  have num1: "numbered (pt_base f) (length (taken_by f v1))" "c \<le> length (taken_by f v1)" using num c(2) v1(6) by simp_all
  obtain m' n' where H: "taken_by f x = taken_by f v1" "talks f base msg m' n' x" "m' \<le> c" "n \<le> n'" "keeps v1 x"
      "\<forall>r \<in> set_option reply. faithful (taken_by f v1) (pt_base f) base n' r"
    using handled_talks [OF laws(1) v1(5) num1(1) short p(1) c(1) num1(2) h] by blast
  have rec: "receiving (pt_out f) (pt_sock f) (pt_id f) (pt_name f) msg base [] n v1"
      "receiving (pt_out f) (pt_sock f) (pt_id f) (pt_name f) msg base [] n' x"
    using v1(5) H(2) talks_receiving by blast+
  have est: "established_segment p" "carries msg base p" using p(1) by (simp_all add: faithful_def)
  obtain n1 where n1: "min (j + length d) (n + 1024) \<le> n1"
      "receiving (pt_out f) (pt_sock f) (pt_id f) (pt_name f) msg base [] n1 x"
    using receiving_handle_progress [OF L reader_ready_open [OF laws(2,3)] rec(1) est(1) port p(2,5,6) short,
        of "src_ip (id_at v1 l)"] h a by auto
  obtain n2 where n2: "receiving (pt_out f) (pt_sock f) (pt_id f) (pt_name f) msg base [] n2 x"
      "\<forall>r. reply = Some r \<longrightarrow> tcp_ack_num r = base + of_nat n2 \<and> tcp_flags r = ACK"
    using receiving_handle_packet [OF L rec(1) est short, of "src_ip (id_at v1 l)" reply x] h a by auto
  have eq: "n1 = n'" "n2 = n'" using receiving_count [OF n1(2) rec(2)] receiving_count [OF n2(1) rec(2)] by simp_all
  have go: "j + length d \<le> n'" using n1(1) eq(1) p(4,6) by simp
  obtain s q where s: "own_socket v1 (pt_id f) (pt_name f) (pt_sock f) s" "mgr_inv v1" "sk_state s = ESTABLISED" "send_window s = Some q"
    using v1(5) by (auto simp: talks_def)
  note O = own_socketD [OF s(2,1)]
  have name: "id_at v1 (pt_id f) = pt_name f" using O(3) by (simp add: id_at_def)
  let ?y = "receiveNewData (pt_os f) (pt_sock f) p (if has_flag p ACK then upd_sock (pt_sock f) (ack_slide (tcp_ack_num p)) v1 else v1)"
  have cp: "construct_packet (pt_os f) (pt_sock f) [] ACK (tcp_src_port p) ?y = (reply, x)"
    using handle_packet_established_segment [OF O(5) s(3) O(6) s(4) est(1), of "pt_os f" "src_ip (id_at v1 l)"]
      h a p(2) port name by (simp add: Let_def)
  obtain r where r: "reply = Some r" by (rule packet_constructed [OF laws(2) cp])
  note R = answer_fields [OF cp [unfolded r] H(2)]
  have ack: "tcp_ack_num r = base + of_nat n'" "has_flag r ACK" "tcp_flags r = ACK"
    using n2(2) r eq(2) by (simp_all add: has_flag_def ACK_def)
  have len: "m' \<le> length (taken_by f v)" "n' \<le> length msg" using H(3) c(2) talks_delivered [OF H(2)] by simp_all
  have nums: "numbered (pt_base f) (length (taken_by f v))" "numbered base (length msg)"
    using fields_fit_numbered [OF fit] base by simp_all
  have "sint (tcp_seq_num r) = sint (pt_base f) + int m'" "sint (tcp_ack_num r) = sint base + int n'"
    unfolding R(4) ack(1) using numbered_sint [OF nums(1) len(1)] numbered_sint [OF nums(2) len(2)] by simp_all
  then have sane: "tcp_sane r"
    using fit base R(1,2,5) ack(3) len p(7) peers by (intro fields_sane) (simp_all add: fields_fit_def peers_def)
  have l: "\<not> reg_id x l" using v1(4) keepsD(4) [OF H(5)] by simp
  note A = answered_talks [OF laws(1) H(2) l, of reply]
  let ?v2 = "free_id l (answer_sent (pt_os f) l (pt_sock f) reply x)"
  have v2: "snd (handle_incoming_ip_packet (pt_os f) (Some pk) v) = ?v2"
    using incoming_segment_handled [OF v1(2)] dispatch_segment_to [OF v1(3) h] by simp
  have step: "wired_end f (pt_name e) F (v, G) (?v2, insert r G)" if "p \<in> F" for F G
    using wired_end.packet [where e = f and F = G, OF that v1(1,2,3) h] unfolding v2 r by simp
  have ip: "mgr_ip ?v2 = mgr_ip v" using answered_address [OF H(2) l] keepsD(5) [OF H(5)] v1(7) by simp
  have "faithful (taken_by f v) (pt_base f) base n' r" using H(6) r v1(6) by simp
  then show thesis
    using that [OF step _ ip A(2) H(3,4) go _ ack(1) R(3) ack(2) R(1) _ sane R(5)] A(1) H(1) v1(6) R(2) p(7) by simp
qed

text \<open>The sender drops what is acknowledged.\<close>

lemma answer_taken:
  assumes e: "served e" and t: "talks e rbase msg m n w" and num: "numbered (pt_base e) (length (taken_by e w))"
    and peers: "peers f e" and home: "mgr_ip w = cstr (src_ip (pt_name e))" "length (cstr (src_ip (pt_name f))) = 16"
    and short: "length msg < 2147483648" and c: "m \<le> c" "c \<le> length (taken_by e w)"
    and r: "faithful msg rbase (pt_base e) c r" "tcp_data r = Some []" "has_flag r ACK"
      "tcp_ack_num r = pt_base e + of_nat c" "tcp_src_port r = src_port (pt_name f)" "tcp_dst_port r = src_port (pt_name e)"
    and wire: "tcp_sane r" "tcp_checksum r = calc_checksum r"
  obtains w2 n' where "\<And>F G. r \<in> G \<Longrightarrow> wired_end e (pt_name f) G (w, F) (w2, F)"
    and "taken_by e w2 = taken_by e w" and "mgr_ip w2 = mgr_ip w" and "talks e rbase msg c n' w2" and "n \<le> n'"
proof -
  have laws: "party_laws e" using e by (simp add: served_def)
  have sep: "separated (tcp_checksum r) []" by (simp add: separated_def)
  have nul: "NUL \<notin> set ([] :: string)" by simp
  obtain pk l w1 where w1: "packet_of (pt_name f) r pk" "incoming_segment (pt_os e) pk w = Some (l, arrived r, w1)"
      "mgr_getSocket (Some l) w1 = Some (pt_sock e)" "\<not> reg_id w1 l" "talks e rbase msg m n w1" "taken_by e w1 = taken_by e w"
      "mgr_ip w1 = mgr_ip w"
    by (rule packet_arrives [OF e t home(1) wire(1) sep wire(2) r(2) nul peers r(5,6) home(2)], rule that)
  obtain s q where s: "mgr_inv w1" "own_socket w1 (pt_id e) (pt_name e) (pt_sock e) s" "sk_state s = ESTABLISED"
      "send_window s = Some q" "queue_list q = drop m (taken_by e w)" "seq_of_first_send_window s = pt_base e + of_nat m"
    using w1(5,6) by (auto simp: talks_def)
  note O = own_socketD [OF s(1,2)]
  have q: "queue_inv q" using mgr_invD(3) [OF s(1) O(5)] s(4) by (auto simp: socket_wf_def)
  let ?x = "upd_sock (pt_sock e) (ack_slide (tcp_ack_num r)) w1"
  have a: "tcp_data (arrived r) = None" "tcp_src_port (arrived r) = dst_port (pt_name e)"
      "has_flag (arrived r) ACK" "tcp_ack_num (arrived r) = tcp_ack_num r"
    using r(2,3,5) peers by (simp_all add: arrived_def has_flag_def peers_def)
  have h: "handle_packet (pt_os e) (pt_sock e) (arrived r) (src_ip (id_at w1 l)) w1 = (None, ?x)"
    using handle_packet_established_segment [OF O(5) s(3) O(6) s(4) faithful_arrived(1) [OF r(1)]] a O(3)
    by (simp add: id_at_def)
  have c1: "numbered (pt_base e) (length (taken_by e w1))" "c \<le> length (taken_by e w1)" using num c(2) w1(6) by simp_all
  obtain m' n' where H: "taken_by e ?x = taken_by e w1" "talks e rbase msg m' n' ?x" "n \<le> n'" "keeps w1 ?x"
    using handled_talks [OF laws w1(5) c1(1) short r(1) c(1) c1(2) h] by blast
  have "m \<le> length (taken_by e w)" using c by simp
  from ack_slide_window [OF s(4) q num this c(2) s(5,6)] obtain q2 where
    q2: "send_window (ack_slide (tcp_ack_num r) s) = Some q2" "queue_list q2 = drop c (taken_by e w)"
    using c(1) r(4) by (auto simp: send_side_def max_def)
  obtain u q' where u: "own_socket ?x (pt_id e) (pt_name e) (pt_sock e) u" "send_window u = Some q'"
      "queue_list q' = drop m' (taken_by e w)" "m' \<le> length (taken_by e w)"
    using H(1,2) w1(6) by (auto simp: talks_def)
  have "u = ack_slide (tcp_ack_num r) s" using u(1) O(5) by (simp add: own_socket_def)
  then have "drop m' (taken_by e w) = drop c (taken_by e w)" using u(2,3) q2 by simp
  then have m': "m' = c" using u(4) c(2) by (metis diff_diff_cancel length_drop)
  have l: "\<not> reg_id ?x l" using w1(4) keepsD(4) [OF H(4)] by simp
  note A = answered_talks [OF laws H(2) l, of None]
  let ?w2 = "free_id l (answer_sent (pt_os e) l (pt_sock e) None ?x)"
  have w2: "snd (handle_incoming_ip_packet (pt_os e) (Some pk) w) = ?w2"
    using incoming_segment_handled [OF w1(2)] dispatch_segment_to [OF w1(3) h] by simp
  have step: "wired_end e (pt_name f) G (w, F) (?w2, F)" if "r \<in> G" for F G
    using wired_end.packet [where e = e and F = F, OF that w1(1,2,3) h] unfolding w2 by simp
  have ip: "mgr_ip ?w2 = mgr_ip w" using answered_address [OF H(2) l] keepsD(5) [OF H(4)] w1(7) by simp
  have "taken_by e ?w2 = taken_by e w" "talks e rbase msg c n' ?w2" using A m' H(1) w1(6) by simp_all
  then show thesis using that [OF step _ ip _ H(3)] by simp
qed

section \<open>One round\<close>

lemma wired_four:
  assumes "r a b" "r b c" "r c d" "r d x"
  shows "r\<^sup>*\<^sup>* a x"
  by (rule rtranclp.rtrancl_into_rtrancl [OF rtranclp.rtrancl_into_rtrancl [OF rtranclp.rtrancl_into_rtrancl
    [OF r_into_rtranclp [of r, OF assms(1)] assms(2)] assms(3)] assms(4)])

text \<open>The ends are where their names say they are.\<close>

definition at_home :: "'s party \<Rightarrow> 's world \<Rightarrow> bool" where
  "at_home e w \<longleftrightarrow> mgr_ip w = cstr (src_ip (pt_name e))"

lemma one_more_round:
  assumes e: "served e" and f: "served f" and peers: "peers e f"
    and E: "one_way e f w F v m n k" and V: "one_way f e v G w m' k n" and home: "at_home e w" "at_home f v"
    and fit: "fields_fit e f (length (taken_by e w)) (length (taken_by f v))"
    and more: "m < length (taken_by e w)" and plain: "\<forall>c \<in> set (taken_by e w). c \<noteq> NUL \<and> \<not> is_digit c"
  shows "\<exists>w' F' v' G' n2 k2 m2. (wired_step e f)\<^sup>*\<^sup>* ((w, F), (v, G)) ((w', F'), (v', G'))
    \<and> one_way e f w' F' v' k2 n2 k2 \<and> one_way f e v' G' w' m2 k2 n2 \<and> at_home e w' \<and> at_home f v'
    \<and> taken_by e w' = taken_by e w \<and> taken_by f v' = taken_by f v \<and> m < k2"
proof -
  have tE: "talks e (pt_base f) (taken_by f v) m n w" "numbered (pt_base e) (length (taken_by e w))" "m \<le> k"
      "\<forall>p \<in> F. faithful (taken_by e w) (pt_base e) (pt_base f) n p"
    using E by (simp_all add: one_way_def)
  have tV: "talks f (pt_base e) (taken_by e w) m' k v" "numbered (pt_base f) (length (taken_by f v))" "m' \<le> n"
      "\<forall>p \<in> G. faithful (taken_by f v) (pt_base f) (pt_base e) k p"
    using V by (simp_all add: one_way_def)
  have short: "length (taken_by e w) < 2147483648" "length (taken_by f v) < 2147483648"
    using tE(2) tV(2) by (simp_all add: numbered_def)
  have inv: "mgr_inv w" "mgr_inv v" using tE(1) tV(1) by (simp_all add: talks_def)
  have ip: "mgr_ip w = cstr (src_ip (pt_name e))" "mgr_ip v = cstr (src_ip (pt_name f))"
    using home by (simp_all add: at_home_def)
  have len: "length (cstr (src_ip (pt_name e))) = 16" "length (cstr (src_ip (pt_name f))) = 16"
    using mgr_invD(4) [OF inv(1)] mgr_invD(4) [OF inv(2)] ip by simp_all
  have peers': "peers f e" using peers by (simp add: peers_def)
  obtain w1 w2 p d where A: "\<And>j F G. wired_end e j G (w, F) (w1, F)" "\<And>j F G. wired_end e j G (w1, F) (w2, insert p F)"
      "taken_by e w2 = taken_by e w" "mgr_ip w2 = mgr_ip w" "talks e (pt_base f) (taken_by f v) m n w2"
      "faithful (taken_by e w) (pt_base e) (pt_base f) n p" "tcp_data p = Some d" "d \<noteq> []" "length d \<le> 128"
      "piece_at (taken_by e w) (pt_base e) m (tcp_seq_num p) d" "tcp_src_port p = src_port (pt_name e)"
      "tcp_dst_port p = dst_port (pt_name e)" "tcp_sane p" "separated (tcp_checksum p) d"
      "tcp_checksum p = calc_checksum p" "NUL \<notin> set d"
    by (rule piece_sent [OF e tE(1) fit more plain], rule that)
  have dst: "tcp_dst_port p = src_port (pt_name f)" using A(12) peers by (simp add: peers_def)
  obtain v2 r m2 k2 where B: "\<And>F G. p \<in> F \<Longrightarrow> wired_end f (pt_name e) F (v, G) (v2, insert r G)"
      "taken_by f v2 = taken_by f v" "mgr_ip v2 = mgr_ip v" "talks f (pt_base e) (taken_by e w) m2 k2 v2" "m2 \<le> n"
      "k \<le> k2" "m + length d \<le> k2" "faithful (taken_by f v) (pt_base f) (pt_base e) k2 r"
      "tcp_ack_num r = pt_base e + of_nat k2" "tcp_data r = Some []" "has_flag r ACK" "tcp_src_port r = src_port (pt_name f)"
      "tcp_dst_port r = src_port (pt_name e)" "tcp_sane r" "tcp_checksum r = calc_checksum r"
    by (rule piece_received [OF f tV(1,2) fields_fit_swap [OF peers fit] refl peers ip(2) len(1) short(1) tV(3)
          talks_delivered [OF tE(1)] A(6-10) tE(3) A(11) dst A(13-16)], rule that)
  have k2: "m \<le> k2" "k2 \<le> length (taken_by e w2)" using tE(3) B(6) talks_delivered [OF B(4)] A(3) by simp_all
  have num2: "numbered (pt_base e) (length (taken_by e w2))" using tE(2) A(3) by simp
  have ip2: "mgr_ip w2 = cstr (src_ip (pt_name e))" using A(4) ip(1) by simp
  obtain w4 n2 where C: "\<And>F' G'. r \<in> G' \<Longrightarrow> wired_end e (pt_name f) G' (w2, F') (w4, F')"
      "taken_by e w4 = taken_by e w2" "mgr_ip w4 = mgr_ip w2" "talks e (pt_base f) (taken_by f v) k2 n2 w4" "n \<le> n2"
    by (rule answer_taken [OF e A(5) num2 peers' ip2 len(2) short(2) k2 B(8,10,11,9,12,13,14,15)], rule that)
  let ?F = "insert p F" and ?G = "insert r G"
  have "wired_step e f ((w, F), (v, G)) ((w1, F), (v, G))" "wired_step e f ((w1, F), (v, G)) ((w2, ?F), (v, G))"
      "wired_step e f ((w2, ?F), (v, G)) ((w2, ?F), (v2, ?G))" "wired_step e f ((w2, ?F), (v2, ?G)) ((w4, ?F), (v2, ?G))"
    by (rule wired_step.near [OF A(1)] wired_step.near [OF A(2)]
      wired_step.far [OF B(1) [OF insertI1]] wired_step.near [OF C(1) [OF insertI1]])+
  note steps = wired_four [where r = "wired_step e f", OF this]
  have FF: "\<forall>x \<in> ?F. faithful (taken_by e w) (pt_base e) (pt_base f) n2 x"
    using A(6) tE(4) faithful_mono [OF _ C(5), where bs = "[]"] by auto
  have GG: "\<forall>x \<in> ?G. faithful (taken_by f v) (pt_base f) (pt_base e) k2 x"
    using B(8) tV(4) faithful_mono [OF _ B(6), where bs = "[]"] by auto
  have tw: "taken_by e w4 = taken_by e w" using C(2) A(3) by simp
  have "m2 \<le> n2" using B(5) C(5) by simp
  then have "one_way e f w4 ?F v2 k2 n2 k2" "one_way f e v2 ?G w4 m2 k2 n2"
    using tE(2) tV(2) B(4) C(4) FF GG unfolding one_way_def tw B(2) by simp_all
  moreover have "m < k2" using A(8) B(7) by (cases d) simp_all
  moreover have "at_home e w4" "at_home f v2" using ip A(4) C(3) B(3) by (simp_all add: at_home_def)
  ultimately show ?thesis using steps tw B(2) by blast
qed

lemma all_rounds:
  assumes "served e" and "served f" and "peers e f"
    and "one_way e f w F v m n k" and "one_way f e v G w m' k n" and "at_home e w" and "at_home f v"
    and "fields_fit e f (length (taken_by e w)) (length (taken_by f v))"
    and "\<forall>c \<in> set (taken_by e w). c \<noteq> NUL \<and> \<not> is_digit c"
  shows "\<exists>w' F' v' G' n2 m2. (wired_step e f)\<^sup>*\<^sup>* ((w, F), (v, G)) ((w', F'), (v', G')) \<and> taken_by e w' = taken_by e w
    \<and> one_way e f w' F' v' (length (taken_by e w)) n2 (length (taken_by e w))
    \<and> one_way f e v' G' w' m2 (length (taken_by e w)) n2"
  using assms(4-9)
proof (induction "length (taken_by e w) - m" arbitrary: w F v G m n k m' rule: less_induct)
  case less
  have t: "talks e (pt_base f) (taken_by f v) m n w" "m \<le> k" "talks f (pt_base e) (taken_by e w) m' k v"
    using less.prems(1,2) by (simp_all add: one_way_def)
  have len: "m \<le> length (taken_by e w)" "k \<le> length (taken_by e w)"
    using t(1) talks_delivered [OF t(3)] by (auto simp: talks_def)
  show ?case
  proof (cases "m = length (taken_by e w)")
    case True
    then have "k = length (taken_by e w)" using len(2) t(2) by simp
    then show ?thesis using less.prems(1,2) True by blast
  next
    case False
    then have lt: "m < length (taken_by e w)" using len(1) by simp
    from one_more_round [OF assms(1-3) less.prems(1-5) lt less.prems(6)] obtain w1 F1 v1 G1 n2 k2 m2 where
      R: "(wired_step e f)\<^sup>*\<^sup>* ((w, F), (v, G)) ((w1, F1), (v1, G1))" "one_way e f w1 F1 v1 k2 n2 k2"
        "one_way f e v1 G1 w1 m2 k2 n2" "at_home e w1" "at_home f v1" "taken_by e w1 = taken_by e w"
        "taken_by f v1 = taken_by f v" "m < k2" by blast
    have dec: "length (taken_by e w1) - k2 < length (taken_by e w) - m" using R(6,8) lt by simp
    obtain w2 F2 v2 G2 n3 m3 where
      I: "(wired_step e f)\<^sup>*\<^sup>* ((w1, F1), (v1, G1)) ((w2, F2), (v2, G2))" "taken_by e w2 = taken_by e w"
        "one_way e f w2 F2 v2 (length (taken_by e w)) n3 (length (taken_by e w))"
        "one_way f e v2 G2 w2 m3 (length (taken_by e w)) n3"
      using less.hyps [OF dec R(2-5)] less.prems(5,6) unfolding R(6,7) by blast
    from rtranclp_trans [OF R(1) I(1)] I(2-4) show ?thesis by blast
  qed
qed

section \<open>Properties\<close>

text \<open>
  C2. A connection does not get stuck.  Whatever has happened to it before, lost segments, full FIFOs and exhausted
  memory included, once the systems refuse nothing and time passes the conversation can go on from there so that
  every byte that has been taken from the user is given to the other user and acknowledged: the other user has
  exactly what was written, and the send window is empty.  On the way every segment is a text, as \<open>tcp_to_str\<close>
  prints it, and is taken in by \<open>handle_incoming_ip_packet\<close> with its tests, \<open>str_to_tcp\<close> and the lookup of the socket.
  The bytes of the user must hold neither NUL, at which a window ends, nor a digit, as a segment whose data
  begins with one is dropped each time it is sent (C40).  The ports must have at most five digits, the numbers of
  the bytes must not overflow, and no more must their sums, the checksums (of which eleven characters do not fit
  their column); the managers have the addresses that are the sources of the connection.
\<close>

theorem every_byte_can_still_arrive:
  assumes "served e" and "served f" and "peers e f"
    and "talks e (pt_base f) (taken_by f v) m n w" and "talks f (pt_base e) (taken_by e w) m' n' v"
    and "m \<le> n'" and "m' \<le> n"
    and "numbered (pt_base e) (length (taken_by e w))" and "numbered (pt_base f) (length (taken_by f v))"
    and "(conv_step e f)\<^sup>*\<^sup>* ((w, {}), (v, {})) ((w1, F1), (v1, G1))"
    and "at_home e w1" and "at_home f v1"
    and "fields_fit e f (length (taken_by e w1)) (length (taken_by f v1))"
    and "\<forall>c \<in> set (taken_by e w1). c \<noteq> NUL \<and> \<not> is_digit c"
  shows "\<exists>w2 F2 v2 G2 s q. (wired_step e f)\<^sup>*\<^sup>* ((w1, F1), (v1, G1)) ((w2, F2), (v2, G2))
    \<and> given_to f v2 = taken_by e w1 \<and> socks w2 (pt_sock e) = Some s \<and> send_window s = Some q \<and> queue_list q = []"
proof -
  have laws: "party_laws e" "party_laws f" using assms(1,2) by (simp_all add: served_def)
  have "one_way e f w {} v m n n'" "one_way f e v {} w m' n' n" using assms(4-9) by (simp_all add: one_way_def)
  then have ok: "party_laws e \<and> party_laws f \<and> conv_ok e f ((w, {}), (v, {}))" using laws by auto
  have "conv_ok e f ((w1, F1), (v1, G1))" using conv.steps_inv [OF assms(10) ok] by blast
  then obtain a b c d where "one_way e f w1 F1 v1 a b c" "one_way f e v1 G1 w1 d c b" by auto
  from all_rounds [OF assms(1-3) this assms(11-14)] obtain w2 F2 v2 G2 n2 m2 where
    R: "(wired_step e f)\<^sup>*\<^sup>* ((w1, F1), (v1, G1)) ((w2, F2), (v2, G2))" "taken_by e w2 = taken_by e w1"
      "one_way e f w2 F2 v2 (length (taken_by e w1)) n2 (length (taken_by e w1))"
      "one_way f e v2 G2 w2 m2 (length (taken_by e w1)) n2" by blast
  have "given_to f v2 = taken_by e w1" using R(2,4) by (simp add: one_way_def talks_def)
  moreover have "\<exists>s q. socks w2 (pt_sock e) = Some s \<and> send_window s = Some q \<and> queue_list q = []"
    using R(2,3) by (auto simp: one_way_def talks_def own_socket_def)
  ultimately show ?thesis using R(1) by blast
qed

text \<open>On the two hosts the two bytes of the first user can reach the second.\<close>

lemma served_parties: "served near_party" "served far_party" "peers near_party far_party"
proof -
  have time: "\<exists>s'. book_log s' = book_log s \<and> sim_out (fst s') = sim_out (fst s) \<and> t < fst (px_clock (watched kind_posix) s')"
    for s :: "sim \<times> book" and t
  proof -
    let ?s = "((fst s)\<lparr>sim_clock := t + 1\<rparr>, snd s)"
    have "book_log ?s = book_log s" "sim_out (fst ?s) = sim_out (fst s)"
      by (simp_all add: book_log_def sim_out_def fun_eq_iff)
    moreover have "t < fst (px_clock (watched kind_posix) ?s)"
      by (simp add: watched_clock kind_posix_def open_posix_def sim_posix_def)
    ultimately show ?thesis by blast
  qed
  have os: "pt_os near_party = watched kind_posix" "pt_os far_party = watched kind_posix"
      "pt_in near_party = book_log" "pt_in far_party = book_log"
      "pt_out near_party = sim_out \<circ> fst" "pt_out far_party = sim_out \<circ> fst"
    by (simp_all add: near_party_def far_party_def)
  note kind = watched_kind [OF kind_posix(1,2)]
  show "served near_party" "served far_party"
    using parties kind time unfolding served_def os comp_def by blast+
  show "peers near_party far_party" by (simp add: peers_def near_party_def far_party_def near_id_def far_id_def)
qed

lemma every_byte_can_still_arrive_witness:
  "\<exists>w F v G s q. (wired_step near_party far_party)\<^sup>*\<^sup>* ((near_start, {}), (far_start, {})) ((w, F), (v, G))
     \<and> given_to far_party v = ''hi'' \<and> socks w 1 = Some s \<and> send_window s = Some q \<and> queue_list q = []"
proof -
  have sock: "pt_sock near_party = 1" by (simp add: near_party_def)
  have t: "talks near_party (pt_base far_party) (taken_by far_party far_start) 0 0 near_start"
      "talks far_party (pt_base near_party) (taken_by near_party near_start) 0 0 far_start"
      "numbered (pt_base near_party) (length (taken_by near_party near_start))"
      "numbered (pt_base far_party) (length (taken_by far_party far_start))"
    using near_talks far_talks by (simp_all add: numbered_def near_party_def far_party_def)
  have plain: "\<forall>c \<in> set (taken_by near_party near_start). c \<noteq> NUL \<and> \<not> is_digit c"
    using near_talks(2) by (simp add: is_digit_def)
  have home: "at_home near_party near_start" "at_home far_party far_start"
    using sender(3) answering(3) example_ends(5,6)
    by (simp_all add: at_home_def near_party_def far_party_def near_start_def far_start_def sid_key_def)
  have fit: "fields_fit near_party far_party (length (taken_by near_party near_start)) (length (taken_by far_party far_start))"
    using near_talks(2) far_talks(2) by (simp add: fields_fit_def near_party_def far_party_def)
  show ?thesis
    using every_byte_can_still_arrive [OF served_parties t(1,2) le_refl le_refl t(3,4) rtranclp.rtrancl_refl home fit plain]
    unfolding near_talks(2) sock .
qed

end
