(* ===== verification/Spec2Isabelle.thy ===== *)
theory Spec2Isabelle
  imports Functions Array_Queue Clib_Format Ip Hashmap Fifo_Utils Delivery Network_Manager
    Handshake Client_Protocol Manager_Steps End_To_End Fifo_Names Programs Progress
begin

text \<open>
  A verification library for a TCP/IP stack over FIFOs.

  \<^bold>\<open>The program.\<close>  Every host is a process, the network manager (src/network_manager).  A client process uses
  the library of src/network.c: it binds, listens, connects, accepts, sends, receives and closes by writing
  texts into FIFOs of the manager and waiting for answers in FIFOs of its own.  Managers exchange textual IP
  packets that carry textual TCP segments; a manager reads them from one packet FIFO that every other
  manager opens for writing.  In each round of its loop (\<open>managerLoop\<close>) a manager handles at most ten packets,
  at most one bind request and at most one connect request, and then visits every socket of its table:
  listen requests, end requests, resending the send window, the messages that drive the state of the
  connection, and taking bytes of the user into the send window.

  \<^bold>\<open>How the model corresponds to the code.\<close>  A C function is a definition of the same name.  The state of a process
  is the record \<open>'s world\<close> (Environment): the state \<open>'s\<close> of the operating system, the heaps of socket
  identifiers and sockets (a pointer is an address, \<open>NULL\<close> is \<open>None\<close>), the fields of \<open>struct NetworkManager\<close>, and
  a flag \<open>ub\<close> that is set as soon as the C program runs into undefined behaviour and goes on in no defined way.
  The system calls and \<open>malloc\<close> are not code of the program: they are the parameter \<open>'s posix\<close>, a record of
  functions over \<open>'s\<close>, so that the theorems hold for every behaviour of the system, failures included.  Two of its
  fields tell whether an \<open>open\<close> waits for ever for the other end of a FIFO and whether a \<open>read\<close> waits for ever for a byte
  (\<open>px_open_waits\<close>, \<open>px_read_waits\<close>); they are asked where the library of the clients opens FIFOs that nobody else may
  have open and reads from them.  The blocking calls of the manager itself, which it makes once it has found the client at
  another FIFO, are taken to return.  A function that can block for ever is an option, \<open>None\<close> when it does not return.  A C \<open>int\<close> of the protocol is a \<open>32 word\<close>
  read as signed; character arrays are lists of cells, so that padding, truncation and missing ends show.

  \<^bold>\<open>Theories that model code.\<close>
  \<^item> Prelude: C types, strings in arrays, lemma collections.  Contracts: the locales \<open>data_refinement\<close>,
    \<open>codec\<close>, \<open>breakable_system\<close> (steps that keep an invariant, but for some that may break it) with
    \<open>invariant_system\<close> (none breaks it) and \<open>program_system\<close> (a program that runs in such steps).
  \<^item> Functions (src/Functions.c); Clib_Format (\<open>sprintf\<close> and \<open>sscanf\<close> as far as they are used); Array_Queue
    (src/array_queue.c and .h); Socket_Types (src/util_types.h, constants of src/socket_utils.h);
    Hashmap (src/Hashmap.c); Ip (src/ip.c); Tcp (src/tcp.c).
  \<^item> Fifo_Utils (src/fifo_utils.c and the functions on identifiers of src/socket_utils.c); Socket_Utils (the
    rest of src/socket_utils.c); Packet_Handlers (src/packet_handlers.c and \<open>notify_connect_client\<close>,
    \<open>notify_accept_client\<close>).
  \<^item> src/network_manager/network_manager.c: Manager_Packets (packets in and out, removal of sockets),
    Manager_Requests (bind, listen, connect, close), Manager_Timers (resending, status messages, bytes of the
    user), Network_Manager (creation, rounds, termination).
  \<^item> Client_Api (src/network.c, src/network.h); Programs (src/network_manager/manager_main.c,
    src/client_main.c, src/server_main.c, src/queue_main.c).

  \<^bold>\<open>Theories about it.\<close>
  \<^item> Array_Queue and Hashmap end with contracts: a bounded first-in-first-out buffer (\<open>bounded_fifo\<close>, interpreted
    as \<open>aq\<close>) and a registry of at most a hundred sockets by endpoint (\<open>socket_registry\<close>, \<open>hr\<close>), both refinements of
    an abstract data type over every sequence of requests.
  \<^item> Clib_Format, Tcp, Ip, Fifo_Names: printers and parsers.  Numbers and requests are read back by
    the program that reads them (\<open>number\<close>, \<open>bind_text\<close>, \<open>connect_text\<close> interpret \<open>codec\<close>), and so are segments whose
    fields fit their columns and whose data does not begin with a digit, but no others; the names of FIFOs are
    equal exactly when kinds and endpoints are, and every name and request fits its array.
  \<^item> Read_Loops: the read loops change nothing but the system (\<open>read_relation\<close>, interpreted as \<open>same\<close> and
    \<open>silent\<close>), return a message that is there however the system cuts it up, and lose half a message.
  \<^item> Manager_Invariant: \<open>mgr_inv\<close> (the heap, every object and the table are in order), the map \<open>mgr_map\<close> from
    endpoints to sockets, and the vocabulary in which operations are described: \<open>keeps\<close> (invariant and map
    stay), \<open>only_socket\<close> (one socket changes, as a relation says), \<open>quiet\<close> (no registered socket notices).
    Connection_States, Timer_Steps, Request_Steps, Bind_Steps, Connect_Steps, Close_Steps and Packet_Steps describe
    every operation of the manager in it, in terms of \<open>touches\<close>, \<open>adds\<close>, \<open>removes\<close> and \<open>rekeys\<close> where the table changes.
  \<^item> Manager_Steps: the operations of the manager as a relation \<open>mgr_op\<close>, and its steps \<open>mgr_step\<close>, the operations on
    registered sockets, all of them.  The steps follow the state graph and keep this invariant, but for one
    (\<open>breaks_order\<close>): closing a connecting socket whose port another has bound, after which two sockets have one
    endpoint.  \<open>mg\<close> interprets \<open>program_system\<close>; the loops of the code are runs of steps, up to a step that breaks the
    order, if there is one, and runs of operations from there on.
  \<^item> Handshake: which segments establish a connection and what the clients are told.
  \<^item> Delivery, Wire, End_To_End: a receiver hands over a prefix of what is sent; a segment written by one manager
    is the segment the other handles; what one sends again reaches the user of the other.
  \<^item> Sending: where the bytes go that a manager takes from its user; the log of bytes read and the log of bytes
    written as observations of the system (\<open>observation\<close>, \<open>input_observation\<close>, interpreted as \<open>written\<close> and \<open>intake\<close>).
    Conversation: both ends of a connection with a network that loses, repeats and reorders segments, as a
    transition system \<open>conv_step\<close> (\<open>conv\<close> interprets \<open>invariant_system\<close>), with the contract of a pair of streams.  Its
    segments arrive as they were sent or not at all.  Progress: from every state of a conversation every byte can
    still arrive and be acknowledged, in steps \<open>wired_step\<close> in which segments go as texts through
    \<open>handle_incoming_ip_packet\<close>, for users that write no NUL and no digit.
  \<^item> Client_Protocol, Client_Steps: what client and manager promise each other, and a client process as a
    transition system \<open>client_step\<close> (\<open>cl\<close>).

  \<^bold>\<open>Assumptions about the system\<close> are named and used only where a theorem needs them.  \<open>fifo_laws\<close>,
  \<open>only_writes_send\<close>, \<open>reads_write_nothing\<close>: only a successful \<open>write\<close> adds to what has been written to a FIFO, the
  bytes it reports.  \<open>read_laws\<close>, \<open>memory_apart\<close>: a \<open>read\<close> takes some of the waiting bytes from the front.
  \<open>intake_laws\<close>: a \<open>read\<close> returns at most what was asked for, and only \<open>read\<close> adds to what has been read.
  \<open>name_laws\<close>: only \<open>mkfifo\<close> and \<open>unlink\<close> change which FIFOs exist.  \<open>resourceful\<close>, \<open>memory_lasts\<close>, \<open>fifos_open\<close>,
  \<open>reader_ready\<close>: memory is there, FIFOs open and take every byte; needed where a theorem says that something does
  happen; \<open>served\<close> is all of this for one end of a connection, with time that passes.
  \<open>clock_runs\<close>, \<open>silent\<close>: the clock goes on, every read returns at once, and nobody answers, for the waits that time
  out; \<open>opens_wait\<close>: whether the blocking calls of \<open>open\<close> find the other end of the FIFO, without which the library of
  the clients hangs before it looks at the clock.  Sim_Os,
  Cooperative_Os and Watched_Os hold concrete systems that satisfy them, on which the witnesses run.

  \<^bold>\<open>Bounds.\<close>  The loops over packets (10 in a round), over bytes of the user (128) and over attempts carry the bound of
  the code as their recursion.  Loops that the code does not bound are partial functions without fuel, and where
  a loop ends this is proved.  Theorems on delivery assume messages shorter than half the sequence space,
  because the code compares numbers as signed integers; Sending shows what goes wrong beyond.

  \<^bold>\<open>Not modelled.\<close>  src/main.c, a test harness for another version of the table and the queue: it uses fields that
  are commented out and does not compile against this code.  Functions that only free memory or print
  (\<open>QueueDestroy\<close>, \<open>AddressDestroy\<close>, \<open>destroy_ip_packet\<close>, \<open>destroy_tcp_packet\<close>, \<open>print_tcp_packet\<close>), the mocks
  \<open>handle_out_requests_fifo\<close> and \<open>send_string\<close>, which return 0 and are never called, and messages for the terminal.
  That blocks are freed exactly once is not tracked, except for identifiers and sockets, and where the code frees
  or dereferences wrongly, which sets \<open>ub\<close>.  Nothing else of the program is left.
\<close>

end
